(* ===== verification/Prelude.thy ===== *)
theory Prelude
  imports Complex_Main "HOL-Library.Word"
begin

text \<open>
  Shared vocabulary of the development: the machine integers of the C++ sources, the lemma
  collections the component theories extend, and generic facts on lists, words and integer
  powers that several components use.

  \<^item> \<open>u64\<close> is \<^verbatim>\<open>std::uint64_t\<close> (and \<^verbatim>\<open>std::size_t\<close> where its wrap-around matters);
    subtraction and addition wrap, comparison is unsigned.
  \<^item> \<open>addr\<close> names the objects the program reaches through pointers.
\<close>

type_synonym u64 = "64 word"
type_synonym addr = nat

named_theorems float_defs \<open>definitions of the floating-point operations, for evaluation\<close>
named_theorems stream_defs \<open>definitions of the output stream operations, for evaluation\<close>
named_theorems frame_rules \<open>which parts of the state an operation leaves alone\<close>

subsection \<open>Lists\<close>

definition takeLast :: "nat \<Rightarrow> 'a list \<Rightarrow> 'a list" where
  "takeLast n xs = drop (length xs - n) xs"

lemma takeLast_Nil [simp]: "takeLast n [] = []"
  by (simp add: takeLast_def)

lemma takeLast_0 [simp]: "takeLast 0 xs = []"
  by (simp add: takeLast_def)

lemma length_takeLast [simp]: "length (takeLast n xs) = min n (length xs)"
  by (simp add: takeLast_def min_def)

lemma takeLast_all [simp]: "length xs \<le> n \<Longrightarrow> takeLast n xs = xs"
  by (simp add: takeLast_def)

lemma set_takeLast: "set (takeLast n xs) \<subseteq> set xs"
  by (simp add: takeLast_def set_drop_subset)

lemma takeLast_append_takeLast:
  "takeLast n (takeLast n xs @ ys) = takeLast n (xs @ ys)"
proof (cases "length xs \<le> n")
  case False
  then have "length xs + length ys - n = (length xs - n) + length ys" by simp
  then show ?thesis
    using False by (cases "length ys \<le> n") (auto simp: takeLast_def add.commute)
qed simp

subsection \<open>Integer powers of two\<close>

lemma pow2_split: "(2::real) ^ nat e = 2 powi e * 2 ^ nat (- e)"
  by (cases "0 \<le> e") (auto simp: power_int_def field_simps)

lemma powi_pos: "0 < (2::real) powi e"
  by simp

lemma powi_not_neg [simp]: "\<not> (2::real) powi e < 0" "\<not> (2::real) powi e \<le> 0"
  using powi_pos [of e] by linarith+

lemma powi_mono: "e \<le> g \<Longrightarrow> (2::real) powi e \<le> 2 powi g"
  by (rule power_int_increasing) auto

lemma powi_add: "(2::real) powi (e + g) = 2 powi e * 2 powi g"
  by (simp add: power_int_add)

lemma powi_nat_diff: "q \<le> e \<Longrightarrow> (2::real) ^ nat (e - q) * 2 powi q = 2 powi e"
proof -
  assume "q \<le> e"
  then have "(2::real) ^ nat (e - q) = 2 powi (e - q)"
    by (simp add: power_int_def)
  then show ?thesis
    by (metis diff_add_cancel powi_add)
qed

end
