(* ===== verification/F64.thy ===== *)
theory F64
  imports Prelude
begin

text \<open>
  The C++ type \<^verbatim>\<open>double\<close>: IEEE 754 binary64 with round-to-nearest-even, as executable
  functions on a datatype.  \<open>Fin s m e\<close> is the finite number \<open>(-1)\<^sup>s * m * 2 powi e\<close>, so the
  two zeros are \<open>Fin False 0 e\<close> and \<open>Fin True 0 e\<close>.  Every operation first forms the exact
  result as a fraction of naturals and then rounds it once (\<open>f64_of_frac\<close>), which is how the
  standard defines the operations.  The sign and the payload of a NaN are not modelled.  The theory also
  holds the parts of \<^verbatim>\<open>std\<close> the program applies to doubles: \<^verbatim>\<open>std::abs\<close>, \<^verbatim>\<open>std::min\<close>, \<^verbatim>\<open>std::max\<close>,
  \<^verbatim>\<open>std::sqrt\<close>, \<^verbatim>\<open>std::accumulate\<close>, and the conversions from and to 64-bit integers.
\<close>

datatype f64 = NaN | Inf bool | Fin bool nat int

subsection \<open>Rounding a fraction\<close>

fun bits :: "nat \<Rightarrow> nat" where
  "bits n = (if n = 0 then 0 else Suc (bits (n div 2)))"

declare bits.simps [simp del]

lemma bits_numeral [simp]:
  "bits 0 = 0" "bits (Suc 0) = 1" "bits 1 = 1" "bits (numeral Num.One) = 1"
  "bits (numeral (Num.Bit0 k)) = Suc (bits (numeral k))"
  "bits (numeral (Num.Bit1 k)) = Suc (bits (numeral k))"
proof -
  have d: "(numeral (Num.Bit0 k) :: nat) div 2 = numeral k"
    "(numeral (Num.Bit1 k) :: nat) div 2 = numeral k" by simp_all
  show "bits (numeral (Num.Bit0 k)) = Suc (bits (numeral k))"
    by (subst bits.simps) (simp only: d, simp)
  show "bits (numeral (Num.Bit1 k)) = Suc (bits (numeral k))"
    by (subst bits.simps) (simp only: d, simp)
qed (subst bits.simps, simp add: bits.simps [of 0])+

definition scale :: "nat \<Rightarrow> int \<Rightarrow> nat" where
  "scale n e = n * 2 ^ nat e"

definition lg_frac :: "nat \<Rightarrow> nat \<Rightarrow> int" where
  "lg_frac n d =
     (let k = int (bits n) - int (bits d)
      in if scale d k \<le> scale n (- k) then k else k - 1)"

definition round_half_even :: "nat \<Rightarrow> nat \<Rightarrow> nat" where
  "round_half_even n d =
     (let q = n div d; r = n mod d
      in if 2 * r < d \<or> 2 * r = d \<and> even q then q else Suc q)"

definition f64_pack :: "bool \<Rightarrow> nat \<Rightarrow> int \<Rightarrow> f64" where
  "f64_pack s m e =
     (if m = 2 ^ 53 then (if 970 < e then Inf s else Fin s (2 ^ 52) (e + 1))
      else if 971 < e then Inf s else Fin s m e)"

definition f64_zero :: "bool \<Rightarrow> f64" where
  "f64_zero s = Fin s 0 (- 1074)"

definition f64_of_frac :: "bool \<Rightarrow> nat \<Rightarrow> nat \<Rightarrow> f64" where
  "f64_of_frac s n d =
     (if n = 0 then f64_zero s
      else let e = max (lg_frac n d - 52) (- 1074)
           in f64_pack s (round_half_even (scale n (- e)) (scale d e)) e)"

definition f64_of_scaled :: "bool \<Rightarrow> nat \<Rightarrow> int \<Rightarrow> f64" where
  "f64_of_scaled s n e = f64_of_frac s (scale n e) (scale 1 (- e))"

subsection \<open>Arithmetic\<close>

definition signed_mant :: "bool \<Rightarrow> nat \<Rightarrow> int" where
  "signed_mant s m = (if s then - int m else int m)"

fun fneg :: "f64 \<Rightarrow> f64" where
  "fneg NaN = NaN"
| "fneg (Inf s) = Inf (\<not> s)"
| "fneg (Fin s m e) = Fin (\<not> s) m e"

fun fabs :: "f64 \<Rightarrow> f64" where
  "fabs NaN = NaN"
| "fabs (Inf s) = Inf False"
| "fabs (Fin s m e) = Fin False m e"

fun fadd :: "f64 \<Rightarrow> f64 \<Rightarrow> f64" where
  "fadd (Fin s m e) (Fin t k g) =
     (let q = min e g;
          c = signed_mant s (m * 2 ^ nat (e - q)) + signed_mant t (k * 2 ^ nat (g - q))
      in if c = 0 then f64_zero (s \<and> t)
         else f64_of_scaled (c < 0) (nat \<bar>c\<bar>) q)"
| "fadd (Inf s) (Inf t) = (if s = t then Inf s else NaN)"
| "fadd (Inf s) (Fin t k g) = Inf s"
| "fadd (Fin s m e) (Inf t) = Inf t"
| "fadd NaN y = NaN"
| "fadd x NaN = NaN"

definition fsub :: "f64 \<Rightarrow> f64 \<Rightarrow> f64" where
  "fsub x y = fadd x (fneg y)"

fun fmul :: "f64 \<Rightarrow> f64 \<Rightarrow> f64" where
  "fmul (Fin s m e) (Fin t k g) = f64_of_scaled (s \<noteq> t) (m * k) (e + g)"
| "fmul (Inf s) (Inf t) = Inf (s \<noteq> t)"
| "fmul (Inf s) (Fin t k g) = (if k = 0 then NaN else Inf (s \<noteq> t))"
| "fmul (Fin s m e) (Inf t) = (if m = 0 then NaN else Inf (s \<noteq> t))"
| "fmul NaN y = NaN"
| "fmul x NaN = NaN"

fun fdiv :: "f64 \<Rightarrow> f64 \<Rightarrow> f64" where
  "fdiv (Fin s m e) (Fin t k g) =
     (if k = 0 then (if m = 0 then NaN else Inf (s \<noteq> t))
      else f64_of_frac (s \<noteq> t) (scale m (e - g)) (scale k (g - e)))"
| "fdiv (Inf s) (Inf t) = NaN"
| "fdiv (Inf s) (Fin t k g) = Inf (s \<noteq> t)"
| "fdiv (Fin s m e) (Inf t) = f64_zero (s \<noteq> t)"
| "fdiv NaN y = NaN"
| "fdiv x NaN = NaN"

fun isqrt :: "nat \<Rightarrow> nat" where
  "isqrt n =
     (if n = 0 then 0
      else let r = 2 * isqrt (n div 4) in if (r + 1) * (r + 1) \<le> n then r + 1 else r)"

declare isqrt.simps [simp del]

lemma isqrt_numeral [simp]:
  "isqrt 0 = 0" "isqrt (Suc 0) = 1" "isqrt 1 = 1"
  "isqrt (numeral k) =
     (let r = 2 * isqrt (numeral k div 4) in if (r + 1) * (r + 1) \<le> numeral k then r + 1 else r)"
  by (subst isqrt.simps, simp add: isqrt.simps [of 0])+

text \<open>
  \<open>fsqrt\<close> takes an integer root of the significand scaled to at least 110 bits, and hands the
  rounding a last bit that tells whether the root was exact, so that it rounds the real root.
\<close>

fun fsqrt :: "f64 \<Rightarrow> f64" where
  "fsqrt NaN = NaN"
| "fsqrt (Inf s) = (if s then NaN else Inf False)"
| "fsqrt (Fin s m e) =
     (if m = 0 then Fin s m e
      else if s then NaN
      else let q = (e - 110) div 2;
               n = m * 2 ^ nat (e - 2 * q);
               r = isqrt n
           in f64_of_scaled False (2 * r + (if r * r = n then 0 else 1)) (q - 1))"

subsection \<open>Comparison\<close>

fun flt :: "f64 \<Rightarrow> f64 \<Rightarrow> bool" where
  "flt (Fin s m e) (Fin t k g) =
     (let q = min e g
      in signed_mant s (m * 2 ^ nat (e - q)) < signed_mant t (k * 2 ^ nat (g - q)))"
| "flt (Inf s) (Inf t) = (s \<and> \<not> t)"
| "flt (Inf s) (Fin t k g) = s"
| "flt (Fin s m e) (Inf t) = (\<not> t)"
| "flt NaN y = False"
| "flt x NaN = False"

fun feq :: "f64 \<Rightarrow> f64 \<Rightarrow> bool" where
  "feq (Fin s m e) (Fin t k g) =
     (let q = min e g
      in signed_mant s (m * 2 ^ nat (e - q)) = signed_mant t (k * 2 ^ nat (g - q)))"
| "feq (Inf s) (Inf t) = (s = t)"
| "feq (Inf s) (Fin t k g) = False"
| "feq (Fin s m e) (Inf t) = False"
| "feq NaN y = False"
| "feq x NaN = False"

definition fle :: "f64 \<Rightarrow> f64 \<Rightarrow> bool" where
  "fle x y \<longleftrightarrow> flt x y \<or> feq x y"

definition fmin :: "f64 \<Rightarrow> f64 \<Rightarrow> f64" where
  "fmin x y = (if flt y x then y else x)"

definition fmax :: "f64 \<Rightarrow> f64 \<Rightarrow> f64" where
  "fmax x y = (if flt x y then y else x)"

definition is_nan :: "f64 \<Rightarrow> bool" where
  "is_nan x \<longleftrightarrow> x = NaN"

fun is_finite :: "f64 \<Rightarrow> bool" where
  "is_finite (Fin s m e) = True"
| "is_finite _ = False"

subsection \<open>Constants and conversions\<close>

definition f64_of_nat :: "nat \<Rightarrow> f64" where
  "f64_of_nat n = f64_of_frac False n 1"

definition f64_of_int :: "int \<Rightarrow> f64" where
  "f64_of_int i = f64_of_frac (i < 0) (nat \<bar>i\<bar>) 1"

text \<open>The literal \<open>n / 10 ^ k\<close>, as the compiler rounds it.\<close>

definition f64_dec :: "nat \<Rightarrow> nat \<Rightarrow> f64" where
  "f64_dec n k = f64_of_frac False n (10 ^ k)"

definition f64_of_u64 :: "u64 \<Rightarrow> f64" where
  "f64_of_u64 w = f64_of_nat (unat w)"

text \<open>
  Conversion to an integer truncates towards zero.  Outside the range of the target, and for
  infinities and NaN, the C++ standard leaves the behaviour undefined: \<open>None\<close>.
\<close>

fun trunc_f64 :: "f64 \<Rightarrow> int option" where
  "trunc_f64 (Fin s m e) = Some (signed_mant s (scale m e div scale 1 (- e)))"
| "trunc_f64 _ = None"

definition u64_of_f64 :: "f64 \<Rightarrow> u64 option" where
  "u64_of_f64 x =
     (case trunc_f64 x of
        Some i \<Rightarrow> if 0 \<le> i \<and> i < 2 ^ 64 then Some (word_of_int i) else None
      | None \<Rightarrow> None)"

text \<open>\<^verbatim>\<open>std::accumulate(first, last, 0.0)\<close>: left to right from zero.\<close>

definition accumulate :: "f64 list \<Rightarrow> f64" where
  "accumulate xs = foldl fadd (f64_zero False) xs"

text \<open>The representable finite numbers, in the canonical form every operation returns.\<close>

fun f64_ok :: "f64 \<Rightarrow> bool" where
  "f64_ok NaN = True"
| "f64_ok (Inf s) = True"
| "f64_ok (Fin s m e) =
     (m < 2 ^ 53 \<and> - 1074 \<le> e \<and> e \<le> 971 \<and> (e = - 1074 \<or> 2 ^ 52 \<le> m))"

lemmas f64_eval =
  f64_of_frac_def f64_of_scaled_def f64_pack_def f64_zero_def lg_frac_def scale_def
  round_half_even_def signed_mant_def fsub_def fle_def fmin_def fmax_def
  f64_of_nat_def f64_of_int_def f64_dec_def f64_of_u64_def u64_of_f64_def accumulate_def

text \<open>The sum of finite numbers with its parts computed first, for evaluation in long chains.\<close>

definition sum_at :: "bool \<Rightarrow> int \<Rightarrow> int \<Rightarrow> f64" where
  "sum_at z q c = (if c = 0 then f64_zero z else f64_of_scaled (c < 0) (nat \<bar>c\<bar>) q)"

lemma fadd_Fin:
  "fadd (Fin s m e) (Fin t k g) =
     sum_at (s \<and> t) (min e g)
       (signed_mant s (m * 2 ^ nat (e - min e g)) + signed_mant t (k * 2 ^ nat (g - min e g)))"
  by (simp add: sum_at_def Let_def)

end
