(* ===== verification/F64_Real.thy ===== *)
theory F64_Real
  imports F64
begin

text \<open>
  What the double operations of theory F64 compute, over the reals.  \<open>rnd\<close> is the rounding
  function of binary64 without an upper exponent bound; it is monotone, exact on representable
  values and has relative error at most \<open>2 powi (- 53)\<close> in the normal range.  The main facts:
  every operation returns \<open>rnd\<close> of the exact result unless that overflows
  (\<open>fval_of_frac\<close>, \<open>fval_fadd\<close>, \<open>fval_fmul\<close>, \<open>fval_fdiv\<close>), and the comparisons are
  those of the values (\<open>flt_iff\<close>, \<open>fle_iff\<close>).  The locale \<open>rounding\<close> states the interface
  the error-free arguments need; \<open>ieee\<close> is its interpretation by \<open>rnd\<close>.
\<close>

subsection \<open>The size of a natural number\<close>

lemma bits_upper: "n < 2 ^ bits n"
proof (induction n rule: bits.induct)
  case (1 n)
  show ?case
  proof (cases "n = 0")
    case True
    then show ?thesis by simp
  next
    case False
    with 1 have "n div 2 < 2 ^ bits (n div 2)" by simp
    then have "n < 2 * 2 ^ bits (n div 2)" by linarith
    with False show ?thesis by (subst bits.simps) simp
  qed
qed

lemma bits_lower: "0 < n \<Longrightarrow> 2 ^ bits n \<le> 2 * n"
proof (induction n rule: bits.induct)
  case (1 n)
  show ?case
  proof (cases "n div 2 = 0")
    case True
    with 1 have "n = 1" by linarith
    then show ?thesis by simp
  next
    case False
    with 1 have "2 ^ bits (n div 2) \<le> 2 * (n div 2)" by simp
    with 1 show ?thesis by (subst bits.simps) auto
  qed
qed

lemma real_scale: "real (scale n e) = real n * 2 powi e * 2 ^ nat (- e)"
  using pow2_split [of e] by (simp add: scale_def)

lemma scale_pos [simp]: "0 < scale n e \<longleftrightarrow> 0 < n" "scale n e = 0 \<longleftrightarrow> n = 0"
  by (simp_all add: scale_def)

lemma scale_div: "real (scale n e) / real (scale d (- e)) = real n / real d * 2 powi e"
  by (cases "d = 0") (simp_all add: real_scale [of n e] scale_def [of d] field_simps)

lemma scale_le_iff:
  assumes "0 < n" "0 < d"
  shows "scale d k \<le> scale n (- k) \<longleftrightarrow> 2 powi k \<le> real n / real d"
proof -
  have "scale d k \<le> scale n (- k) \<longleftrightarrow> real (scale d k) \<le> real (scale n (- k))" by simp
  also have "\<dots> \<longleftrightarrow> real d * 2 powi k \<le> real n"
    by (simp only: real_scale [of d] scale_def [of n] of_nat_mult of_nat_power of_nat_numeral)
       (simp add: mult.assoc [symmetric])
  finally show ?thesis using assms by (simp add: field_simps)
qed

lemma bits_frac:
  assumes "0 < n" "0 < d"
  defines "k \<equiv> int (bits n) - int (bits d)"
  shows "2 powi (k - 1) < real n / real d" "real n / real d < 2 powi (k + 1)"
proof -
  have n: "2 ^ bits n \<le> 2 * real n" "real n < 2 ^ bits n"
    using bits_lower [OF assms(1)] bits_upper [of n]
    by (metis of_nat_le_iff of_nat_mult of_nat_numeral of_nat_power)
       (metis bits_upper of_nat_less_iff of_nat_numeral of_nat_power)
  have d: "2 ^ bits d \<le> 2 * real d" "real d < 2 ^ bits d"
    using bits_lower [OF assms(2)] bits_upper [of d]
    by (metis of_nat_le_iff of_nat_mult of_nat_numeral of_nat_power)
       (metis bits_upper of_nat_less_iff of_nat_numeral of_nat_power)
  have pk: "2 powi k = (2::real) ^ bits n / 2 ^ bits d"
    by (simp add: k_def power_int_diff)
  have "2 powi (k - 1) = (2 ^ bits n / 2) / (2::real) ^ bits d"
    by (simp add: power_int_diff pk)
  also have "\<dots> \<le> real n / 2 ^ bits d"
    using n by (intro divide_right_mono) auto
  also have "\<dots> < real n / real d"
    using d assms by (intro divide_strict_left_mono) auto
  finally show "2 powi (k - 1) < real n / real d" .
  have "real n / real d < 2 ^ bits n / real d"
    using n assms by (intro divide_strict_right_mono) auto
  also have "\<dots> \<le> 2 ^ bits n / (2 ^ bits d / 2)"
    using d assms by (intro divide_left_mono) auto
  also have "\<dots> = 2 powi (k + 1)"
    by (simp add: powi_add pk)
  finally show "real n / real d < 2 powi (k + 1)" .
qed

lemma lg_frac_bounds:
  assumes "0 < n" "0 < d"
  shows "2 powi lg_frac n d \<le> real n / real d" "real n / real d < 2 powi (lg_frac n d + 1)"
  using bits_frac [OF assms] scale_le_iff [OF assms, of "int (bits n) - int (bits d)"]
  by (auto simp: lg_frac_def Let_def)

subsection \<open>Rounding a real to an integer\<close>

definition rint :: "real \<Rightarrow> int" where
  "rint x = (let f = \<lfloor>x\<rfloor>
             in if x - of_int f < 1 / 2 \<or> x - of_int f = 1 / 2 \<and> even f then f else f + 1)"

lemma rint_of_int [simp]: "rint (of_int k) = k"
  by (simp add: rint_def)

lemma rint_ge_floor: "\<lfloor>x\<rfloor> \<le> rint x"
  by (simp add: rint_def Let_def)

lemma rint_le_floor: "rint x \<le> \<lfloor>x\<rfloor> + 1"
  by (simp add: rint_def Let_def)

lemma rint_mono:
  assumes "x \<le> y"
  shows "rint x \<le> rint y"
proof (cases "\<lfloor>x\<rfloor> = \<lfloor>y\<rfloor>")
  case True
  with assms show ?thesis by (auto simp: rint_def Let_def)
next
  case False
  with assms have "\<lfloor>x\<rfloor> < \<lfloor>y\<rfloor>" using floor_mono [OF assms] by linarith
  then show ?thesis using rint_le_floor [of x] rint_ge_floor [of y] by linarith
qed

lemma rint_ge: "of_int k \<le> x \<Longrightarrow> k \<le> rint x"
  using rint_mono [of "of_int k" x] by simp

lemma rint_le: "x \<le> of_int k \<Longrightarrow> rint x \<le> k"
  using rint_mono [of x "of_int k"] by simp

lemma rint_error: "\<bar>of_int (rint x) - x\<bar> \<le> 1 / 2"
proof -
  have "of_int \<lfloor>x\<rfloor> \<le> x" "x < of_int \<lfloor>x\<rfloor> + 1" by linarith+
  then show ?thesis by (auto simp: rint_def Let_def abs_le_iff)
qed

lemma round_half_even_rint:
  assumes "0 < d"
  shows "int (round_half_even n d) = rint (real n / real d)"
proof -
  have fl: "\<lfloor>real n / real d\<rfloor> = int (n div d)"
    by (rule floor_divide_of_nat_eq)
  have "real n = real (n div d) * real d + real (n mod d)"
    by (metis div_mult_mod_eq of_nat_add of_nat_mult)
  then have r: "real n / real d - real (n div d) = real (n mod d) / real d"
    using assms by (simp add: field_simps)
  have lt: "real (n mod d) / real d < 1 / 2 \<longleftrightarrow> 2 * (n mod d) < d"
    using assms by (simp add: field_simps) linarith
  have eq: "real (n mod d) / real d = 1 / 2 \<longleftrightarrow> 2 * (n mod d) = d"
    using assms by (simp add: field_simps) linarith
  show ?thesis
    unfolding rint_def fl Let_def round_half_even_def of_int_of_nat_eq r lt eq by simp
qed

subsection \<open>Rounding a real to a double\<close>

definition rexp :: "real \<Rightarrow> int" where
  "rexp x = max (\<lfloor>log 2 x\<rfloor> - 52) (- 1074)"

definition rndp :: "real \<Rightarrow> real" where
  "rndp x = (if x \<le> 0 then 0 else of_int (rint (x / 2 powi rexp x)) * 2 powi rexp x)"

definition rnd :: "real \<Rightarrow> real" where
  "rnd x = (if x < 0 then - rndp (- x) else rndp x)"

lemma floor_log2_eq:
  assumes "2 powi k \<le> x" "x < 2 powi (k + 1)"
  shows "\<lfloor>log 2 x\<rfloor> = k"
proof -
  have "0 < x" using assms powi_pos [of k] by linarith
  have p: "2 powr real_of_int j = 2 powi j" for j
    by (simp add: powr_real_of_int')
  show ?thesis
    using assms \<open>0 < x\<close> floor_log_eq_powr_iff [of x 2 k] p [of k] p [of "k + 1"] by simp
qed

lemma floor_log2_bounds:
  assumes "0 < x"
  shows "2 powi \<lfloor>log 2 x\<rfloor> \<le> x" "x < 2 powi (\<lfloor>log 2 x\<rfloor> + 1)"
proof -
  have p: "2 powr real_of_int j = 2 powi j" for j
    by (simp add: powr_real_of_int')
  show "2 powi \<lfloor>log 2 x\<rfloor> \<le> x" "x < 2 powi (\<lfloor>log 2 x\<rfloor> + 1)"
    using assms floor_log_eq_powr_iff [of x 2 "\<lfloor>log 2 x\<rfloor>"] p [of "\<lfloor>log 2 x\<rfloor>"]
      p [of "\<lfloor>log 2 x\<rfloor> + 1"] by simp_all
qed

lemma rexp_upper:
  assumes "0 < x"
  shows "x < 2 ^ 53 * 2 powi rexp x"
proof -
  have "x < 2 powi (\<lfloor>log 2 x\<rfloor> + 1)" by (rule floor_log2_bounds [OF assms])
  also have "\<dots> \<le> 2 powi (53 + rexp x)" by (rule powi_mono) (simp add: rexp_def)
  finally show ?thesis by (simp add: powi_add)
qed

lemma rexp_lower:
  assumes "0 < x" "- 1074 < rexp x"
  shows "2 ^ 52 * 2 powi rexp x \<le> x"
proof -
  have "rexp x = \<lfloor>log 2 x\<rfloor> - 52" using assms by (simp add: rexp_def max_def split: if_splits)
  then have "2 powi (52 + rexp x) \<le> x" using floor_log2_bounds [OF assms(1)] by simp
  then show ?thesis by (simp add: powi_add)
qed

lemma rexp_mono: "0 < x \<Longrightarrow> x \<le> y \<Longrightarrow> rexp x \<le> rexp y"
  unfolding rexp_def by (intro max.mono diff_mono floor_mono) auto

lemma rexp_ge: "- 1074 \<le> rexp x"
  by (simp add: rexp_def)

lemma rint_scaled_le:
  assumes "0 < x"
  shows "rint (x / 2 powi rexp x) \<le> 2 ^ 53"
  using rexp_upper [OF assms] by (intro rint_le) (simp add: field_simps)

lemma rint_scaled_ge:
  assumes "0 < x" "- 1074 < rexp x"
  shows "2 ^ 52 \<le> rint (x / 2 powi rexp x)"
  using rexp_lower [OF assms] by (intro rint_ge) (simp add: field_simps)

lemma rndp_nonneg: "0 \<le> rndp x"
proof (cases "x \<le> 0")
  case False
  then have "0 \<le> rint (x / 2 powi rexp x)" by (intro rint_ge) simp
  with False show ?thesis by (simp add: rndp_def)
qed (simp add: rndp_def)

lemma rndp_mono:
  assumes "x \<le> y"
  shows "rndp x \<le> rndp y"
proof (cases "x \<le> 0")
  case True
  then show ?thesis using rndp_nonneg [of y] by (simp add: rndp_def)
next
  case False
  then have pos: "0 < x" "0 < y" using assms by auto
  show ?thesis
  proof (cases "rexp x = rexp y")
    case True
    have "x / 2 powi rexp y \<le> y / 2 powi rexp y"
      using assms by (intro divide_right_mono) auto
    from rint_mono [OF this] True pos show ?thesis
      by (simp add: rndp_def)
  next
    case False
    with rexp_mono [OF pos(1) assms] have lt: "rexp x + 1 \<le> rexp y" by simp
    have "rndp x \<le> 2 ^ 53 * 2 powi rexp x"
      using pos rint_scaled_le [OF pos(1)] by (simp add: rndp_def)
    also have "\<dots> = 2 ^ 52 * 2 powi (rexp x + 1)" by (simp add: powi_add)
    also have "\<dots> \<le> 2 ^ 52 * 2 powi rexp y"
      using powi_mono [OF lt] by simp
    also have "\<dots> \<le> rndp y"
      using pos rint_scaled_ge [OF pos(2)] lt rexp_ge [of x] by (simp add: rndp_def)
    finally show ?thesis .
  qed
qed

lemma rnd_mono: "x \<le> y \<Longrightarrow> rnd x \<le> rnd y"
  using rndp_mono [of x y] rndp_mono [of "- y" "- x"] rndp_nonneg [of "- x"] rndp_nonneg [of y]
  by (auto simp: rnd_def)

lemma rnd_minus [simp]: "rnd (- x) = - rnd x"
  by (auto simp: rnd_def rndp_def)

lemma rnd_0 [simp]: "rnd 0 = 0"
  by (simp add: rnd_def rndp_def)

lemma rnd_nonneg: "0 \<le> x \<Longrightarrow> 0 \<le> rnd x"
  using rnd_mono [of 0 x] by simp

lemma rnd_nonpos: "x \<le> 0 \<Longrightarrow> rnd x \<le> 0"
  using rnd_mono [of x 0] by simp

lemma rndp_eq_rnd: "0 \<le> x \<Longrightarrow> rndp x = rnd x"
  by (simp add: rnd_def)

subsection \<open>Representable values\<close>

definition representable :: "real \<Rightarrow> bool" where
  "representable x \<longleftrightarrow> (\<exists>m e. x = of_int m * 2 powi e \<and> \<bar>m\<bar> \<le> 2 ^ 53 \<and> - 1074 \<le> e)"

lemma representable_minus: "representable x \<Longrightarrow> representable (- x)"
proof -
  assume "representable x"
  then obtain m e where "x = of_int m * 2 powi e" "\<bar>m\<bar> \<le> 2 ^ 53" "- 1074 \<le> e"
    by (auto simp: representable_def)
  then have "- x = of_int (- m) * 2 powi e \<and> \<bar>- m\<bar> \<le> 2 ^ 53 \<and> - 1074 \<le> e" by simp
  then show ?thesis unfolding representable_def by blast
qed

lemma rndp_representable:
  assumes x: "x = of_int m * 2 powi e" and m: "0 < m" "m \<le> 2 ^ 53" and e: "- 1074 \<le> e"
  shows "rndp x = x"
proof -
  have pos: "0 < x" using x m by simp
  have "\<exists>k. x = of_int k * 2 powi rexp x"
  proof (cases "rexp x \<le> e")
    case True
    have "x = of_int (m * 2 ^ nat (e - rexp x)) * 2 powi rexp x"
      using powi_nat_diff [OF True] x by (simp add: mult.assoc)
    then show ?thesis by blast
  next
    case False
    then have lo: "2 ^ 52 * 2 powi rexp x \<le> x" using rexp_lower [OF pos] e by simp
    have "2 ^ 52 * 2 powi (e + 1) \<le> (2::real) ^ 52 * 2 powi rexp x"
      using False powi_mono [of "e + 1" "rexp x"] by simp
    have "(2::real) ^ 53 * 2 powi e \<le> of_int m * 2 powi e"
    proof -
      have "(2::real) ^ 53 * 2 powi e = 2 ^ 52 * 2 powi (e + 1)" by (simp add: powi_add)
      also note \<open>\<dots> \<le> 2 ^ 52 * 2 powi rexp x\<close>
      also note lo
      also note x
      finally show ?thesis .
    qed
    then have "(2::real) ^ 53 \<le> of_int m" by (rule mult_right_le_imp_le) simp
    with m have m53: "m = 2 ^ 53"
      by (metis of_int_le_iff of_int_numeral of_int_power order_antisym)
    then have "x = 2 powi (e + 53)" using x by (simp add: powi_add)
    then have "\<lfloor>log 2 x\<rfloor> = e + 53"
      by (intro floor_log2_eq) (auto simp: powi_add)
    then have "rexp x = e + 1" using e by (simp add: rexp_def)
    then have "x = of_int (2 ^ 52) * 2 powi rexp x" using x m53 by (simp add: powi_add)
    then show ?thesis by blast
  qed
  then obtain k where k: "x = of_int k * 2 powi rexp x" by blast
  then have "x / 2 powi rexp x = of_int k"
    by (metis nonzero_mult_div_cancel_right powi_pos less_irrefl)
  then show ?thesis using pos k by (simp add: rndp_def)
qed

lemma rnd_representable: "representable x \<Longrightarrow> rnd x = x"
proof -
  assume "representable x"
  then obtain m e where x: "x = of_int m * 2 powi e" "\<bar>m\<bar> \<le> 2 ^ 53" "- 1074 \<le> e"
    by (auto simp: representable_def)
  consider "m = 0" | "0 < m" | "m < 0" by linarith
  then show ?thesis
  proof cases
    case 1
    with x show ?thesis by simp
  next
    case 2
    then have "rndp x = x" using x by (intro rndp_representable) auto
    moreover have "0 < x" using 2 x by simp
    ultimately show ?thesis by (simp add: rnd_def)
  next
    case 3
    then have "rndp (- x) = - x" using x by (intro rndp_representable [where m = "- m"]) auto
    moreover have "x < 0" using 3 x by (simp add: mult_neg_pos)
    ultimately show ?thesis by (simp add: rnd_def)
  qed
qed

lemma rnd_error:
  assumes "2 powi (- 1022) \<le> \<bar>x\<bar>"
  shows "\<bar>rnd x - x\<bar> \<le> \<bar>x\<bar> * 2 powi (- 53)"
proof -
  have main: "\<bar>rndp y - y\<bar> \<le> y * 2 powi (- 53)" if y: "2 powi (- 1022) \<le> y" for y :: real
  proof -
    have pos: "0 < y" using y powi_pos [of "- 1022"] by linarith
    have "- 1022 \<le> \<lfloor>log 2 y\<rfloor>"
    proof (rule ccontr)
      assume "\<not> ?thesis"
      then have "2 powi (\<lfloor>log 2 y\<rfloor> + 1) \<le> (2::real) powi (- 1022)" by (intro powi_mono) linarith
      with floor_log2_bounds(2) [OF pos] y show False by linarith
    qed
    then have r: "rexp y = \<lfloor>log 2 y\<rfloor> - 52" unfolding rexp_def by linarith
    have "rndp y - y = (of_int (rint (y / 2 powi rexp y)) - y / 2 powi rexp y) * 2 powi rexp y"
      using pos by (simp add: rndp_def field_simps)
    then have "\<bar>rndp y - y\<bar> = \<bar>of_int (rint (y / 2 powi rexp y)) - y / 2 powi rexp y\<bar> * 2 powi rexp y"
      by (simp add: abs_mult)
    also have "\<dots> \<le> 1 / 2 * 2 powi rexp y"
      by (intro mult_right_mono rint_error) simp
    also have "\<dots> = 2 powi \<lfloor>log 2 y\<rfloor> * 2 powi (- 53)"
      by (simp add: r power_int_diff power_int_minus field_simps)
    also have "\<dots> \<le> y * 2 powi (- 53)"
      using floor_log2_bounds(1) [OF pos] by (intro mult_right_mono) auto
    finally show ?thesis .
  qed
  show ?thesis
  proof (cases "x < 0")
    case True
    then show ?thesis using main [of "- x"] assms by (simp add: rnd_def)
  next
    case False
    then show ?thesis using main [of x] assms by (simp add: rnd_def)
  qed
qed

subsection \<open>The value of a double\<close>

fun fval :: "f64 \<Rightarrow> real" where
  "fval (Fin s m e) = (if s then - real m else real m) * 2 powi e"
| "fval _ = 0"

definition f64_limit :: real where
  "f64_limit = 2 powi 1024"

lemma f64_limit_pos: "0 < f64_limit"
  unfolding f64_limit_def by (rule powi_pos)

lemma powi_less_limit_iff: "2 powi (e + 53) < f64_limit \<longleftrightarrow> e \<le> 970"
proof
  show "e \<le> 970" if "2 powi (e + 53) < f64_limit"
  proof (rule ccontr)
    assume "\<not> e \<le> 970"
    then have "f64_limit \<le> 2 powi (e + 53)" unfolding f64_limit_def by (intro powi_mono) linarith
    with that show False by linarith
  qed
  show "2 powi (e + 53) < f64_limit" if "e \<le> 970"
    unfolding f64_limit_def using that by (intro power_int_strict_increasing) auto
qed

lemma limit_split: "f64_limit = 2 ^ 52 * 2 powi 972" "f64_limit = 2 ^ 53 * 2 powi 971"
proof -
  have "(2::real) ^ 52 = 2 powi 52" "(2::real) ^ 53 = 2 powi 53" by simp_all
  then show "f64_limit = 2 ^ 52 * 2 powi 972" "f64_limit = 2 ^ 53 * 2 powi 971"
    unfolding f64_limit_def by (simp_all only: powi_add [symmetric]) simp_all
qed

lemma mant_less_limit_iff:
  assumes "m < 2 ^ 53" "e = - 1074 \<or> 2 ^ 52 \<le> m"
  shows "real m * 2 powi e < f64_limit \<longleftrightarrow> e \<le> 971"
proof
  show "e \<le> 971" if lt: "real m * 2 powi e < f64_limit"
  proof (rule ccontr)
    assume "\<not> e \<le> 971"
    moreover from this assms(2) have "(2::real) ^ 52 \<le> real m"
      by auto
    ultimately have "2 ^ 52 * 2 powi 972 \<le> real m * 2 powi e"
      using powi_mono [of 972 e] by (intro mult_mono) auto
    with lt limit_split(1) show False by linarith
  qed
  show "real m * 2 powi e < f64_limit" if "e \<le> 971"
  proof -
    have "real m < 2 ^ 53" using assms(1) by (metis of_nat_less_iff of_nat_numeral of_nat_power)
    then have "real m * 2 powi e < 2 ^ 53 * 2 powi e" by simp
    also have "\<dots> \<le> 2 ^ 53 * 2 powi 971" using powi_mono [OF that] by simp
    also have "\<dots> = f64_limit" by (rule limit_split(2) [symmetric])
    finally show ?thesis .
  qed
qed

abbreviation sgnr :: "bool \<Rightarrow> real" where
  "sgnr s \<equiv> (if s then - 1 else 1)"

lemma signed_mant_real: "real_of_int (signed_mant s m) = sgnr s * real m"
  by (simp add: signed_mant_def)

lemma signed_mant_scaled:
  "q \<le> e \<Longrightarrow> real_of_int (signed_mant s (m * 2 ^ nat (e - q))) * 2 powi q = fval (Fin s m e)"
  using powi_nat_diff [of q e] by (simp add: signed_mant_def)

lemma f64_ok_representable: "f64_ok x \<Longrightarrow> representable (fval x)"
proof (cases x)
  case (Fin s m e)
  assume "f64_ok x"
  with Fin have "m < 2 ^ 53" "- 1074 \<le> e" by auto
  with Fin have "fval x = of_int (signed_mant s m) * 2 powi e \<and> \<bar>signed_mant s m\<bar> \<le> 2 ^ 53
      \<and> - 1074 \<le> e"
    by (simp add: signed_mant_def)
  then show ?thesis unfolding representable_def by blast
qed (auto simp: representable_def intro: exI [of _ 0])

lemma fval_of_frac:
  assumes "0 < d"
  shows "(if rnd (real n / real d) < f64_limit
          then is_finite (f64_of_frac s n d)
            \<and> fval (f64_of_frac s n d) = sgnr s * rnd (real n / real d)
          else f64_of_frac s n d = Inf s)
         \<and> f64_ok (f64_of_frac s n d)"
proof (cases "n = 0")
  case True
  then show ?thesis by (simp add: f64_of_frac_def f64_zero_def f64_limit_pos)
next
  case False
  let ?x = "real n / real d"
  have pos: "0 < ?x" using assms False by simp
  have lg: "\<lfloor>log 2 ?x\<rfloor> = lg_frac n d"
    using lg_frac_bounds [of n d] assms False by (intro floor_log2_eq) auto
  define e where "e = rexp ?x"
  have e: "e = max (lg_frac n d - 52) (- 1074)" by (simp add: e_def rexp_def lg)
  define m where "m = round_half_even (scale n (- e)) (scale d e)"
  have "real (scale n (- e)) / real (scale d e) = ?x / 2 powi e"
    using scale_div [of n "- e" d] by (simp add: power_int_minus field_simps)
  then have m: "int m = rint (?x / 2 powi e)"
    using round_half_even_rint [of "scale d e" "scale n (- e)"] assms by (simp add: m_def)
  have r: "rnd ?x = real m * 2 powi e"
  proof -
    have "rndp ?x = of_int (int m) * 2 powi e" using pos unfolding m by (simp add: rndp_def e_def)
    then show ?thesis using rndp_eq_rnd [of ?x] pos by simp
  qed
  have m_le: "m \<le> 2 ^ 53"
    using rint_scaled_le [OF pos, folded e_def] unfolding m [symmetric] by simp
  have m_ge: "e = - 1074 \<or> 2 ^ 52 \<le> m"
    using rint_scaled_ge [OF pos, folded e_def] rexp_ge [of ?x, folded e_def]
    unfolding m [symmetric] by (cases "e = - 1074") simp_all
  have e_ge: "- 1074 \<le> e" by (simp add: e_def rexp_ge)
  have unf: "f64_of_frac s n d = f64_pack s m e"
    using False by (simp add: f64_of_frac_def e [symmetric] m_def)
  show ?thesis
  proof (cases "m = 2 ^ 53")
    case True
    then have v: "rnd ?x = 2 powi (e + 53)" using r by (simp add: powi_add)
    have lim: "rnd ?x < f64_limit \<longleftrightarrow> e \<le> 970" unfolding v by (rule powi_less_limit_iff)
    have p: "f64_pack s m e = (if e \<le> 970 then Fin s (2 ^ 52) (e + 1) else Inf s)"
      using True by (simp add: f64_pack_def)
    show ?thesis
      unfolding unf lim p using e_ge by (simp add: v powi_add)
  next
    case False
    with m_le have lt: "m < 2 ^ 53" by simp
    have lim: "rnd ?x < f64_limit \<longleftrightarrow> e \<le> 971"
      unfolding r by (rule mant_less_limit_iff [OF lt m_ge])
    have p: "f64_pack s m e = (if e \<le> 971 then Fin s m e else Inf s)"
      using False by (simp add: f64_pack_def)
    show ?thesis
      unfolding unf lim p using e_ge lt m_ge by (simp add: r)
  qed
qed

text \<open>\<open>rounds_to x y\<close>: the double \<open>y\<close> is the correctly rounded result for the exact value \<open>x\<close>.\<close>

definition rounds_to :: "real \<Rightarrow> f64 \<Rightarrow> bool" where
  "rounds_to x y \<longleftrightarrow>
     (if \<bar>rnd x\<bar> < f64_limit then is_finite y \<and> fval y = rnd x else y = Inf (x < 0)) \<and> f64_ok y"

lemma rounds_to_finite: "rounds_to x y \<Longrightarrow> is_finite y \<Longrightarrow> fval y = rnd x"
  by (auto simp: rounds_to_def split: if_splits)

lemma rounds_to_ok: "rounds_to x y \<Longrightarrow> f64_ok y"
  by (simp add: rounds_to_def)

lemma rounds_to_zero: "rounds_to 0 (f64_zero s)"
  by (simp add: rounds_to_def f64_zero_def f64_limit_pos)

lemma rounds_to_not_nan: "rounds_to x y \<Longrightarrow> y \<noteq> NaN"
  by (auto simp: rounds_to_def split: if_splits)

lemma of_frac_rounds:
  assumes "0 < d" "s \<Longrightarrow> 0 < n"
  shows "rounds_to (sgnr s * (real n / real d)) (f64_of_frac s n d)"
proof -
  have a: "\<bar>sgnr s * rnd (real n / real d)\<bar> = rnd (real n / real d)"
    using rnd_nonneg [of "real n / real d"] by simp
  have b: "rnd (sgnr s * (real n / real d)) = sgnr s * rnd (real n / real d)" by simp
  have c: "sgnr s * (real n / real d) < 0 \<longleftrightarrow> s" using assms by (cases s) (auto simp: not_less)
  show ?thesis
    using fval_of_frac [OF assms(1), of n s] unfolding rounds_to_def b a c .
qed

lemma of_scaled_rounds:
  assumes "s \<Longrightarrow> 0 < n"
  shows "rounds_to (sgnr s * real n * 2 powi e) (f64_of_scaled s n e)"
proof -
  have "real (scale n e) / real (scale 1 (- e)) = real n * 2 powi e"
    using scale_div [of n e 1] by simp
  then show ?thesis
    using of_frac_rounds [of "scale 1 (- e)" s "scale n e"] assms
    by (simp add: f64_of_scaled_def mult.assoc)
qed

lemma zero_rounds: "x = 0 \<Longrightarrow> rounds_to x (f64_zero s)"
  using rounds_to_zero by simp

lemma f64_of_frac_0: "f64_of_frac s 0 d = f64_zero s"
  by (simp add: f64_of_frac_def)

lemma f64_of_scaled_0: "f64_of_scaled s 0 e = f64_zero s"
  by (simp add: f64_of_scaled_def scale_def f64_of_frac_0)

subsection \<open>Every operation rounds the exact result once\<close>

lemma fval_fneg [simp]: "fval (fneg x) = - fval x" "is_finite (fneg x) = is_finite x"
  by (cases x; simp)+

lemma fval_fabs [simp]: "fval (fabs x) = \<bar>fval x\<bar>" "is_finite (fabs x) = is_finite x"
  by (cases x; simp add: abs_mult)+

lemma fadd_rounds:
  assumes "is_finite x" "is_finite y"
  shows "rounds_to (fval x + fval y) (fadd x y)"
proof -
  obtain s m e where x: "x = Fin s m e" using assms(1) by (cases x) auto
  obtain t k g where y: "y = Fin t k g" using assms(2) by (cases y) auto
  define q where "q = min e g"
  define c where "c = signed_mant s (m * 2 ^ nat (e - q)) + signed_mant t (k * 2 ^ nat (g - q))"
  have v: "fval x + fval y = of_int c * 2 powi q"
    using signed_mant_scaled [of q e s m] signed_mant_scaled [of q g t k]
    by (simp add: x y c_def q_def distrib_right)
  have u: "fadd x y = (if c = 0 then f64_zero (s \<and> t) else f64_of_scaled (c < 0) (nat \<bar>c\<bar>) q)"
    by (simp add: x y Let_def q_def c_def)
  show ?thesis
  proof (cases "c = 0")
    case True
    then show ?thesis using v u zero_rounds by simp
  next
    case False
    have "of_int c * 2 powi q = sgnr (c < 0) * real (nat \<bar>c\<bar>) * 2 powi q" by simp
    with of_scaled_rounds [of "c < 0" "nat \<bar>c\<bar>" q] False show ?thesis
      unfolding v u by simp
  qed
qed

lemma fsub_rounds:
  assumes "is_finite x" "is_finite y"
  shows "rounds_to (fval x - fval y) (fsub x y)"
  using fadd_rounds [of x "fneg y"] assms by (simp add: fsub_def)

lemma fmul_rounds:
  assumes "is_finite x" "is_finite y"
  shows "rounds_to (fval x * fval y) (fmul x y)"
proof -
  obtain s m e where x: "x = Fin s m e" using assms(1) by (cases x) auto
  obtain t k g where y: "y = Fin t k g" using assms(2) by (cases y) auto
  have v: "fval x * fval y = sgnr (s \<noteq> t) * real (m * k) * 2 powi (e + g)"
    by (simp add: x y powi_add)
  show ?thesis
  proof (cases "m * k = 0")
    case True
    then show ?thesis using v zero_rounds by (auto simp: x y f64_of_scaled_0)
  next
    case False
    then show ?thesis using of_scaled_rounds [of "s \<noteq> t" "m * k" "e + g"] v by (simp add: x y)
  qed
qed

lemma fdiv_rounds:
  assumes "is_finite x" "is_finite y" "fval y \<noteq> 0"
  shows "rounds_to (fval x / fval y) (fdiv x y)"
proof -
  obtain s m e where x: "x = Fin s m e" using assms(1) by (cases x) auto
  obtain t k g where y: "y = Fin t k g" using assms(2) by (cases y) auto
  have k: "0 < k" using assms(3) y by (simp split: if_splits)
  have "real (scale m (e - g)) / real (scale k (g - e)) = real m / real k * 2 powi (e - g)"
    using scale_div [of m "e - g" k] by simp
  then have v: "fval x / fval y
      = sgnr (s \<noteq> t) * (real (scale m (e - g)) / real (scale k (g - e)))"
    by (simp add: x y power_int_diff)
  show ?thesis
  proof (cases "m = 0")
    case True
    then have "fdiv x y = f64_zero (s \<noteq> t)"
      using k by (simp add: x y scale_def f64_of_frac_0)
    with True zero_rounds show ?thesis by (simp add: x)
  next
    case False
    then show ?thesis
      using of_frac_rounds [of "scale k (g - e)" "s \<noteq> t" "scale m (e - g)"] v k by (simp add: x y)
  qed
qed

lemma flt_iff:
  assumes "is_finite x" "is_finite y"
  shows "flt x y \<longleftrightarrow> fval x < fval y" "feq x y \<longleftrightarrow> fval x = fval y" "fle x y \<longleftrightarrow> fval x \<le> fval y"
proof -
  obtain s m e where x: "x = Fin s m e" using assms(1) by (cases x) auto
  obtain t k g where y: "y = Fin t k g" using assms(2) by (cases y) auto
  define q where "q = min e g"
  define a b where "a = signed_mant s (m * 2 ^ nat (e - q))" and "b = signed_mant t (k * 2 ^ nat (g - q))"
  have ab: "fval x = of_int a * 2 powi q" "fval y = of_int b * 2 powi q"
    using signed_mant_scaled [of q e s m] signed_mant_scaled [of q g t k]
    by (simp_all add: x y a_def b_def q_def)
  have l: "flt x y \<longleftrightarrow> a < b" and e: "feq x y \<longleftrightarrow> a = b"
    by (simp_all add: x y Let_def q_def a_def b_def)
  show "flt x y \<longleftrightarrow> fval x < fval y" "feq x y \<longleftrightarrow> fval x = fval y"
    unfolding ab l e by simp_all
  then show "fle x y \<longleftrightarrow> fval x \<le> fval y" by (auto simp: fle_def)
qed

lemmas flt_val = flt_iff(1) and feq_val = flt_iff(2) and fle_val = flt_iff(3)

lemma flt_irrefl [simp]: "\<not> flt x x"
  by (cases x) simp_all

lemma flt_NaN [simp]: "\<not> flt x NaN" "\<not> flt NaN x" "\<not> fle x NaN" "\<not> fle NaN x"
  by (cases x; simp add: fle_def)+

lemma fle_Inf [simp]: "fle x (Inf False) \<longleftrightarrow> x \<noteq> NaN" "fle (Inf True) x \<longleftrightarrow> x \<noteq> NaN"
  by (cases x; auto simp: fle_def)+

lemma fle_refl [simp]: "fle x x \<longleftrightarrow> x \<noteq> NaN"
  by (cases x) (auto simp: fle_def)

lemma flt_Inf [simp]: "\<not> flt (Inf False) x" "\<not> flt x (Inf True)"
  by (cases x; simp)+

lemma f64_zero_neq [simp]:
  "f64_zero s \<noteq> NaN" "f64_zero s \<noteq> Inf t" "NaN \<noteq> f64_zero s" "Inf t \<noteq> f64_zero s"
  by (simp_all add: f64_zero_def)

lemma not_flt: "x \<noteq> NaN \<Longrightarrow> y \<noteq> NaN \<Longrightarrow> \<not> flt x y \<longleftrightarrow> fle y x"
  by (cases x; cases y) (auto simp: flt_iff fle_def simp del: flt.simps(1) feq.simps(1))

subsection \<open>The rounding interface\<close>

text \<open>
  What the error analysis of the components needs of a rounding function: it is monotone and
  odd, it keeps the representable values, which are closed under doubling and negation, and two
  distinct representable values are at least the smallest representable distance apart.
\<close>

locale rounding =
  fixes round :: "real \<Rightarrow> real" and repr :: "real \<Rightarrow> bool" and tiny :: real
  assumes round_mono: "x \<le> y \<Longrightarrow> round x \<le> round y"
    and round_odd: "round (- x) = - round x"
    and round_repr: "repr x \<Longrightarrow> round x = x"
    and repr_zero: "repr 0"
    and repr_double: "repr x \<Longrightarrow> repr (2 * x)"
    and tiny_pos: "0 < tiny"
    and repr_tiny: "repr tiny"
    and repr_gap: "repr x \<Longrightarrow> repr y \<Longrightarrow> x < y \<Longrightarrow> tiny \<le> y - x"
begin

lemma round_zero: "round 0 = 0"
  by (rule round_repr [OF repr_zero])

lemma round_ge: "repr a \<Longrightarrow> a \<le> x \<Longrightarrow> a \<le> round x"
  using round_mono [of a x] by (simp add: round_repr)

lemma round_le: "repr a \<Longrightarrow> x \<le> a \<Longrightarrow> round x \<le> a"
  using round_mono [of x a] by (simp add: round_repr)

lemma round_nonneg: "0 \<le> x \<Longrightarrow> 0 \<le> round x"
  by (rule round_ge [OF repr_zero])

lemma round_nonpos: "x \<le> 0 \<Longrightarrow> round x \<le> 0"
  by (rule round_le [OF repr_zero])

lemma diff_pos_iff:
  assumes "repr x" "repr y"
  shows "0 < round (x - y) \<longleftrightarrow> y < x"
proof
  assume "y < x"
  then have "tiny \<le> round (x - y)"
    using assms repr_gap by (intro round_ge repr_tiny) auto
  then show "0 < round (x - y)" using tiny_pos by simp
next
  assume "0 < round (x - y)"
  then show "y < x" using round_nonpos [of "x - y"] by (cases "x \<le> y") auto
qed

lemma diff_neg_iff: "repr x \<Longrightarrow> repr y \<Longrightarrow> round (x - y) < 0 \<longleftrightarrow> x < y"
  using diff_pos_iff [of y x] round_odd [of "x - y"] by simp

lemma diff_zero_iff: "repr x \<Longrightarrow> repr y \<Longrightarrow> round (x - y) = 0 \<longleftrightarrow> x = y"
  using diff_pos_iff [of x y] diff_neg_iff [of x y] by (metis less_irrefl linorder_less_linear)

lemma mean_between:
  assumes a: "repr a" and b: "repr b" and le: "a \<le> b"
  shows "a \<le> round (round (a + b) / 2)" "round (round (a + b) / 2) \<le> b"
proof -
  have "2 * a \<le> round (a + b)" using le by (intro round_ge repr_double a) simp
  then show "a \<le> round (round (a + b) / 2)" by (intro round_ge a) simp
  have "round (a + b) \<le> 2 * b" using le by (intro round_le repr_double b) simp
  then show "round (round (a + b) / 2) \<le> b" by (intro round_le b) simp
qed

end

lemma representable_double:
  assumes "representable x"
  shows "representable (2 * x)"
proof -
  obtain m e where x: "x = of_int m * 2 powi e" "\<bar>m\<bar> \<le> 2 ^ 53" "- 1074 \<le> e"
    using assms by (auto simp: representable_def)
  then have "2 * x = of_int m * 2 powi (e + 1) \<and> \<bar>m\<bar> \<le> 2 ^ 53 \<and> - 1074 \<le> e + 1"
    by (simp add: powi_add)
  then show ?thesis unfolding representable_def by blast
qed

lemma representable_grid: "representable x \<Longrightarrow> \<exists>k. x = of_int k * 2 powi (- 1074)"
proof -
  assume "representable x"
  then obtain m e where x: "x = of_int m * 2 powi e" "- 1074 \<le> e"
    by (auto simp: representable_def)
  have "x = of_int (m * 2 ^ nat (e - - 1074)) * 2 powi (- 1074)"
    using powi_nat_diff [OF x(2)] x(1) by (simp add: mult.assoc)
  then show ?thesis by blast
qed

lemma representable_gap:
  assumes "representable x" "representable y" "x < y"
  shows "2 powi (- 1074) \<le> y - x"
proof -
  define t where "t = (2::real) powi (- 1074)"
  have t: "0 < t" unfolding t_def by (rule powi_pos)
  obtain j k where "x = of_int j * t" "y = of_int k * t"
    using representable_grid assms unfolding t_def by meson
  then have d: "y - x = of_int (k - j) * t" by (simp add: left_diff_distrib)
  have "0 < of_int (k - j) * t" using assms(3) d by simp
  with t have "0 < k - j" by (simp add: zero_less_mult_iff)
  then have "1 * t \<le> of_int (k - j) * t" using t by (intro mult_right_mono) auto
  then show ?thesis using d unfolding t_def by simp
qed

definition f64_tiny :: real where
  "f64_tiny = 2 powi (- 1074)"

interpretation ieee: rounding rnd representable f64_tiny
proof unfold_locales
  show "representable 0"
    unfolding representable_def by (rule exI [of _ 0], rule exI [of _ 0]) simp
  have "2 powi (- 1074) = of_int 1 * (2::real) powi (- 1074) \<and> \<bar>1\<bar> \<le> (2::int) ^ 53
      \<and> - 1074 \<le> (- 1074 :: int)" by simp
  then show "representable f64_tiny" unfolding representable_def f64_tiny_def by blast
  show "0 < f64_tiny" unfolding f64_tiny_def by (rule powi_pos)
  show "f64_tiny \<le> y - x" if "representable x" "representable y" "x < y" for x y
    unfolding f64_tiny_def using that by (rule representable_gap)
qed (simp_all add: rnd_mono rnd_representable representable_double)

subsection \<open>Signs\<close>

abbreviation fzero :: f64 where
  "fzero \<equiv> f64_zero False"

lemma fzero_simps [simp]: "is_finite (f64_zero s)" "fval (f64_zero s) = 0" "f64_ok (f64_zero s)"
  by (simp_all add: f64_zero_def)

lemma fle_zero_iff: "fle fzero x \<longleftrightarrow> x = Inf False \<or> is_finite x \<and> 0 \<le> fval x"
proof (cases x)
  case (Fin s m e)
  then show ?thesis using fle_val [of fzero x] by simp
qed (simp_all add: fle_def f64_zero_def)

lemma fle_zero_iff': "fle x fzero \<longleftrightarrow> x = Inf True \<or> is_finite x \<and> fval x \<le> 0"
proof (cases x)
  case (Fin s m e)
  then show ?thesis using fle_val [of x fzero] by simp
qed (simp_all add: fle_def f64_zero_def)

lemma rounds_to_nonneg: "rounds_to v y \<Longrightarrow> 0 \<le> v \<Longrightarrow> fle fzero y"
  by (auto simp: rounds_to_def fle_zero_iff rnd_nonneg split: if_splits)

lemma rounds_to_nonpos: "rounds_to v y \<Longrightarrow> v \<le> 0 \<Longrightarrow> fle y fzero"
  using f64_limit_pos
  by (cases "v = 0") (auto simp: rounds_to_def fle_zero_iff' rnd_nonpos split: if_splits)

lemma fmul_nonneg:
  assumes "fle fzero x" "fle fzero y" "fmul x y \<noteq> NaN"
  shows "fle fzero (fmul x y)"
proof (cases "is_finite x \<and> is_finite y")
  case True
  then show ?thesis
    using assms rounds_to_nonneg [OF fmul_rounds [of x y]] by (auto simp: fle_zero_iff)
next
  case False
  then show ?thesis using assms
    by (cases x; cases y) (auto simp: fle_zero_iff zero_le_mult_iff split: if_splits)
qed

lemma fdiv_nonneg:
  assumes "fle fzero x" "is_finite y" "0 < fval y"
  shows "fle fzero (fdiv x y)"
proof (cases "is_finite x")
  case True
  then show ?thesis
    using assms rounds_to_nonneg [OF fdiv_rounds [of x y]] by (auto simp: fle_zero_iff)
next
  case False
  then show ?thesis using assms
    by (cases x; cases y) (auto simp: fle_zero_iff zero_less_mult_iff split: if_splits)
qed

text \<open>A finite factor times a non-negative one has the sign of the finite factor.\<close>

lemma fmul_sign:
  assumes a: "is_finite a" and q: "fle fzero q" and z: "fval a = 0 \<Longrightarrow> is_finite q"
  shows "0 \<le> fval a \<Longrightarrow> fle fzero (fmul a q)" "fval a \<le> 0 \<Longrightarrow> fle (fmul a q) fzero"
proof -
  have fin: "rounds_to (fval a * fval q) (fmul a q)" if "is_finite q"
    using fmul_rounds [OF a that] .
  have nn: "0 \<le> fval q" using q by (auto simp: fle_zero_iff)
  have inf: "fmul a q = Inf (fval a < 0)" if "\<not> is_finite q"
  proof -
    have q': "q = Inf False" using that q by (simp add: fle_zero_iff)
    have "fval a \<noteq> 0" using z that by blast
    with a show ?thesis unfolding q'
      by (cases a) (auto simp: zero_less_mult_iff mult_less_0_iff split: if_splits)
  qed
  show "fle fzero (fmul a q)" if "0 \<le> fval a"
    using that fin nn inf rounds_to_nonneg [of "fval a * fval q"] by (cases "is_finite q") auto
  show "fle (fmul a q) fzero" if "fval a \<le> 0"
  proof (cases "is_finite q")
    case True
    then show ?thesis using that fin nn rounds_to_nonpos [of "fval a * fval q"]
      by (simp add: mult_nonpos_nonneg)
  next
    case False
    then show ?thesis using inf z that by force
  qed
qed

text \<open>The difference of two non-negative doubles never overflows and has the exact sign.\<close>

lemma fval_less_limit: "f64_ok x \<Longrightarrow> \<bar>fval x\<bar> < f64_limit"
proof (cases x)
  case (Fin s m e)
  assume "f64_ok x"
  with Fin have "m < 2 ^ 53" "e = - 1074 \<or> 2 ^ 52 \<le> m" "e \<le> 971" by auto
  with mant_less_limit_iff [of m e] Fin show ?thesis by (simp add: abs_mult)
qed (simp_all add: f64_limit_pos)

lemma fsub_nonneg_args:
  assumes "is_finite x" "f64_ok x" "0 \<le> fval x" "is_finite y" "f64_ok y" "0 \<le> fval y"
  shows "is_finite (fsub x y)" "fval (fsub x y) = rnd (fval x - fval y)"
proof -
  have r: "rnd (fval z) = fval z" if "f64_ok z" for z
    using that by (intro rnd_representable f64_ok_representable)
  have "rnd (fval x - fval y) \<le> fval x" "- fval y \<le> rnd (fval x - fval y)"
    using assms rnd_mono [of "fval x - fval y" "fval x"] rnd_mono [of "- fval y" "fval x - fval y"] r
    by simp_all
  with assms fval_less_limit [of x] fval_less_limit [of y]
  have "\<bar>rnd (fval x - fval y)\<bar> < f64_limit" by simp
  with fsub_rounds [of x y] assms show "is_finite (fsub x y)" "fval (fsub x y) = rnd (fval x - fval y)"
    by (auto simp: rounds_to_def)
qed

lemma rnd_diff_sign:
  assumes "f64_ok x" "f64_ok y"
  shows "0 < rnd (fval x - fval y) \<longleftrightarrow> fval y < fval x"
    "rnd (fval x - fval y) < 0 \<longleftrightarrow> fval x < fval y"
    "rnd (fval x - fval y) = 0 \<longleftrightarrow> fval x = fval y"
  using assms
  by (simp_all add: ieee.diff_pos_iff ieee.diff_neg_iff ieee.diff_zero_iff f64_ok_representable)

subsection \<open>Canonical doubles are determined by their value\<close>

lemma same_mant_exp:
  assumes "real m * 2 powi e = real k * 2 powi g" "e \<le> g"
    and "m < 2 ^ 53" "g = - 1074 \<or> 2 ^ 52 \<le> k" "- 1074 \<le> e"
  shows "e = g \<and> m = k"
proof -
  have "real m * 2 powi e = real (k * 2 ^ nat (g - e)) * 2 powi e"
    using powi_nat_diff [OF assms(2)] assms(1) by (simp add: mult.assoc)
  then have m: "m = k * 2 ^ nat (g - e)"
    by (metis mult_right_cancel of_nat_eq_iff powi_pos less_irrefl)
  have "e = g"
  proof (rule ccontr)
    assume "e \<noteq> g"
    with assms(2) have lt: "e < g" by simp
    with assms(4,5) have k: "2 ^ 52 \<le> k" by simp
    have "(2::nat) \<le> 2 ^ nat (g - e)" using lt by (cases "nat (g - e)") auto
    with k have "2 ^ 52 * 2 \<le> k * 2 ^ nat (g - e)" by (intro mult_le_mono)
    with m assms(3) show False by simp
  qed
  with m show ?thesis by simp
qed

lemma f64_eqI:
  assumes "is_finite x" "is_finite y" "f64_ok x" "f64_ok y" "fval x = fval y" "fval x \<noteq> 0"
  shows "x = y"
proof -
  obtain s m e where x: "x = Fin s m e" using assms(1) by (cases x) auto
  obtain t k g where y: "y = Fin t k g" using assms(2) by (cases y) auto
  have m: "0 < m" using assms(6) x by (cases m; cases s) auto
  have k: "0 < k" using assms(5,6) y by (cases k; cases t) auto
  have v: "sgnr s * (real m * 2 powi e) = sgnr t * (real k * 2 powi g)"
    using assms(5) x y by (auto split: if_splits)
  moreover have "0 < real m * 2 powi e" "0 < real k * 2 powi g" using m k by simp_all
  ultimately have st: "s = t" and eq: "real m * 2 powi e = real k * 2 powi g"
    by (cases s; cases t; simp; linarith)+
  have "e = g \<and> m = k"
  proof (cases "e \<le> g")
    case True
    then show ?thesis using same_mant_exp [OF eq] assms(3,4) x y by auto
  next
    case False
    then show ?thesis using same_mant_exp [OF eq [symmetric]] assms(3,4) x y by auto
  qed
  with st x y show ?thesis by simp
qed

text \<open>Integers up to \<open>2 ^ 53\<close> convert exactly.\<close>

lemma representable_int: "\<bar>i\<bar> \<le> 2 ^ 53 \<Longrightarrow> representable (of_int i)"
  unfolding representable_def by (intro exI [of _ i] exI [of _ 0]) simp

lemma limit_big: "2 ^ 53 < f64_limit" "2 ^ 64 < f64_limit"
proof -
  have "(2::real) powi 64 < f64_limit"
    unfolding f64_limit_def by (intro power_int_strict_increasing) auto
  then show "2 ^ 64 < f64_limit" by simp
  then show "2 ^ 53 < f64_limit" by simp
qed

lemma f64_of_nat_rounds: "rounds_to (real n) (f64_of_nat n)"
  using of_frac_rounds [of 1 False n] by (simp add: f64_of_nat_def)

lemma f64_of_int_rounds: "rounds_to (of_int i) (f64_of_int i)"
proof -
  have "sgnr (i < 0) * (real (nat \<bar>i\<bar>) / real 1) = of_int i" by simp
  with of_frac_rounds [of 1 "i < 0" "nat \<bar>i\<bar>"] show ?thesis by (simp add: f64_of_int_def)
qed

lemma rounds_to_exact:
  assumes "rounds_to x y" "representable x" "\<bar>x\<bar> < f64_limit"
  shows "is_finite y" "fval y = x" "f64_ok y"
  using assms rnd_representable [OF assms(2)] by (auto simp: rounds_to_def)

lemma f64_of_nat_exact:
  assumes "n \<le> 2 ^ 53"
  shows "is_finite (f64_of_nat n)" "fval (f64_of_nat n) = real n" "f64_ok (f64_of_nat n)"
proof -
  have "real n \<le> 2 ^ 53" using assms by (metis of_nat_le_iff of_nat_numeral of_nat_power)
  then have "\<bar>real n\<bar> < f64_limit" using limit_big by simp
  moreover have "representable (real n)"
    using representable_int [of "int n"] assms by simp
  ultimately show "is_finite (f64_of_nat n)" "fval (f64_of_nat n) = real n" "f64_ok (f64_of_nat n)"
    using rounds_to_exact [OF f64_of_nat_rounds] by blast+
qed

lemma f64_of_int_exact:
  assumes "\<bar>i\<bar> \<le> 2 ^ 53"
  shows "is_finite (f64_of_int i)" "fval (f64_of_int i) = of_int i" "f64_ok (f64_of_int i)"
proof -
  have "\<bar>of_int i :: real\<bar> \<le> 2 ^ 53" using assms by (metis of_int_abs of_int_le_iff of_int_numeral of_int_power)
  then have "\<bar>of_int i :: real\<bar> < f64_limit" using limit_big by simp
  with representable_int [OF assms]
  show "is_finite (f64_of_int i)" "fval (f64_of_int i) = of_int i" "f64_ok (f64_of_int i)"
    using rounds_to_exact [OF f64_of_int_rounds] by blast+
qed

end
