(* ===== verification/Ostream.thy ===== *)
theory Ostream
  imports F64_Real
begin

text \<open>
  \<^verbatim>\<open>std::ostream\<close> as the program uses it: the characters written so far, the two format flags
  it sets (\<^verbatim>\<open>std::fixed\<close> and \<^verbatim>\<open>std::setprecision\<close>, both sticky) and whether the stream is good.
  A stream that is not good (a file that could not be opened) drops its output.  Numbers are
  rendered as the C++ standard prescribes through \<^verbatim>\<open>printf\<close>: \<^verbatim>\<open>%f\<close> when \<^verbatim>\<open>std::fixed\<close> is set,
  \<^verbatim>\<open>%g\<close> otherwise, both rounding the exact value to nearest-even at the printed digit.  A NaN is
  printed without a sign.  The second part is CSV: splitting a line at commas, and the fact that a
  rendered number holds neither a comma nor a newline.
\<close>

subsection \<open>Decimal digits\<close>

definition digit_char :: "nat \<Rightarrow> char" where
  "digit_char d = ''0123456789'' ! d"

fun nat_str :: "nat \<Rightarrow> string" where
  "nat_str n = (if n < 10 then [digit_char n] else nat_str (n div 10) @ [digit_char (n mod 10)])"

declare nat_str.simps [simp del]

lemma nat_str_numeral:
  "nat_str 0 = ''0''" "nat_str (Suc 0) = ''1''" "nat_str 1 = ''1''"
  "nat_str (numeral k) =
     (if (numeral k :: nat) < 10 then [digit_char (numeral k)]
      else nat_str (numeral k div 10) @ [digit_char (numeral k mod 10)])"
  by (subst nat_str.simps, simp add: digit_char_def)+

definition int_str :: "int \<Rightarrow> string" where
  "int_str i = (if i < 0 then CHR ''-'' # nat_str (nat (- i)) else nat_str (nat i))"

definition pad_zeros :: "nat \<Rightarrow> string \<Rightarrow> string" where
  "pad_zeros k s = replicate (k - length s) (CHR ''0'') @ s"

subsection \<open>Rendering a double\<close>

definition sign_str :: "bool \<Rightarrow> string" where
  "sign_str s = (if s then ''-'' else '''')"

definition fixed_digits :: "nat \<Rightarrow> nat \<Rightarrow> nat \<Rightarrow> string" where
  "fixed_digits p n d =
     (let q = round_half_even (n * 10 ^ p) d
      in nat_str (q div 10 ^ p) @
         (if p = 0 then '''' else CHR ''.'' # pad_zeros p (nat_str (q mod 10 ^ p))))"

function neg_exp10 :: "nat \<Rightarrow> nat \<Rightarrow> nat" where
  "neg_exp10 n d = (if n = 0 \<or> d \<le> n then 0 else Suc (neg_exp10 (10 * n) d))"
  by pat_completeness auto
termination
  by (relation "measure (\<lambda>(n, d). d - n)") auto

declare neg_exp10.simps [simp del]

definition dec_exp :: "nat \<Rightarrow> nat \<Rightarrow> int" where
  "dec_exp n d =
     (if d \<le> n then int (length (nat_str (n div d))) - 1 else - int (neg_exp10 n d))"

definition strip_zeros :: "string \<Rightarrow> string" where
  "strip_zeros s = rev (dropWhile (\<lambda>c. c = CHR ''0'') (rev s))"

definition general_digits :: "nat \<Rightarrow> nat \<Rightarrow> nat \<Rightarrow> string" where
  "general_digits p n d =
     (if n = 0 then ''0''
      else let p = (if p = 0 then 1 else p);
               x0 = dec_exp n d;
               q0 = round_half_even (n * 10 ^ nat (int p - 1 - x0)) (d * 10 ^ nat (x0 + 1 - int p));
               q = (if q0 = 10 ^ p then 10 ^ (p - 1) else q0);
               x = (if q0 = 10 ^ p then x0 + 1 else x0);
               all = nat_str q;
               sig = strip_zeros all
           in if x < - 4 \<or> int p \<le> x
              then take 1 sig @ (if drop 1 sig = '''' then '''' else CHR ''.'' # drop 1 sig) @
                   ''e'' @ (if x < 0 then ''-'' else ''+'') @ pad_zeros 2 (nat_str (nat \<bar>x\<bar>))
              else if 0 \<le> x
              then take (nat x + 1) all @
                   (if drop (nat x + 1) sig = '''' then '''' else CHR ''.'' # drop (nat x + 1) sig)
              else ''0.'' @ replicate (nat (- x) - 1) (CHR ''0'') @ sig)"

fun f64_str :: "bool \<Rightarrow> nat \<Rightarrow> f64 \<Rightarrow> string" where
  "f64_str fixed p NaN = ''nan''"
| "f64_str fixed p (Inf s) = sign_str s @ ''inf''"
| "f64_str fixed p (Fin s m e) =
     sign_str s @ (if fixed then fixed_digits p (scale m e) (scale 1 (- e))
                   else general_digits p (scale m e) (scale 1 (- e)))"

lemmas str_eval =
  nat_str_numeral digit_char_def int_str_def pad_zeros_def sign_str_def fixed_digits_def
  dec_exp_def strip_zeros_def general_digits_def

subsection \<open>Streams\<close>

record ostream =
  otext :: string
  ofixed :: bool
  oprec :: nat
  ogood :: bool

record ofstream = ostream +
  is_open :: bool

definition new_ostream :: ostream where
  "new_ostream = \<lparr>otext = '''', ofixed = False, oprec = 6, ogood = True\<rparr>"

definition open_ofstream :: "bool \<Rightarrow> ofstream" where
  "open_ofstream ok = \<lparr>otext = '''', ofixed = False, oprec = 6, ogood = ok, is_open = ok\<rparr>"

definition put_str :: "string \<Rightarrow> 'a ostream_scheme \<Rightarrow> 'a ostream_scheme" where
  "put_str s os = (if ogood os then os\<lparr>otext := otext os @ s\<rparr> else os)"

definition put_f64 :: "f64 \<Rightarrow> 'a ostream_scheme \<Rightarrow> 'a ostream_scheme" where
  "put_f64 x os = put_str (f64_str (ofixed os) (oprec os) x) os"

definition put_u64 :: "u64 \<Rightarrow> 'a ostream_scheme \<Rightarrow> 'a ostream_scheme" where
  "put_u64 w os = put_str (nat_str (unat w)) os"

definition put_int :: "int \<Rightarrow> 'a ostream_scheme \<Rightarrow> 'a ostream_scheme" where
  "put_int i os = put_str (int_str i) os"

definition set_fixed :: "'a ostream_scheme \<Rightarrow> 'a ostream_scheme" where
  "set_fixed os = os\<lparr>ofixed := True\<rparr>"

definition set_precision :: "nat \<Rightarrow> 'a ostream_scheme \<Rightarrow> 'a ostream_scheme" where
  "set_precision p os = os\<lparr>oprec := p\<rparr>"

text \<open>One \<^verbatim>\<open><<\<close> chain: the items are inserted left to right.\<close>

datatype item = S string | D f64 | U u64 | I int | Fixed | Prec nat

primrec put_item :: "item \<Rightarrow> 'a ostream_scheme \<Rightarrow> 'a ostream_scheme" where
  "put_item (S s) os = put_str s os"
| "put_item (D x) os = put_f64 x os"
| "put_item (U w) os = put_u64 w os"
| "put_item (I i) os = put_int i os"
| "put_item Fixed os = set_fixed os"
| "put_item (Prec p) os = set_precision p os"

definition put :: "item list \<Rightarrow> 'a ostream_scheme \<Rightarrow> 'a ostream_scheme" where
  "put is os = fold put_item is os"

lemma put_Nil [simp]: "put [] os = os"
  by (simp add: put_def)

lemma put_Cons [simp]: "put (i # is) os = put is (put_item i os)"
  by (simp add: put_def)

lemma put_append: "put (is @ js) os = put js (put is os)"
  by (simp add: put_def)

lemmas put_item_defs [stream_defs] =
  put_str_def put_f64_def put_u64_def put_int_def set_fixed_def set_precision_def

text \<open>The flags and the text after a chain, item by item.\<close>

lemma ostream_put_item [simp]:
  "ogood (put_item i os) = ogood os"
  "ofixed (put_item i os) = (ofixed os \<or> i = Fixed)"
  "oprec (put_item i os) = (case i of Prec p \<Rightarrow> p | _ \<Rightarrow> oprec os)"
  by (cases i; simp add: stream_defs)+

lemma is_open_put_item [simp]: "is_open (put_item i f) = is_open f"
  by (cases i) (simp_all add: stream_defs)

lemma ogood_put [simp]: "ogood (put is os) = ogood os"
  by (induction "is" arbitrary: os) simp_all

lemma is_open_put [simp]: "is_open (put is f) = is_open f"
  by (induction "is" arbitrary: f) simp_all

lemma ofixed_put [simp]: "ofixed (put is os) \<longleftrightarrow> ofixed os \<or> Fixed \<in> set is"
  by (induction "is" arbitrary: os) auto

lemma oprec_put [simp]:
  "oprec (put is os) = foldl (\<lambda>p i. case i of Prec q \<Rightarrow> q | _ \<Rightarrow> p) (oprec os) is"
  by (induction "is" arbitrary: os) simp_all

lemma bad_stream_text: "\<not> ogood os \<Longrightarrow> otext (put is os) = otext os"
proof (induction "is" arbitrary: os)
  case (Cons i "is")
  have "otext (put_item i os) = otext os" using Cons.prems by (cases i) (simp_all add: stream_defs)
  with Cons show ?case by simp
qed simp

text \<open>What a chain appends, as a function of the flags at its start.\<close>

primrec render :: "bool \<Rightarrow> nat \<Rightarrow> item list \<Rightarrow> string" where
  "render fx p [] = ''''"
| "render fx p (i # is) =
     (case i of
        S s \<Rightarrow> s @ render fx p is
      | D x \<Rightarrow> f64_str fx p x @ render fx p is
      | U w \<Rightarrow> nat_str (unat w) @ render fx p is
      | I j \<Rightarrow> int_str j @ render fx p is
      | Fixed \<Rightarrow> render True p is
      | Prec q \<Rightarrow> render fx q is)"

lemma otext_put: "ogood os \<Longrightarrow> otext (put is os) = otext os @ render (ofixed os) (oprec os) is"
  by (induction "is" arbitrary: os) (auto simp: stream_defs split: item.split)

subsection \<open>Rendered numbers are clean CSV fields\<close>

definition clean :: "string \<Rightarrow> bool" where
  "clean s \<longleftrightarrow> CHR '','' \<notin> set s \<and> CHR 0x0A \<notin> set s"

lemma clean_append [simp]: "clean (s @ t) \<longleftrightarrow> clean s \<and> clean t"
  by (auto simp: clean_def)

lemma clean_Cons [simp]: "clean (c # s) \<longleftrightarrow> c \<noteq> CHR '','' \<and> c \<noteq> CHR 0x0A \<and> clean s"
  by (auto simp: clean_def)

lemma clean_Nil [simp]: "clean ''''"
  by (simp add: clean_def)

lemma clean_subset: "clean s \<Longrightarrow> set t \<subseteq> set s \<Longrightarrow> clean t"
  by (auto simp: clean_def)

lemma digit_char_in: "d < 10 \<Longrightarrow> digit_char d \<in> set ''0123456789''"
  unfolding digit_char_def by (rule nth_mem) simp

lemma set_nat_str: "set (nat_str n) \<subseteq> set ''0123456789''"
proof (induction n rule: nat_str.induct)
  case (1 n)
  show ?case
  proof (cases "n < 10")
    case True
    then show ?thesis using digit_char_in [of n] by (subst nat_str.simps) simp
  next
    case False
    with 1 digit_char_in [of "n mod 10"] show ?thesis by (subst nat_str.simps) auto
  qed
qed

lemma clean_nat_str [simp]: "clean (nat_str n)"
  by (rule clean_subset [OF _ set_nat_str]) (simp add: clean_def)

lemma clean_int_str [simp]: "clean (int_str i)"
  by (simp add: int_str_def)

lemma clean_replicate0 [simp]: "clean (replicate k (CHR ''0''))"
  by (simp add: clean_def)

lemma clean_pad_zeros [simp]: "clean s \<Longrightarrow> clean (pad_zeros k s)"
  by (simp add: pad_zeros_def)

lemma clean_take_drop [simp]: "clean s \<Longrightarrow> clean (take k s)" "clean s \<Longrightarrow> clean (drop k s)"
  by (rule clean_subset, simp, simp add: set_take_subset set_drop_subset)+

lemma clean_strip_zeros [simp]: "clean s \<Longrightarrow> clean (strip_zeros s)"
  by (rule clean_subset) (auto simp: strip_zeros_def dest: set_dropWhileD)

lemma clean_fixed_digits [simp]: "clean (fixed_digits p n d)"
  by (simp add: fixed_digits_def Let_def)

lemma clean_general_digits [simp]: "clean (general_digits p n d)"
  by (simp add: general_digits_def Let_def)

lemma clean_f64_str [simp]: "clean (f64_str fx p x)"
  by (cases x) (simp_all add: sign_str_def)

lemma nat_str_nonempty [simp]: "nat_str n \<noteq> []"
  by (subst nat_str.simps) simp

subsection \<open>Splitting a line into fields\<close>

fun split_on :: "char \<Rightarrow> string \<Rightarrow> string list" where
  "split_on c [] = [[]]"
| "split_on c (x # xs) =
     (if x = c then [] # split_on c xs
      else case split_on c xs of f # fs \<Rightarrow> (x # f) # fs | [] \<Rightarrow> [[x]])"

lemma split_on_nonempty [simp]: "split_on c s \<noteq> []"
  by (induction s) (auto split: list.split)

lemma split_on_none: "c \<notin> set s \<Longrightarrow> split_on c s = [s]"
  by (induction s) auto

lemma split_on_append: "c \<notin> set s \<Longrightarrow> split_on c (s @ c # t) = s # split_on c t"
  by (induction s) auto

lemma split_on_clean:
  "clean s \<Longrightarrow> split_on (CHR '','') s = [s]"
  "clean s \<Longrightarrow> split_on (CHR '','') (s @ CHR '','' # t) = s # split_on (CHR '','') t"
  by (simp_all add: clean_def split_on_none split_on_append)

text \<open>The lines of a text, the last one being what follows the last newline.\<close>

abbreviation lines_of :: "string \<Rightarrow> string list" where
  "lines_of \<equiv> split_on (CHR 0x0A)"

abbreviation csv_fields :: "string \<Rightarrow> string list" where
  "csv_fields \<equiv> split_on (CHR '','')"

end
