(* ===== verification/Conversions.thy ===== *)
theory Conversions
  imports Ostream
begin

text \<open>
  Failures, and the string-to-number conversions of the C++ standard library the feeds use:
  \<^verbatim>\<open>std::stod\<close> (through \<^verbatim>\<open>strtod\<close>) and \<^verbatim>\<open>std::stoull\<close> (through \<^verbatim>\<open>strtoull\<close>), in the "C" locale.
  An operation that can fail returns \<open>fault + 'a\<close>: an exception with its \<^verbatim>\<open>what()\<close> text, a failed
  assertion, or behaviour the standard leaves undefined.  Whether \<^verbatim>\<open>strtod\<close> reports an underflow is
  left open by the standard; here it does when the result is subnormal or zero and inexact.
\<close>

datatype fault = Throw string | Abort | Undefined

type_synonym 'a outcome = "fault + 'a"

primrec bindE :: "'a outcome \<Rightarrow> ('a \<Rightarrow> 'b outcome) \<Rightarrow> 'b outcome" where
  "bindE (Inl f) k = Inl f"
| "bindE (Inr x) k = k x"

lemma bindE_Inr [simp]: "bindE m Inr = m"
  by (cases m) simp_all

lemma bindE_assoc: "bindE (bindE m f) g = bindE m (\<lambda>x. bindE (f x) g)"
  by (cases m) simp_all

lemma bindE_eq_Inr: "bindE m k = Inr y \<longleftrightarrow> (\<exists>x. m = Inr x \<and> k x = Inr y)"
  by (cases m) simp_all

subsection \<open>Characters\<close>

definition c_space :: "char \<Rightarrow> bool" where
  "c_space c \<longleftrightarrow> c \<in> set [CHR '' '', CHR 0x09, CHR 0x0A, CHR 0x0B, CHR 0x0C, CHR 0x0D]"

definition c_digit :: "char \<Rightarrow> bool" where
  "c_digit c \<longleftrightarrow> of_char c \<ge> (48 :: nat) \<and> of_char c \<le> (57 :: nat)"

definition digit_val :: "char \<Rightarrow> nat" where
  "digit_val c = of_char c - 48"

definition c_xdigit :: "char \<Rightarrow> bool" where
  "c_xdigit c \<longleftrightarrow> c_digit c \<or> (of_char c \<ge> (65 :: nat) \<and> of_char c \<le> (70 :: nat))
     \<or> (of_char c \<ge> (97 :: nat) \<and> of_char c \<le> (102 :: nat))"

definition xdigit_val :: "char \<Rightarrow> nat" where
  "xdigit_val c =
     (if c_digit c then digit_val c
      else if of_char c \<le> (70 :: nat) then of_char c - 55 else of_char c - 87)"

definition c_tolower :: "char \<Rightarrow> char" where
  "c_tolower c =
     (if of_char c \<ge> (65 :: nat) \<and> of_char c \<le> (90 :: nat) then char_of (of_char c + 32 :: nat) else c)"

text \<open>The value of a digit sequence, most significant digit first.\<close>

definition digits_value :: "nat \<Rightarrow> (char \<Rightarrow> nat) \<Rightarrow> string \<Rightarrow> nat" where
  "digits_value base v s = foldl (\<lambda>n c. n * base + v c) 0 s"

text \<open>\<^verbatim>\<open>c_str()\<close> as the C functions see it: up to the first NUL.\<close>

definition c_string :: "string \<Rightarrow> string" where
  "c_string s = takeWhile (\<lambda>c. c \<noteq> CHR 0x00) s"

definition take_sign :: "string \<Rightarrow> bool \<times> string" where
  "take_sign s =
     (case s of
        CHR ''-'' # r \<Rightarrow> (True, r)
      | CHR ''+'' # r \<Rightarrow> (False, r)
      | _ \<Rightarrow> (False, s))"

subsection \<open>stoull\<close>

text \<open>The value and whether \<^verbatim>\<open>ERANGE\<close> was set; \<open>None\<close> when no digit was found.  A minus sign negates
  in the unsigned type.\<close>

definition strtoull :: "string \<Rightarrow> (u64 \<times> bool) option" where
  "strtoull str =
     (let (neg, r) = take_sign (dropWhile c_space (c_string str));
          ds = takeWhile c_digit r;
          n = digits_value 10 digit_val ds
      in if ds = [] then None
         else if 2 ^ 64 \<le> n then Some (- 1, True)
         else Some (if neg then - word_of_nat n else word_of_nat n, False))"

definition stoull :: "string \<Rightarrow> u64 outcome" where
  "stoull str =
     (case strtoull str of
        None \<Rightarrow> Inl (Throw ''stoull'')
      | Some (w, erange) \<Rightarrow> if erange then Inl (Throw ''stoull'') else Inr w)"

text \<open>The signed conversion, as two's complement bits.\<close>

definition strtoll :: "string \<Rightarrow> (u64 \<times> bool) option" where
  "strtoll str =
     (let (neg, r) = take_sign (dropWhile c_space (c_string str));
          ds = takeWhile c_digit r;
          n = digits_value 10 digit_val ds
      in if ds = [] then None
         else if neg then (if 2 ^ 63 < n then Some (2 ^ 63, True) else Some (- word_of_nat n, False))
         else if 2 ^ 63 \<le> n then Some (2 ^ 63 - 1, True)
         else Some (word_of_nat n, False))"

subsection \<open>stod\<close>

text \<open>An exponent part counts only when a digit follows the mark and the sign.\<close>

definition exponent_part :: "char \<Rightarrow> string \<Rightarrow> int" where
  "exponent_part mark s =
     (case s of
        [] \<Rightarrow> 0
      | c # r \<Rightarrow>
          if c_tolower c = mark
          then (let (neg, t) = take_sign r; ds = takeWhile c_digit t;
                    n = int (digits_value 10 digit_val ds)
                in if ds = [] then 0 else if neg then - n else n)
          else 0)"

text \<open>Digits with an optional point: the digits before it, those after it, and the rest.\<close>

definition mantissa_part :: "(char \<Rightarrow> bool) \<Rightarrow> string \<Rightarrow> string \<times> string \<times> string" where
  "mantissa_part dig s =
     (let ip = takeWhile dig s; r = dropWhile dig s
      in case r of
           CHR ''.'' # t \<Rightarrow> (ip, takeWhile dig t, dropWhile dig t)
         | _ \<Rightarrow> (ip, [], r))"

text \<open>The exact value \<open>n / d\<close> rounded, and whether that overflowed or underflowed.\<close>

definition frac_exact :: "nat \<Rightarrow> nat \<Rightarrow> f64 \<Rightarrow> bool" where
  "frac_exact n d x =
     (case x of Fin s m e \<Rightarrow> scale m e * d = n * scale 1 (- e) | _ \<Rightarrow> False)"

definition convert_frac :: "bool \<Rightarrow> nat \<Rightarrow> nat \<Rightarrow> f64 \<times> bool" where
  "convert_frac neg n d =
     (let x = f64_of_frac neg n d
      in (x, \<not> is_finite x
             \<or> (n * 2 ^ 1076 < d * (2 ^ 54 - 1) \<and> \<not> frac_exact n d x)))"

definition decimal_number :: "bool \<Rightarrow> string \<Rightarrow> (f64 \<times> bool) option" where
  "decimal_number neg s =
     (let (ip, fp, r) = mantissa_part c_digit s;
          x = exponent_part (CHR ''e'') r - int (length fp)
      in if ip @ fp = [] then None
         else Some (convert_frac neg (digits_value 10 digit_val (ip @ fp) * 10 ^ nat x)
                      (10 ^ nat (- x))))"

definition hex_number :: "bool \<Rightarrow> string \<Rightarrow> (f64 \<times> bool) option" where
  "hex_number neg s =
     (let (ip, fp, r) = mantissa_part c_xdigit s;
          x = exponent_part (CHR ''p'') r - 4 * int (length fp)
      in if ip @ fp = [] then Some (f64_zero neg, False)
         else Some (convert_frac neg (digits_value 16 xdigit_val (ip @ fp) * 2 ^ nat x)
                      (2 ^ nat (- x))))"

definition strtod :: "string \<Rightarrow> (f64 \<times> bool) option" where
  "strtod str =
     (let (neg, r) = take_sign (dropWhile c_space (c_string str));
          w = map c_tolower (take 3 r)
      in if w = ''inf'' then Some (Inf neg, False)
         else if w = ''nan'' then Some (NaN, False)
         else if take 2 w = ''0x'' then hex_number neg (drop 2 r)
         else decimal_number neg r)"

definition stod :: "string \<Rightarrow> f64 outcome" where
  "stod str =
     (case strtod str of
        None \<Rightarrow> Inl (Throw ''stod'')
      | Some (x, erange) \<Rightarrow> if erange then Inl (Throw ''stod'') else Inr x)"

subsection \<open>Printed numbers read back\<close>

lemma digit_char_val:
  assumes "d < 10"
  shows "c_digit (digit_char d)" "digit_val (digit_char d) = d"
proof -
  have "d \<in> {0, 1, 2, 3, 4, 5, 6, 7, 8, 9}" using assms by auto
  then show "c_digit (digit_char d)" "digit_val (digit_char d) = d"
    by (auto simp: digit_char_def c_digit_def digit_val_def)
qed

lemma nat_str_digits: "\<forall>c \<in> set (nat_str n). c_digit c"
proof (induction n rule: nat_str.induct)
  case (1 n)
  then show ?case
    using digit_char_val(1) [of n] digit_char_val(1) [of "n mod 10"] by (subst nat_str.simps) auto
qed

lemma nat_str_value: "digits_value 10 digit_val (nat_str n) = n"
proof (induction n rule: nat_str.induct)
  case (1 n)
  show ?case
  proof (cases "n < 10")
    case True
    then show ?thesis using digit_char_val(2) [of n] by (subst nat_str.simps) (simp add: digits_value_def)
  next
    case False
    then show ?thesis
      using 1 digit_char_val(2) [of "n mod 10"] by (subst nat_str.simps) (simp add: digits_value_def)
  qed
qed

lemma c_digit_not:
  assumes "c_digit c"
  shows "\<not> c_space c" "c \<noteq> CHR ''-''" "c \<noteq> CHR ''+''" "c \<noteq> CHR 0x00" "c_tolower c = c"
    "c \<noteq> CHR ''i''" "c \<noteq> CHR ''n''" "c \<noteq> CHR ''x''" "c \<noteq> CHR ''.''"
  using assms by (auto simp: c_digit_def c_space_def c_tolower_def)

lemma take_sign_digit:
  "s \<noteq> [] \<Longrightarrow> c_digit (hd s) \<Longrightarrow> take_sign s = (False, s)"
  using c_digit_not [of "hd s"] by (cases s) (auto simp: take_sign_def split: char.split bool.split)

lemma read_nat_str:
  "c_string (nat_str n) = nat_str n" "dropWhile c_space (nat_str n) = nat_str n"
  "take_sign (nat_str n) = (False, nat_str n)"
  "takeWhile c_digit (nat_str n) = nat_str n" "dropWhile c_digit (nat_str n) = []"
proof -
  have d: "\<forall>c \<in> set (nat_str n). c_digit c" by (rule nat_str_digits)
  have h: "c_digit (hd (nat_str n))" using d by simp
  show "c_string (nat_str n) = nat_str n"
    using d c_digit_not(4) by (auto simp: c_string_def takeWhile_eq_all_conv)
  show "dropWhile c_space (nat_str n) = nat_str n"
    using h c_digit_not(1) by (cases "nat_str n") auto
  show "take_sign (nat_str n) = (False, nat_str n)" by (rule take_sign_digit) (simp_all add: h)
  show "takeWhile c_digit (nat_str n) = nat_str n" "dropWhile c_digit (nat_str n) = []"
    using d by (simp_all add: takeWhile_eq_all_conv dropWhile_eq_Nil_conv)
qed

text \<open>A 64-bit time stamp printed by the program is read back unchanged by \<^verbatim>\<open>stoull\<close>.\<close>

theorem stoull_nat_str: "stoull (nat_str (unat w)) = Inr w"
proof -
  have "unat w < 2 ^ 64" using unsigned_less [of w, where 'a = nat] by simp
  then show ?thesis
    by (simp add: stoull_def strtoull_def read_nat_str nat_str_value Let_def)
qed

text \<open>\<^verbatim>\<open>stoull\<close> accepts a minus sign: the text of a negative number is read, without any error, as
  its two's complement, so a time stamp \<open>-1\<close> from a feed is the latest possible one.\<close>

theorem stoull_negative: "stoull (CHR ''-'' # nat_str (unat w)) = Inr (- w)"
proof -
  have "unat w < 2 ^ 64" using unsigned_less [of w, where 'a = nat] by simp
  moreover have "c_string (CHR ''-'' # nat_str (unat w)) = CHR ''-'' # nat_str (unat w)"
    using read_nat_str(1) by (simp add: c_string_def)
  moreover have "\<not> c_space (CHR ''-'')" by (simp add: c_space_def)
  ultimately show ?thesis
    by (simp add: stoull_def strtoull_def take_sign_def read_nat_str nat_str_value Let_def)
qed

lemma nat_str_head:
  assumes "2 \<le> length (nat_str n)"
  shows "c_tolower (nat_str n ! 1) \<noteq> CHR ''x''"
  using nat_str_digits [of n] c_digit_not(5,8) assms
  by (metis Suc_1 Suc_le_lessD nth_mem)

lemma strtod_nat_str: "strtod (nat_str n) = Some (convert_frac False n 1)"
proof -
  have d: "\<forall>c \<in> set (nat_str n). c_digit c" by (rule nat_str_digits)
  obtain c r where cr: "nat_str n = c # r" by (cases "nat_str n") auto
  then have c: "c_digit c" and r: "\<forall>x \<in> set r. c_digit x" using d by auto
  have ne: "map c_tolower (take 3 (nat_str n)) \<noteq> ''inf''" "map c_tolower (take 3 (nat_str n)) \<noteq> ''nan''"
    using c_digit_not [OF c] cr by auto
  have nx: "take 2 (map c_tolower (take 3 (nat_str n))) \<noteq> ''0x''"
    using c_digit_not(5,8) r cr by (cases r) auto
  have "mantissa_part c_digit (nat_str n) = (nat_str n, [], [])"
    by (simp add: mantissa_part_def read_nat_str Let_def)
  then show ?thesis
    using ne nx by (simp add: strtod_def read_nat_str decimal_number_def exponent_part_def nat_str_value)
qed

text \<open>A whole number up to \<open>2 ^ 53\<close> printed in decimal is read back exactly by \<^verbatim>\<open>stod\<close>.\<close>

theorem stod_nat_str:
  assumes "n \<le> 2 ^ 53"
  shows "\<exists>x. stod (nat_str n) = Inr x \<and> is_finite x \<and> fval x = real n"
proof -
  have x: "is_finite (f64_of_frac False n 1)" "fval (f64_of_frac False n 1) = real n"
    using f64_of_nat_exact [OF assms] by (simp_all add: f64_of_nat_def)
  have "\<not> snd (convert_frac False n 1)"
  proof (cases "n = 0")
    case True
    then show ?thesis
      by (simp add: convert_frac_def frac_exact_def f64_of_frac_def f64_zero_def scale_def)
  next
    case False
    have "(2 :: nat) ^ 54 \<le> 2 ^ 1076" by (rule power_increasing) simp_all
    also have "\<dots> \<le> n * 2 ^ 1076" using False by simp
    finally have "(2 :: nat) ^ 54 - 1 < n * 2 ^ 1076"
      by (metis diff_less le_less_trans less_numeral_extra(1) less_le_trans not_le zero_less_numeral zero_less_power)
    then show ?thesis using x(1) by (simp add: convert_frac_def Let_def)
  qed
  then have "stod (nat_str n) = Inr (f64_of_frac False n 1)"
    by (simp add: stod_def strtod_nat_str convert_frac_def Let_def)
  then show ?thesis using x by blast
qed

theorem stod_nat_str_witness:
  "\<exists>x. stod (nat_str 60000) = Inr x \<and> is_finite x \<and> fval x = real 60000"
  by (rule stod_nat_str) simp

end
