(* ===== verification/Interfaces.thy ===== *)
theory Interfaces
  imports Prelude
begin

text \<open>
  The contracts several components share, as locales over the operations a client calls.

  \<^item> \<open>throttle\<close>: a gate that lets an event through and then stays shut for a while
    (\<^verbatim>\<open>ArbOpportunityEngine::shouldTrigger\<close>, the alert of \<^verbatim>\<open>SyntheticPair::evaluate\<close> and the
    alert of \<^verbatim>\<open>SyntheticPerpEngine::updateMark\<close>);
  \<^item> \<open>sliding_window\<close>: a buffer that keeps the newest values up to a capacity
    (\<^verbatim>\<open>MispricingBuffer::add\<close>, the trade buffers of \<^verbatim>\<open>on_message\<close>);
  \<^item> \<open>register\<close>: a store whose reads return the last write
    (\<^verbatim>\<open>CrossExchangePair\<close>, \<^verbatim>\<open>FundingCache\<close>).
\<close>

subsection \<open>Throttles\<close>

text \<open>
  Running a gate over a sequence of events: the stamps it lets through, each read from the event and
  the state after it.
\<close>

fun passed :: "('e \<Rightarrow> 's \<Rightarrow> bool \<times> 's) \<Rightarrow> ('e \<Rightarrow> 's \<Rightarrow> u64) \<Rightarrow> 'e list \<Rightarrow> 's \<Rightarrow> u64 list" where
  "passed step stamp [] s = []"
| "passed step stamp (e # es) s =
     (case step e s of (b, s') \<Rightarrow> (if b then [stamp e s'] else []) @ passed step stamp es s')"

text \<open>Every stamp is more than \<open>d\<close> after the one before, in 64-bit unsigned arithmetic.\<close>

fun spaced :: "u64 \<Rightarrow> u64 list \<Rightarrow> bool" where
  "spaced d (t # u # ts) = (d < u - t \<and> spaced d (u # ts))"
| "spaced d _ = True"

lemma spaced_append_single: "spaced d (t # ts) \<Longrightarrow> spaced d ts"
  by (cases ts) simp_all

lemma spaced_nth:
  "spaced d ts \<Longrightarrow> Suc i < length ts \<Longrightarrow> d < ts ! Suc i - ts ! i"
proof (induction d ts arbitrary: i rule: spaced.induct)
  case (1 d t u ts)
  then show ?case by (cases i) auto
qed simp_all

locale throttle =
  fixes step :: "'e \<Rightarrow> 's \<Rightarrow> bool \<times> 's" and stamp :: "'e \<Rightarrow> 's \<Rightarrow> u64"
    and last :: "'s \<Rightarrow> u64 option" and delay :: "'s \<Rightarrow> u64"
  assumes pass_last: "fst (step e s) \<Longrightarrow> last (snd (step e s)) = Some (stamp e (snd (step e s)))"
    and pass_spaced: "fst (step e s) \<Longrightarrow> last s = Some t \<Longrightarrow> delay s < stamp e (snd (step e s)) - t"
    and block_last: "\<not> fst (step e s) \<Longrightarrow> last (snd (step e s)) = last s"
    and delay_const: "delay (snd (step e s)) = delay s"
begin

lemma passed_spaced_from:
  "last s = Some t \<Longrightarrow> spaced (delay s) (t # passed step stamp es s)"
proof (induction es arbitrary: s t)
  case (Cons e es)
  obtain b s' where s': "step e s = (b, s')" by (cases "step e s")
  have d: "delay s' = delay s" using delay_const [of e s] s' by simp
  show ?case
  proof (cases b)
    case True
    then have "delay s < stamp e s' - t" "last s' = Some (stamp e s')"
      using pass_spaced [of e s t] pass_last [of e s] Cons.prems s' by simp_all
    with Cons.IH [of s' "stamp e s'"] True s' d show ?thesis by simp
  next
    case False
    then have "last s' = Some t" using block_last [of e s] Cons.prems s' by simp
    with Cons.IH [of s' t] False s' d show ?thesis by simp
  qed
qed simp

lemma passed_spaced: "spaced (delay s) (passed step stamp es s)"
proof (induction es arbitrary: s)
  case (Cons e es)
  obtain b s' where s': "step e s = (b, s')" by (cases "step e s")
  have d: "delay s' = delay s" using delay_const [of e s] s' by simp
  show ?case
  proof (cases b)
    case True
    then have "last s' = Some (stamp e s')" using pass_last [of e s] s' by simp
    from passed_spaced_from [OF this, of es] True s' d show ?thesis by simp
  next
    case False
    with Cons.IH [of s'] s' d show ?thesis by simp
  qed
qed simp

end

subsection \<open>Sliding windows\<close>

locale sliding_window =
  fixes push :: "'a \<Rightarrow> 's \<Rightarrow> 's" and contents :: "'s \<Rightarrow> 'a list" and capacity :: "'s \<Rightarrow> nat"
  assumes push_contents:
      "length (contents s) \<le> capacity s \<Longrightarrow>
       contents (push x s) = (if capacity s < length (contents s @ [x])
                              then tl (contents s @ [x]) else contents s @ [x])"
    and push_capacity: "capacity (push x s) = capacity s"
begin

lemma push_takeLast:
  assumes "length (contents s) \<le> capacity s"
  shows "contents (push x s) = takeLast (capacity s) (contents s @ [x])"
  using push_contents [OF assms, of x] assms
  by (cases "contents s") (auto simp: takeLast_def less_Suc_eq_le le_Suc_eq)

lemma push_bounded: "length (contents s) \<le> capacity s \<Longrightarrow> length (contents (push x s)) \<le> capacity s"
  by (simp add: push_takeLast)

lemma window_run:
  assumes "length (contents s) \<le> capacity s"
  shows "contents (fold push xs s) = takeLast (capacity s) (contents s @ xs)
         \<and> capacity (fold push xs s) = capacity s"
  using assms
proof (induction xs arbitrary: s)
  case (Cons x xs)
  have le: "length (contents (push x s)) \<le> capacity (push x s)"
    using push_bounded [OF Cons.prems] by (simp add: push_capacity)
  have "takeLast (capacity s) (takeLast (capacity s) (contents s @ [x]) @ xs)
      = takeLast (capacity s) (contents s @ x # xs)"
    by (simp add: takeLast_append_takeLast)
  then show ?case
    using Cons.IH [OF le] push_takeLast [OF Cons.prems, of x] by (simp add: push_capacity)
qed simp

end

subsection \<open>Registers\<close>

text \<open>The last value written to a key.\<close>

primrec last_write :: "'k \<Rightarrow> ('k \<times> 'v) list \<Rightarrow> 'v option" where
  "last_write k [] = None"
| "last_write k (p # ps) =
     (case last_write k ps of Some v \<Rightarrow> Some v | None \<Rightarrow> if fst p = k then Some (snd p) else None)"

locale register =
  fixes store :: "'k \<Rightarrow> 'v \<Rightarrow> 's \<Rightarrow> 's" and fetch :: "'k \<Rightarrow> 's \<Rightarrow> 'v" and key :: "'k \<Rightarrow> bool"
  assumes fetch_store_same: "key k \<Longrightarrow> fetch k (store k v s) = v"
    and fetch_store_other: "k \<noteq> k' \<Longrightarrow> fetch k' (store k v s) = fetch k' s"
begin

lemma fetch_run:
  "key k \<Longrightarrow> fetch k (fold (\<lambda>(k, v). store k v) ps s)
     = (case last_write k ps of Some v \<Rightarrow> v | None \<Rightarrow> fetch k s)"
proof (induction ps arbitrary: s)
  case (Cons p ps)
  obtain k' v' where p: "p = (k', v')" by (cases p)
  show ?case
    using Cons.IH [OF Cons.prems, of "store k' v' s"] Cons.prems
    by (cases "k' = k") (auto simp: p fetch_store_same fetch_store_other split: option.split)
qed simp

end

end
