(* ===== verification/Json.thy ===== *)
theory Json
  imports Conversions Interfaces "HOL-Library.Char_ord" "HOL-Library.List_Lexorder"
begin

text \<open>
  JSON values as \<^verbatim>\<open>nlohmann::json\<close> holds them, and the accessors the message handlers use: the
  member operators, \<^verbatim>\<open>contains\<close>, \<^verbatim>\<open>value\<close>, the type tests and \<^verbatim>\<open>get\<close> at the four types the handlers ask
  for.  An object is a \<^verbatim>\<open>std::map\<close>: a list of members with strictly increasing keys, compared as
  unsigned bytes (\<open>obj_ok\<close>).  \<open>JInteger\<close> holds the two's complement bits of a signed 64-bit number;
  \<open>JBinary\<close> the bytes and the subtype when there is one.

  The constant \<^verbatim>\<open>operator[]\<close> asserts that the key is present, and the build does not define
  \<^verbatim>\<open>NDEBUG\<close>: a missing key is \<open>Abort\<close>.  The other \<^verbatim>\<open>operator[]\<close> inserts a null member.
\<close>

datatype json =
    JNull
  | JObject "(string \<times> json) list"
  | JArray "json list"
  | JString string
  | JBoolean bool
  | JInteger u64
  | JUnsigned u64
  | JFloat f64
  | JBinary "8 word list" "u64 option"
  | JDiscarded

fun type_name :: "json \<Rightarrow> string" where
  "type_name JNull = ''null''"
| "type_name (JObject ms) = ''object''"
| "type_name (JArray xs) = ''array''"
| "type_name (JString s) = ''string''"
| "type_name (JBoolean b) = ''boolean''"
| "type_name (JBinary bs st) = ''binary''"
| "type_name JDiscarded = ''discarded''"
| "type_name (JInteger w) = ''number''"
| "type_name (JUnsigned w) = ''number''"
| "type_name (JFloat x) = ''number''"

fun is_string :: "json \<Rightarrow> bool" where
  "is_string (JString s) = True"
| "is_string _ = False"

fun is_array :: "json \<Rightarrow> bool" where
  "is_array (JArray xs) = True"
| "is_array _ = False"

definition type_error :: "string \<Rightarrow> string \<Rightarrow> 'a outcome" where
  "type_error code msg = Inl (Throw (''[json.exception.type_error.'' @ code @ ''] '' @ msg))"

subsection \<open>Objects\<close>

text \<open>\<^verbatim>\<open>std::map::emplace\<close> keeps a member that is there; assigning through \<^verbatim>\<open>operator[]\<close> replaces it.\<close>

fun obj_emplace :: "string \<Rightarrow> json \<Rightarrow> (string \<times> json) list \<Rightarrow> (string \<times> json) list" where
  "obj_emplace k v [] = [(k, v)]"
| "obj_emplace k v ((l, u) # ms) =
     (if k = l then (l, u) # ms
      else if k < l then (k, v) # (l, u) # ms
      else (l, u) # obj_emplace k v ms)"

fun obj_set :: "string \<Rightarrow> json \<Rightarrow> (string \<times> json) list \<Rightarrow> (string \<times> json) list" where
  "obj_set k v [] = [(k, v)]"
| "obj_set k v ((l, u) # ms) =
     (if k = l then (k, v) # ms
      else if k < l then (k, v) # (l, u) # ms
      else (l, u) # obj_set k v ms)"

definition obj_ok :: "(string \<times> json) list \<Rightarrow> bool" where
  "obj_ok ms \<longleftrightarrow> sorted_wrt (<) (map fst ms)"

definition member_or_null :: "string \<Rightarrow> (string \<times> json) list \<Rightarrow> json" where
  "member_or_null k ms = (case map_of ms k of Some v \<Rightarrow> v | None \<Rightarrow> JNull)"

lemma obj_emplace_keys: "set (map fst (obj_emplace k v ms)) = insert k (set (map fst ms))"
  by (induction k v ms rule: obj_emplace.induct) auto

lemma obj_set_keys: "set (map fst (obj_set k v ms)) = insert k (set (map fst ms))"
  by (induction k v ms rule: obj_set.induct) auto

lemma obj_emplace_ok: "obj_ok ms \<Longrightarrow> obj_ok (obj_emplace k v ms)"
proof (induction k v ms rule: obj_emplace.induct)
  case (2 k v l u ms)
  then show ?case
    using obj_emplace_keys [of k v ms] by (auto simp: obj_ok_def simp del: set_map dest: less_trans)
qed (simp add: obj_ok_def)

lemma obj_set_ok: "obj_ok ms \<Longrightarrow> obj_ok (obj_set k v ms)"
proof (induction k v ms rule: obj_set.induct)
  case (2 k v l u ms)
  then show ?case
    using obj_set_keys [of k v ms] by (auto simp: obj_ok_def simp del: set_map dest: less_trans)
qed (simp add: obj_ok_def)

lemma map_of_obj_set: "map_of (obj_set k v ms) = (map_of ms)(k \<mapsto> v)"
  by (induction k v ms rule: obj_set.induct) (auto simp: fun_eq_iff)

lemma map_of_smaller:
  "obj_ok ((l, u) # ms) \<Longrightarrow> k < l \<Longrightarrow> k \<noteq> l \<and> map_of ms k = None"
  by (auto simp: obj_ok_def map_of_eq_None_iff dest: less_trans)

lemma map_of_obj_emplace:
  "obj_ok ms \<Longrightarrow> map_of (obj_emplace k v ms) = (if k \<in> dom (map_of ms) then map_of ms else (map_of ms)(k \<mapsto> v))"
proof (induction k v ms rule: obj_emplace.induct)
  case (2 k v l u ms)
  have tail: "obj_ok ms" using 2(2) by (simp add: obj_ok_def)
  show ?case
  proof (cases "k = l \<or> k < l")
    case True
    then show ?thesis using map_of_smaller [OF 2(2), of k] by (auto simp: fun_eq_iff)
  next
    case False
    then show ?thesis using 2(1) tail by (auto simp: fun_eq_iff dom_def)
  qed
qed simp

interpretation members: register obj_set member_or_null "\<lambda>_. True"
  by unfold_locales (auto simp: member_or_null_def map_of_obj_set)

subsection \<open>Accessors\<close>

fun contains :: "string \<Rightarrow> json \<Rightarrow> bool" where
  "contains k (JObject ms) = (map_of ms k \<noteq> None)"
| "contains k _ = False"

fun at_const :: "string \<Rightarrow> json \<Rightarrow> json outcome" where
  "at_const k (JObject ms) = (case map_of ms k of Some v \<Rightarrow> Inr v | None \<Rightarrow> Inl Abort)"
| "at_const k j = type_error ''305'' (''cannot use operator[] with a string argument with '' @ type_name j)"

text \<open>The member referred to, and the container after the access.\<close>

fun at_insert :: "string \<Rightarrow> json \<Rightarrow> (json \<times> json) outcome" where
  "at_insert k JNull = Inr (JNull, JObject [(k, JNull)])"
| "at_insert k (JObject ms) =
     (let ms' = obj_emplace k JNull ms in Inr (member_or_null k ms', JObject ms'))"
| "at_insert k j = type_error ''305'' (''cannot use operator[] with a string argument with '' @ type_name j)"

fun value_or :: "string \<Rightarrow> (json \<Rightarrow> 'a outcome) \<Rightarrow> 'a \<Rightarrow> json \<Rightarrow> 'a outcome" where
  "value_or k get def (JObject ms) = (case map_of ms k of Some v \<Rightarrow> get v | None \<Rightarrow> Inr def)"
| "value_or k get def j = type_error ''306'' (''cannot use value() with '' @ type_name j)"

fun get_string :: "json \<Rightarrow> string outcome" where
  "get_string (JString s) = Inr s"
| "get_string j = type_error ''302'' (''type must be string, but is '' @ type_name j)"

definition not_a_number :: "json \<Rightarrow> 'a outcome" where
  "not_a_number j = type_error ''302'' (''type must be number, but is '' @ type_name j)"

fun get_double :: "json \<Rightarrow> f64 outcome" where
  "get_double (JUnsigned w) = Inr (f64_of_u64 w)"
| "get_double (JInteger w) = Inr (f64_of_int (sint w))"
| "get_double (JFloat x) = Inr x"
| "get_double j = not_a_number j"

fun get_uint64 :: "json \<Rightarrow> u64 outcome" where
  "get_uint64 (JUnsigned w) = Inr w"
| "get_uint64 (JInteger w) = Inr w"
| "get_uint64 (JFloat x) = (case u64_of_f64 x of Some w \<Rightarrow> Inr w | None \<Rightarrow> Inl Undefined)"
| "get_uint64 j = not_a_number j"

fun get_int :: "json \<Rightarrow> 32 word outcome" where
  "get_int (JUnsigned w) = Inr (ucast w)"
| "get_int (JInteger w) = Inr (ucast w)"
| "get_int (JFloat x) =
     (case trunc_f64 x of
        Some i \<Rightarrow> if - (2 ^ 31) \<le> i \<and> i < 2 ^ 31 then Inr (word_of_int i) else Inl Undefined
      | None \<Rightarrow> Inl Undefined)"
| "get_int (JBoolean b) = Inr (if b then 1 else 0)"
| "get_int j = not_a_number j"

text \<open>A range-based \<^verbatim>\<open>for\<close> over a value: a primitive value is its own only element.\<close>

fun iter_values :: "json \<Rightarrow> json list" where
  "iter_values JNull = []"
| "iter_values (JObject ms) = map snd ms"
| "iter_values (JArray xs) = xs"
| "iter_values j = [j]"

text \<open>Access to a member that is present does not change the container, whichever operator is used.\<close>

lemma at_insert_present:
  assumes "obj_ok ms" "map_of ms k = Some v"
  shows "at_insert k (JObject ms) = Inr (v, JObject ms)"
proof -
  have "obj_emplace k JNull ms = ms"
    using assms
  proof (induction k "JNull" ms rule: obj_emplace.induct)
    case (2 k l u ms)
    have "obj_ok ms" using 2(2) by (simp add: obj_ok_def)
    then show ?case using 2 map_of_smaller [OF 2(2), of k] by (auto split: if_splits)
  qed simp
  then show ?thesis using assms by (simp add: member_or_null_def)
qed

lemma insert_member:
  assumes "obj_ok ms"
  shows "\<exists>ms'. at_insert k (JObject ms) = Inr (member_or_null k ms, JObject ms')
           \<and> obj_ok ms' \<and> map_of ms' k = Some (member_or_null k ms)
           \<and> (\<forall>l. l \<noteq> k \<longrightarrow> map_of ms' l = map_of ms l)"
  using obj_emplace_ok [OF assms, of k JNull] map_of_obj_emplace [OF assms, of k JNull]
  by (auto simp: Let_def member_or_null_def split: option.split)

text \<open>\<^verbatim>\<open>operator[]\<close> on a mutable object never fails and never loses a member: it returns the member,
  or a null it inserts, and afterwards the key is present, every other key reads as before and the
  keys are still strictly ordered.\<close>

theorem at_insert_object:
  assumes "obj_ok ms"
  shows "\<exists>ms'. at_insert k (JObject ms) = Inr (member_or_null k ms, JObject ms')
           \<and> obj_ok ms' \<and> contains k (JObject ms')
           \<and> (\<forall>l. l \<noteq> k \<longrightarrow> map_of ms' l = map_of ms l)"
  using insert_member [OF assms, of k] by fastforce

theorem at_insert_object_witness:
  "\<exists>ms'. at_insert ''q'' (JObject [(''p'', JString ''1''), (''s'', JNull)]) = Inr (JNull, JObject ms')
     \<and> contains ''q'' (JObject ms')"
proof -
  have ok: "obj_ok [(''p'', JString ''1''), (''s'', JNull)]" by (simp add: obj_ok_def less_char_def)
  from at_insert_object [OF this, of "''q''"] show ?thesis by (auto simp: member_or_null_def)
qed

text \<open>The constant \<^verbatim>\<open>operator[]\<close>, which reading an array element goes through, ends the program exactly
  when the element is an object without the key; on anything but an object it throws.\<close>

theorem at_const_abort_iff:
  "at_const k j = Inl Abort \<longleftrightarrow> (\<exists>ms. j = JObject ms \<and> \<not> contains k j)"
  by (cases j) (auto simp: type_error_def split: option.split)

end
