(* ===== verification/FundingCache.thy ===== *)
theory FundingCache
  imports Interfaces F64_Real
begin

text \<open>
  \<^verbatim>\<open>src/utils/funding_cache.hpp\<close> and \<^verbatim>\<open>src/engine/synthetic_pricing.cpp\<close>: the funding rates by
  symbol and the funding-adjusted price.  Both methods hold the mutex for their whole body, so each
  is one atomic step on the map; the cache is an instance of the \<open>register\<close> interface.
  \<^verbatim>\<open>std::chrono::milliseconds\<close> is a signed 64-bit count.
\<close>

type_synonym millis = "64 word"

record funding_info =
  rate :: f64
  nextFundingTime :: millis

definition default_info :: funding_info where
  "default_info = \<lparr>rate = f64_zero False, nextFundingTime = 0\<rparr>"

record funding_cache =
  rates :: "string \<rightharpoonup> funding_info"

definition funding_cache_new :: funding_cache where
  "funding_cache_new = \<lparr>rates = Map.empty\<rparr>"

definition cache_update :: "string \<Rightarrow> f64 \<Rightarrow> millis \<Rightarrow> funding_cache \<Rightarrow> funding_cache" where
  "cache_update symb r next_time c =
     c\<lparr>rates := (rates c)(symb \<mapsto> \<lparr>rate = r, nextFundingTime = next_time\<rparr>)\<rparr>"

definition cache_get :: "string \<Rightarrow> funding_cache \<Rightarrow> funding_info" where
  "cache_get symb c = (case rates c symb of Some i \<Rightarrow> i | None \<Rightarrow> default_info)"

definition compute_synthetic_price :: "f64 \<Rightarrow> string \<Rightarrow> funding_cache \<Rightarrow> f64" where
  "compute_synthetic_price perp_price symb funding =
     (let info = cache_get symb funding
      in fmul perp_price (fsub (f64_dec 1 0) (rate info)))"

interpretation cache: register "\<lambda>symb (r, t). cache_update symb r t"
  "\<lambda>symb c. case cache_get symb c of info \<Rightarrow> (rate info, nextFundingTime info)" "\<lambda>_. True"
  by unfold_locales (auto simp: cache_update_def cache_get_def)

lemma one: "is_finite (f64_dec 1 0)" "fval (f64_dec 1 0) = 1" "f64_ok (f64_dec 1 0)"
  by (simp_all add: f64_eval power_int_def power_one_over)

subsection \<open>Properties\<close>

text \<open>Whatever the order of updates to the cache, \<open>get\<close> returns the rate and the time of the last
  update of that symbol, and the default (rate 0, time 0) for a symbol never updated.\<close>

theorem cache_get_last:
  "let i = cache_get symb (fold (\<lambda>(s, r, t). cache_update s r t) us funding_cache_new)
   in (rate i, nextFundingTime i) = (case last_write symb us of Some rt \<Rightarrow> rt | None \<Rightarrow> (fzero, 0))"
proof -
  have "cache_get symb funding_cache_new = default_info"
    by (simp add: cache_get_def funding_cache_new_def)
  then show ?thesis
    using cache.fetch_run [of symb us funding_cache_new]
    by (simp add: Let_def default_info_def split: option.split)
qed

text \<open>Without funding data the funding-adjusted price is the perpetual price itself; with a rate
  it is below the price exactly as the sign of the rate says (a non-negative rate never raises a
  non-negative price, a negative one never lowers it), for every finite price that stays finite.\<close>

theorem synthetic_price_funding:
  assumes p: "is_finite p" "f64_ok p" "0 \<le> fval p"
    and r: "is_finite (rate (cache_get symb c))" "f64_ok (rate (cache_get symb c))"
      "\<bar>fval (rate (cache_get symb c))\<bar> \<le> 1"
    and fin: "is_finite (compute_synthetic_price p symb c)"
  shows "(rates c symb = None \<longrightarrow> fval (compute_synthetic_price p symb c) = fval p)
         \<and> (0 \<le> fval (rate (cache_get symb c)) \<longrightarrow> fval (compute_synthetic_price p symb c) \<le> fval p)
         \<and> (fval (rate (cache_get symb c)) \<le> 0 \<longrightarrow> fval p \<le> fval (compute_synthetic_price p symb c))"
proof -
  let ?r = "rate (cache_get symb c)"
  let ?k = "fsub (f64_dec 1 0) ?r"
  have rr: "representable 1" "representable (fval p)"
    using f64_ok_representable one(2,3) p(2) by fastforce+
  have two: "representable 2" using representable_double [OF rr(1)] by simp
  have "0 \<le> rnd (1 - fval ?r)" "rnd (1 - fval ?r) \<le> 2"
    using r(3) ieee.round_nonneg ieee.round_le [OF two] by (simp_all add: abs_le_iff)
  moreover have "2 < f64_limit"
    using powi_mono [of 2 1024] unfolding f64_limit_def by (simp add: power_int_def)
  ultimately have k: "is_finite ?k" "fval ?k = rnd (1 - fval ?r)"
    using fsub_rounds [OF one(1) r(1)] one(2) by (auto simp: rounds_to_def)
  have v: "fval (compute_synthetic_price p symb c) = rnd (fval p * fval ?k)"
    using fmul_rounds [OF p(1) k(1)] fin rounds_to_finite
    unfolding compute_synthetic_price_def Let_def by blast
  have le: "fval ?k \<le> 1" if "0 \<le> fval ?r"
    unfolding k(2) using that by (intro ieee.round_le rr) simp
  have ge: "1 \<le> fval ?k" if "fval ?r \<le> 0"
    unfolding k(2) using that by (intro ieee.round_ge rr) simp
  have A: "rnd (fval p * fval ?k) \<le> fval p" if "0 \<le> fval ?r"
    using le [OF that] p(3) by (intro ieee.round_le rr) (simp add: mult_left_le)
  have B: "fval p \<le> rnd (fval p * fval ?k)" if "fval ?r \<le> 0"
    using ge [OF that] p(3) by (intro ieee.round_ge rr) (simp add: mult_le_cancel_left1)
  have "fval ?r = 0" if "rates c symb = None"
    using that by (simp add: cache_get_def default_info_def)
  with A B show ?thesis unfolding v by (metis order_antisym order_refl)
qed

theorem synthetic_price_funding_witness:
  "fval (compute_synthetic_price (f64_dec 2500 0) ''ETHUSDT''
           (cache_update ''ETHUSDT'' (f64_dec 1 4) 8 funding_cache_new)) \<le> fval (f64_dec 2500 0)"
  using synthetic_price_funding [of "f64_dec 2500 0" "''ETHUSDT''"
      "cache_update ''ETHUSDT'' (f64_dec 1 4) 8 funding_cache_new"]
  by (simp add: compute_synthetic_price_def cache_get_def cache_update_def f64_eval
      power_int_def power_one_over)

end
