(* ===== verification/Loggers.thy ===== *)
theory Loggers
  imports Ostream
begin

text \<open>
  The three CSV loggers: \<^verbatim>\<open>ArbLogger.hpp\<close>, \<^verbatim>\<open>MispricingLogger.hpp\<close> and
  \<^verbatim>\<open>SyntheticSnapshotLogger.hpp\<close>, and the part of the program state they live in.  Objects are
  reached through pointers in the program, so the state holds one total store per class, indexed
  by address; a pointer is an \<open>addr option\<close> with \<open>None\<close> for \<^verbatim>\<open>nullptr\<close>.  The result of
  \<^verbatim>\<open>tellp()\<close> after opening for append and the wall clock are arguments.
\<close>

abbreviation nl :: item where "nl \<equiv> S [CHR 0x0A]"
abbreviation comma :: item where "comma \<equiv> S '',''"

text \<open>UTF-8 bytes of the non-ASCII characters in the program's messages.\<close>

abbreviation delta_utf8 :: string where "delta_utf8 \<equiv> [CHR 0xCE, CHR 0x94]"
abbreviation increment_utf8 :: string where "increment_utf8 \<equiv> [CHR 0xE2, CHR 0x88, CHR 0x86]"
abbreviation plusminus_utf8 :: string where "plusminus_utf8 \<equiv> [CHR 0xC2, CHR 0xB1]"
abbreviation emdash_utf8 :: string where "emdash_utf8 \<equiv> [CHR 0xE2, CHR 0x80, CHR 0x94]"
abbreviation esc :: string where "esc \<equiv> [CHR 0x1B]"

subsection \<open>ArbLogger\<close>

record arb_logger =
  al_file :: ofstream

definition arb_header :: string where
  "arb_header =
     ''timestamp,type,real_price,synthetic_price,delta,net_pnl,count,cumulative_pnl,direction,size''"

definition arb_logger_new :: "bool \<Rightarrow> int \<Rightarrow> arb_logger" where
  "arb_logger_new opened tellp =
     \<lparr>al_file = (let f = open_ofstream opened
                 in if tellp = 0 then put [S arb_header, nl] f else f)\<rparr>"

definition log_items :: "int \<Rightarrow> string \<Rightarrow> f64 \<Rightarrow> f64 \<Rightarrow> f64 \<Rightarrow> item list" where
  "log_items now symbol real_px synth delta =
     [I now, comma, S symbol, comma, Fixed, Prec 8, D real_px, comma, D synth, comma, D delta,
      S '',,,,,'', nl]"

definition arb_log :: "int \<Rightarrow> string \<Rightarrow> f64 \<Rightarrow> f64 \<Rightarrow> f64 \<Rightarrow> arb_logger \<Rightarrow> arb_logger" where
  "arb_log now symbol real_px synth delta l =
     l\<lparr>al_file := put (log_items now symbol real_px synth delta) (al_file l)\<rparr>"

definition simulated_items ::
  "f64 \<Rightarrow> f64 \<Rightarrow> f64 \<Rightarrow> u64 \<Rightarrow> int \<Rightarrow> f64 \<Rightarrow> string \<Rightarrow> f64 \<Rightarrow> item list" where
  "simulated_items synthetic real_px net_pnl ts signal_count total_pnl direction sz =
     [U ts, S '',SimulatedTrade,'', Fixed, Prec 8, D real_px, comma, D synthetic, comma,
      D (fsub synthetic real_px), comma, D net_pnl, comma, I signal_count, comma, D total_pnl, comma,
      S direction, comma, D sz, nl]"

definition logSimulatedTrade ::
  "f64 \<Rightarrow> f64 \<Rightarrow> f64 \<Rightarrow> u64 \<Rightarrow> int \<Rightarrow> f64 \<Rightarrow> string \<Rightarrow> f64 \<Rightarrow> arb_logger \<Rightarrow> arb_logger" where
  "logSimulatedTrade synthetic real_px net_pnl ts signal_count total_pnl direction sz l =
     l\<lparr>al_file := put (simulated_items synthetic real_px net_pnl ts signal_count total_pnl
                         direction sz) (al_file l)\<rparr>"

subsection \<open>MispricingLogger\<close>

record mispricing_logger =
  ml_name :: string
  ml_threshold :: f64
  ml_logfile :: ofstream

definition mispricing_logger_new :: "bool \<Rightarrow> string \<Rightarrow> f64 \<Rightarrow> mispricing_logger" where
  "mispricing_logger_new opened name threshold =
     \<lparr>ml_name = name, ml_threshold = threshold,
      ml_logfile = put [S ''timestamp,synthetic_price,real_price,diff'', nl] (open_ofstream opened)\<rparr>"

definition mispricing_log ::
  "f64 \<Rightarrow> f64 \<Rightarrow> u64 \<Rightarrow> mispricing_logger \<Rightarrow> 'a ostream_scheme
     \<Rightarrow> mispricing_logger \<times> 'a ostream_scheme" where
  "mispricing_log synthetic_price real_price ts l cout =
     (let diff = fsub synthetic_price real_price;
          l' = l\<lparr>ml_logfile := put [U ts, comma, D synthetic_price, comma, D real_price, comma,
                                    D diff, nl] (ml_logfile l)\<rparr>
      in if fle (ml_threshold l) (fabs diff)
         then (l', put [S ''  [Mispricing Alert] '', S (ml_name l),
                        S ('': '' @ increment_utf8 @ '' = ''), D diff, nl] cout)
         else (l', cout))"

subsection \<open>SyntheticSnapshotLogger\<close>

record snapshot_logger =
  sl_out :: ofstream

definition snapshot_logger_new :: "bool \<Rightarrow> snapshot_logger" where
  "snapshot_logger_new opened =
     \<lparr>sl_out = put [S ''timestamp,ethbtc,btcusdt,real_ethusdt,synthetic_ethusdt,diff'', nl]
                 (open_ofstream opened)\<rparr>"

definition snapshot_write ::
  "u64 \<Rightarrow> f64 \<Rightarrow> f64 \<Rightarrow> f64 \<Rightarrow> f64 \<Rightarrow> snapshot_logger \<Rightarrow> snapshot_logger" where
  "snapshot_write ts ethbtc btcusdt real_eth synthetic_eth l =
     (let diff = fsub synthetic_eth real_eth
      in l\<lparr>sl_out := put [U ts, comma, D ethbtc, comma, D btcusdt, comma, D real_eth, comma,
                          D synthetic_eth, comma, D diff, nl] (sl_out l)\<rparr>)"

subsection \<open>The state the loggers are part of\<close>

record io_state =
  cout :: ostream
  cerr :: ostream
  files :: "addr \<Rightarrow> ofstream"
  arb_loggers :: "addr \<Rightarrow> arb_logger"
  mispricing_loggers :: "addr \<Rightarrow> mispricing_logger"
  snapshot_loggers :: "addr \<Rightarrow> snapshot_logger"

text \<open>A state with nothing attached and nothing written, for concrete examples.\<close>

definition blank_io :: io_state where
  "blank_io =
     \<lparr>cout = new_ostream, cerr = new_ostream, files = (\<lambda>_. open_ofstream True),
      arb_loggers = (\<lambda>_. arb_logger_new True 0),
      mispricing_loggers = (\<lambda>_. mispricing_logger_new True '''' (f64_zero False)),
      snapshot_loggers = (\<lambda>_. snapshot_logger_new True)\<rparr>"

definition print_out :: "item list \<Rightarrow> 'a io_state_scheme \<Rightarrow> 'a io_state_scheme" where
  "print_out is w = w\<lparr>cout := put is (cout w)\<rparr>"

definition print_err :: "item list \<Rightarrow> 'a io_state_scheme \<Rightarrow> 'a io_state_scheme" where
  "print_err is w = w\<lparr>cerr := put is (cerr w)\<rparr>"

definition log_mispricing ::
  "addr option \<Rightarrow> f64 \<Rightarrow> f64 \<Rightarrow> u64 \<Rightarrow> 'a io_state_scheme \<Rightarrow> 'a io_state_scheme" where
  "log_mispricing p synthetic_price real_price ts w =
     (case p of
        None \<Rightarrow> w
      | Some a \<Rightarrow>
          (let (l, out) = mispricing_log synthetic_price real_price ts
                            (mispricing_loggers w a) (cout w)
           in w\<lparr>mispricing_loggers := (mispricing_loggers w)(a := l), cout := out\<rparr>))"

definition log_snapshot ::
  "addr option \<Rightarrow> u64 \<Rightarrow> f64 \<Rightarrow> f64 \<Rightarrow> f64 \<Rightarrow> f64 \<Rightarrow> 'a io_state_scheme \<Rightarrow> 'a io_state_scheme" where
  "log_snapshot p ts ethbtc btcusdt real_eth synthetic_eth w =
     (case p of
        None \<Rightarrow> w
      | Some a \<Rightarrow>
          w\<lparr>snapshot_loggers := (snapshot_loggers w)
              (a := snapshot_write ts ethbtc btcusdt real_eth synthetic_eth (snapshot_loggers w a))\<rparr>)"

text \<open>Printing and logging leave the rest of the state alone.\<close>

lemma print_frame [frame_rules, simp]:
  "files (print_out is w) = files w" "files (print_err is w) = files w"
  "arb_loggers (print_out is w) = arb_loggers w" "arb_loggers (print_err is w) = arb_loggers w"
  "mispricing_loggers (print_out is w) = mispricing_loggers w"
  "mispricing_loggers (print_err is w) = mispricing_loggers w"
  "snapshot_loggers (print_out is w) = snapshot_loggers w"
  "snapshot_loggers (print_err is w) = snapshot_loggers w"
  "cerr (print_out is w) = cerr w" "cout (print_err is w) = cout w"
  "io_state.more (print_out is w) = io_state.more w"
  "io_state.more (print_err is w) = io_state.more w"
  by (simp_all add: print_out_def print_err_def)

lemma log_frame [frame_rules, simp]:
  "files (log_mispricing p s r ts w) = files w" "files (log_snapshot p ts eb bu re se w) = files w"
  "arb_loggers (log_mispricing p s r ts w) = arb_loggers w"
  "arb_loggers (log_snapshot p ts eb bu re se w) = arb_loggers w"
  "snapshot_loggers (log_mispricing p s r ts w) = snapshot_loggers w"
  "mispricing_loggers (log_snapshot p ts eb bu re se w) = mispricing_loggers w"
  "cerr (log_mispricing p s r ts w) = cerr w" "cerr (log_snapshot p ts eb bu re se w) = cerr w"
  "cout (log_snapshot p ts eb bu re se w) = cout w"
  "io_state.more (log_mispricing p s r ts w) = io_state.more w"
  "io_state.more (log_snapshot p ts eb bu re se w) = io_state.more w"
  by (simp_all add: log_mispricing_def log_snapshot_def split: option.split prod.split)

subsection \<open>The CSV interface\<close>

text \<open>
  A CSV log is a stream whose rows are written by one operation.  Given that what is written is a
  line of clean fields, the fields are read back from the row: the locale holds the argument, the
  loggers are its interpretations.
\<close>

locale csv_row =
  fixes items :: "'r \<Rightarrow> item list" and cells :: "bool \<Rightarrow> nat \<Rightarrow> 'r \<Rightarrow> string list"
    and wf :: "'r \<Rightarrow> bool" and width :: nat
  assumes row_text: "render fx p (items r) = concat (map (\<lambda>c. c @ '','') (butlast (cells fx p r)))
                       @ last (cells fx p r) @ [CHR 0x0A]"
    and row_clean: "wf r \<Longrightarrow> \<forall>c \<in> set (cells fx p r). clean c"
    and row_width: "length (cells fx p r) = width"
    and width_pos: "0 < width"
begin

lemma split_join:
  "\<forall>c \<in> set cs. clean c \<Longrightarrow> clean l \<Longrightarrow>
   csv_fields (concat (map (\<lambda>c. c @ '','') cs) @ l) = cs @ [l]"
  by (induction cs) (simp_all add: split_on_clean)

lemma join_no_newline:
  "\<forall>c \<in> set cs. clean c \<Longrightarrow> CHR 0x0A \<notin> set (concat (map (\<lambda>c. c @ '','') cs))"
  by (auto simp: clean_def)

lemma row_fields:
  assumes "wf r"
  shows "\<exists>line. render fx p (items r) = line @ [CHR 0x0A] \<and> CHR 0x0A \<notin> set line
           \<and> csv_fields line = cells fx p r \<and> length (csv_fields line) = width"
proof -
  let ?cs = "cells fx p r"
  have ne: "?cs \<noteq> []" using row_width [of fx p r] width_pos by auto
  have cl: "\<forall>c \<in> set (butlast ?cs). clean c" "clean (last ?cs)"
    using row_clean [OF assms, of fx p] ne in_set_butlastD by fastforce+
  let ?line = "concat (map (\<lambda>c. c @ '','') (butlast ?cs)) @ last ?cs"
  have "csv_fields ?line = ?cs" using split_join [OF cl] ne by simp
  moreover have "CHR 0x0A \<notin> set ?line"
    using join_no_newline [OF cl(1)] cl(2) by (auto simp: clean_def)
  ultimately show ?thesis using row_text [of fx p r] row_width [of fx p r] by auto
qed

text \<open>The row appended to a good stream reads back as one line with these fields.\<close>

lemma put_row:
  assumes "wf r" "ogood os"
  shows "\<exists>line. otext (put (items r) os) = otext os @ line @ [CHR 0x0A] \<and> CHR 0x0A \<notin> set line
           \<and> csv_fields line = cells (ofixed os) (oprec os) r \<and> length (csv_fields line) = width"
  using row_fields [OF assms(1), of "ofixed os" "oprec os"] otext_put [OF assms(2), of "items r"]
  by auto

end

subsection \<open>The rows of the three logs\<close>

abbreviation fix8 :: "f64 \<Rightarrow> string" where
  "fix8 x \<equiv> f64_str True 8 x"

definition log_cells :: "int \<Rightarrow> string \<Rightarrow> f64 \<Rightarrow> f64 \<Rightarrow> f64 \<Rightarrow> string list" where
  "log_cells now symbol real_px synth delta =
     [int_str now, symbol, fix8 real_px, fix8 synth, fix8 delta, '''', '''', '''', '''', '''']"

definition simulated_cells ::
  "f64 \<Rightarrow> f64 \<Rightarrow> f64 \<Rightarrow> u64 \<Rightarrow> int \<Rightarrow> f64 \<Rightarrow> string \<Rightarrow> f64 \<Rightarrow> string list" where
  "simulated_cells synthetic real_px net_pnl ts signal_count total_pnl direction sz =
     [nat_str (unat ts), ''SimulatedTrade'', fix8 real_px, fix8 synthetic, fix8 (fsub synthetic real_px),
      fix8 net_pnl, int_str signal_count, fix8 total_pnl, direction, fix8 sz]"

interpretation arb_rows: csv_row
  "\<lambda>(now, symbol, real_px, synth, delta). log_items now symbol real_px synth delta"
  "\<lambda>fx p (now, symbol, real_px, synth, delta). log_cells now symbol real_px synth delta"
  "\<lambda>(now, symbol, real_px, synth, delta). clean symbol" 10
  by unfold_locales (auto simp: log_items_def log_cells_def)

interpretation simulated_rows: csv_row
  "\<lambda>(sy, re, net, ts, n, tot, dir, sz). simulated_items sy re net ts n tot dir sz"
  "\<lambda>fx p (sy, re, net, ts, n, tot, dir, sz). simulated_cells sy re net ts n tot dir sz"
  "\<lambda>(sy, re, net, ts, n, tot, dir, sz). clean dir" 10
  by unfold_locales (auto simp: simulated_items_def simulated_cells_def)

lemma header_fields: "length (csv_fields arb_header) = 10"
  by (simp add: arb_header_def)

text \<open>The rows of the mispricing and the snapshot log are written in the stream's current format.\<close>

definition mispricing_items :: "u64 \<times> f64 \<times> f64 \<Rightarrow> item list" where
  "mispricing_items =
     (\<lambda>(ts, synthetic_price, real_price).
        [U ts, comma, D synthetic_price, comma, D real_price, comma,
         D (fsub synthetic_price real_price), nl])"

definition mispricing_cells :: "bool \<Rightarrow> nat \<Rightarrow> u64 \<times> f64 \<times> f64 \<Rightarrow> string list" where
  "mispricing_cells fx p =
     (\<lambda>(ts, synthetic_price, real_price).
        [nat_str (unat ts), f64_str fx p synthetic_price, f64_str fx p real_price,
         f64_str fx p (fsub synthetic_price real_price)])"

interpretation mispricing_rows: csv_row mispricing_items mispricing_cells "\<lambda>_. True" 4
  by unfold_locales (auto simp: mispricing_items_def mispricing_cells_def)

lemma mispricing_log_file:
  "ml_logfile (fst (mispricing_log sp rp ts l os)) = put (mispricing_items (ts, sp, rp)) (ml_logfile l)"
  by (simp add: mispricing_log_def Let_def mispricing_items_def)

lemma log_mispricing_file:
  "ml_logfile (mispricing_loggers (log_mispricing (Some a) sp rp ts w) a) =
     put (mispricing_items (ts, sp, rp)) (ml_logfile (mispricing_loggers w a))"
  using mispricing_log_file [of sp rp ts "mispricing_loggers w a" "cout w"]
  by (cases "mispricing_log sp rp ts (mispricing_loggers w a) (cout w)") (simp add: log_mispricing_def)

end
