(* ===== verification/TradeTick.thy ===== *)
theory TradeTick
  imports F64_Real
begin

text \<open>\<^verbatim>\<open>TradeTick.hpp\<close>: one trade as the feeds deliver it.\<close>

record trade_tick =
  tk_symbol :: string
  tk_price :: f64
  tk_quantity :: f64
  tk_timestamp :: u64

definition new_tick :: trade_tick where
  "new_tick = \<lparr>tk_symbol = '''', tk_price = f64_zero False, tk_quantity = f64_zero False,
               tk_timestamp = 0\<rparr>"

end
