(* ===== verification/Feeds.thy ===== *)
theory Feeds
  imports Json FundingCache Loggers TradeTick
begin

text \<open>
  The message handlers of the two feeds outside \<^verbatim>\<open>main.cpp\<close>: \<^verbatim>\<open>run_bybit_stream\<close>
  (\<^verbatim>\<open>bybit_clean.cpp\<close>) and \<^verbatim>\<open>start_binance_funding_ws\<close> (\<^verbatim>\<open>feeds/binance_funding_ws.cpp\<close>).  A handler
  takes the result of \<^verbatim>\<open>json::parse\<close> on the payload; it returns the new state, or the fault that ends
  the program: exceptions are caught and printed, a failed assertion and undefined behaviour are not.
\<close>

subsection \<open>Reading fields\<close>

text \<open>\<^verbatim>\<open>e[k].is_string() ? std::stod(e[k].get<std::string>()) : e[k].get<double>()\<close>\<close>

definition number_of :: "json \<Rightarrow> f64 outcome" where
  "number_of j = (if is_string j then bindE (get_string j) stod else get_double j)"

definition stamp_of :: "json \<Rightarrow> u64 outcome" where
  "stamp_of j = (if is_string j then bindE (get_string j) stoull else get_uint64 j)"

definition double_at :: "string \<Rightarrow> json \<Rightarrow> f64 outcome" where
  "double_at k j = bindE (at_const k j) number_of"

definition stamp_at :: "string \<Rightarrow> json \<Rightarrow> u64 outcome" where
  "stamp_at k j = bindE (at_const k j) stamp_of"

text \<open>A tick as both array loops read it: symbol, price, quantity (member \<^verbatim>\<open>v\<close>), time stamp.\<close>

definition entry_tick :: "json \<Rightarrow> trade_tick outcome" where
  "entry_tick e =
     bindE (bindE (at_const ''s'' e) get_string) (\<lambda>symb.
     bindE (double_at ''p'' e) (\<lambda>price.
     bindE (double_at ''v'' e) (\<lambda>quantity.
     bindE (stamp_at ''T'' e) (\<lambda>timestamp.
       Inr \<lparr>tk_symbol = symb, tk_price = price, tk_quantity = quantity, tk_timestamp = timestamp\<rparr>))))"

subsection \<open>The Bybit feed\<close>

text \<open>The open handler subscribes; \<open>sent\<close> collects the text frames handed to the socket.\<close>

definition bybit_subscription :: json where
  "bybit_subscription =
     JObject [(''args'', JArray [JString ''publicTrade.BTCUSDT'', JString ''publicTrade.ETHUSDT'']),
              (''op'', JString ''subscribe'')]"

definition bybit_open ::
  "(json \<Rightarrow> string) \<Rightarrow> 'a io_state_scheme \<times> string list \<Rightarrow> 'a io_state_scheme \<times> string list" where
  "bybit_open dump =
     (\<lambda>(w, sent). (print_out [S ''[Bybit]  Connected'', nl] w, sent @ [dump bybit_subscription]))"

text \<open>The loop body builds a tick and drops it.\<close>

primrec bybit_entries :: "json list \<Rightarrow> unit outcome" where
  "bybit_entries [] = Inr ()"
| "bybit_entries (e # es) = bindE (entry_tick e) (\<lambda>tick. bybit_entries es)"

definition bybit_body :: "json outcome \<Rightarrow> unit outcome" where
  "bybit_body parsed =
     bindE parsed (\<lambda>payload.
       if \<not> contains ''data'' payload then Inr ()
       else bindE (at_insert ''data'' payload) (\<lambda>(d, payload'). bybit_entries (iter_values d)))"

text \<open>\<open>callback\<close> is the function \<^verbatim>\<open>main\<close> passes in; the state is any state with the console in it.\<close>

definition bybit_message ::
  "(trade_tick \<Rightarrow> 'a io_state_scheme \<Rightarrow> 'a io_state_scheme) \<Rightarrow> json outcome \<Rightarrow> 'a io_state_scheme
     \<Rightarrow> 'a io_state_scheme outcome" where
  "bybit_message callback parsed w =
     (case bybit_body parsed of
        Inr u \<Rightarrow> Inr w
      | Inl (Throw what) \<Rightarrow> Inr (print_err [S ''[Bybit parse error] '', S what, nl] w)
      | Inl f \<Rightarrow> Inl f)"

subsection \<open>The funding feed\<close>

definition ws_url :: "string \<Rightarrow> string" where
  "ws_url symb = ''wss://fstream.binance.com/ws/'' @ map c_tolower symb @ ''@funding@1s''"

definition funding_fields :: "json \<Rightarrow> (f64 \<times> 32 word) outcome" where
  "funding_fields j =
     bindE (bindE (value_or ''r'' get_string ''0'' j) stod) (\<lambda>r.
     bindE (value_or ''T'' get_int 0 j) (\<lambda>t. Inr (r, t)))"

definition funding_message ::
  "string \<Rightarrow> json outcome \<Rightarrow> funding_cache \<Rightarrow> 'a io_state_scheme
     \<Rightarrow> (funding_cache \<times> 'a io_state_scheme) outcome" where
  "funding_message symb parsed c w =
     (case bindE parsed funding_fields of
        Inr (r, t) \<Rightarrow>
          (let timestamp = (scast t :: u64)
           in Inr (cache_update symb r timestamp c,
                   print_out [S ''[Funding] '', S symb, S '': '', D r, S '' @ '', I (sint timestamp), nl] w))
      | Inl (Throw what) \<Rightarrow> Inr (c, print_err [S ''[Funding] Parse error'', nl] w)
      | Inl f \<Rightarrow> Inl f)"

subsection \<open>Properties\<close>



lemma low_half:
  "(scast (ucast (w :: u64) :: 32 word) :: u64) = word_of_int ((uint w + 2 ^ 31) mod 2 ^ 32 - 2 ^ 31)"
proof -
  have "sint (ucast w :: 32 word) = signed_take_bit 31 (uint w)"
    by (simp add: signed_ucast_eq)
  also have "\<dots> = (uint w + 2 ^ 31) mod 2 ^ 32 - 2 ^ 31"
    by (simp add: signed_take_bit_eq_take_bit_shift take_bit_eq_mod)
  finally show ?thesis by (simp add: scast_eq)
qed

lemma low_half_eq_iff:
  "(scast (ucast (w :: u64) :: 32 word) :: u64) = w \<longleftrightarrow> unat w < 2 ^ 31 \<or> 2 ^ 64 - 2 ^ 31 \<le> unat w"
proof -
  let ?k = "uint w"
  let ?v = "(?k + 2 ^ 31) mod 2 ^ 32 - 2 ^ 31"
  have k: "0 \<le> ?k" "?k < 2 ^ 64" using unsigned_less [of w, where 'a = int] by simp_all
  have v: "- (2 ^ 31) \<le> ?v" "?v < 2 ^ 31"
    using pos_mod_bound [of "2 ^ 32" "?k + 2 ^ 31"] pos_mod_sign [of "2 ^ 32" "?k + 2 ^ 31"] by simp_all
  have eq: "(scast (ucast w :: 32 word) :: u64) = w \<longleftrightarrow> ?v mod 2 ^ 64 = ?k"
  proof -
    have "word_of_int v = w \<longleftrightarrow> v mod 2 ^ 64 = ?k" for v :: int
      by (simp add: word_uint_eq_iff uint_word_of_int take_bit_eq_mod)
    then show ?thesis unfolding low_half .
  qed
  have "?v mod 2 ^ 64 = (if ?v < 0 then ?v + 2 ^ 64 else ?v)"
  proof (cases "?v < 0")
    case True
    have "?v mod 2 ^ 64 = (?v + 2 ^ 64) mod 2 ^ 64" by (rule mod_add_self2 [symmetric])
    also have "\<dots> = ?v + 2 ^ 64" using v True by (intro mod_pos_pos_trivial) simp_all
    finally show ?thesis using True by simp
  next
    case False
    then show ?thesis using v by (simp add: mod_pos_pos_trivial)
  qed
  moreover have "?v = ?k" if "?k < 2 ^ 31"
  proof -
    have "(?k + 2 ^ 31) mod 2 ^ 32 = ?k + 2 ^ 31" using that k by (intro mod_pos_pos_trivial) simp_all
    then show ?thesis by simp
  qed
  moreover have "?v = ?k - 2 ^ 64" if "2 ^ 64 - 2 ^ 31 \<le> ?k"
  proof -
    have "(?k + 2 ^ 31) mod 2 ^ 32 = (?k + 2 ^ 31 - 2 ^ 64 + 2 ^ 32 * 2 ^ 32) mod 2 ^ 32"
      by (simp add: add.commute)
    also have "\<dots> = (?k + 2 ^ 31 - 2 ^ 64) mod 2 ^ 32" by (rule mod_mult_self2)
    also have "\<dots> = ?k + 2 ^ 31 - 2 ^ 64" using that k by (intro mod_pos_pos_trivial) simp_all
    finally show ?thesis by simp
  qed
  ultimately have "?v mod 2 ^ 64 = ?k \<longleftrightarrow> ?k < 2 ^ 31 \<or> 2 ^ 64 - 2 ^ 31 \<le> ?k"
    using v k by (smt (verit))
  moreover have "?k < 2 ^ 31 \<longleftrightarrow> unat w < 2 ^ 31" "2 ^ 64 - 2 ^ 31 \<le> ?k \<longleftrightarrow> 2 ^ 64 - 2 ^ 31 \<le> unat w"
  proof -
    have int_nat: "int n < 2 ^ 31 \<longleftrightarrow> n < 2 ^ 31" "2 ^ 64 - 2 ^ 31 \<le> int n \<longleftrightarrow> 2 ^ 64 - 2 ^ 31 \<le> n" for n :: nat
      by simp_all
    show "?k < 2 ^ 31 \<longleftrightarrow> unat w < 2 ^ 31" "2 ^ 64 - 2 ^ 31 \<le> ?k \<longleftrightarrow> 2 ^ 64 - 2 ^ 31 \<le> unat w"
      using int_nat [of "unat w"] by (simp_all only: uint_nat)
  qed
  ultimately show ?thesis using eq by simp
qed

text \<open>The next funding time is read through a 32-bit \<^verbatim>\<open>int\<close>: a message with an unsigned \<^verbatim>\<open>T\<close> stores
  the time itself exactly when it is below \<open>2 ^ 31\<close> (or in the top \<open>2 ^ 31\<close> values), so no
  present-day millisecond time stamp is stored as sent.  The rate is stored as parsed.\<close>

theorem funding_time_truncated:
  assumes "map_of ms ''r'' = Some (JString r)" "stod r = Inr x" "map_of ms ''T'' = Some (JUnsigned t)"
  shows "\<exists>c' w'. funding_message symb (Inr (JObject ms)) c w = Inr (c', w')
           \<and> rate (cache_get symb c') = x
           \<and> (nextFundingTime (cache_get symb c') = t \<longleftrightarrow> unat t < 2 ^ 31 \<or> 2 ^ 64 - 2 ^ 31 \<le> unat t)"
  using assms low_half_eq_iff [of t]
  by (simp add: funding_message_def funding_fields_def Let_def cache_get_def cache_update_def)

theorem funding_time_truncated_witness:
  "\<exists>c' w'. funding_message ''BTCUSDT'' (Inr (JObject [(''T'', JUnsigned 1700000000000), (''r'', JString ''0'')]))
       funding_cache_new blank_io = Inr (c', w') \<and> nextFundingTime (cache_get ''BTCUSDT'' c') \<noteq> 1700000000000"
proof -
  have s: "stod ''0'' = Inr (f64_zero False)"
    using strtod_nat_str [of 0]
    by (simp add: nat_str_numeral stod_def convert_frac_def frac_exact_def f64_eval)
  from funding_time_truncated [OF _ s, of "[(''T'', JUnsigned 1700000000000), (''r'', JString ''0'')]"
      1700000000000 "''BTCUSDT''" funding_cache_new blank_io]
  show ?thesis by fastforce
qed

text \<open>A message that carries neither field, such as a reply to a command, resets the cached funding
  of the symbol to rate 0 at time 0; a message that is not an object leaves the cache alone.\<close>

theorem funding_missing_fields:
  "(map_of ms ''r'' = None \<and> map_of ms ''T'' = None \<longrightarrow>
     (\<exists>w'. funding_message symb (Inr (JObject ms)) c w
        = Inr (c\<lparr>rates := (rates c)(symb \<mapsto> default_info)\<rparr>, w')))
   \<and> ((\<forall>ms. j \<noteq> JObject ms) \<longrightarrow>
     funding_message symb (Inr j) c w = Inr (c, print_err [S ''[Funding] Parse error'', nl] w))"
proof -
  have "stod ''0'' = Inr (f64_zero False)"
    using strtod_nat_str [of 0]
    by (simp add: nat_str_numeral stod_def convert_frac_def frac_exact_def f64_eval)
  moreover have "(\<forall>ms. j \<noteq> JObject ms) \<Longrightarrow> \<exists>what. funding_fields j = Inl (Throw what)"
    by (cases j) (auto simp: funding_fields_def type_error_def)
  ultimately show ?thesis
    by (auto simp: funding_message_def funding_fields_def Let_def cache_update_def default_info_def)
qed

theorem funding_missing_fields_witness:
  "\<exists>w'. funding_message ''BTCUSDT'' (Inr (JObject [(''id'', JUnsigned 1)])) funding_cache_new blank_io
     = Inr (funding_cache_new\<lparr>rates := (rates funding_cache_new)(''BTCUSDT'' \<mapsto> default_info)\<rparr>, w')"
  using funding_missing_fields [of "[(''id'', JUnsigned 1)]" "''BTCUSDT''" funding_cache_new blank_io JNull]
  by simp

end
