(* ===== verification/MockPnL.thy ===== *)
theory MockPnL
  imports Loggers
begin

text \<open>
  \<^verbatim>\<open>MockPnLEngine.hpp\<close>: the simulated trades, their profit and loss, and the two logs a trade is
  written to.  \<open>recordTrade\<close> is the whole method, in the order of its statements; what it computes
  from the prices (size and profit of a trade) is split off as \<open>trade_size\<close> and \<open>trade_pnl\<close>.
  \<open>pnl_inv\<close> ties the engine's counters to the list of trades.
\<close>

record simulated_trade =
  st_symbol :: string
  st_entry_price :: f64
  st_exit_price :: f64
  st_direction :: string
  st_size :: f64
  st_pnl :: f64
  st_timestamp :: u64

record mock_pnl =
  trades :: "simulated_trade list"
  total_pnl :: f64
  max_observed_exposure :: f64
  max_exposure :: f64
  external_log :: "addr option"
  arb_logger_ptr :: "addr option"
  pnl_series :: "f64 list"

definition mock_pnl_new :: "f64 \<Rightarrow> mock_pnl" where
  "mock_pnl_new limit =
     \<lparr>trades = [], total_pnl = f64_zero False, max_observed_exposure = f64_zero False,
      max_exposure = limit, external_log = None, arb_logger_ptr = None, pnl_series = []\<rparr>"

record pnl_state = io_state +
  pnl_engines :: "addr \<Rightarrow> mock_pnl"

subsection \<open>recordTrade\<close>

definition trade_size :: "f64 \<Rightarrow> f64 \<Rightarrow> f64 \<Rightarrow> f64" where
  "trade_size limit synthetic_price real_price =
     (let spread = fabs (fsub real_price synthetic_price);
          edge = fdiv spread real_price
      in fmin (fmul edge (f64_dec 100 0)) limit)"

definition trade_pnl :: "f64 \<Rightarrow> f64 \<Rightarrow> f64 \<Rightarrow> string \<Rightarrow> f64" where
  "trade_pnl sz synthetic_price real_price direction =
     (if direction = ''BUY''
      then fmul (fsub real_price synthetic_price) (fdiv sz real_price)
      else fmul (fsub synthetic_price real_price) (fdiv sz real_price))"

definition make_trade ::
  "mock_pnl \<Rightarrow> string \<Rightarrow> f64 \<Rightarrow> f64 \<Rightarrow> u64 \<Rightarrow> string \<Rightarrow> simulated_trade" where
  "make_trade e symb synthetic_price real_price timestamp direction =
     (let sz = trade_size (max_exposure e) synthetic_price real_price
      in \<lparr>st_symbol = symb, st_entry_price = synthetic_price, st_exit_price = real_price,
          st_direction = direction, st_size = sz,
          st_pnl = trade_pnl sz synthetic_price real_price direction, st_timestamp = timestamp\<rparr>)"

definition book_trade :: "simulated_trade \<Rightarrow> mock_pnl \<Rightarrow> mock_pnl" where
  "book_trade t e =
     e\<lparr>trades := trades e @ [t],
       total_pnl := fadd (total_pnl e) (st_pnl t),
       max_observed_exposure := fmax (max_observed_exposure e) (st_size t)\<rparr>"

definition external_items :: "simulated_trade \<Rightarrow> item list" where
  "external_items t =
     [U (st_timestamp t), comma, S (st_symbol t), comma, S (st_direction t), comma, Fixed, Prec 8,
      D (st_entry_price t), comma, D (st_exit_price t), comma, D (st_size t), comma,
      D (st_pnl t), nl]"

definition write_external :: "addr option \<Rightarrow> simulated_trade \<Rightarrow> 'a io_state_scheme \<Rightarrow> 'a io_state_scheme" where
  "write_external p t w =
     (case p of
        None \<Rightarrow> w
      | Some a \<Rightarrow>
          if is_open (files w a)
          then w\<lparr>files := (files w)(a := put (external_items t) (files w a))\<rparr> else w)"

text \<open>\<^verbatim>\<open>trades.size()\<close> is passed as an \<^verbatim>\<open>int\<close>: its low 32 bits, read as signed.\<close>

definition int_of_size :: "nat \<Rightarrow> int" where
  "int_of_size n = sint (word_of_nat n :: 32 word)"

definition write_arb_logger ::
  "addr option \<Rightarrow> simulated_trade \<Rightarrow> nat \<Rightarrow> f64 \<Rightarrow> 'a io_state_scheme \<Rightarrow> 'a io_state_scheme" where
  "write_arb_logger p t n tot w =
     (case p of
        None \<Rightarrow> w
      | Some a \<Rightarrow>
          w\<lparr>arb_loggers := (arb_loggers w)
              (a := logSimulatedTrade (st_entry_price t) (st_exit_price t) (st_pnl t)
                      (st_timestamp t) (int_of_size n) tot (st_direction t) (st_size t)
                      (arb_loggers w a))\<rparr>)"

definition recordTrade ::
  "addr \<Rightarrow> string \<Rightarrow> f64 \<Rightarrow> f64 \<Rightarrow> u64 \<Rightarrow> string \<Rightarrow> 'a pnl_state_scheme \<Rightarrow> 'a pnl_state_scheme" where
  "recordTrade this symb synthetic_price real_price timestamp direction w =
     (let e = pnl_engines w this;
          t = make_trade e symb synthetic_price real_price timestamp direction;
          e1 = book_trade t e;
          w1 = write_external (external_log e1) t w;
          w2 = write_arb_logger (arb_logger_ptr e1) t (length (trades e1)) (total_pnl e1) w1;
          e2 = e1\<lparr>pnl_series := pnl_series e1 @ [st_pnl t]\<rparr>
      in w2\<lparr>pnl_engines := (pnl_engines w2)(this := e2)\<rparr>)"

definition getPnL :: "mock_pnl \<Rightarrow> f64" where
  "getPnL e = total_pnl e"

definition getCount :: "mock_pnl \<Rightarrow> nat" where
  "getCount e = length (trades e)"

definition getMaxExposure :: "mock_pnl \<Rightarrow> f64" where
  "getMaxExposure e = max_observed_exposure e"

definition attachLogger_stream :: "addr \<Rightarrow> mock_pnl \<Rightarrow> mock_pnl" where
  "attachLogger_stream p e = e\<lparr>external_log := Some p\<rparr>"

definition attachLogger_arb :: "addr \<Rightarrow> mock_pnl \<Rightarrow> mock_pnl" where
  "attachLogger_arb p e = e\<lparr>arb_logger_ptr := Some p\<rparr>"

text \<open>
  \<^verbatim>\<open>std::pow\<close> is not correctly rounded, so it is a parameter \<open>pw\<close>.  \<open>window\<close> is a \<^verbatim>\<open>std::size_t\<close>.
\<close>

definition rollingStdDev :: "(f64 \<Rightarrow> f64 \<Rightarrow> f64) \<Rightarrow> nat \<Rightarrow> mock_pnl \<Rightarrow> f64" where
  "rollingStdDev pw window e =
     (if length (pnl_series e) < window then f64_zero False
      else let xs = takeLast window (pnl_series e);
               mean = fdiv (accumulate xs) (f64_of_nat window);
               sm = foldl (\<lambda>acc x. fadd acc (pw (fsub x mean) (f64_of_nat 2))) (f64_zero False) xs
           in fsqrt (fdiv sm (f64_of_nat window)))"

lemma recordTrade_frame [frame_rules, simp]:
  "cout (recordTrade a symb sp rp ts d w) = cout w"
  "cerr (recordTrade a symb sp rp ts d w) = cerr w"
  "mispricing_loggers (recordTrade a symb sp rp ts d w) = mispricing_loggers w"
  "snapshot_loggers (recordTrade a symb sp rp ts d w) = snapshot_loggers w"
  "pnl_state.more (recordTrade a symb sp rp ts d w) = pnl_state.more w"
  by (simp_all add: recordTrade_def Let_def write_external_def write_arb_logger_def
        split: option.split)

lemma recordTrade_engine:
  "pnl_engines (recordTrade a symb sp rp ts d w) a =
     (let e = pnl_engines w a; t = make_trade e symb sp rp ts d
      in (book_trade t e)\<lparr>pnl_series := pnl_series e @ [st_pnl t]\<rparr>)"
  by (simp add: recordTrade_def Let_def book_trade_def)

lemma recordTrade_other:
  "b \<noteq> a \<Longrightarrow> pnl_engines (recordTrade a symb sp rp ts d w) b = pnl_engines w b"
  by (simp add: recordTrade_def Let_def write_external_def write_arb_logger_def split: option.split)

subsection \<open>The engine's invariant\<close>

definition pnl_inv :: "mock_pnl \<Rightarrow> bool" where
  "pnl_inv e \<longleftrightarrow>
     pnl_series e = map st_pnl (trades e)
     \<and> total_pnl e = accumulate (map st_pnl (trades e))
     \<and> max_observed_exposure e = foldl fmax (f64_zero False) (map st_size (trades e))
     \<and> (\<forall>t \<in> set (trades e). \<not> flt (max_exposure e) (st_size t))"

lemma trade_size_le: "\<not> flt limit (trade_size limit sp rp)"
  by (simp add: trade_size_def Let_def fmin_def)

lemma pnl_inv_new: "pnl_inv (mock_pnl_new limit)"
  by (simp add: pnl_inv_def mock_pnl_new_def accumulate_def)

lemma pnl_inv_record:
  "pnl_inv (pnl_engines w a) \<Longrightarrow> pnl_inv (pnl_engines (recordTrade a symb sp rp ts d w) a)"
  unfolding recordTrade_engine
  by (auto simp: pnl_inv_def Let_def book_trade_def make_trade_def accumulate_def trade_size_le)

lemma getCount_record:
  "getCount (pnl_engines (recordTrade a symb sp rp ts d w) a) = Suc (getCount (pnl_engines w a))"
  by (simp add: recordTrade_engine getCount_def book_trade_def Let_def)

subsection \<open>Properties\<close>

definition record_all ::
  "addr \<Rightarrow> (string \<times> f64 \<times> f64 \<times> u64 \<times> string) list \<Rightarrow> 'a pnl_state_scheme \<Rightarrow> 'a pnl_state_scheme" where
  "record_all a reqs w =
     fold (\<lambda>(symb, sp, rp, ts, d). recordTrade a symb sp rp ts d) reqs w"

lemma record_all_Nil [simp]: "record_all a [] w = w"
  by (simp add: record_all_def)

lemma record_all_Cons [simp]:
  "record_all a ((symb, sp, rp, ts, d) # reqs) w = record_all a reqs (recordTrade a symb sp rp ts d w)"
  by (simp add: record_all_def)

lemma record_all_inv:
  "pnl_inv (pnl_engines w a) \<Longrightarrow>
   pnl_inv (pnl_engines (record_all a reqs w) a)
   \<and> length (trades (pnl_engines (record_all a reqs w) a))
      = length (trades (pnl_engines w a)) + length reqs
   \<and> max_exposure (pnl_engines (record_all a reqs w) a) = max_exposure (pnl_engines w a)"
proof (induction reqs arbitrary: w)
  case (Cons r reqs)
  obtain symb sp rp ts d where r: "r = (symb, sp, rp, ts, d)" by (cases r)
  show ?case
    using Cons.IH [OF pnl_inv_record [OF Cons.prems, of symb sp rp ts d]]
    by (simp add: r) (simp add: recordTrade_engine Let_def book_trade_def)
qed simp

lemma foldl_fmax_le:
  "\<not> flt c a \<Longrightarrow> \<forall>x \<in> set xs. \<not> flt c x \<Longrightarrow> \<not> flt c (foldl fmax a xs)"
  by (induction xs arbitrary: a) (auto simp: fmax_def)

text \<open>C15: However many trades are recorded, the engine's counters are the trades' own figures:
  the profit series lists the trades' profits in order, the running total is their left-to-right
  floating-point sum and the number of trades is the number of calls.\<close>

theorem record_all_totals:
  "let e = pnl_engines (record_all a reqs (w\<lparr>pnl_engines := (pnl_engines w)(a := mock_pnl_new cap)\<rparr>)) a
   in getCount e = length reqs
      \<and> pnl_series e = map st_pnl (trades e)
      \<and> getPnL e = accumulate (pnl_series e)
      \<and> getMaxExposure e = foldl fmax fzero (map st_size (trades e))"
proof -
  let ?w = "w\<lparr>pnl_engines := (pnl_engines w)(a := mock_pnl_new cap)\<rparr>"
  have "pnl_inv (pnl_engines ?w a)" using pnl_inv_new by simp
  from record_all_inv [OF this, of reqs] show ?thesis
    by (simp add: Let_def getCount_def getPnL_def getMaxExposure_def pnl_inv_def mock_pnl_new_def)
qed

text \<open>No simulated trade is larger than the configured maximum exposure, and neither is the
  maximum observed exposure, whatever prices are fed in (infinities and NaN included).\<close>

theorem exposure_capped:
  assumes "\<not> flt cap fzero"
  shows "let e = pnl_engines (record_all a reqs (w\<lparr>pnl_engines := (pnl_engines w)(a := mock_pnl_new cap)\<rparr>)) a
         in (\<forall>t \<in> set (trades e). \<not> flt cap (st_size t)) \<and> \<not> flt cap (getMaxExposure e)"
proof -
  let ?w = "w\<lparr>pnl_engines := (pnl_engines w)(a := mock_pnl_new cap)\<rparr>"
  let ?e = "pnl_engines (record_all a reqs ?w) a"
  have "pnl_inv (pnl_engines ?w a)" using pnl_inv_new by simp
  from record_all_inv [OF this, of reqs] have inv: "pnl_inv ?e" and "max_exposure ?e = cap"
    by (simp_all add: mock_pnl_new_def)
  then have sizes: "\<forall>t \<in> set (trades ?e). \<not> flt cap (st_size t)" by (simp add: pnl_inv_def)
  moreover have "\<not> flt cap (getMaxExposure ?e)"
    using inv sizes foldl_fmax_le [OF assms, of "map st_size (trades ?e)"]
    by (simp add: getMaxExposure_def pnl_inv_def)
  ultimately show ?thesis by (simp add: Let_def)
qed

definition blank_pnl :: pnl_state where
  "blank_pnl =
     \<lparr>cout = new_ostream, cerr = new_ostream, files = (\<lambda>_. open_ofstream True),
      arb_loggers = (\<lambda>_. arb_logger_new True 0),
      mispricing_loggers = (\<lambda>_. mispricing_logger_new True '''' (f64_zero False)),
      snapshot_loggers = (\<lambda>_. snapshot_logger_new True),
      pnl_engines = (\<lambda>_. mock_pnl_new (f64_dec 5000 0))\<rparr>"

theorem exposure_capped_witness:
  "let e = pnl_engines (record_all 0 [(''ETHUSDT'', f64_dec 1 0, f64_dec 1 9, 7, ''BUY'')]
             (blank_pnl\<lparr>pnl_engines := (pnl_engines blank_pnl)(0 := mock_pnl_new (f64_dec 5000 0))\<rparr>)) 0
   in (\<forall>t \<in> set (trades e). \<not> flt (f64_dec 5000 0) (st_size t))
      \<and> \<not> flt (f64_dec 5000 0) (getMaxExposure e)"
  by (rule exposure_capped) (simp add: f64_eval)

subsection \<open>The sign of a trade's profit\<close>

text \<open>\<open>is_price p\<close>: a canonical, finite, non-negative double.\<close>

definition is_price :: "f64 \<Rightarrow> bool" where
  "is_price p \<longleftrightarrow> is_finite p \<and> f64_ok p \<and> 0 \<le> fval p"

lemma price_diff:
  assumes "is_price x" "is_price y"
  shows "is_finite (fsub x y)" "fval (fsub x y) = rnd (fval x - fval y)"
  using fsub_nonneg_args [of x y] assms by (simp_all add: is_price_def)

lemma price_diff_sign:
  assumes "is_price x" "is_price y"
  shows "0 < fval (fsub x y) \<longleftrightarrow> fval y < fval x" "fval (fsub x y) < 0 \<longleftrightarrow> fval x < fval y"
    "fval (fsub x y) = 0 \<longleftrightarrow> fval x = fval y"
  using rnd_diff_sign [of x y] assms price_diff(2) [OF assms] by (simp_all add: is_price_def)

lemma hundred: "is_finite (f64_dec 100 0)" "fval (f64_dec 100 0) = 100" "f64_dec 100 0 \<noteq> NaN"
  by (simp_all add: f64_eval power_int_def power_one_over)

lemma trade_size_nonneg:
  assumes p: "is_price sp" "is_price rp" "0 < fval rp" and cap: "fle fzero cap"
  shows "fle fzero (trade_size cap sp rp)"
    "fval sp = fval rp \<Longrightarrow> is_finite (trade_size cap sp rp) \<and> fval (trade_size cap sp rp) = 0"
proof -
  let ?spread = "fabs (fsub rp sp)"
  let ?edge = "fdiv ?spread rp"
  have rp: "is_finite rp" using p by (simp add: is_price_def)
  have d: "is_finite ?spread" "0 \<le> fval ?spread" using price_diff [OF p(2,1)] by simp_all
  have e: "fle fzero ?edge"
    using fdiv_nonneg [of ?spread rp] d rp p(3) by (simp add: fle_zero_iff)
  have "fmul ?edge (f64_dec 100 0) \<noteq> NaN"
  proof (cases "is_finite ?edge")
    case True
    then show ?thesis using fmul_rounds hundred(1) rounds_to_not_nan by blast
  next
    case False
    with e have "?edge = Inf False" by (simp add: fle_zero_iff)
    then show ?thesis by (simp add: f64_eval)
  qed
  with e have m: "fle fzero (fmul ?edge (f64_dec 100 0))"
    using hundred by (intro fmul_nonneg) (simp_all add: fle_zero_iff)
  then show "fle fzero (trade_size cap sp rp)"
    using cap by (simp add: trade_size_def Let_def fmin_def)
  assume eq: "fval sp = fval rp"
  then have "fval ?spread = 0" using price_diff_sign(3) [OF p(2,1)] by simp
  then have "is_finite ?edge" "fval ?edge = 0"
    using fdiv_rounds [OF d(1) rp] p(3) f64_limit_pos by (auto simp: rounds_to_def)
  then have "is_finite (fmul ?edge (f64_dec 100 0))" "fval (fmul ?edge (f64_dec 100 0)) = 0"
    using fmul_rounds [OF _ hundred(1), of ?edge] f64_limit_pos by (auto simp: rounds_to_def)
  moreover have "\<not> flt cap (fmul ?edge (f64_dec 100 0))"
    using calculation cap flt_val [of cap] by (cases cap) (auto simp: fle_zero_iff)
  ultimately show "is_finite (trade_size cap sp rp) \<and> fval (trade_size cap sp rp) = 0"
    by (simp add: trade_size_def Let_def fmin_def)
qed

lemma trade_quantity:
  assumes "is_price sp" "is_price rp" "0 < fval rp" "fle fzero cap"
  defines "q \<equiv> fdiv (trade_size cap sp rp) rp"
  shows "fle fzero q" "fval sp = fval rp \<Longrightarrow> is_finite q"
proof -
  have rp: "is_finite rp" using assms by (simp add: is_price_def)
  show "fle fzero q"
    unfolding q_def using trade_size_nonneg(1) [OF assms(1-4)] rp assms(3) by (rule fdiv_nonneg)
  assume "fval sp = fval rp"
  from trade_size_nonneg(2) [OF assms(1-4) this] show "is_finite q"
    unfolding q_def using fdiv_rounds [of "trade_size cap sp rp" rp] rp assms(3) f64_limit_pos
    by (auto simp: rounds_to_def)
qed

text \<open>In spite of every rounding the profit booked for a trade has the sign of its price advantage.\<close>

lemma pnl_sign:
  assumes "is_price entry" "is_price exit" "0 < fval exit" "fle fzero (max_exposure e)"
  shows "let buy = st_pnl (make_trade e symb entry exit ts ''BUY'');
             sell = st_pnl (make_trade e symb entry exit ts ''SELL'')
         in (fval entry \<le> fval exit \<longrightarrow> fle fzero buy \<and> fle sell fzero)
            \<and> (fval exit \<le> fval entry \<longrightarrow> fle buy fzero \<and> fle fzero sell)"
proof -
  let ?q = "fdiv (trade_size (max_exposure e) entry exit) exit"
  note q = trade_quantity [OF assms]
  note d1 = price_diff [OF assms(2,1)] price_diff_sign [OF assms(2,1)]
  note d2 = price_diff [OF assms(1,2)] price_diff_sign [OF assms(1,2)]
  have b: "(fval entry \<le> fval exit \<longrightarrow> fle fzero (fmul (fsub exit entry) ?q))
      \<and> (fval exit \<le> fval entry \<longrightarrow> fle (fmul (fsub exit entry) ?q) fzero)"
    using fmul_sign [OF d1(1) q(1)] q(2) d1(3-5) by (metis less_eq_real_def not_less)
  have s: "(fval exit \<le> fval entry \<longrightarrow> fle fzero (fmul (fsub entry exit) ?q))
      \<and> (fval entry \<le> fval exit \<longrightarrow> fle (fmul (fsub entry exit) ?q) fzero)"
    using fmul_sign [OF d2(1) q(1)] q(2) d2(3-5) by (metis less_eq_real_def not_less)
  show ?thesis using b s by (simp add: Let_def make_trade_def trade_pnl_def)
qed

text \<open>C20: For non-negative prices and a positive real price, a BUY entered at or below its exit price
  never loses and one entered at or above it never gains; for any other direction it is the other
  way round.  No rounding of the price difference, the edge or the size changes the sign.\<close>

theorem trade_pnl_sign:
  assumes "is_price entry" "is_price exit" "0 < fval exit" "fle fzero (max_exposure e)"
  shows "let buy = st_pnl (make_trade e symb entry exit ts ''BUY'');
             sell = st_pnl (make_trade e symb entry exit ts ''SELL'')
         in (fval entry \<le> fval exit \<longrightarrow> fle fzero buy \<and> fle sell fzero)
            \<and> (fval exit \<le> fval entry \<longrightarrow> fle buy fzero \<and> fle fzero sell)"
  using assms by (rule pnl_sign)

theorem trade_pnl_sign_witness:
  "fle fzero (st_pnl (make_trade (mock_pnl_new (f64_dec 5000 0)) ''ETHUSDT'' (f64_dec 25005 1)
                        (f64_dec 2500 0) 7 ''SELL''))"
proof -
  have "is_price (f64_dec 25005 1)" "is_price (f64_dec 2500 0)"
    by (simp_all add: is_price_def f64_eval)
  moreover have "0 < fval (f64_dec 2500 0)" "fval (f64_dec 2500 0) \<le> fval (f64_dec 25005 1)"
    by (simp_all add: f64_eval power_int_def power_one_over)
  moreover have "fle fzero (max_exposure (mock_pnl_new (f64_dec 5000 0)))"
    by (simp add: mock_pnl_new_def f64_eval)
  ultimately show ?thesis
    using trade_pnl_sign [of "f64_dec 25005 1" "f64_dec 2500 0" "mock_pnl_new (f64_dec 5000 0)"
        "''ETHUSDT''" 7] unfolding Let_def by blast
qed

subsection \<open>The rows of a trade\<close>

definition external_cells :: "simulated_trade \<Rightarrow> string list" where
  "external_cells t =
     [nat_str (unat (st_timestamp t)), st_symbol t, st_direction t, fix8 (st_entry_price t),
      fix8 (st_exit_price t), fix8 (st_size t), fix8 (st_pnl t)]"

interpretation external_rows: csv_row external_items "\<lambda>fx p. external_cells"
  "\<lambda>t. clean (st_symbol t) \<and> clean (st_direction t)" 7
  by unfold_locales (auto simp: external_items_def external_cells_def)

lemma record_files:
  "files (recordTrade a symb sp rp ts d w) =
     files (write_external (external_log (pnl_engines w a)) (make_trade (pnl_engines w a) symb sp rp ts d) w)"
  by (simp add: recordTrade_def Let_def book_trade_def write_arb_logger_def split: option.split)

lemma record_arb_loggers:
  "arb_loggers (recordTrade a symb sp rp ts d w) =
     arb_loggers (write_arb_logger (arb_logger_ptr (pnl_engines w a))
       (make_trade (pnl_engines w a) symb sp rp ts d) (Suc (length (trades (pnl_engines w a))))
       (fadd (total_pnl (pnl_engines w a)) (st_pnl (make_trade (pnl_engines w a) symb sp rp ts d))) w)"
  by (simp add: recordTrade_def Let_def book_trade_def write_arb_logger_def write_external_def
        split: option.split)

text \<open>C33: A recorded trade is written to both attached logs, one line each: seven fields to the
  external log and ten to the arbitrage log, and splitting the lines at the commas gives back the
  trade's own figures, the trade count and the running total.\<close>

theorem recordTrade_rows:
  fixes w :: "'a pnl_state_scheme"
  assumes "external_log (pnl_engines w a) = Some f" "is_open (files w f)" "ogood (files w f)"
    and "arb_logger_ptr (pnl_engines w a) = Some l" "ogood (al_file (arb_loggers w l))"
    and "clean symb" "clean d"
  shows "let w' = recordTrade a symb sp rp ts d w;
             e = pnl_engines w a; t = make_trade e symb sp rp ts d
         in (\<exists>row. otext (files w' f) = otext (files w f) @ row @ [CHR 0x0A]
               \<and> CHR 0x0A \<notin> set row \<and> csv_fields row = external_cells t)
            \<and> (\<exists>row. otext (al_file (arb_loggers w' l)) = otext (al_file (arb_loggers w l)) @ row @ [CHR 0x0A]
               \<and> CHR 0x0A \<notin> set row
               \<and> csv_fields row = simulated_cells (st_entry_price t) (st_exit_price t) (st_pnl t) ts
                   (int_of_size (Suc (length (trades e)))) (fadd (total_pnl e) (st_pnl t)) d (st_size t))"
proof -
  let ?t = "make_trade (pnl_engines w a) symb sp rp ts d"
  have t: "st_symbol ?t = symb" "st_direction ?t = d" "st_timestamp ?t = ts"
    by (simp_all add: make_trade_def Let_def)
  let ?r = "(st_entry_price ?t, st_exit_price ?t, st_pnl ?t, ts,
    int_of_size (Suc (length (trades (pnl_engines w a)))),
    fadd (total_pnl (pnl_engines w a)) (st_pnl ?t), d, st_size ?t)"
  show ?thesis
    using external_rows.put_row [of ?t "files w f"] simulated_rows.put_row [of ?r "al_file (arb_loggers w l)"]
      assms t
    by (auto simp: Let_def record_files record_arb_loggers write_external_def write_arb_logger_def
        logSimulatedTrade_def)
qed

theorem recordTrade_rows_witness:
  "\<exists>row. otext (files (recordTrade 0 ''ETHUSDT'' (f64_dec 2500 0) (f64_dec 2510 0) 7 ''BUY''
            (blank_pnl\<lparr>pnl_engines := (\<lambda>_. attachLogger_arb 0 (attachLogger_stream 0
               (mock_pnl_new (f64_dec 5000 0))))\<rparr>)) 0) = row @ [CHR 0x0A]
      \<and> CHR 0x0A \<notin> set row \<and> length (csv_fields row) = 7"
proof -
  let ?w = "blank_pnl\<lparr>pnl_engines := (\<lambda>_. attachLogger_arb 0 (attachLogger_stream 0
               (mock_pnl_new (f64_dec 5000 0))))\<rparr>"
  have "external_log (pnl_engines ?w 0) = Some 0" "is_open (files ?w 0)" "ogood (files ?w 0)"
    "arb_logger_ptr (pnl_engines ?w 0) = Some 0" "ogood (al_file (arb_loggers ?w 0))"
    "otext (files ?w 0) = ''''"
    by (simp_all add: attachLogger_arb_def attachLogger_stream_def mock_pnl_new_def blank_pnl_def
        open_ofstream_def arb_logger_new_def put_str_def)
  note pre = this
  have len: "length (external_cells t) = 7" for t by (simp add: external_cells_def)
  have "clean ''ETHUSDT''" "clean ''BUY''" by simp_all
  from recordTrade_rows [OF pre(1-5) this, of "f64_dec 2500 0" "f64_dec 2510 0" 7, unfolded Let_def]
  obtain row where "otext (files (recordTrade 0 ''ETHUSDT'' (f64_dec 2500 0) (f64_dec 2510 0) 7 ''BUY'' ?w) 0)
      = otext (files ?w 0) @ row @ [CHR 0x0A]" "CHR 0x0A \<notin> set row"
    "csv_fields row = external_cells (make_trade (pnl_engines ?w 0) ''ETHUSDT'' (f64_dec 2500 0)
       (f64_dec 2510 0) 7 ''BUY'')"
    by blast
  then show ?thesis using pre(6) len by (intro exI [of _ row]) simp
qed

end
