(* ===== verification/CrossExchange.thy ===== *)
theory CrossExchange
  imports Interfaces MockPnL
begin

text \<open>
  \<^verbatim>\<open>CrossExchangePair.hpp\<close> and \<^verbatim>\<open>CrossExchangePair.cpp\<close>: the latest ETHUSDT price of each venue.
  The class is an instance of the \<open>register\<close> interface for the two venues it knows.
\<close>

record cross_pair =
  cx_symbol :: string
  cx_threshold :: f64
  binancePrice :: f64
  bybitPrice :: f64
  binanceReady :: bool
  bybitReady :: bool

definition cross_pair_new :: "string \<Rightarrow> f64 \<Rightarrow> cross_pair" where
  "cross_pair_new symb threshold =
     \<lparr>cx_symbol = symb, cx_threshold = threshold, binancePrice = f64_zero False,
      bybitPrice = f64_zero False, binanceReady = False, bybitReady = False\<rparr>"

definition cross_update :: "string \<Rightarrow> f64 \<Rightarrow> u64 \<Rightarrow> cross_pair \<Rightarrow> cross_pair" where
  "cross_update venue price ts c =
     (if venue = ''Binance'' then c\<lparr>binancePrice := price, binanceReady := True\<rparr>
      else if venue = ''Bybit'' then c\<lparr>bybitPrice := price, bybitReady := True\<rparr>
      else c)"

definition getPrice :: "string \<Rightarrow> cross_pair \<Rightarrow> f64" where
  "getPrice venue c =
     (if venue = ''Binance'' \<and> binanceReady c then binancePrice c
      else if venue = ''Bybit'' \<and> bybitReady c then bybitPrice c
      else f64_zero False)"

text \<open>\<^verbatim>\<open>(spread > 0 ? "+" : "")\<close>\<close>

definition plus_sign :: "f64 \<Rightarrow> string" where
  "plus_sign x = (if flt (f64_zero False) x then ''+'' else '''')"

definition spread_report :: "cross_pair \<Rightarrow> item list" where
  "spread_report c =
     (let spread = fsub (binancePrice c) (bybitPrice c)
      in [S (''['' @ delta_utf8 @ '' ''), S (cx_symbol c), S ''] Binance: '', D (binancePrice c),
          S '' | Bybit: '', D (bybitPrice c), S ('' | '' @ delta_utf8 @ '' = ''),
          S (plus_sign spread), D spread, nl])"

definition spread_alert :: "cross_pair \<Rightarrow> item list" where
  "spread_alert c =
     [S ''  [ALERT] Cross-exchange spread exceeds threshold: '',
      D (fsub (binancePrice c) (bybitPrice c)), nl]"

definition printSpread :: "cross_pair \<Rightarrow> 'a io_state_scheme \<Rightarrow> 'a io_state_scheme" where
  "printSpread c w =
     (if \<not> binanceReady c \<or> \<not> bybitReady c then w
      else let spread = fsub (binancePrice c) (bybitPrice c);
               w1 = print_out (spread_report c) w
           in if fle (cx_threshold c) (fabs spread) then print_out (spread_alert c) w1 else w1)"

interpretation venues: register
  "\<lambda>venue price. cross_update venue price ts" getPrice "\<lambda>v. v = ''Binance'' \<or> v = ''Bybit''" for ts
  by unfold_locales (auto simp: cross_update_def getPrice_def)

subsection \<open>Properties\<close>

definition cross_updates :: "(string \<times> f64 \<times> u64) list \<Rightarrow> cross_pair \<Rightarrow> cross_pair" where
  "cross_updates us c = fold (\<lambda>(v, p, ts). cross_update v p ts) us c"

lemma cross_updates_register:
  "cross_updates us c = fold (\<lambda>(v, p). cross_update v p 0) (map (\<lambda>(v, p, ts). (v, p)) us) c"
  unfolding cross_updates_def fold_map
  by (rule fold_cong) (auto simp: cross_update_def fun_eq_iff)

text \<open>\<open>getPrice\<close> of either venue is the last price reported for that venue, whatever was reported
  for others in between, and 0.0 before the first report; an unknown venue always reads 0.0.\<close>

theorem getPrice_last:
  "let c = cross_updates us (cross_pair_new symb threshold);
       prices = map (\<lambda>(v, p, ts). (v, p)) us
   in (venue = ''Binance'' \<or> venue = ''Bybit'' \<longrightarrow>
         getPrice venue c = (case last_write venue prices of Some p \<Rightarrow> p | None \<Rightarrow> fzero))
      \<and> (venue \<noteq> ''Binance'' \<and> venue \<noteq> ''Bybit'' \<longrightarrow> getPrice venue c = fzero)"
proof -
  have init: "getPrice venue (cross_pair_new symb threshold) = fzero"
    by (simp add: getPrice_def cross_pair_new_def)
  have known: "getPrice venue (fold (\<lambda>(v, p). cross_update v p 0) ps (cross_pair_new symb threshold))
      = (case last_write venue ps of Some p \<Rightarrow> p | None \<Rightarrow> fzero)"
    if "venue = ''Binance'' \<or> venue = ''Bybit''" for ps
    using venues.fetch_run [OF that, of 0 ps "cross_pair_new symb threshold"]
    by (simp add: init split: option.split)
  have "getPrice venue c = fzero" if "venue \<noteq> ''Binance''" "venue \<noteq> ''Bybit''" for c
    using that by (simp add: getPrice_def)
  with known show ?thesis unfolding Let_def cross_updates_register by blast
qed

theorem getPrice_last_witness:
  "getPrice ''Bybit'' (cross_updates [(''Bybit'', f64_dec 1 0, 5), (''Binance'', f64_dec 2 0, 6),
     (''OKX'', f64_dec 3 0, 7)] (cross_pair_new ''ETHUSDT'' (f64_dec 2 1))) = f64_dec 1 0"
  using getPrice_last [of "[(''Bybit'', f64_dec 1 0, 5), (''Binance'', f64_dec 2 0, 6),
     (''OKX'', f64_dec 3 0, 7)]" "''ETHUSDT''" "f64_dec 2 1" "''Bybit''"]
  by (simp add: Let_def)

text \<open>\<open>printSpread\<close> prints nothing until both venues have reported; then it prints one report,
  followed by an alert exactly when the size of the spread reaches the threshold.\<close>

theorem printSpread_output:
  assumes "ogood (cout w)"
  shows "(\<not> (binanceReady c \<and> bybitReady c) \<longrightarrow> printSpread c w = w)
         \<and> (binanceReady c \<and> bybitReady c \<longrightarrow>
              (\<exists>report alert. otext (cout (printSpread c w)) = otext (cout w) @ report @ alert
                 \<and> report \<noteq> []
                 \<and> (alert \<noteq> [] \<longleftrightarrow>
                      fle (cx_threshold c) (fabs (fsub (binancePrice c) (bybitPrice c))))))"
proof (cases "binanceReady c \<and> bybitReady c")
  case True
  let ?d = "fsub (binancePrice c) (bybitPrice c)"
  let ?r = "render (ofixed (cout w)) (oprec (cout w))"
  have flags: "ofixed (put (spread_report c) (cout w)) = ofixed (cout w)"
    "oprec (put (spread_report c) (cout w)) = oprec (cout w)"
    by (simp_all add: spread_report_def Let_def del: put_Cons)
  define R A where "R = ?r (spread_report c)"
    and "A = (if fle (cx_threshold c) (fabs ?d) then ?r (spread_alert c) else [])"
  have ne: "R \<noteq> []" "A \<noteq> [] \<longleftrightarrow> fle (cx_threshold c) (fabs ?d)"
    by (simp_all add: R_def A_def spread_report_def spread_alert_def Let_def)
  have "otext (cout (printSpread c w)) = otext (cout w) @ R @ A"
    using True assms flags by (simp add: printSpread_def Let_def print_out_def otext_put R_def A_def)
  with True ne show ?thesis by blast
qed (auto simp: printSpread_def)

theorem printSpread_output_witness:
  "\<exists>report alert. otext (cout (printSpread (cross_updates [(''Bybit'', f64_dec 1 0, 5),
      (''Binance'', f64_dec 2 0, 6)] (cross_pair_new ''ETHUSDT'' (f64_dec 2 1))) blank_io))
      = report @ alert \<and> report \<noteq> [] \<and> alert \<noteq> []"
  using printSpread_output [of blank_io "cross_updates [(''Bybit'', f64_dec 1 0, 5),
      (''Binance'', f64_dec 2 0, 6)] (cross_pair_new ''ETHUSDT'' (f64_dec 2 1))"]
  by (simp add: blank_io_def new_ostream_def cross_updates_def cross_update_def cross_pair_new_def
      f64_eval)

end
