(* ===== verification/PerpEngine.thy ===== *)
theory PerpEngine
  imports Interfaces MockPnL
begin

text \<open>
  \<^verbatim>\<open>SyntheticPerpEngine.hpp\<close>: the funding-adjusted price of the BTCUSDT perpetual.  The method's
  \<^verbatim>\<open>static last_alert\<close> is shared by all objects of the class, so it is passed beside the object.
  Milliseconds are \<^verbatim>\<open>uint64_t\<close>: \<open>updateMark\<close> subtracts them as such, while \<open>getSynthetic\<close>
  converts to \<^verbatim>\<open>double\<close> first; the theorems at the end compare the two.
\<close>

record perp_engine =
  pe_symbol :: string
  pe_threshold :: f64
  spot :: "f64 option"
  funding_rate :: "f64 option"
  next_funding :: "u64 option"
  last_mark_price :: f64
  ready_spot :: bool
  ready_funding :: bool
  ready_mark :: bool

definition perp_engine_new :: "string \<Rightarrow> f64 \<Rightarrow> perp_engine" where
  "perp_engine_new symb threshold =
     \<lparr>pe_symbol = symb, pe_threshold = threshold, spot = None, funding_rate = None,
      next_funding = None, last_mark_price = f64_zero False, ready_spot = False,
      ready_funding = False, ready_mark = False\<rparr>"

definition updateSpot :: "f64 \<Rightarrow> perp_engine \<Rightarrow> perp_engine" where
  "updateSpot price e = e\<lparr>spot := Some price, ready_spot := True\<rparr>"

definition updateFunding :: "f64 \<Rightarrow> u64 \<Rightarrow> perp_engine \<Rightarrow> perp_engine" where
  "updateFunding r next_ts e =
     e\<lparr>funding_rate := Some r, next_funding := Some next_ts, ready_funding := True\<rparr>"

definition ms_per_hour :: f64 where
  "ms_per_hour = f64_dec 3600000 0"

text \<open>\<^verbatim>\<open>*spot + (*funding_rate * (*spot) * hours)\<close>\<close>

definition perp_price :: "f64 \<Rightarrow> f64 \<Rightarrow> f64 \<Rightarrow> f64" where
  "perp_price s r hours = fadd s (fmul (fmul r s) hours)"

definition mark_hours :: "u64 \<Rightarrow> u64 \<Rightarrow> f64" where
  "mark_hours nf timestamp = fdiv (f64_of_u64 (nf - timestamp)) ms_per_hour"

definition mark_report :: "f64 \<Rightarrow> f64 \<Rightarrow> f64 \<Rightarrow> f64 \<Rightarrow> f64 \<Rightarrow> f64 \<Rightarrow> item list" where
  "mark_report s r hours synthetic mark_price delta =
     [nl, S ''=== Synthetic Perp Monitor ==='', nl,
      S '' Spot Price      : '', D s, nl,
      S '' Funding Rate    : '', D r, nl,
      S '' Hours Remaining : '', D hours, nl,
      S '' Synthetic Perp  : '', D synthetic, nl,
      S '' Real Mark Price : '', D mark_price, nl,
      S ('' '' @ delta_utf8 @ '' (Real - Synth): ''), D delta, nl]"

definition mark_alert :: "f64 \<Rightarrow> f64 \<Rightarrow> item list" where
  "mark_alert delta threshold =
     [S (esc @ ''[1;35m[ALERT]'' @ esc @ ''[0m Synthetic Perp mispricing detected! '' @ delta_utf8 @ '' = ''),
      Fixed, Prec 6, D delta, S ('' exceeds '' @ plusminus_utf8), D threshold, nl]"

text \<open>\<open>updateMark\<close> returns the object, the static time stamp of the last alert, and the output stream.\<close>

definition updateMark ::
  "f64 \<Rightarrow> u64 \<Rightarrow> perp_engine \<Rightarrow> u64 \<Rightarrow> 'a ostream_scheme \<Rightarrow> perp_engine \<times> u64 \<times> 'a ostream_scheme" where
  "updateMark mark_price timestamp e last_alert out =
     (let e1 = e\<lparr>last_mark_price := mark_price, ready_mark := True\<rparr>
      in if \<not> ready_spot e1 \<or> \<not> ready_funding e1 then (e1, last_alert, out)
         else case (next_funding e1, spot e1, funding_rate e1) of
                (Some nf, Some s, Some r) \<Rightarrow>
                  (let hours = mark_hours nf timestamp;
                       synthetic = perp_price s r hours;
                       delta = fsub mark_price synthetic;
                       out1 = put (mark_report s r hours synthetic mark_price delta) out
                   in if flt (pe_threshold e1) (fabs delta) \<and> 5000 < timestamp - last_alert
                      then (e1, timestamp, put (mark_alert delta (pe_threshold e1)) out1)
                      else (e1, last_alert, out1))
              | _ \<Rightarrow> (e1, last_alert, out))"

text \<open>\<open>now\<close> is the result of \<open>getTimeNowMs\<close>, a count of milliseconds converted to \<^verbatim>\<open>double\<close>.\<close>

definition getTimeNowMs :: "int \<Rightarrow> f64" where
  "getTimeNowMs clock_ms = f64_of_int clock_ms"

definition synthetic_hours :: "u64 \<Rightarrow> int \<Rightarrow> f64" where
  "synthetic_hours nf clock_ms = fdiv (fsub (f64_of_u64 nf) (getTimeNowMs clock_ms)) ms_per_hour"

definition perp_getSynthetic :: "int \<Rightarrow> perp_engine \<Rightarrow> f64" where
  "perp_getSynthetic clock_ms e =
     (if \<not> ready_spot e \<or> \<not> ready_funding e then f64_zero False
      else case (next_funding e, spot e, funding_rate e) of
             (Some nf, Some s, Some r) \<Rightarrow> perp_price s r (synthetic_hours nf clock_ms)
           | _ \<Rightarrow> f64_zero False)"

definition getMark :: "perp_engine \<Rightarrow> f64" where
  "getMark e = last_mark_price e"

definition getFundingRate :: "perp_engine \<Rightarrow> f64" where
  "getFundingRate e = (case funding_rate e of Some r \<Rightarrow> r | None \<Rightarrow> f64_zero False)"

definition getSpot :: "perp_engine \<Rightarrow> f64" where
  "getSpot e = (case spot e of Some s \<Rightarrow> s | None \<Rightarrow> f64_zero False)"

definition perp_isReady :: "perp_engine \<Rightarrow> bool" where
  "perp_isReady e \<longleftrightarrow> ready_spot e \<and> ready_funding e \<and> ready_mark e \<and> next_funding e \<noteq> None"

subsection \<open>The object's invariant\<close>

text \<open>
  The ready flags say exactly which optionals hold a value; so the dereferences in \<open>updateMark\<close> and
  \<open>getSynthetic\<close>, guarded by flags only, never touch an empty optional.
\<close>

definition perp_inv :: "perp_engine \<Rightarrow> bool" where
  "perp_inv e \<longleftrightarrow>
     (ready_spot e \<longleftrightarrow> spot e \<noteq> None) \<and> (ready_funding e \<longleftrightarrow> funding_rate e \<noteq> None)
     \<and> (ready_funding e \<longleftrightarrow> next_funding e \<noteq> None)"

lemma perp_inv_intros [intro]:
  "perp_inv (perp_engine_new symb threshold)"
  "perp_inv e \<Longrightarrow> perp_inv (updateSpot p e)"
  "perp_inv e \<Longrightarrow> perp_inv (updateFunding r t e)"
  by (auto simp: perp_inv_def perp_engine_new_def updateSpot_def updateFunding_def)

lemma updateMark_engine:
  "fst (updateMark m ts e la out) = e\<lparr>last_mark_price := m, ready_mark := True\<rparr>"
  by (simp add: updateMark_def Let_def split: option.split)

lemma perp_inv_updateMark [intro]: "perp_inv e \<Longrightarrow> perp_inv (fst (updateMark m ts e la out))"
  by (auto simp: updateMark_engine perp_inv_def)

text \<open>The calls of the object as events, and the static time stamp of the last alert as a gate.\<close>

datatype perp_event = Spot f64 | Funding f64 u64 | Mark f64 u64

type_synonym perp_state = "perp_engine \<times> u64 \<times> ostream"

primrec perp_step :: "perp_event \<Rightarrow> perp_state \<Rightarrow> perp_state" where
  "perp_step (Spot p) st = (case st of (e, la, out) \<Rightarrow> (updateSpot p e, la, out))"
| "perp_step (Funding r t) st = (case st of (e, la, out) \<Rightarrow> (updateFunding r t e, la, out))"
| "perp_step (Mark m ts) st = (case st of (e, la, out) \<Rightarrow> updateMark m ts e la out)"

primrec event_time :: "perp_event \<Rightarrow> u64" where
  "event_time (Spot p) = 0"
| "event_time (Funding r t) = 0"
| "event_time (Mark m ts) = ts"

definition alert_step :: "perp_event \<Rightarrow> perp_state \<Rightarrow> bool \<times> perp_state" where
  "alert_step ev st = (fst (snd (perp_step ev st)) \<noteq> fst (snd st), perp_step ev st)"

lemma updateMark_alert:
  "fst (snd (updateMark m ts e la out)) = la
   \<or> fst (snd (updateMark m ts e la out)) = ts \<and> 5000 < ts - la"
  by (auto simp: updateMark_def Let_def split: option.splits)

interpretation mark_alerts: throttle alert_step "\<lambda>ev _. event_time ev" "\<lambda>st. Some (fst (snd st))" "\<lambda>_. 5000"
proof unfold_locales
  fix ev :: perp_event and st :: perp_state and t
  obtain e la out where st: "st = (e, la, out)" by (cases st)
  show "Some (fst (snd (snd (alert_step ev st)))) = Some (event_time ev)" if "fst (alert_step ev st)"
    using that updateMark_alert by (cases ev) (fastforce simp: alert_step_def st)+
  show "5000 < event_time ev - t" if "fst (alert_step ev st)" "Some (fst (snd st)) = Some t"
    using that updateMark_alert by (cases ev) (fastforce simp: alert_step_def st)+
qed (simp_all add: alert_step_def)

definition perp_run :: "perp_event list \<Rightarrow> perp_state \<Rightarrow> perp_state" where
  "perp_run evs st = fold perp_step evs st"

lemma perp_step_inv: "perp_inv (fst st) \<Longrightarrow> perp_inv (fst (perp_step ev st))"
  by (cases ev; cases st) auto

subsection \<open>Properties\<close>


lemma perp_run_fields:
  "let e = fst (perp_run evs st)
   in (ready_spot e \<longleftrightarrow> ready_spot (fst st) \<or> (\<exists>p. Spot p \<in> set evs))
      \<and> (ready_funding e \<longleftrightarrow> ready_funding (fst st) \<or> (\<exists>r t. Funding r t \<in> set evs))
      \<and> (ready_mark e \<longleftrightarrow> ready_mark (fst st) \<or> (\<exists>m t. Mark m t \<in> set evs))"
proof (induction evs arbitrary: st)
  case (Cons ev evs)
  obtain e la out where st: "st = (e, la, out)" by (cases st)
  show ?case
    using Cons.IH [of "perp_step ev st"]
    by (cases ev)
      (auto simp: st perp_run_def Let_def updateSpot_def updateFunding_def updateMark_engine)
qed (simp add: perp_run_def)

lemma perp_run_inv: "perp_inv (fst st) \<Longrightarrow> perp_inv (fst (perp_run evs st))"
  unfolding perp_run_def by (induction evs arbitrary: st) (simp_all add: perp_step_inv)

text \<open>After any sequence of updates the ready flags agree with the optionals (so no empty optional
  is ever dereferenced), \<open>isReady\<close> holds exactly when a spot price, a funding rate and a mark price
  have all been received, and \<open>getSynthetic\<close> is 0.0 until spot and funding are both there.\<close>

theorem perp_ready_iff:
  "let e = fst (perp_run evs (perp_engine_new symb threshold, la, out))
   in perp_inv e
      \<and> (perp_isReady e \<longleftrightarrow> (\<exists>p. Spot p \<in> set evs) \<and> (\<exists>r t. Funding r t \<in> set evs)
            \<and> (\<exists>m t. Mark m t \<in> set evs))
      \<and> ((\<forall>p. Spot p \<notin> set evs) \<or> (\<forall>r t. Funding r t \<notin> set evs)
            \<longrightarrow> perp_getSynthetic clock_ms e = fzero)"
proof -
  let ?st = "(perp_engine_new symb threshold, la, out)"
  have inv: "perp_inv (fst (perp_run evs ?st))" by (rule perp_run_inv) auto
  show ?thesis
    using inv perp_run_fields [of evs ?st]
    by (auto simp: Let_def perp_isReady_def perp_inv_def perp_getSynthetic_def perp_engine_new_def)
qed

theorem perp_ready_iff_witness:
  "perp_getSynthetic 0 (fst (perp_run [Spot (f64_dec 5 0)] (perp_engine_new ''BTCUSDT'' (f64_dec 1 0), 0, new_ostream)))
   = fzero"
  using perp_ready_iff [of "[Spot (f64_dec 5 0)]" "''BTCUSDT''" "f64_dec 1 0" 0 new_ostream 0]
  by (simp add: Let_def)

text \<open>\<open>updateMark\<close> always records the mark price; it reports nothing before spot and funding are
  known, and once they are, it prints one report and then an alert exactly when the deviation
  exceeds the threshold and more than 5000 ms have passed since the last alert.\<close>

theorem updateMark_branches:
  "getMark (fst (updateMark m ts e la out)) = m
   \<and> (\<not> ready_spot e \<or> \<not> ready_funding e \<longrightarrow> snd (updateMark m ts e la out) = (la, out))
   \<and> (ready_spot e \<and> ready_funding e \<and> spot e = Some s \<and> funding_rate e = Some r
        \<and> next_funding e = Some nf \<longrightarrow>
        (let synthetic = perp_price s r (mark_hours nf ts); delta = fsub m synthetic;
             out1 = put (mark_report s r (mark_hours nf ts) synthetic m delta) out
         in snd (updateMark m ts e la out) =
              (if flt (pe_threshold e) (fabs delta) \<and> 5000 < ts - la
               then (ts, put (mark_alert delta (pe_threshold e)) out1) else (la, out1))))"
  by (simp add: updateMark_engine getMark_def) (simp add: updateMark_def Let_def)

theorem updateMark_branches_witness:
  "snd (updateMark (f64_dec 1 0) 7 (perp_engine_new ''BTCUSDT'' (f64_dec 1 0)) 0 new_ostream)
   = (0, new_ostream)"
  using updateMark_branches [of "f64_dec 1 0" 7 "perp_engine_new ''BTCUSDT'' (f64_dec 1 0)" 0 new_ostream
      "f64_dec 1 0" "f64_dec 1 0" 0]
  by (simp add: perp_engine_new_def)

subsection \<open>The two computations of the hours to funding\<close>

lemma unat_diff_wrap:
  fixes a b :: u64
  shows "b \<le> a \<Longrightarrow> unat (a - b) = unat a - unat b"
    "a < b \<Longrightarrow> unat (a - b) = 2 ^ 64 - (unat b - unat a)"
  by (auto simp: unat_sub_if' word_less_nat_alt word_le_nat_alt)

lemma ms_per_hour_val: "is_finite ms_per_hour" "fval ms_per_hour = 3600000" "f64_ok ms_per_hour"
  by (simp_all add: ms_per_hour_def f64_eval power_int_def power_one_over)

lemma int_diff_exact:
  assumes "n \<le> 2 ^ 53" "k \<le> 2 ^ 53"
  shows "is_finite (fsub (f64_of_nat n) (f64_of_int (int k)))"
    "fval (fsub (f64_of_nat n) (f64_of_int (int k))) = real n - real k"
    "f64_ok (fsub (f64_of_nat n) (f64_of_int (int k)))"
proof -
  have k: "is_finite (f64_of_int (int k))" "fval (f64_of_int (int k)) = real k"
    using f64_of_int_exact [of "int k"] assms(2) by simp_all
  have ab: "\<bar>int n - int k\<bar> \<le> 2 ^ 53" using assms by (auto simp: abs_le_iff)
  from representable_int [OF this] have "representable (real n - real k)" by simp
  moreover have "\<bar>real n - real k\<bar> < f64_limit"
  proof -
    have "\<bar>of_int (int n - int k) :: real\<bar> \<le> 2 ^ 53"
      using ab by (metis of_int_abs of_int_le_iff of_int_numeral of_int_power)
    then show ?thesis using limit_big by simp
  qed
  ultimately show "is_finite (fsub (f64_of_nat n) (f64_of_int (int k)))"
    "fval (fsub (f64_of_nat n) (f64_of_int (int k))) = real n - real k"
    "f64_ok (fsub (f64_of_nat n) (f64_of_int (int k)))"
    using rounds_to_exact [OF fsub_rounds [OF f64_of_nat_exact(1) [OF assms(1)] k(1)]]
      f64_of_nat_exact(2) [OF assms(1)] k(2) by simp_all
qed

text \<open>Until the funding time, the hours \<open>updateMark\<close> computes from unsigned milliseconds and the
  hours \<open>getSynthetic\<close> computes from doubles are the same double (for times below \<open>2 ^ 53\<close> ms,
  some 285000 years), so both monitors use the same synthetic price.\<close>

theorem hours_agree:
  assumes "ts < nf" "unat nf \<le> 2 ^ 53"
  shows "mark_hours nf ts = synthetic_hours nf (uint ts)"
proof -
  have le: "unat ts \<le> unat nf" "unat ts < unat nf" using assms(1) by (simp_all add: word_less_nat_alt)
  have ts: "uint ts = int (unat ts)" by simp
  have n: "unat (nf - ts) = unat nf - unat ts" "unat nf - unat ts \<le> 2 ^ 53"
    using unat_diff_wrap(1) [of ts nf] assms by (auto simp: word_less_nat_alt word_le_nat_alt)
  note d = int_diff_exact [OF assms(2), of "unat ts"]
  note w = f64_of_nat_exact [OF n(2)]
  have "f64_of_u64 (nf - ts) = fsub (f64_of_u64 nf) (getTimeNowMs (uint ts))"
    unfolding f64_of_u64_def getTimeNowMs_def ts n(1)
  proof (rule f64_eqI)
    have "real (unat nf - unat ts) = real (unat nf) - real (unat ts)"
      by (rule of_nat_diff [OF le(1)])
    then show "fval (f64_of_nat (unat nf - unat ts)) \<noteq> 0"
      "fval (f64_of_nat (unat nf - unat ts)) = fval (fsub (f64_of_nat (unat nf)) (f64_of_int (int (unat ts))))"
      unfolding w(2) d(2) [OF le_trans [OF le(1) assms(2)]] using le(2) by linarith+
  qed (use d(1,3) [OF le_trans [OF le(1) assms(2)]] w in blast)+
  then show ?thesis by (simp add: mark_hours_def synthetic_hours_def)
qed

theorem hours_agree_witness:
  "mark_hours 1751817600000 1751816163454 = synthetic_hours 1751817600000 (uint (1751816163454 :: u64))"
  by (rule hours_agree) (simp_all add: word_less_nat_alt)

text \<open>Once the funding time has passed, they part: \<open>updateMark\<close>'s unsigned difference wraps to more
  than 5000 billion hours, while \<open>getSynthetic\<close>'s is negative.\<close>

theorem hours_after_funding:
  assumes "nf < ts" "unat ts \<le> 2 ^ 53"
  shows "5 * 10 ^ 12 \<le> fval (mark_hours nf ts) \<and> is_finite (mark_hours nf ts)
         \<and> fval (synthetic_hours nf (uint ts)) < 0"
proof -
  have lt: "unat nf < unat ts" using assms(1) by (simp add: word_less_nat_alt)
  have ts: "uint ts = int (unat ts)" by simp
  define n where "n = unat (nf - ts)"
  have n: "n = 2 ^ 64 - (unat ts - unat nf)" using unat_diff_wrap(2) [OF assms(1)] by (simp add: n_def)
  have nlo: "2047 * 2 ^ 53 \<le> real n" and nhi: "real n < 2 ^ 64"
  proof -
    have "2047 * 2 ^ 53 \<le> n" "n < 2 ^ 64" using n lt assms(2) by simp_all
    then have "real (2047 * 2 ^ 53) \<le> real n" "real n < real (2 ^ 64)"
      by (simp_all only: of_nat_le_iff of_nat_less_iff)
    then show "2047 * 2 ^ 53 \<le> real n" "real n < 2 ^ 64" by simp_all
  qed
  have r1: "representable (2047 * 2 ^ 53)"
    unfolding representable_def by (intro exI [of _ 2047] exI [of _ 53]) simp
  have r2: "representable (2 ^ 64)"
    unfolding representable_def by (intro exI [of _ 1] exI [of _ 64]) simp
  have r3: "representable (5 * 10 ^ 12)" using representable_int [of "5 * 10 ^ 12"] by simp
  have lo: "2047 * 2 ^ 53 \<le> rnd (real n)" by (rule ieee.round_ge [OF r1 nlo])
  have hi: "rnd (real n) \<le> 2 ^ 64" by (rule ieee.round_le [OF r2]) (use nhi in simp)
  have u: "is_finite (f64_of_nat n)" "fval (f64_of_nat n) = rnd (real n)"
    using f64_of_nat_rounds [of n] lo hi limit_big by (auto simp: rounds_to_def)
  have q: "5 * 10 ^ 12 \<le> rnd (rnd (real n) / 3600000)" "rnd (rnd (real n) / 3600000) \<le> 2 ^ 64"
    using lo hi by (intro ieee.round_ge [OF r3] ieee.round_le [OF r2]; simp)+
  have mh: "is_finite (mark_hours nf ts)" "fval (mark_hours nf ts) = rnd (rnd (real n) / 3600000)"
    using fdiv_rounds [OF u(1) ms_per_hour_val(1)] ms_per_hour_val(2) u(2) q limit_big
    by (auto simp: mark_hours_def f64_of_u64_def n_def rounds_to_def)
  have nf: "unat nf \<le> 2 ^ 53" using lt assms(2) by simp
  note d = int_diff_exact [OF nf assms(2)]
  have neg: "real (unat nf) - real (unat ts) < 0" using lt by linarith
  have "rnd ((real (unat nf) - real (unat ts)) / 3600000) < 0"
  proof -
    have "representable (- (2 powi (- 100)))"
      unfolding representable_def by (intro exI [of _ "- 1"] exI [of _ "- 100"]) simp
    moreover have "(real (unat nf) - real (unat ts)) / 3600000 \<le> - (2 powi (- 100))"
    proof -
      have "real (unat nf) - real (unat ts) \<le> - 1" using lt by linarith
      then have "(real (unat nf) - real (unat ts)) / 3600000 \<le> - 1 / 3600000" by simp
      also have "\<dots> \<le> - (2 powi (- 100))" by (simp add: power_int_def power_one_over)
      finally show ?thesis .
    qed
    ultimately have "rnd ((real (unat nf) - real (unat ts)) / 3600000) \<le> - (2 powi (- 100))"
      by (rule ieee.round_le)
    then show ?thesis using powi_pos [of "- 100"] by linarith
  qed
  moreover have "\<bar>rnd ((real (unat nf) - real (unat ts)) / 3600000)\<bar> < f64_limit"
  proof -
    have "- (2 ^ 64) \<le> (real (unat nf) - real (unat ts)) / 3600000"
    proof -
      have "real (unat ts) \<le> real (2 ^ 53)" using assms(2) by (simp only: of_nat_le_iff)
      moreover have "0 \<le> real (unat nf)" by (rule of_nat_0_le_iff)
      ultimately have "- (2 ^ 53) \<le> real (unat nf) - real (unat ts)"
        by (simp only: of_nat_power of_nat_numeral)
      moreover have "- (2 ^ 64) \<le> - (2 ^ 53) / (3600000::real)" by simp
      ultimately show ?thesis by (simp add: divide_right_mono order_trans)
    qed
    from ieee.round_ge [OF representable_minus [OF r2] this] calculation limit_big
    show ?thesis by linarith
  qed
  ultimately have "fval (synthetic_hours nf (uint ts)) < 0"
    using fdiv_rounds [OF d(1) ms_per_hour_val(1)] ms_per_hour_val(2) d(2)
    unfolding synthetic_hours_def getTimeNowMs_def f64_of_u64_def ts
    by (auto simp: rounds_to_def)
  with mh q show ?thesis by simp
qed

theorem hours_after_funding_witness:
  "5 * 10 ^ 12 \<le> fval (mark_hours 1751816163454 1751816163455)"
  using hours_after_funding [of 1751816163454 1751816163455] by (simp add: word_less_nat_alt)

end
