(* ===== verification/MispricingBuffer.thy ===== *)
theory MispricingBuffer
  imports Interfaces MockPnL
begin

text \<open>
  \<^verbatim>\<open>MispricingBuffer.hpp\<close>: the rolling window of spreads, its average and the spike test.  The
  buffer is an instance of the \<open>sliding_window\<close> interface.  The program uses it with a window of
  two, for which the average is shown to lie between the two spreads in spite of rounding.
\<close>

record mispricing_buffer =
  mb_buffer :: "f64 list"
  mb_max_size :: nat

definition mispricing_buffer_new :: "nat \<Rightarrow> mispricing_buffer" where
  "mispricing_buffer_new window_size = \<lparr>mb_buffer = [], mb_max_size = window_size\<rparr>"

definition buffer_add :: "f64 \<Rightarrow> mispricing_buffer \<Rightarrow> mispricing_buffer" where
  "buffer_add delta b =
     (let b' = b\<lparr>mb_buffer := mb_buffer b @ [delta]\<rparr>
      in if mb_max_size b' < length (mb_buffer b') then b'\<lparr>mb_buffer := tl (mb_buffer b')\<rparr> else b')"

definition average :: "mispricing_buffer \<Rightarrow> f64" where
  "average b =
     (if mb_buffer b = [] then f64_zero False
      else fdiv (accumulate (mb_buffer b)) (f64_of_nat (length (mb_buffer b))))"

definition isPersistentSpike :: "f64 \<Rightarrow> mispricing_buffer \<Rightarrow> bool" where
  "isPersistentSpike threshold b \<longleftrightarrow> fle threshold (fabs (average b))"

interpretation window: sliding_window buffer_add mb_buffer mb_max_size
  by unfold_locales (simp_all add: buffer_add_def Let_def)

subsection \<open>Properties\<close>

text \<open>After any sequence of additions to a new buffer, it holds exactly the newest spreads, in
  order and never more than the window size.\<close>

theorem buffer_holds_latest:
  "mb_buffer (fold buffer_add deltas (mispricing_buffer_new n)) = takeLast n deltas
   \<and> length (mb_buffer (fold buffer_add deltas (mispricing_buffer_new n))) \<le> n"
  using window.window_run [of "mispricing_buffer_new n" deltas]
  by (simp add: mispricing_buffer_new_def)

lemma fadd_zero_left:
  assumes "is_finite x" "f64_ok x"
  shows "is_finite (fadd fzero x)" "fval (fadd fzero x) = fval x"
proof -
  have "rnd (fval x) = fval x" using assms by (intro rnd_representable f64_ok_representable)
  then show "is_finite (fadd fzero x)" "fval (fadd fzero x) = fval x"
    using fadd_rounds [of fzero x] assms fval_less_limit [of x] by (auto simp: rounds_to_def)
qed

lemma two: "is_finite (f64_of_nat 2)" "fval (f64_of_nat 2) = 2"
  by (simp_all add: f64_eval power_int_def power_one_over)

lemma two_element_average:
  assumes x: "is_finite x" "f64_ok x" and y: "is_finite y" "f64_ok y"
    and s: "is_finite (fadd x y)" and le: "fval x \<le> fval y"
    and zs: "zs = [x, y] \<or> zs = [y, x]"
  shows "fval x \<le> fval (average \<lparr>mb_buffer = zs, mb_max_size = n\<rparr>)
           \<and> fval (average \<lparr>mb_buffer = zs, mb_max_size = n\<rparr>) \<le> fval y
           \<and> is_finite (average \<lparr>mb_buffer = zs, mb_max_size = n\<rparr>)"
proof -
  note rx = f64_ok_representable [OF x(2)] and ry = f64_ok_representable [OF y(2)]
  have ov: "\<bar>rnd (fval x + fval y)\<bar> < f64_limit"
    using fadd_rounds [OF x(1) y(1)] s by (auto simp: rounds_to_def split: if_splits)
  have sum: "is_finite (accumulate zs) \<and> fval (accumulate zs) = rnd (fval x + fval y)"
    using zs fadd_zero_left [OF x] fadd_zero_left [OF y] ov
      fadd_rounds [of "fadd fzero x" y] fadd_rounds [of "fadd fzero y" x] x y
    by (auto simp: accumulate_def rounds_to_def add.commute)
  have len: "length zs = 2" "zs \<noteq> []" using zs by auto
  note mean = ieee.mean_between [OF rx ry le]
  have "\<bar>rnd (rnd (fval x + fval y) / 2)\<bar> < f64_limit"
    using mean fval_less_limit [OF x(2)] fval_less_limit [OF y(2)] by linarith
  then show ?thesis
    using fdiv_rounds [of "accumulate zs" "f64_of_nat 2"] sum two mean len
    by (simp add: average_def rounds_to_def)
qed

text \<open>With the program's window of two, the rolling average of two finite spreads lies between
  them (no rounding error pushes it outside), as long as their sum does not overflow.\<close>

theorem average_between:
  assumes "is_finite x" "f64_ok x" "is_finite y" "f64_ok y" "is_finite (fadd x y)"
  shows "let m = average (fold buffer_add (ds @ [x, y]) (mispricing_buffer_new 2))
         in min (fval x) (fval y) \<le> fval m \<and> fval m \<le> max (fval x) (fval y) \<and> is_finite m"
proof -
  let ?b = "fold buffer_add (ds @ [x, y]) (mispricing_buffer_new 2)"
  have b: "?b = \<lparr>mb_buffer = [x, y], mb_max_size = 2\<rparr>"
    using window.window_run [of "mispricing_buffer_new 2" "ds @ [x, y]"]
    by (simp add: mispricing_buffer_new_def takeLast_def)
  have c: "is_finite (fadd y x)"
    using fadd_rounds [OF assms(1,3)] fadd_rounds [OF assms(3,1)] assms(5)
    by (auto simp: rounds_to_def add.commute split: if_splits)
  show ?thesis
  proof (cases "fval x \<le> fval y")
    case True
    from two_element_average [OF assms True, of "[x, y]" 2] True show ?thesis
      unfolding b by (simp add: Let_def)
  next
    case False
    then have le: "fval y \<le> fval x" by simp
    from two_element_average [OF assms(3,4,1,2) c le, of "[x, y]" 2] le show ?thesis
      unfolding b by (simp add: Let_def min_def max_def)
  qed
qed

theorem average_between_witness:
  "let m = average (fold buffer_add ([] @ [f64_dec 5 1, f64_dec 25 1]) (mispricing_buffer_new 2))
   in min (fval (f64_dec 5 1)) (fval (f64_dec 25 1)) \<le> fval m
      \<and> fval m \<le> max (fval (f64_dec 5 1)) (fval (f64_dec 25 1)) \<and> is_finite m"
  by (rule average_between) (simp_all add: f64_eval)

text \<open>An empty buffer averages to zero, so it is never a persistent spike for a positive
  threshold; a buffer whose average is NaN is not one either.\<close>

theorem no_spike_without_data:
  assumes "flt fzero threshold"
  shows "\<not> isPersistentSpike threshold (mispricing_buffer_new n)
         \<and> (average b = NaN \<longrightarrow> \<not> isPersistentSpike threshold b)"
proof -
  have "\<not> fle threshold fzero"
    using assms by (cases threshold) (auto simp: fle_zero_iff' flt_val simp del: flt.simps(1))
  then show ?thesis
    by (simp add: isPersistentSpike_def average_def mispricing_buffer_new_def f64_zero_def)
qed

theorem no_spike_without_data_witness:
  "\<not> isPersistentSpike (f64_dec 1 1) (mispricing_buffer_new 2)"
  using no_spike_without_data [of "f64_dec 1 1" 2 "mispricing_buffer_new 2"]
  by (simp add: f64_eval)

end
