(* ===== verification/ArbEngine.thy ===== *)
theory ArbEngine
  imports Interfaces MockPnL
begin

text \<open>
  \<^verbatim>\<open>ArbOpportunityEngine.hpp\<close>: the per-symbol cooldown.  \<open>shouldTrigger\<close> returns whether a signal
  may fire and remembers its time stamp; the subtraction is the unsigned 64-bit one of the code.
  The engine is an instance of the \<open>throttle\<close> interface for every symbol.
\<close>

record arb_engine =
  cooldown :: u64
  last_trigger :: "string \<rightharpoonup> u64"
  mockPnL_ptr :: "addr option"

definition arb_engine_new :: "u64 \<Rightarrow> arb_engine" where
  "arb_engine_new cooldown_ms =
     \<lparr>cooldown = cooldown_ms, last_trigger = Map.empty, mockPnL_ptr = None\<rparr>"

definition shouldTrigger :: "string \<Rightarrow> u64 \<Rightarrow> arb_engine \<Rightarrow> bool \<times> arb_engine" where
  "shouldTrigger symb timestamp e =
     (case last_trigger e symb of
        None \<Rightarrow> (True, e\<lparr>last_trigger := (last_trigger e)(symb \<mapsto> timestamp)\<rparr>)
      | Some t \<Rightarrow>
          if cooldown e < timestamp - t
          then (True, e\<lparr>last_trigger := (last_trigger e)(symb \<mapsto> timestamp)\<rparr>)
          else (False, e))"

definition reset :: "string \<Rightarrow> arb_engine \<Rightarrow> arb_engine" where
  "reset symb e = e\<lparr>last_trigger := (last_trigger e)(symb := None)\<rparr>"

definition arb_evaluate :: "f64 \<Rightarrow> f64 \<Rightarrow> u64 \<Rightarrow> 'a io_state_scheme \<Rightarrow> 'a io_state_scheme" where
  "arb_evaluate synthetic_price real_price timestamp w =
     print_out [S (''[ArbEngine::Evaluate] '' @ delta_utf8 @ '' = ''),
                D (fsub synthetic_price real_price), S '' @ '', U timestamp, nl] w"

definition attachMockPnL :: "addr \<Rightarrow> arb_engine \<Rightarrow> arb_engine" where
  "attachMockPnL p e = e\<lparr>mockPnL_ptr := Some p\<rparr>"

interpretation trigger: throttle "shouldTrigger symb" "\<lambda>ts _. ts" "\<lambda>e. last_trigger e symb" cooldown
  for symb
  by unfold_locales (auto simp: shouldTrigger_def split: option.splits if_splits)

lemma shouldTrigger_frame:
  "cooldown (snd (shouldTrigger symb ts e)) = cooldown e"
  "mockPnL_ptr (snd (shouldTrigger symb ts e)) = mockPnL_ptr e"
  "symb' \<noteq> symb \<Longrightarrow> last_trigger (snd (shouldTrigger symb ts e)) symb' = last_trigger e symb'"
  by (auto simp: shouldTrigger_def split: option.split)

lemma shouldTrigger_block: "\<not> fst (shouldTrigger symb ts e) \<Longrightarrow> snd (shouldTrigger symb ts e) = e"
  by (auto simp: shouldTrigger_def split: option.splits if_splits)

subsection \<open>Properties\<close>

text \<open>A call for any symbol, as an event of the engine.\<close>

definition triggers_for :: "string \<Rightarrow> (string \<times> u64) list \<Rightarrow> arb_engine \<Rightarrow> u64 list" where
  "triggers_for symb calls e =
     passed (\<lambda>(s, ts) e. case shouldTrigger s ts e of (b, e') \<Rightarrow> (b \<and> s = symb, e'))
       (\<lambda>c _. snd c) calls e"

interpretation mixed_trigger: throttle
  "\<lambda>(s, ts) e. case shouldTrigger s ts e of (b, e') \<Rightarrow> (b \<and> s = symb, e')" "\<lambda>c _. snd c"
  "\<lambda>e. last_trigger e symb" cooldown for symb
  by unfold_locales (auto simp: shouldTrigger_def split: option.splits if_splits)



text \<open>What a single call decides: the first signal of a symbol passes; with a clock that has
  not gone back, a later one passes exactly when strictly more than the cooldown has elapsed; a
  refused call changes nothing, and after a reset the next call passes.\<close>

theorem shouldTrigger_decision:
  "(last_trigger e symb = None \<longrightarrow> fst (shouldTrigger symb ts e))
   \<and> (\<forall>t. last_trigger e symb = Some t \<and> t \<le> ts \<longrightarrow>
        (fst (shouldTrigger symb ts e) \<longleftrightarrow> unat t + unat (cooldown e) < unat ts))
   \<and> (\<not> fst (shouldTrigger symb ts e) \<longrightarrow> snd (shouldTrigger symb ts e) = e)
   \<and> fst (shouldTrigger symb ts (reset symb e))"
proof -
  have "fst (shouldTrigger symb ts e) \<longleftrightarrow> unat t + unat (cooldown e) < unat ts"
    if "last_trigger e symb = Some t" "t \<le> ts" for t
  proof -
    have "unat (ts - t) = unat ts - unat t" using that(2) by (rule unat_sub)
    then show ?thesis using that by (auto simp: shouldTrigger_def word_less_nat_alt)
  qed
  then show ?thesis
    by (auto simp: shouldTrigger_block) (auto simp: shouldTrigger_def reset_def)
qed

theorem shouldTrigger_decision_witness:
  "fst (shouldTrigger ''ETHUSDT'' 7000 (arb_engine_new 5000))"
  using shouldTrigger_decision [of "arb_engine_new 5000" "''ETHUSDT''" 7000]
  by (simp add: arb_engine_new_def)

text \<open>The subtraction wraps: a tick older than the last signal, by less than
  \<open>2 ^ 64 - cooldown\<close> milliseconds, always passes the cooldown.\<close>

theorem stale_tick_triggers:
  assumes "last_trigger e symb = Some t" "ts < t" "unat t - unat ts < 2 ^ 64 - unat (cooldown e)"
  shows "fst (shouldTrigger symb ts e)"
proof -
  have "unat (ts - t) = 2 ^ 64 - (unat t - unat ts)"
    using assms(2) by (simp add: unat_sub_if' word_less_nat_alt)
  then have "cooldown e < ts - t"
    using assms(3) by (simp add: word_less_nat_alt)
  with assms(1) show ?thesis by (simp add: shouldTrigger_def)
qed

theorem stale_tick_triggers_witness:
  "fst (shouldTrigger ''ETHUSDT'' 999
          (snd (shouldTrigger ''ETHUSDT'' 1000 (arb_engine_new 5000))))"
  by (rule stale_tick_triggers [where t = 1000]) (simp_all add: shouldTrigger_def arb_engine_new_def)

end
