(* ===== verification/SpotSynth.thy ===== *)
theory SpotSynth
  imports MispricingBuffer ArbEngine
begin

text \<open>
  \<^verbatim>\<open>SyntheticSpotSynth.hpp\<close>: the synthetic ETHUSDT price ETHBTC * BTCUSDT, its logging, and the
  comparison with the real price that raises signals and books simulated trades.  The loggers, the
  arbitrage engine and the profit tracker are reached through pointers into the state.

  \<^verbatim>\<open>(int64_t)(ts_ethbtc - ts_btcusdt)\<close> reads the wrapped difference as signed; its absolute value
  is compared with an unsigned constant, so as an unsigned number (\<open>tick_gap\<close>; for the one value
  \<open>- 2 ^ 63\<close>, where \<^verbatim>\<open>std::abs\<close> is undefined, it is \<open>2 ^ 63\<close>, the two's complement result).
\<close>

record desk_state = pnl_state +
  arb_engines :: "addr \<Rightarrow> arb_engine"

definition blank_desk :: desk_state where
  "blank_desk =
     \<lparr>cout = new_ostream, cerr = new_ostream, files = (\<lambda>_. open_ofstream True),
      arb_loggers = (\<lambda>_. arb_logger_new True 0),
      mispricing_loggers = (\<lambda>_. mispricing_logger_new True '''' (f64_zero False)),
      snapshot_loggers = (\<lambda>_. snapshot_logger_new True),
      pnl_engines = (\<lambda>_. mock_pnl_new (f64_dec 5000 0)), arb_engines = (\<lambda>_. arb_engine_new 0)\<rparr>"

record spot_synth =
  ss_label :: string
  ss_ethbtc :: f64
  ss_btcusdt :: f64
  synthetic_price :: f64
  real_ethusdt :: f64
  ss_last_ts :: u64
  ts_ethbtc :: u64
  ts_btcusdt :: u64
  mispricing_ptr :: "addr option"
  snapshot_ptr :: "addr option"
  arb_ptr :: "addr option"
  pnl_ptr :: "addr option"
  ss_buffer :: mispricing_buffer
  ready_ethbtc :: bool
  ready_btcusdt :: bool

definition spot_synth_new :: "string \<Rightarrow> spot_synth" where
  "spot_synth_new label =
     \<lparr>ss_label = label, ss_ethbtc = f64_zero False, ss_btcusdt = f64_zero False,
      synthetic_price = f64_zero False, real_ethusdt = f64_zero False, ss_last_ts = 0,
      ts_ethbtc = 0, ts_btcusdt = 0, mispricing_ptr = None, snapshot_ptr = None, arb_ptr = None,
      pnl_ptr = None, ss_buffer = mispricing_buffer_new 2, ready_ethbtc = False,
      ready_btcusdt = False\<rparr>"

definition trigger_threshold :: f64 where
  "trigger_threshold = f64_dec 1 1"

definition spike_threshold :: f64 where
  "spike_threshold = f64_dec 1 1"

subsection \<open>update\<close>

definition tick_gap :: "u64 \<Rightarrow> u64 \<Rightarrow> u64" where
  "tick_gap a b = (let d = a - b in if sint d < 0 then - d else d)"

definition store_leg :: "string \<Rightarrow> f64 \<Rightarrow> u64 \<Rightarrow> spot_synth \<Rightarrow> spot_synth" where
  "store_leg symb px timestamp s =
     (if symb = ''ETHBTC''
      then s\<lparr>ss_ethbtc := px, ts_ethbtc := timestamp, ready_ethbtc := True\<rparr>
      else if symb = ''BTCUSDT''
      then s\<lparr>ss_btcusdt := px, ts_btcusdt := timestamp, ready_btcusdt := True\<rparr>
      else s)"

definition synced_ticks :: "spot_synth \<Rightarrow> bool" where
  "synced_ticks s \<longleftrightarrow> ready_ethbtc s \<and> ready_btcusdt s \<and> tick_gap (ts_ethbtc s) (ts_btcusdt s) \<le> 1500"

definition synth_update ::
  "string \<Rightarrow> f64 \<Rightarrow> u64 \<Rightarrow> spot_synth \<Rightarrow> 'a io_state_scheme \<Rightarrow> spot_synth \<times> 'a io_state_scheme" where
  "synth_update symb px timestamp s w =
     (let s1 = store_leg symb px timestamp s
      in if synced_ticks s1
         then let s2 = s1\<lparr>synthetic_price := fmul (ss_ethbtc s1) (ss_btcusdt s1), ss_last_ts := timestamp\<rparr>;
                  w1 = print_out [S ''[Synthetic] '', S (ss_label s2), S '' = '', D (synthetic_price s2),
                                  S '' @ '', U (ss_last_ts s2), nl] w
              in (s2, log_mispricing (mispricing_ptr s2) (synthetic_price s2) (real_ethusdt s2) timestamp w1)
         else (s1, w))"

subsection \<open>compareToReal\<close>

definition trade_direction :: "f64 \<Rightarrow> string" where
  "trade_direction delta = (if flt (f64_zero False) delta then ''SELL'' else ''BUY'')"

definition slippage_rate :: f64 where
  "slippage_rate = f64_dec 2 4"

definition slip_up :: "f64 \<Rightarrow> f64" where
  "slip_up p = fmul p (fadd (f64_dec 1 0) slippage_rate)"

definition slip_down :: "f64 \<Rightarrow> f64" where
  "slip_down p = fmul p (fsub (f64_dec 1 0) slippage_rate)"

definition effective_entry :: "string \<Rightarrow> f64 \<Rightarrow> f64" where
  "effective_entry direction synth = (if direction = ''BUY'' then slip_up synth else slip_down synth)"

definition effective_exit :: "string \<Rightarrow> f64 \<Rightarrow> f64" where
  "effective_exit direction real_price =
     (if direction = ''BUY'' then slip_down real_price else slip_up real_price)"

definition spread_monitor_report :: "f64 \<Rightarrow> f64 \<Rightarrow> f64 \<Rightarrow> f64 \<Rightarrow> item list" where
  "spread_monitor_report btc eb rp sp =
     [nl, S ''=== Synthetic Spread Monitor ==='', nl,
      S '' BTCUSDT: '', D btc, nl,
      S '' ETHBTC : '', D eb, nl,
      S '' ETHUSDT: '', D rp, nl,
      S '' -------------------------------'', nl,
      S '' Synthetic ETHUSDT = '', D sp, nl,
      S ''  (Real - Synthetic) = '', D (fsub rp sp), nl]"

definition signal_items :: "f64 \<Rightarrow> u64 \<Rightarrow> f64 \<Rightarrow> item list" where
  "signal_items sp timestamp delta =
     [S ''[Synthetic] ETHUSDT (Synthetic) = '', D sp, S '' @ '', U timestamp, nl,
      S (''  [Mispricing Alert] ETHUSDT: '' @ delta_utf8 @ '' = ''), Fixed, Prec 6, D delta, nl]"

definition book_signal ::
  "addr option \<Rightarrow> f64 \<Rightarrow> f64 \<Rightarrow> f64 \<Rightarrow> u64 \<Rightarrow> 'a pnl_state_scheme \<Rightarrow> 'a pnl_state_scheme" where
  "book_signal tracker sp rp delta timestamp w =
     (let direction = trade_direction delta;
          w1 = print_out (signal_items sp timestamp delta) w;
          en = effective_entry direction sp;
          ex = effective_exit direction rp
      in case tracker of
           None \<Rightarrow> w1
         | Some a \<Rightarrow> recordTrade a ''ETHUSDT'' en ex timestamp direction w1)"

text \<open>The call of \<^verbatim>\<open>shouldTrigger\<close> through the pointer; the short-circuit decides whether it is made.\<close>

definition try_trigger ::
  "addr option \<Rightarrow> f64 \<Rightarrow> u64 \<Rightarrow> 'a desk_state_scheme \<Rightarrow> bool \<times> 'a desk_state_scheme" where
  "try_trigger p delta timestamp w =
     (case p of
        None \<Rightarrow> (False, w)
      | Some a \<Rightarrow>
          if fle trigger_threshold (fabs delta)
          then (case shouldTrigger ''ETHUSDT'' timestamp (arb_engines w a) of
                  (b, e) \<Rightarrow> (b, w\<lparr>arb_engines := (arb_engines w)(a := e)\<rparr>))
          else (False, w))"

text \<open>The reports and log rows of a comparison, before any signal.\<close>

definition compare_logs ::
  "f64 \<Rightarrow> u64 \<Rightarrow> f64 \<Rightarrow> spot_synth \<Rightarrow> 'a io_state_scheme \<Rightarrow> 'a io_state_scheme" where
  "compare_logs real_price timestamp sp s w =
     (let w1 = print_out (spread_monitor_report (ss_btcusdt s) (ss_ethbtc s) real_price sp) w;
          w2 = log_mispricing (mispricing_ptr s) sp real_price timestamp w1;
          w3 = log_snapshot (snapshot_ptr s) timestamp (ss_ethbtc s) (ss_btcusdt s) real_price sp w2
      in if arb_ptr s \<noteq> None \<and> isPersistentSpike spike_threshold (ss_buffer s)
         then arb_evaluate sp real_price timestamp w3 else w3)"

definition compareToReal ::
  "f64 \<Rightarrow> u64 \<Rightarrow> spot_synth \<Rightarrow> 'a desk_state_scheme \<Rightarrow> spot_synth \<times> 'a desk_state_scheme" where
  "compareToReal real_price timestamp s w =
     (if \<not> ready_ethbtc s \<or> \<not> ready_btcusdt s
      then (s, print_err [S (''[warn] Synthetic pricing unavailable '' @ emdash_utf8 @
                             '' missing feed(s)''), nl] w)
      else let sp = fmul (ss_ethbtc s) (ss_btcusdt s);
               delta = fsub sp real_price;
               s1 = s\<lparr>synthetic_price := sp, real_ethusdt := real_price,
                      ss_buffer := buffer_add delta (ss_buffer s)\<rparr>;
               (fired, w1) = try_trigger (arb_ptr s1) delta timestamp
                               (compare_logs real_price timestamp sp s1 w)
           in (s1, if fired then book_signal (pnl_ptr s1) sp real_price delta timestamp w1 else w1))"

definition synth_getSynthetic :: "spot_synth \<Rightarrow> f64" where
  "synth_getSynthetic s =
     (if ready_ethbtc s \<and> ready_btcusdt s then fmul (ss_ethbtc s) (ss_btcusdt s) else f64_zero False)"

definition getAverageMispricing :: "spot_synth \<Rightarrow> f64" where
  "getAverageMispricing s = average (ss_buffer s)"

definition attachLogger :: "addr \<Rightarrow> spot_synth \<Rightarrow> spot_synth" where
  "attachLogger a s = s\<lparr>mispricing_ptr := Some a\<rparr>"

definition attachSnapshotLogger :: "addr \<Rightarrow> spot_synth \<Rightarrow> spot_synth" where
  "attachSnapshotLogger a s = s\<lparr>snapshot_ptr := Some a\<rparr>"

definition attachArbEngine :: "addr \<Rightarrow> spot_synth \<Rightarrow> spot_synth" where
  "attachArbEngine a s = s\<lparr>arb_ptr := Some a\<rparr>"

definition synth_attachMockPnL :: "addr \<Rightarrow> spot_synth \<Rightarrow> spot_synth" where
  "synth_attachMockPnL a s = s\<lparr>pnl_ptr := Some a\<rparr>"

subsection \<open>What the operations leave alone\<close>

lemma more_pnl: "io_state.more w = io_state.more w' \<Longrightarrow> pnl_engines w = pnl_engines w'"
  by (cases w; cases w') simp

lemma more_arb: "pnl_state.more w = pnl_state.more w' \<Longrightarrow> arb_engines w = arb_engines w'"
  by (cases w; cases w') simp

lemma io_more_arb: "io_state.more w = io_state.more w' \<Longrightarrow> arb_engines w = arb_engines w'"
  by (cases w; cases w') simp

lemma print_pnl [simp]:
  "pnl_engines (print_out is w) = pnl_engines w" "pnl_engines (print_err is w) = pnl_engines w"
  "pnl_engines (log_mispricing p x y t w) = pnl_engines w"
  "pnl_engines (log_snapshot q t a b c d w) = pnl_engines w"
  "pnl_engines (arb_evaluate x y t w) = pnl_engines w"
  by (rule more_pnl, simp add: arb_evaluate_def)+

lemma print_arb [simp]:
  "arb_engines (print_out is w) = arb_engines w" "arb_engines (print_err is w) = arb_engines w"
  "arb_engines (log_mispricing p x y t w) = arb_engines w"
  "arb_engines (log_snapshot q t a b c d w) = arb_engines w"
  "arb_engines (arb_evaluate x y t w) = arb_engines w"
  by (rule io_more_arb, simp add: arb_evaluate_def)+

lemma recordTrade_arb [simp]: "arb_engines (recordTrade a sy en ex t d w) = arb_engines w"
  by (rule more_arb) simp

lemma compare_logs_frame [simp]:
  "pnl_engines (compare_logs p t sp s w) = pnl_engines w"
  "files (compare_logs p t sp s w) = files w"
  "arb_loggers (compare_logs p t sp s w) = arb_loggers w"
  by (simp_all add: compare_logs_def Let_def arb_evaluate_def)

lemma compare_logs_arb [simp]: "arb_engines (compare_logs p t sp s w) = arb_engines w"
  by (simp add: compare_logs_def Let_def)

lemma update_pointers [simp]:
  "mispricing_ptr (fst (synth_update symb p t s w)) = mispricing_ptr s"
  "snapshot_ptr (fst (synth_update symb p t s w)) = snapshot_ptr s"
  "arb_ptr (fst (synth_update symb p t s w)) = arb_ptr s"
  "pnl_ptr (fst (synth_update symb p t s w)) = pnl_ptr s"
  "real_ethusdt (fst (synth_update symb p t s w)) = real_ethusdt s"
  "ss_buffer (fst (synth_update symb p t s w)) = ss_buffer s"
  by (simp_all add: synth_update_def store_leg_def Let_def)

lemma compare_pointers [simp]:
  "mispricing_ptr (fst (compareToReal p t s w)) = mispricing_ptr s"
  "snapshot_ptr (fst (compareToReal p t s w)) = snapshot_ptr s"
  "arb_ptr (fst (compareToReal p t s w)) = arb_ptr s"
  "pnl_ptr (fst (compareToReal p t s w)) = pnl_ptr s"
  by (simp_all add: compareToReal_def Let_def split: prod.split)

lemma update_desk [simp]:
  "pnl_engines (snd (synth_update symb p t s w)) = pnl_engines w"
  "files (snd (synth_update symb p t s w)) = files w"
  "arb_loggers (snd (synth_update symb p t s w)) = arb_loggers w"
  by (simp_all add: synth_update_def Let_def)

lemma update_arb [simp]: "arb_engines (snd (synth_update symb p t s w)) = arb_engines w"
  by (simp add: synth_update_def Let_def)

lemma try_trigger_desk [simp]:
  "pnl_engines (snd (try_trigger p d t w)) = pnl_engines w"
  "cout (snd (try_trigger p d t w)) = cout w" "files (snd (try_trigger p d t w)) = files w"
  "arb_loggers (snd (try_trigger p d t w)) = arb_loggers w"
  by (simp_all add: try_trigger_def split: option.split prod.split)

lemma book_signal_none [simp]: "pnl_engines (book_signal None sp rp d t w) = pnl_engines w"
  "files (book_signal None sp rp d t w) = files w"
  "arb_loggers (book_signal None sp rp d t w) = arb_loggers w"
  by (simp_all add: book_signal_def Let_def)

lemma compare_ready:
  fixes rp :: f64 and t :: u64 and w :: "'a desk_state_scheme"
  assumes "ready_ethbtc s" "ready_btcusdt s"
  defines "sp \<equiv> fmul (ss_ethbtc s) (ss_btcusdt s)"
  defines "s1 \<equiv> s\<lparr>synthetic_price := sp, real_ethusdt := rp,
                   ss_buffer := buffer_add (fsub sp rp) (ss_buffer s)\<rparr>"
  defines "tr \<equiv> try_trigger (arb_ptr s) (fsub sp rp) t (compare_logs rp t sp s1 w)"
  shows "compareToReal rp t s w =
           (s1, if fst tr then book_signal (pnl_ptr s) sp rp (fsub sp rp) t (snd tr) else snd tr)"
  using assms by (simp add: compareToReal_def Let_def split: prod.split)

lemma compare_unready:
  "\<not> (ready_ethbtc s \<and> ready_btcusdt s) \<Longrightarrow>
   compareToReal rp t s w =
     (s, print_err [S (''[warn] Synthetic pricing unavailable '' @ emdash_utf8 @
                       '' missing feed(s)''), nl] w)"
  by (auto simp: compareToReal_def)

text \<open>Without a profit tracker a comparison never touches the profit engines or the trade logs.\<close>

lemma compare_no_tracker:
  assumes "pnl_ptr s = None"
  shows "pnl_engines (snd (compareToReal p t s w)) = pnl_engines w
         \<and> files (snd (compareToReal p t s w)) = files w
         \<and> arb_loggers (snd (compareToReal p t s w)) = arb_loggers w"
proof (cases "ready_ethbtc s \<and> ready_btcusdt s")
  case True
  then have r: "ready_ethbtc s" "ready_btcusdt s" by simp_all
  show ?thesis unfolding compare_ready [OF r] by (simp add: assms)
next
  case False
  show ?thesis unfolding compare_unready [OF False] by simp
qed

subsection \<open>Properties\<close>

lemma sint_neg_iff: "sint (w :: u64) < 0 \<longleftrightarrow> 2 ^ 63 \<le> unat w"
proof -
  have u: "uint w = sint w mod 2 ^ 64" by (simp add: uint_sint take_bit_eq_mod)
  have b: "- (2 ^ 63) \<le> sint w" "sint w < 2 ^ 63"
    using sint_greater_eq [of w] sint_less [of w] by simp_all
  have p: "(2 :: int) ^ 64 = 2 * 2 ^ 63" by simp
  have "2 ^ 63 \<le> unat w \<longleftrightarrow> 2 ^ 63 \<le> uint w"
    by (simp only: uint_nat) (metis of_nat_le_iff of_nat_numeral of_nat_power)
  moreover have "sint w < 0 \<longleftrightarrow> 2 ^ 63 \<le> uint w"
  proof (cases "sint w < 0")
    case True
    have "sint w mod 2 ^ 64 = (sint w + 2 ^ 64) mod 2 ^ 64" by simp
    also have "\<dots> = sint w + 2 ^ 64" using b True p by (intro mod_pos_pos_trivial) linarith+
    finally show ?thesis using u True b p by linarith
  next
    case False
    have "sint w mod 2 ^ 64 = sint w" using b False p by (intro mod_pos_pos_trivial) linarith+
    then show ?thesis using u False b by linarith
  qed
  ultimately show ?thesis by blast
qed

lemma unat_lt: "unat (w :: u64) < 2 ^ 64"
  using unsigned_less [of w, where 'a = nat] by simp

lemma unat_diff_cases:
  fixes a b :: u64
  shows "unat (a - b) = (if unat b \<le> unat a then unat a - unat b else 2 ^ 64 - (unat b - unat a))"
proof (cases "unat b \<le> unat a")
  case True
  then show ?thesis by (simp add: unat_sub_if' word_le_nat_alt)
next
  case False
  then have "unat (a - b) = unat a + 2 ^ 64 - unat b" by (simp add: unat_sub_if' word_le_nat_alt)
  moreover have "unat a + 2 ^ 64 - unat b = 2 ^ 64 - (unat b - unat a)"
    using False unat_lt [of b] by linarith
  ultimately show ?thesis using False by simp
qed

lemma tick_gap_le_iff:
  assumes "unat a < 2 ^ 63" "unat b < 2 ^ 63"
  shows "tick_gap a b \<le> 1500 \<longleftrightarrow> \<bar>int (unat a) - int (unat b)\<bar> \<le> 1500"
proof (cases "unat b \<le> unat a")
  case True
  then have d: "unat (a - b) = unat a - unat b" by (simp add: unat_diff_cases)
  then have "\<not> sint (a - b) < 0" using sint_neg_iff [of "a - b"] assms by linarith
  then have "tick_gap a b = a - b" by (simp add: tick_gap_def Let_def)
  then have "tick_gap a b \<le> 1500 \<longleftrightarrow> unat a - unat b \<le> 1500" using d by (simp add: word_le_nat_alt)
  then show ?thesis using True by linarith
next
  case False
  then have d: "unat (a - b) = 2 ^ 64 - (unat b - unat a)" "unat (b - a) = unat b - unat a"
    by (simp_all add: unat_diff_cases)
  then have "2 ^ 63 \<le> unat (a - b)" using assms False by (simp add: d)
  then have "sint (a - b) < 0" using sint_neg_iff [of "a - b"] by simp
  then have "tick_gap a b = b - a" by (simp add: tick_gap_def Let_def)
  then have "tick_gap a b \<le> 1500 \<longleftrightarrow> unat b - unat a \<le> 1500" using d by (simp add: word_le_nat_alt)
  then show ?thesis using False by linarith
qed

text \<open>C16: With time stamps in the signed range, a leg update recomputes the synthetic price exactly when
  both legs have been seen and their stamps differ by at most 1500 ms in either direction; then the
  price is the product of the stored legs, stamped with this update; otherwise it is kept.\<close>

theorem update_sync:
  assumes "unat (ts_ethbtc (store_leg symb p t s)) < 2 ^ 63"
    and "unat (ts_btcusdt (store_leg symb p t s)) < 2 ^ 63"
  shows "let s1 = store_leg symb p t s; s' = fst (synth_update symb p t s w);
             synced = ready_ethbtc s1 \<and> ready_btcusdt s1
               \<and> \<bar>int (unat (ts_ethbtc s1)) - int (unat (ts_btcusdt s1))\<bar> \<le> 1500
         in synthetic_price s' = (if synced then fmul (ss_ethbtc s1) (ss_btcusdt s1) else synthetic_price s)
            \<and> ss_last_ts s' = (if synced then t else ss_last_ts s)
            \<and> (\<not> synced \<longrightarrow> snd (synth_update symb p t s w) = w)"
proof -
  have "synthetic_price (store_leg symb p t s) = synthetic_price s"
    "ss_last_ts (store_leg symb p t s) = ss_last_ts s" by (simp_all add: store_leg_def)
  then show ?thesis
    using tick_gap_le_iff [OF assms] by (auto simp: synth_update_def Let_def synced_ticks_def)
qed

theorem update_sync_witness:
  "snd (synth_update ''ETHBTC'' (f64_dec 2 2) 5000 (spot_synth_new ''x'') blank_io) = blank_io"
  using update_sync [of "''ETHBTC''" "f64_dec 2 2" 5000 "spot_synth_new ''x''" blank_io]
  by (simp add: Let_def store_leg_def spot_synth_new_def)

text \<open>A comparison with a missing leg only warns on the error stream: the object, the engines and
  every log stay as they are.\<close>

theorem compare_missing_leg:
  assumes "\<not> (ready_ethbtc s \<and> ready_btcusdt s)"
  shows "fst (compareToReal rp t s w) = s
         \<and> (let w' = snd (compareToReal rp t s w)
            in w'\<lparr>cerr := cerr w\<rparr> = w
               \<and> (ogood (cerr w) \<longrightarrow> otext (cerr w') \<noteq> otext (cerr w)))"
proof -
  show ?thesis unfolding compare_unready [OF assms]
    by (simp add: print_err_def Let_def stream_defs)
qed

theorem compare_missing_leg_witness:
  "fst (compareToReal (f64_dec 2500 0) 1 (spot_synth_new ''x'') blank_desk) = spot_synth_new ''x''"
proof -
  have "\<not> (ready_ethbtc (spot_synth_new ''x'') \<and> ready_btcusdt (spot_synth_new ''x''))"
    by (simp add: spot_synth_new_def)
  from compare_missing_leg [OF this, of "f64_dec 2500 0" 1 blank_desk] show ?thesis by simp
qed

text \<open>C8: What a comparison with all parts attached does: it stores the synthetic and the real price and
  the spread; it books exactly one trade when the spread reaches 0.1 in size and the cooldown lets
  the signal through, and none otherwise; the trade sells the synthetic when it is above the real
  price and buys it otherwise, at prices moved against the trade by the slippage.\<close>

theorem compare_books:
  fixes w :: "'a desk_state_scheme"
  assumes ready: "ready_ethbtc s" "ready_btcusdt s"
    and ptrs: "arb_ptr s = Some b" "pnl_ptr s = Some a"
  defines "sp \<equiv> fmul (ss_ethbtc s) (ss_btcusdt s)"
  shows "let (s', w') = compareToReal rp t s w;
             delta = fsub sp rp;
             direction = (if flt fzero delta then ''SELL'' else ''BUY'');
             signal = (fle trigger_threshold (fabs delta)
                         \<and> fst (shouldTrigger ''ETHUSDT'' t (arb_engines w b)))
         in synthetic_price s' = sp \<and> real_ethusdt s' = rp
            \<and> ss_buffer s' = buffer_add delta (ss_buffer s)
            \<and> trades (pnl_engines w' a) = trades (pnl_engines w a) @
                (if signal
                 then [make_trade (pnl_engines w a) ''ETHUSDT'' (effective_entry direction sp)
                         (effective_exit direction rp) t direction]
                 else [])"
proof -
  let ?s1 = "s\<lparr>synthetic_price := sp, real_ethusdt := rp,
               ss_buffer := buffer_add (fsub sp rp) (ss_buffer s)\<rparr>"
  let ?tr = "try_trigger (Some b) (fsub sp rp) t (compare_logs rp t sp ?s1 w)"
  have eq: "compareToReal rp t s w =
      (?s1, if fst ?tr then book_signal (Some a) sp rp (fsub sp rp) t (snd ?tr) else snd ?tr)"
    using compare_ready [OF ready, of rp t w] ptrs by (simp add: sp_def)
  have fired: "fst ?tr \<longleftrightarrow> fle trigger_threshold (fabs (fsub sp rp))
      \<and> fst (shouldTrigger ''ETHUSDT'' t (arb_engines w b))"
    by (simp add: try_trigger_def split: prod.split)
  have tr: "trades (pnl_engines (book_signal (Some a) sp rp d t v) a) = trades (pnl_engines v a) @
      [make_trade (pnl_engines v a) ''ETHUSDT'' (effective_entry (trade_direction d) sp)
         (effective_exit (trade_direction d) rp) t (trade_direction d)]"
    for d and v :: "'a desk_state_scheme"
    by (simp add: book_signal_def Let_def recordTrade_engine book_trade_def)
  show ?thesis
    unfolding eq by (simp add: Let_def fired tr) (simp add: trade_direction_def)
qed

theorem compare_books_witness:
  "let s = (spot_synth_new ''x'')\<lparr>ss_ethbtc := f64_dec 5 1, ss_btcusdt := f64_dec 7 0, ready_ethbtc := True,
             ready_btcusdt := True, arb_ptr := Some 0, pnl_ptr := Some 0\<rparr>;
       w' = snd (compareToReal (f64_dec 3 0) 1000 s blank_desk)
   in map st_direction (trades (pnl_engines w' 0)) = [''SELL'']"
proof -
  let ?s = "(spot_synth_new ''x'')\<lparr>ss_ethbtc := f64_dec 5 1, ss_btcusdt := f64_dec 7 0, ready_ethbtc := True,
             ready_btcusdt := True, arb_ptr := Some 0, pnl_ptr := Some 0\<rparr>"
  let ?sp = "fmul (ss_ethbtc ?s) (ss_btcusdt ?s)"
  have s: "ready_ethbtc ?s" "ready_btcusdt ?s" "arb_ptr ?s = Some 0" "pnl_ptr ?s = Some 0" by simp_all
  have delta: "fsub ?sp (f64_dec 3 0) = f64_dec 5 1"
    by (simp add: f64_eval fadd_Fin sum_at_def del: fadd.simps(1))
  have sig: "fle trigger_threshold (fabs (fsub ?sp (f64_dec 3 0)))" "flt fzero (fsub ?sp (f64_dec 3 0))"
    unfolding delta by (simp_all add: trigger_threshold_def f64_eval)
  have fire: "fst (shouldTrigger ''ETHUSDT'' 1000 (arb_engines blank_desk 0))"
    "trades (pnl_engines blank_desk 0) = []"
    by (simp_all add: blank_desk_def shouldTrigger_def arb_engine_new_def mock_pnl_new_def)
  obtain s' w' where r: "compareToReal (f64_dec 3 0) 1000 ?s blank_desk = (s', w')"
    by (cases "compareToReal (f64_dec 3 0) 1000 ?s blank_desk")
  have "trades (pnl_engines w' 0) = trades (pnl_engines blank_desk 0) @
      [make_trade (pnl_engines blank_desk 0) ''ETHUSDT'' (effective_entry ''SELL'' ?sp)
        (effective_exit ''SELL'' (f64_dec 3 0)) 1000 ''SELL'']"
    using compare_books [OF s, of "f64_dec 3 0" 1000 blank_desk] sig fire(1) unfolding Let_def r prod.case
    by (simp only: if_True simp_thms)
  then show ?thesis unfolding Let_def r by (simp add: fire(2) make_trade_def Let_def)
qed

text \<open>A comparison never looks at the age of the legs: shifting the leg time stamps in any way
  changes neither what it prints and logs nor whether it trades.\<close>

theorem compare_ignores_age:
  "compareToReal rp t (s\<lparr>ts_ethbtc := x, ts_btcusdt := y\<rparr>) w
   = (case compareToReal rp t s w of (s', w') \<Rightarrow> (s'\<lparr>ts_ethbtc := x, ts_btcusdt := y\<rparr>, w'))"
proof -
  have logs: "compare_logs rp t sp (z\<lparr>ts_ethbtc := x, ts_btcusdt := y\<rparr>) v = compare_logs rp t sp z v"
    for sp z and v :: "'a desk_state_scheme"
    by (simp add: compare_logs_def)
  show ?thesis
  proof (cases "ready_ethbtc s \<and> ready_btcusdt s")
    case True
    then have r: "ready_ethbtc s" "ready_btcusdt s"
      and r': "ready_ethbtc (s\<lparr>ts_ethbtc := x, ts_btcusdt := y\<rparr>)"
        "ready_btcusdt (s\<lparr>ts_ethbtc := x, ts_btcusdt := y\<rparr>)" by simp_all
    have upd: "s\<lparr>ts_ethbtc := x, ts_btcusdt := y\<rparr>\<lparr>synthetic_price := q, real_ethusdt := rp, ss_buffer := b\<rparr>
        = s\<lparr>synthetic_price := q, real_ethusdt := rp, ss_buffer := b\<rparr>\<lparr>ts_ethbtc := x, ts_btcusdt := y\<rparr>"
      for q b by simp
    have sel: "arb_ptr (z\<lparr>ts_ethbtc := x, ts_btcusdt := y\<rparr>) = arb_ptr z"
      "pnl_ptr (z\<lparr>ts_ethbtc := x, ts_btcusdt := y\<rparr>) = pnl_ptr z"
      "ss_ethbtc (z\<lparr>ts_ethbtc := x, ts_btcusdt := y\<rparr>) = ss_ethbtc z"
      "ss_btcusdt (z\<lparr>ts_ethbtc := x, ts_btcusdt := y\<rparr>) = ss_btcusdt z"
      "ss_buffer (z\<lparr>ts_ethbtc := x, ts_btcusdt := y\<rparr>) = ss_buffer z" for z :: spot_synth by simp_all
    show ?thesis
      unfolding compare_ready [OF r] compare_ready [OF r'] by (simp only: sel upd logs prod.case)
  next
    case False
    then show ?thesis by (simp add: compare_unready)
  qed
qed



subsection \<open>The break-even spread\<close>

lemma slip_factors:
  defines "u \<equiv> fadd (f64_dec 1 0) slippage_rate" and "d \<equiv> fsub (f64_dec 1 0) slippage_rate"
  shows "is_finite u" "is_finite d" "0 < fval u" "0 < fval d"
    "10004 / 10000 * fval d \<le> fval u" "fval u \<le> 10005 / 10000 * fval d"
  unfolding u_def d_def slippage_rate_def
  by (simp_all add: f64_eval power_int_def power_one_over)

lemma slip_val:
  assumes "is_finite p" "is_finite (slip_up p)" "is_finite (slip_down p)" "0 \<le> fval p"
  shows "is_price (slip_up p)" "is_price (slip_down p)"
    "fval (slip_up p) = rnd (fval p * fval (fadd (f64_dec 1 0) slippage_rate))"
    "fval (slip_down p) = rnd (fval p * fval (fsub (f64_dec 1 0) slippage_rate))"
proof -
  note up = fmul_rounds [OF assms(1) slip_factors(1), folded slip_up_def]
  note down = fmul_rounds [OF assms(1) slip_factors(2), folded slip_down_def]
  show u: "fval (slip_up p) = rnd (fval p * fval (fadd (f64_dec 1 0) slippage_rate))"
    using rounds_to_finite [OF up assms(2)] .
  show d: "fval (slip_down p) = rnd (fval p * fval (fsub (f64_dec 1 0) slippage_rate))"
    using rounds_to_finite [OF down assms(3)] .
  show "is_price (slip_up p)" "is_price (slip_down p)"
    using assms u d rounds_to_ok [OF up] rounds_to_ok [OF down] slip_factors(3,4)
    by (simp_all add: is_price_def rnd_nonneg less_imp_le)
qed

text \<open>The price moved up is at most the other price moved down when the gap is at least 5 basis points,
  and at least it when the gap is at most 4.\<close>

lemma slip_compare:
  assumes lo: "is_finite lo" "is_finite (slip_up lo)" "is_finite (slip_down lo)" "0 \<le> fval lo"
    and hi: "is_finite hi" "is_finite (slip_up hi)" "is_finite (slip_down hi)" "0 \<le> fval hi"
  shows "10005 / 10000 * fval lo \<le> fval hi \<Longrightarrow> fval (slip_up lo) \<le> fval (slip_down hi)"
    "fval hi \<le> 10004 / 10000 * fval lo \<Longrightarrow> fval (slip_down hi) \<le> fval (slip_up lo)"
proof -
  let ?u = "fval (fadd (f64_dec 1 0) slippage_rate)" and ?d = "fval (fsub (f64_dec 1 0) slippage_rate)"
  show "fval (slip_up lo) \<le> fval (slip_down hi)" if "10005 / 10000 * fval lo \<le> fval hi"
  proof -
    have "fval lo * ?u \<le> fval lo * (10005 / 10000 * ?d)"
      using slip_factors(6) lo(4) by (rule mult_left_mono)
    also have "\<dots> = 10005 / 10000 * fval lo * ?d" by simp
    also have "\<dots> \<le> fval hi * ?d"
      using that slip_factors(4) by (intro mult_right_mono) auto
    finally show ?thesis unfolding slip_val(3) [OF lo] slip_val(4) [OF hi] by (rule rnd_mono)
  qed
  show "fval (slip_down hi) \<le> fval (slip_up lo)" if "fval hi \<le> 10004 / 10000 * fval lo"
  proof -
    have "fval hi * ?d \<le> 10004 / 10000 * fval lo * ?d"
      using that slip_factors(4) by (intro mult_right_mono) auto
    also have "\<dots> = fval lo * (10004 / 10000 * ?d)" by simp
    also have "\<dots> \<le> fval lo * ?u"
      using slip_factors(5) lo(4) by (intro mult_left_mono) auto
    finally show ?thesis unfolding slip_val(3) [OF lo] slip_val(4) [OF hi] by (rule rnd_mono)
  qed
qed

text \<open>The trades a comparison books break even between 4 and 5 basis points of spread: with the
  synthetic price at least 5 basis points above the real one the SELL it books does not lose, with
  at most 4 it does not gain; and the same for the BUY with the roles of the prices exchanged.\<close>

theorem signal_break_even:
  assumes sp: "is_finite sp" "is_finite (slip_up sp)" "is_finite (slip_down sp)" "0 \<le> fval sp"
    and rp: "is_finite rp" "is_finite (slip_up rp)" "is_finite (slip_down rp)" "0 \<le> fval rp"
    and pos: "0 < fval (slip_down rp)" "0 < fval (slip_up rp)" and cap: "fle fzero (max_exposure e)"
  shows "let sell = st_pnl (make_trade e ''ETHUSDT'' (effective_entry ''SELL'' sp)
                              (effective_exit ''SELL'' rp) t ''SELL'');
             buy = st_pnl (make_trade e ''ETHUSDT'' (effective_entry ''BUY'' sp)
                             (effective_exit ''BUY'' rp) t ''BUY'')
         in (10005 / 10000 * fval rp \<le> fval sp \<longrightarrow> fle fzero sell)
            \<and> (fval sp \<le> 10004 / 10000 * fval rp \<longrightarrow> fle sell fzero)
            \<and> (10005 / 10000 * fval sp \<le> fval rp \<longrightarrow> fle fzero buy)
            \<and> (fval rp \<le> 10004 / 10000 * fval sp \<longrightarrow> fle buy fzero)"
  using pnl_sign [OF slip_val(2) [OF sp] slip_val(1) [OF rp] pos(2) cap, of "''ETHUSDT''" t]
    pnl_sign [OF slip_val(1) [OF sp] slip_val(2) [OF rp] pos(1) cap, of "''ETHUSDT''" t]
    slip_compare [OF rp sp] slip_compare [OF sp rp]
  by (simp add: Let_def effective_entry_def effective_exit_def)

theorem signal_break_even_witness:
  "fle (st_pnl (make_trade (mock_pnl_new (f64_dec 5000 0)) ''ETHUSDT''
          (effective_entry ''SELL'' (f64_dec 25005 1)) (effective_exit ''SELL'' (f64_dec 2500 0)) 1 ''SELL''))
     fzero
   \<and> fle trigger_threshold (fabs (fsub (f64_dec 25005 1) (f64_dec 2500 0)))"
proof -
  let ?sp = "f64_dec 25005 1" and ?rp = "f64_dec 2500 0"
  have sp: "is_finite ?sp" "is_finite (slip_up ?sp)" "is_finite (slip_down ?sp)" "0 \<le> fval ?sp"
    by (simp_all add: slip_up_def slip_down_def slippage_rate_def f64_eval power_int_def power_one_over)
  have rp: "is_finite ?rp" "is_finite (slip_up ?rp)" "is_finite (slip_down ?rp)" "0 \<le> fval ?rp"
    by (simp_all add: slip_up_def slip_down_def slippage_rate_def f64_eval power_int_def power_one_over)
  have pos: "0 < fval (slip_down ?rp)" "0 < fval (slip_up ?rp)"
    by (simp_all add: slip_up_def slip_down_def slippage_rate_def f64_eval power_int_def power_one_over)
  have cap: "fle fzero (max_exposure (mock_pnl_new (f64_dec 5000 0)))"
    by (simp add: mock_pnl_new_def f64_eval)
  have gap: "fval ?sp \<le> 10004 / 10000 * fval ?rp"
    by (simp add: f64_eval power_int_def power_one_over)
  have "?sp = Fin False 5498657650507776 (- 41)" "?rp = Fin False 5497558138880000 (- 41)"
    by (simp_all add: f64_eval)
  then have gap_val: "fsub ?sp ?rp = f64_of_scaled False 1099511627776 (- 41)"
    by (simp add: fsub_def signed_mant_def)
  have trig: "fle trigger_threshold (fabs (fsub ?sp ?rp))"
    unfolding gap_val by (simp add: trigger_threshold_def f64_eval)
  show ?thesis
    using signal_break_even [OF sp rp pos cap, of 1] gap trig unfolding Let_def by blast
qed

subsection \<open>The rows logged before the first comparison\<close>

definition update_all ::
  "(string \<times> f64 \<times> u64) list \<Rightarrow> spot_synth \<times> 'a io_state_scheme \<Rightarrow> spot_synth \<times> 'a io_state_scheme" where
  "update_all us z = fold (\<lambda>(symb, p, t) (s, w). synth_update symb p t s w) us z"

lemma synth_update_row:
  fixes symb :: string and p :: f64 and t :: u64 and w :: "'a io_state_scheme"
  assumes "mispricing_ptr s = Some l" and good: "ogood (ml_logfile (mispricing_loggers w l))"
    and plain: "\<not> ofixed (ml_logfile (mispricing_loggers w l))"
  defines "f \<equiv> ml_logfile (mispricing_loggers w l)"
    and "f' \<equiv> ml_logfile (mispricing_loggers (snd (synth_update symb p t s w)) l)"
  shows "ogood f' \<and> \<not> ofixed f' \<and> oprec f' = oprec f
    \<and> (\<exists>rows. otext f' = otext f @ concat (map (\<lambda>r. r @ [CHR 0x0A]) rows)
         \<and> (\<forall>r \<in> set rows. CHR 0x0A \<notin> set r
              \<and> (\<exists>a b c. csv_fields r = [a, b, f64_str False (oprec f) (real_ethusdt s), c])))"
proof (cases "synced_ticks (store_leg symb p t s)")
  case True
  let ?s = "store_leg symb p t s"
  let ?sp = "fmul (ss_ethbtc ?s) (ss_btcusdt ?s)"
  have re: "real_ethusdt ?s = real_ethusdt s" "mispricing_ptr ?s = Some l"
    using assms(1) by (simp_all add: store_leg_def)
  have f': "f' = put (mispricing_items (t, ?sp, real_ethusdt s)) f"
    using True re by (simp add: f'_def f_def synth_update_def Let_def log_mispricing_file)
  obtain row where row: "otext f' = otext f @ row @ [CHR 0x0A]" "CHR 0x0A \<notin> set row"
    "csv_fields row = mispricing_cells (ofixed f) (oprec f) (t, ?sp, real_ethusdt s)"
    using mispricing_rows.put_row [of f "(t, ?sp, real_ethusdt s)"] good by (auto simp: f' f_def)
  have "otext f' = otext f @ concat (map (\<lambda>r. r @ [CHR 0x0A]) [row])
      \<and> (\<forall>r \<in> set [row]. CHR 0x0A \<notin> set r
              \<and> (\<exists>a b c. csv_fields r = [a, b, f64_str False (oprec f) (real_ethusdt s), c]))"
    using row plain by (simp add: mispricing_cells_def f_def)
  then have "\<exists>rows. otext f' = otext f @ concat (map (\<lambda>r. r @ [CHR 0x0A]) rows)
         \<and> (\<forall>r \<in> set rows. CHR 0x0A \<notin> set r
              \<and> (\<exists>a b c. csv_fields r = [a, b, f64_str False (oprec f) (real_ethusdt s), c]))" by blast
  moreover have "ogood f' \<and> \<not> ofixed f' \<and> oprec f' = oprec f"
    using good plain by (simp add: f' f_def mispricing_items_def stream_defs)
  ultimately show ?thesis by blast
next
  case False
  then have "f' = f" by (simp add: f_def f'_def synth_update_def Let_def)
  then show ?thesis using good plain by (auto simp: f_def intro: exI [of _ "[]"])
qed

text \<open>Until the first comparison with a real price, every row that the leg updates of a new object
  append to the mispricing log carries the real price 0, so the difference column is the price itself.\<close>

theorem updates_log_zero_real:
  assumes "ogood (ml_logfile (mispricing_loggers w l))" "\<not> ofixed (ml_logfile (mispricing_loggers w l))"
  shows "\<exists>rows. otext (ml_logfile (mispricing_loggers
             (snd (update_all us (attachLogger l (spot_synth_new label), w))) l))
           = otext (ml_logfile (mispricing_loggers w l)) @ concat (map (\<lambda>r. r @ [CHR 0x0A]) rows)
         \<and> (\<forall>r \<in> set rows. \<exists>a b c. csv_fields r = [a, b, ''0'', c])"
proof -
  have zero: "f64_str False p fzero = ''0''" for p
    by (simp add: f64_zero_def scale_def general_digits_def sign_str_def)
  have "mispricing_ptr s = Some l \<Longrightarrow> real_ethusdt s = fzero \<Longrightarrow>
      ogood (ml_logfile (mispricing_loggers w l)) \<Longrightarrow> \<not> ofixed (ml_logfile (mispricing_loggers w l)) \<Longrightarrow>
      \<exists>rows. otext (ml_logfile (mispricing_loggers (snd (update_all us (s, w))) l))
           = otext (ml_logfile (mispricing_loggers w l)) @ concat (map (\<lambda>r. r @ [CHR 0x0A]) rows)
         \<and> (\<forall>r \<in> set rows. \<exists>a b c. csv_fields r = [a, b, ''0'', c])" for s
    using assms
  proof (induction us arbitrary: s w)
    case Nil
    show ?case by (intro exI [of _ "[]"]) (simp add: update_all_def)
  next
    case (Cons u us)
    obtain symb p t where u: "u = (symb, p, t)" by (cases u)
    obtain s' w' where up: "synth_update symb p t s w = (s', w')" by (cases "synth_update symb p t s w")
    have s': "mispricing_ptr s' = Some l" "real_ethusdt s' = fzero"
      using update_pointers [of symb p t s w] Cons.prems(1,2) up by simp_all
    note one = synth_update_row [OF Cons.prems(1,3,4), of symb p t, unfolded up snd_conv Cons.prems(2) zero]
    then obtain r1 where r1: "otext (ml_logfile (mispricing_loggers w' l))
        = otext (ml_logfile (mispricing_loggers w l)) @ concat (map (\<lambda>r. r @ [CHR 0x0A]) r1)"
      "\<forall>r \<in> set r1. \<exists>a b c. csv_fields r = [a, b, ''0'', c]" by blast
    obtain r2 where r2: "otext (ml_logfile (mispricing_loggers (snd (update_all us (s', w'))) l))
        = otext (ml_logfile (mispricing_loggers w' l)) @ concat (map (\<lambda>r. r @ [CHR 0x0A]) r2)"
      "\<forall>r \<in> set r2. \<exists>a b c. csv_fields r = [a, b, ''0'', c]"
      using Cons.IH [OF s', of w'] one by blast
    have "update_all (u # us) (s, w) = update_all us (s', w')" by (simp add: update_all_def u up)
    then show ?case using r1 r2 by (intro exI [of _ "r1 @ r2"]) auto
  qed
  from this [of "attachLogger l (spot_synth_new label)"] show ?thesis
    using assms by (simp add: attachLogger_def spot_synth_new_def)
qed

theorem updates_log_zero_real_witness:
  "\<exists>rows. otext (ml_logfile (mispricing_loggers (snd (update_all
       [(''ETHBTC'', f64_dec 2 2, 5000), (''BTCUSDT'', f64_dec 60000 0, 5001)]
       (attachLogger 0 (spot_synth_new ''x''), blank_io))) 0))
     = otext (ml_logfile (mispricing_loggers blank_io 0)) @ concat (map (\<lambda>r. r @ [CHR 0x0A]) rows)
     \<and> (\<forall>r \<in> set rows. \<exists>a b c. csv_fields r = [a, b, ''0'', c])"
  by (rule updates_log_zero_real)
    (simp_all add: blank_io_def mispricing_logger_new_def open_ofstream_def put_str_def)

end
