(* ===== verification/SyntheticPair.thy ===== *)
theory SyntheticPair
  imports TradeTick Interfaces Loggers
begin

text \<open>
  \<^verbatim>\<open>SyntheticPair.hpp\<close>: the three legs BTCUSDT, ETHBTC and ETHUSDT, the spread between the real and
  the synthetic ETHUSDT price, and the throttled alert.  The function-local
  \<^verbatim>\<open>static last_alert_time\<close> (which shadows the header's variable of the same name, so that one is
  never read) is shared by all objects; it, the header's \<^verbatim>\<open>logger\<close> and the output stream are passed
  beside the object, in the record \<open>pair_env\<close>.  The wall clock of the log row is an argument.
\<close>

record synthetic_pair =
  sp_base :: string
  sp_threshold :: f64
  btcusdt_leg :: "trade_tick option"
  ethbtc_leg :: "trade_tick option"
  ethusdt_leg :: "trade_tick option"

record pair_env =
  last_alert_time :: u64
  logger :: arb_logger
  pair_out :: ostream

definition synthetic_pair_new :: "string \<Rightarrow> f64 \<Rightarrow> synthetic_pair" where
  "synthetic_pair_new base threshold =
     \<lparr>sp_base = base, sp_threshold = threshold, btcusdt_leg = None, ethbtc_leg = None,
      ethusdt_leg = None\<rparr>"

definition set_leg :: "trade_tick \<Rightarrow> synthetic_pair \<Rightarrow> synthetic_pair" where
  "set_leg tick p =
     (if tk_symbol tick = ''BTCUSDT'' then p\<lparr>btcusdt_leg := Some tick\<rparr>
      else if tk_symbol tick = ''ETHBTC'' then p\<lparr>ethbtc_leg := Some tick\<rparr>
      else if tk_symbol tick = ''ETHUSDT'' then p\<lparr>ethusdt_leg := Some tick\<rparr>
      else p)"

definition pair_report :: "f64 \<Rightarrow> f64 \<Rightarrow> f64 \<Rightarrow> f64 \<Rightarrow> f64 \<Rightarrow> item list" where
  "pair_report btc ethbtc actual synthetic delta =
     [nl, S ''=== Synthetic Spread Monitor ==='', nl,
      S '' BTCUSDT: '', D btc, nl,
      S '' ETHBTC : '', D ethbtc, nl,
      S '' ETHUSDT: '', D actual, nl,
      S '' -------------------------------'', nl,
      S '' Synthetic ETHUSDT = '', D synthetic, nl,
      S ''  (Real - Synthetic) = '', D delta, nl]"

definition pair_alert :: "f64 \<Rightarrow> f64 \<Rightarrow> item list" where
  "pair_alert delta threshold =
     [S (esc @ ''[1;31m''), S ('' [ALERT] Arbitrage Opportunity! '' @ delta_utf8 @ '' = ''), Fixed, Prec 6,
      D delta, S ('' exceeds '' @ plusminus_utf8), D threshold, S (esc @ ''[0m''), nl]"

definition pair_evaluate ::
  "int \<Rightarrow> synthetic_pair \<Rightarrow> trade_tick \<Rightarrow> trade_tick \<Rightarrow> trade_tick \<Rightarrow> pair_env \<Rightarrow> pair_env" where
  "pair_evaluate now p btc eb eu env =
     (let synthetic = fmul (tk_price btc) (tk_price eb);
          actual = tk_price eu;
          delta = fsub actual synthetic;
          env1 = env\<lparr>pair_out := put (pair_report (tk_price btc) (tk_price eb) actual synthetic delta)
                                   (pair_out env)\<rparr>
      in if flt (sp_threshold p) (fabs delta) \<and> 5000 < tk_timestamp eu - last_alert_time env1
         then env1\<lparr>last_alert_time := tk_timestamp eu,
                   pair_out := put (pair_alert delta (sp_threshold p)) (pair_out env1),
                   logger := arb_log now (sp_base p) actual synthetic delta (logger env1)\<rparr>
         else env1)"

definition pair_update ::
  "int \<Rightarrow> trade_tick \<Rightarrow> synthetic_pair \<Rightarrow> pair_env \<Rightarrow> synthetic_pair \<times> pair_env" where
  "pair_update now tick p env =
     (let p1 = set_leg tick p
      in case (btcusdt_leg p1, ethbtc_leg p1, ethusdt_leg p1) of
           (Some btc, Some eb, Some eu) \<Rightarrow> (p1, pair_evaluate now p1 btc eb eu env)
         | _ \<Rightarrow> (p1, env))"

subsection \<open>The alert as a throttle\<close>

type_synonym pair_state = "synthetic_pair \<times> pair_env"

definition pair_step :: "int \<times> trade_tick \<Rightarrow> pair_state \<Rightarrow> pair_state" where
  "pair_step nt st = pair_update (fst nt) (snd nt) (fst st) (snd st)"

definition pair_alert_step :: "int \<times> trade_tick \<Rightarrow> pair_state \<Rightarrow> bool \<times> pair_state" where
  "pair_alert_step nt st =
     (last_alert_time (snd (pair_step nt st)) \<noteq> last_alert_time (snd st), pair_step nt st)"

lemma pair_update_alert:
  "last_alert_time (snd (pair_update now tick p env)) = last_alert_time env
   \<or> 5000 < last_alert_time (snd (pair_update now tick p env)) - last_alert_time env"
  by (auto simp: pair_update_def pair_evaluate_def Let_def split: option.splits)

interpretation pair_alerts: throttle pair_alert_step "\<lambda>_ st. last_alert_time (snd st)"
  "\<lambda>st. Some (last_alert_time (snd st))" "\<lambda>_. 5000"
proof unfold_locales
  fix e :: "int \<times> trade_tick" and st :: pair_state and t
  show "5000 < last_alert_time (snd (snd (pair_alert_step e st))) - t"
    if "fst (pair_alert_step e st)" "Some (last_alert_time (snd st)) = Some t"
    using that pair_update_alert [of "fst e" "snd e" "fst st" "snd st"]
    by (auto simp: pair_alert_step_def pair_step_def)
qed (simp_all add: pair_alert_step_def)

subsection \<open>Properties\<close>

text \<open>Over any sequence of ticks the monitor's alerts are more than 5000 ms apart, measured on the
  time stamps of the ETHUSDT leg and counted from the static time stamp found at the start.\<close>

theorem pair_alerts_spaced:
  "spaced 5000 (last_alert_time (snd st)
     # passed pair_alert_step (\<lambda>_ st. last_alert_time (snd st)) ticks st)"
  using pair_alerts.passed_spaced_from [of st "last_alert_time (snd st)" ticks] by simp

definition pair_run :: "(int \<times> trade_tick) list \<Rightarrow> pair_state \<Rightarrow> pair_state" where
  "pair_run ticks st = fold pair_step ticks st"

text \<open>The last tick of a symbol.\<close>

definition last_tick :: "string \<Rightarrow> (int \<times> trade_tick) list \<Rightarrow> trade_tick option" where
  "last_tick symb ticks = last_write symb (map (\<lambda>(now, t). (tk_symbol t, t)) ticks)"

lemma last_tick_Cons:
  "last_tick symb ((now, t) # ticks) =
     (case last_tick symb ticks of Some u \<Rightarrow> Some u | None \<Rightarrow> if tk_symbol t = symb then Some t else None)"
  by (simp add: last_tick_def split: option.split)

lemma pair_step_idle:
  "btcusdt_leg (fst (pair_step nt st)) = None \<or> ethbtc_leg (fst (pair_step nt st)) = None
   \<or> ethusdt_leg (fst (pair_step nt st)) = None \<Longrightarrow> snd (pair_step nt st) = snd st"
  by (auto simp: pair_step_def pair_update_def Let_def split: option.splits)

lemma pair_update_pair: "fst (pair_update now t p env) = set_leg t p"
  by (simp add: pair_update_def Let_def split: option.split)

lemma pair_run_legs:
  "let p = fst (pair_run ticks st)
   in btcusdt_leg p = (case last_tick ''BTCUSDT'' ticks of Some t \<Rightarrow> Some t | None \<Rightarrow> btcusdt_leg (fst st))
      \<and> ethbtc_leg p = (case last_tick ''ETHBTC'' ticks of Some t \<Rightarrow> Some t | None \<Rightarrow> ethbtc_leg (fst st))
      \<and> ethusdt_leg p = (case last_tick ''ETHUSDT'' ticks of Some t \<Rightarrow> Some t | None \<Rightarrow> ethusdt_leg (fst st))
      \<and> sp_base p = sp_base (fst st) \<and> sp_threshold p = sp_threshold (fst st)"
proof (induction ticks arbitrary: st)
  case Nil
  then show ?case by (simp add: pair_run_def last_tick_def)
next
  case (Cons nt ticks)
  obtain now t where nt: "nt = (now, t)" by (cases nt)
  have "fst (pair_step nt st) = set_leg t (fst st)" by (simp add: pair_step_def pair_update_pair nt)
  with Cons.IH [of "pair_step nt st"] show ?case
    by (auto simp: nt pair_run_def Let_def last_tick_Cons set_leg_def split: option.split)
qed

text \<open>Each leg holds the last tick of its symbol, so a tick is evaluated exactly when all three
  symbols have been seen; until then neither output, log nor alert clock change.\<close>

theorem pair_legs_last:
  "let st = pair_run ticks (synthetic_pair_new base threshold, env); p = fst st
   in btcusdt_leg p = last_tick ''BTCUSDT'' ticks \<and> ethbtc_leg p = last_tick ''ETHBTC'' ticks
      \<and> ethusdt_leg p = last_tick ''ETHUSDT'' ticks
      \<and> (last_tick ''BTCUSDT'' ticks = None \<or> last_tick ''ETHBTC'' ticks = None
           \<or> last_tick ''ETHUSDT'' ticks = None \<longrightarrow> snd st = env)"
proof -
  have legs: "btcusdt_leg (fst (pair_run ts (synthetic_pair_new base threshold, env)))
        = last_tick ''BTCUSDT'' ts
      \<and> ethbtc_leg (fst (pair_run ts (synthetic_pair_new base threshold, env))) = last_tick ''ETHBTC'' ts
      \<and> ethusdt_leg (fst (pair_run ts (synthetic_pair_new base threshold, env))) = last_tick ''ETHUSDT'' ts"
    for ts
    using pair_run_legs [of ts "(synthetic_pair_new base threshold, env)"]
    by (simp add: Let_def synthetic_pair_new_def split: option.split)
  have idle: "snd (pair_run ts (synthetic_pair_new base threshold, env)) = env"
    if "last_tick ''BTCUSDT'' ts = None \<or> last_tick ''ETHBTC'' ts = None \<or> last_tick ''ETHUSDT'' ts = None"
    for ts
    using that
  proof (induction ts rule: rev_induct)
    case Nil
    then show ?case by (simp add: pair_run_def)
  next
    case (snoc nt ts)
    obtain now t where nt: "nt = (now, t)" by (cases nt)
    let ?st = "pair_run ts (synthetic_pair_new base threshold, env)"
    have run: "pair_run (ts @ [nt]) (synthetic_pair_new base threshold, env) = pair_step nt ?st"
      by (simp add: pair_run_def)
    have app: "last_tick symb (ts @ [nt]) = None \<Longrightarrow> last_tick symb ts = None" for symb
      by (induction ts) (auto simp: last_tick_def split: option.splits if_splits)
    have some: "btcusdt_leg (fst (pair_step nt ?st)) = None \<or> ethbtc_leg (fst (pair_step nt ?st)) = None
        \<or> ethusdt_leg (fst (pair_step nt ?st)) = None"
      using snoc.prems legs [of "ts @ [nt]"] unfolding run by simp
    have "last_tick ''BTCUSDT'' ts = None \<or> last_tick ''ETHBTC'' ts = None
        \<or> last_tick ''ETHUSDT'' ts = None"
      using snoc.prems app [of "''BTCUSDT''"] app [of "''ETHBTC''"] app [of "''ETHUSDT''"] by argo
    then have "snd ?st = env" by (rule snoc.IH)
    moreover have "snd (pair_step nt ?st) = snd ?st"
      using some by (rule pair_step_idle)
    ultimately show ?case by (simp add: run)
  qed
  show ?thesis unfolding Let_def using legs [of ticks] idle [of ticks] by simp
qed

theorem pair_legs_last_witness:
  "snd (pair_run [(0, new_tick)] (synthetic_pair_new ''ETHUSDT'' (f64_dec 1 0),
     \<lparr>last_alert_time = 0, logger = arb_logger_new True 0, pair_out = new_ostream\<rparr>))
   = \<lparr>last_alert_time = 0, logger = arb_logger_new True 0, pair_out = new_ostream\<rparr>"
  using pair_legs_last [of "[(0, new_tick)]" "''ETHUSDT''" "f64_dec 1 0"
      "\<lparr>last_alert_time = 0, logger = arb_logger_new True 0, pair_out = new_ostream\<rparr>"]
  by (simp add: Let_def last_tick_def new_tick_def)

text \<open>An alert writes one line of ten fields to the log: the wall clock, the symbol, the real
  price, the synthetic price and their difference real minus synthetic, the other five empty.\<close>

theorem pair_alert_row:
  assumes "flt (sp_threshold p) (fabs (fsub (tk_price eu) (fmul (tk_price btc) (tk_price eb))))"
    and "5000 < tk_timestamp eu - last_alert_time env"
    and "ogood (al_file (logger env))" and "clean (sp_base p)"
  shows "\<exists>line. otext (al_file (logger (pair_evaluate now p btc eb eu env)))
                = otext (al_file (logger env)) @ line @ [CHR 0x0A]
           \<and> CHR 0x0A \<notin> set line
           \<and> csv_fields line =
               (let synthetic = fmul (tk_price btc) (tk_price eb)
                in log_cells now (sp_base p) (tk_price eu) synthetic (fsub (tk_price eu) synthetic))
           \<and> length (csv_fields line) = length (csv_fields arb_header)"
proof -
  let ?synth = "fmul (tk_price btc) (tk_price eb)"
  let ?r = "(now, sp_base p, tk_price eu, ?synth, fsub (tk_price eu) ?synth)"
  show ?thesis
    using arb_rows.put_row [of ?r "al_file (logger env)"] assms
    by (simp add: pair_evaluate_def Let_def arb_log_def header_fields del: put_Cons)
qed

theorem pair_alert_row_witness:
  "\<exists>line. otext (al_file (logger (pair_evaluate 7 (synthetic_pair_new ''ETHUSDT'' (f64_dec 1 0))
        (new_tick\<lparr>tk_price := f64_dec 2 0\<rparr>) (new_tick\<lparr>tk_price := f64_dec 3 0\<rparr>)
        (new_tick\<lparr>tk_price := f64_dec 9 0, tk_timestamp := 6000\<rparr>)
        \<lparr>last_alert_time = 0, logger = arb_logger_new True 5, pair_out = new_ostream\<rparr>)))
      = line @ [CHR 0x0A] \<and> length (csv_fields line) = 10"
proof -
  let ?p = "synthetic_pair_new ''ETHUSDT'' (f64_dec 1 0)"
  let ?btc = "new_tick\<lparr>tk_price := f64_dec 2 0\<rparr>" and ?eb = "new_tick\<lparr>tk_price := f64_dec 3 0\<rparr>"
  let ?eu = "new_tick\<lparr>tk_price := f64_dec 9 0, tk_timestamp := 6000\<rparr>"
  let ?env = "\<lparr>last_alert_time = 0, logger = arb_logger_new True 5, pair_out = new_ostream\<rparr>"
  have "flt (sp_threshold ?p) (fabs (fsub (tk_price ?eu) (fmul (tk_price ?btc) (tk_price ?eb))))"
    by (simp add: synthetic_pair_new_def f64_eval)
  moreover have "5000 < tk_timestamp ?eu - last_alert_time ?env" by simp
  moreover have "ogood (al_file (logger ?env))" "otext (al_file (logger ?env)) = []"
    by (simp_all add: arb_logger_new_def open_ofstream_def)
  moreover have "clean (sp_base ?p)" by (simp add: synthetic_pair_new_def)
  ultimately show ?thesis
    using pair_alert_row [of ?p ?eu ?btc ?eb ?env 7] by (auto simp: header_fields)
qed

end
