(* ===== verification/OptionPricer.thy ===== *)
theory OptionPricer
  imports MockPnL
begin

text \<open>
  \<^verbatim>\<open>OptionPricer.hpp\<close>: the Black-Scholes call price.  \<^verbatim>\<open>std::log\<close>, \<^verbatim>\<open>std::exp\<close> and \<^verbatim>\<open>std::erfc\<close>
  are not correctly rounded, so they are parameters, collected in the record \<open>cmath\<close>;
  \<^verbatim>\<open>std::sqrt\<close> is, and is \<open>fsqrt\<close>.
\<close>

record cmath =
  cm_log :: "f64 \<Rightarrow> f64"
  cm_exp :: "f64 \<Rightarrow> f64"
  cm_erfc :: "f64 \<Rightarrow> f64"

definition normCDF :: "cmath \<Rightarrow> f64 \<Rightarrow> f64" where
  "normCDF cm x = fmul (f64_dec 5 1) (cm_erfc cm (fdiv (fneg x) (fsqrt (f64_of_nat 2))))"

definition bs_d1 :: "cmath \<Rightarrow> f64 \<Rightarrow> f64 \<Rightarrow> f64 \<Rightarrow> f64 \<Rightarrow> f64 \<Rightarrow> f64" where
  "bs_d1 cm S0 K T r sigma =
     fdiv (fadd (cm_log cm (fdiv S0 K)) (fmul (fadd r (fmul (fmul (f64_dec 5 1) sigma) sigma)) T))
          (fmul sigma (fsqrt T))"

definition bs_d2 :: "cmath \<Rightarrow> f64 \<Rightarrow> f64 \<Rightarrow> f64 \<Rightarrow> f64 \<Rightarrow> f64 \<Rightarrow> f64" where
  "bs_d2 cm S0 K T r sigma = fsub (bs_d1 cm S0 K T r sigma) (fmul sigma (fsqrt T))"

definition blackScholesCall :: "cmath \<Rightarrow> f64 \<Rightarrow> f64 \<Rightarrow> f64 \<Rightarrow> f64 \<Rightarrow> f64 \<Rightarrow> f64" where
  "blackScholesCall cm S0 K T r sigma =
     fsub (fmul S0 (normCDF cm (bs_d1 cm S0 K T r sigma)))
          (fmul (fmul K (cm_exp cm (fmul (fneg r) T))) (normCDF cm (bs_d2 cm S0 K T r sigma)))"

text \<open>What the code relies on: \<^verbatim>\<open>erfc\<close> lies between 0 and 2, and \<^verbatim>\<open>exp\<close> is not negative.\<close>

definition erfc_ok :: "cmath \<Rightarrow> bool" where
  "erfc_ok cm \<longleftrightarrow> (\<forall>x. x \<noteq> NaN \<longrightarrow> is_price (cm_erfc cm x) \<and> fval (cm_erfc cm x) \<le> 2)"

definition exp_ok :: "cmath \<Rightarrow> bool" where
  "exp_ok cm \<longleftrightarrow> (\<forall>x. x \<noteq> NaN \<longrightarrow> fle fzero (cm_exp cm x))"

lemma half: "is_finite (f64_dec 5 1)" "fval (f64_dec 5 1) = 1 / 2"
  by (simp_all add: f64_eval power_int_def power_one_over)

lemma root_two: "is_finite (fsqrt (f64_of_nat 2))" "0 < fval (fsqrt (f64_of_nat 2))"
  by (simp_all add: f64_eval power_int_def power_one_over)

lemma fdiv_pos_not_nan: "x \<noteq> NaN \<Longrightarrow> is_finite y \<Longrightarrow> 0 < fval y \<Longrightarrow> fdiv x y \<noteq> NaN"
proof (cases "is_finite x")
  case True
  assume "is_finite y" "0 < fval y"
  then show ?thesis using fdiv_rounds [OF True] rounds_to_not_nan by fastforce
next
  case False
  assume "x \<noteq> NaN" "is_finite y"
  with False show ?thesis by (cases x; cases y) auto
qed

lemma representable_one: "representable 1"
  using representable_int [of 1] by simp

lemma normCDF_price:
  assumes "erfc_ok cm" "x \<noteq> NaN"
  shows "is_price (normCDF cm x)" "fval (normCDF cm x) \<le> 1"
proof -
  let ?e = "cm_erfc cm (fdiv (fneg x) (fsqrt (f64_of_nat 2)))"
  have "fneg x \<noteq> NaN" using assms(2) by (cases x) simp_all
  then have "fdiv (fneg x) (fsqrt (f64_of_nat 2)) \<noteq> NaN" using root_two by (rule fdiv_pos_not_nan)
  then have e: "is_price ?e" "fval ?e \<le> 2" using assms(1) by (simp_all add: erfc_ok_def)
  have fe: "is_finite ?e" "0 \<le> fval ?e" using e by (simp_all add: is_price_def)
  have r: "rounds_to (1 / 2 * fval ?e) (normCDF cm x)"
    using fmul_rounds [OF half(1) fe(1)] unfolding normCDF_def half(2) .
  have le: "rnd (1 / 2 * fval ?e) \<le> 1"
    using rnd_mono [of "1 / 2 * fval ?e" 1] e(2) rnd_representable [OF representable_one] by simp
  have nn: "0 \<le> rnd (1 / 2 * fval ?e)" using fe(2) by (intro rnd_nonneg) simp
  have "\<bar>rnd (1 / 2 * fval ?e)\<bar> < f64_limit" using le nn limit_big(1) by simp
  then have "is_finite (normCDF cm x)" "fval (normCDF cm x) = rnd (1 / 2 * fval ?e)"
    using r by (simp_all add: rounds_to_def)
  then show "is_price (normCDF cm x)" "fval (normCDF cm x) \<le> 1"
    using rounds_to_ok [OF r] le nn by (simp_all add: is_price_def)
qed

text \<open>A concrete library, for examples: step functions with the limits of the real ones.\<close>

definition step_cmath :: cmath where
  "step_cmath =
     \<lparr>cm_log = (\<lambda>x. f64_zero False), cm_exp = (\<lambda>x. f64_of_nat 1),
      cm_erfc = (\<lambda>x. if flt x (f64_zero False) then f64_of_nat 2
                      else if feq x (f64_zero False) then f64_of_nat 1 else f64_zero False)\<rparr>"

lemma step_cmath_ok: "erfc_ok step_cmath" "exp_ok step_cmath"
proof -
  have "is_price (f64_of_nat 2)" "is_price (f64_of_nat 1)" "is_price fzero"
    "fval (f64_of_nat 2) = 2" "fval (f64_of_nat 1) = 1"
    using f64_of_nat_exact [of 2] f64_of_nat_exact [of 1] by (simp_all add: is_price_def)
  then show "erfc_ok step_cmath" "exp_ok step_cmath"
    by (simp_all add: erfc_ok_def exp_ok_def step_cmath_def fle_zero_iff is_price_def)
qed

text \<open>The normal distribution function is a probability: for every argument that is not NaN the
  computed value is a finite double between 0 and 1, provided \<^verbatim>\<open>erfc\<close> lies between 0 and 2.\<close>

theorem normCDF_probability:
  assumes "erfc_ok cm" "x \<noteq> NaN"
  shows "is_finite (normCDF cm x) \<and> 0 \<le> fval (normCDF cm x) \<and> fval (normCDF cm x) \<le> 1"
  using normCDF_price [OF assms] by (simp add: is_price_def)

theorem normCDF_probability_witness:
  "is_finite (normCDF step_cmath (f64_dec 15 1)) \<and> 0 \<le> fval (normCDF step_cmath (f64_dec 15 1))
   \<and> fval (normCDF step_cmath (f64_dec 15 1)) \<le> 1"
proof -
  have "f64_dec 15 1 \<noteq> NaN" by (simp add: f64_eval)
  from normCDF_probability [OF step_cmath_ok(1) this] show ?thesis .
qed

lemma fmul_le_left:
  assumes "is_price x" "is_price y" "fval y \<le> 1"
  shows "is_price (fmul x y)" "fval (fmul x y) \<le> fval x"
proof -
  have x: "is_finite x" "f64_ok x" "0 \<le> fval x" and y: "is_finite y" "0 \<le> fval y"
    using assms by (simp_all add: is_price_def)
  note r = fmul_rounds [OF x(1) y(1)]
  have "fval x * fval y \<le> fval x" using x(3) assms(3) by (rule mult_right_le_one_le [OF _ y(2)])
  then have le: "rnd (fval x * fval y) \<le> fval x"
    using rnd_mono rnd_representable [OF f64_ok_representable [OF x(2)]] by metis
  have nn: "0 \<le> rnd (fval x * fval y)" using x(3) y(2) by (intro rnd_nonneg) simp
  have "\<bar>rnd (fval x * fval y)\<bar> < f64_limit" using le nn fval_less_limit [OF x(2)] x(3) by simp
  then have "is_finite (fmul x y)" "fval (fmul x y) = rnd (fval x * fval y)"
    using r by (simp_all add: rounds_to_def)
  then show "is_price (fmul x y)" "fval (fmul x y) \<le> fval x"
    using rounds_to_ok [OF r] le nn by (simp_all add: is_price_def)
qed

text \<open>C38: The computed call price never exceeds the price of the underlying, whatever the roundings:
  for prices, a rate and a volatility for which no intermediate is NaN.\<close>

theorem call_at_most_underlying:
  assumes "erfc_ok cm" "is_price S0"
    and "bs_d1 cm S0 K T r sigma \<noteq> NaN" "bs_d2 cm S0 K T r sigma \<noteq> NaN"
    and "is_price (fmul K (cm_exp cm (fmul (fneg r) T)))"
  shows "is_finite (blackScholesCall cm S0 K T r sigma)
         \<and> fval (blackScholesCall cm S0 K T r sigma) \<le> fval S0"
proof -
  let ?a = "fmul S0 (normCDF cm (bs_d1 cm S0 K T r sigma))"
  let ?b = "fmul (fmul K (cm_exp cm (fmul (fneg r) T))) (normCDF cm (bs_d2 cm S0 K T r sigma))"
  have a: "is_price ?a" "fval ?a \<le> fval S0"
    using fmul_le_left [OF assms(2) normCDF_price [OF assms(1,3)]] by simp_all
  have b: "is_price ?b" using fmul_le_left [OF assms(5) normCDF_price [OF assms(1,4)]] by simp
  have "fval (fsub ?a ?b) = rnd (fval ?a - fval ?b)" and fin: "is_finite (fsub ?a ?b)"
    using price_diff [OF a(1) b] by simp_all
  moreover have "rnd (fval ?a - fval ?b) \<le> rnd (fval ?a)"
    using b by (intro rnd_mono) (simp add: is_price_def)
  moreover have "rnd (fval ?a) = fval ?a"
    using a(1) by (intro rnd_representable f64_ok_representable) (simp add: is_price_def)
  ultimately show ?thesis using a(2) by (simp add: blackScholesCall_def)
qed

theorem call_at_most_underlying_witness:
  "fval (blackScholesCall step_cmath (f64_of_nat 2800) (f64_of_nat 2750) (f64_of_nat 1) (f64_zero False)
     (f64_of_nat 1)) \<le> fval (f64_of_nat 2800)"
proof -
  let ?S = "f64_of_nat 2800" and ?K = "f64_of_nat 2750" and ?T = "f64_of_nat 1"
    and ?r = "f64_zero False" and ?v = "f64_of_nat 1"
  have d1: "bs_d1 step_cmath ?S ?K ?T ?r ?v = Fin False 4503599627370496 (- 53)"
    by (simp add: bs_d1_def step_cmath_def f64_eval fadd_Fin sum_at_def del: fadd.simps(1))
  have d2: "bs_d2 step_cmath ?S ?K ?T ?r ?v \<noteq> NaN"
    unfolding bs_d2_def d1 by (simp add: f64_eval fadd_Fin sum_at_def del: fadd.simps(1))
  have S: "is_price ?S" using f64_of_nat_exact [of 2800] by (simp add: is_price_def)
  have k: "is_price (fmul ?K (cm_exp step_cmath (fmul (fneg ?r) ?T)))"
    by (simp add: step_cmath_def is_price_def f64_eval)
  show ?thesis
    using call_at_most_underlying [OF step_cmath_ok(1) S _ d2 k] d1 by simp
qed

end
