(* ===== verification/Main_Program.thy ===== *)
theory Main_Program
  imports Feeds CrossExchange PerpEngine SpotSynth SyntheticPair OptionPricer
begin

text \<open>
  \<^verbatim>\<open>main.cpp\<close>: the global objects, the Binance message handler, the two monitor threads, the Bybit
  callback, and the control flow of \<^verbatim>\<open>main\<close>.  The objects of \<^verbatim>\<open>main.cpp\<close> that others reach through
  pointers live in the stores of \<open>desk_state\<close> at address 0 of their class.  Each handler and each
  turn of a monitor loop is one step; \<open>main_step\<close> interleaves them in any order.  The program takes
  no lock around its engines, so this is the behaviour of its race-free executions.
\<close>

datatype loop_state = Checking | Sleeping | Done

record world = desk_state +
  ethCross :: cross_pair
  arb :: synthetic_pair
  perp :: perp_engine
  perp_last_alert :: u64
  ethSynth :: spot_synth
  trade_buffers :: "string \<rightharpoonup> trade_tick list"
  running :: bool
  stats_loop :: loop_state
  spread_loop :: loop_state

definition max_buffer_size :: nat where
  "max_buffer_size = 20"

text \<open>The constructor takes a \<^verbatim>\<open>uint64_t\<close>; the argument 0.2 is converted.\<close>

definition eth_cooldown :: u64 where
  "eth_cooldown = (case u64_of_f64 (f64_dec 2 1) of Some w \<Rightarrow> w | None \<Rightarrow> 0)"

text \<open>The globals after static initialisation.  \<open>opened\<close> says which files could be opened, \<open>tellp\<close> is
  the size of the arbitrage log found.\<close>

definition initial_world :: "(string \<Rightarrow> bool) \<Rightarrow> int \<Rightarrow> world" where
  "initial_world opened tellp =
     \<lparr>cout = new_ostream, cerr = new_ostream, files = (\<lambda>_. open_ofstream False),
      arb_loggers = (\<lambda>_. arb_logger_new (opened ''arbitrage_log.csv'') tellp),
      mispricing_loggers = (\<lambda>_. mispricing_logger_new (opened ''mispricing_ETHUSDT.csv'') ''ETHUSDT'' (f64_dec 2 1)),
      snapshot_loggers = (\<lambda>_. snapshot_logger_new (opened ''eth_synthetic_log.csv'')),
      pnl_engines = (\<lambda>_. mock_pnl_new (f64_dec 5000 0)),
      arb_engines = (\<lambda>_. arb_engine_new eth_cooldown),
      ethCross = cross_pair_new ''ETHUSDT'' (f64_dec 2 1),
      arb = synthetic_pair_new ''ETHUSDT'' (f64_dec 1 0),
      perp = perp_engine_new ''BTCUSDT'' (f64_dec 1 0), perp_last_alert = 0,
      ethSynth = spot_synth_new ''ETHUSDT (Synthetic)'',
      trade_buffers = Map.empty, running = True, stats_loop = Checking, spread_loop = Checking\<rparr>"

definition main_log_header :: string where
  "main_log_header = ''timestamp,symbol,direction,entry_price,exit_price,size,pnl''"

text \<open>The statements of \<^verbatim>\<open>main\<close> before the threads start.\<close>

definition main_setup :: "bool \<Rightarrow> world \<Rightarrow> world" where
  "main_setup log_opened w =
     w\<lparr>files := (files w)(0 := put [S main_log_header, nl] (open_ofstream log_opened)),
       ethSynth := attachArbEngine 0 (attachLogger 0 (attachSnapshotLogger 0 (ethSynth w))),
       arb_engines := (arb_engines w)(0 := attachMockPnL 0 (arb_engines w 0)),
       pnl_engines := (pnl_engines w)(0 := attachLogger_arb 0 (attachLogger_stream 0 (pnl_engines w 0)))\<rparr>"

subsection \<open>Ticks\<close>

definition with_synth :: "(spot_synth \<Rightarrow> world \<Rightarrow> spot_synth \<times> world) \<Rightarrow> world \<Rightarrow> world" where
  "with_synth f w = (case f (ethSynth w) w of (s, w') \<Rightarrow> w'\<lparr>ethSynth := s\<rparr>)"

definition print_tick :: "trade_tick \<Rightarrow> world \<Rightarrow> world" where
  "print_tick tick =
     print_out [S ''[tick] '', S (tk_symbol tick), S '' '', D (tk_price tick), S '' x '',
                D (tk_quantity tick), S '' @ '', U (tk_timestamp tick), nl]"

definition update_engines :: "trade_tick \<Rightarrow> world \<Rightarrow> world" where
  "update_engines tick w =
     (let p = tk_price tick; t = tk_timestamp tick
      in if tk_symbol tick = ''BTCUSDT''
         then with_synth (synth_update ''BTCUSDT'' p t) (w\<lparr>perp := updateSpot p (perp w)\<rparr>)
         else if tk_symbol tick = ''ETHBTC'' then with_synth (synth_update ''ETHBTC'' p t) w
         else if tk_symbol tick = ''ETHUSDT''
         then w\<lparr>ethCross := cross_update ''Binance'' p t (ethCross w)\<rparr>
         else w)"

definition compare_tick :: "trade_tick \<Rightarrow> world \<Rightarrow> world" where
  "compare_tick tick w =
     (if tk_symbol tick = ''ETHUSDT''
      then with_synth (compareToReal (tk_price tick) (tk_timestamp tick)) w else w)"

definition buffer_of :: "string \<Rightarrow> world \<Rightarrow> trade_tick list" where
  "buffer_of symb w = (case trade_buffers w symb of Some b \<Rightarrow> b | None \<Rightarrow> [])"

definition buffer_tick :: "trade_tick \<Rightarrow> world \<Rightarrow> world" where
  "buffer_tick tick w =
     (let b = buffer_of (tk_symbol tick) w @ [tick]
      in w\<lparr>trade_buffers := (trade_buffers w)
             (tk_symbol tick \<mapsto> (if max_buffer_size < length b then tl b else b))\<rparr>)"

text \<open>What one element of an array message does, and what a single trade message does.\<close>

definition array_tick :: "trade_tick \<Rightarrow> world \<Rightarrow> world" where
  "array_tick tick w = buffer_tick tick (update_engines tick (print_tick tick w))"

definition single_tick :: "trade_tick \<Rightarrow> world \<Rightarrow> world" where
  "single_tick tick w = buffer_tick tick (compare_tick tick (update_engines tick (print_tick tick w)))"

subsection \<open>on_message\<close>

text \<open>The loop over an array: an element that fails leaves the effects of those before it.\<close>

primrec array_loop :: "json list \<Rightarrow> world \<Rightarrow> unit outcome \<times> world" where
  "array_loop [] w = (Inr (), w)"
| "array_loop (e # es) w =
     (case entry_tick e of
        Inl f \<Rightarrow> (Inl f, w)
      | Inr tick \<Rightarrow> array_loop es (array_tick tick w))"

text \<open>The same reads through the mutable \<^verbatim>\<open>operator[]\<close>: the member is looked up twice, and the object
  is passed on with the null members the lookups insert.\<close>

definition double_ins :: "string \<Rightarrow> json \<Rightarrow> (f64 \<times> json) outcome" where
  "double_ins k j =
     bindE (at_insert k j) (\<lambda>(e, j1).
     bindE (at_insert k j1) (\<lambda>(e2, j2).
       if is_string e then bindE (bindE (get_string e2) stod) (\<lambda>x. Inr (x, j2))
       else bindE (get_double e2) (\<lambda>x. Inr (x, j2))))"

definition stamp_ins :: "string \<Rightarrow> json \<Rightarrow> (u64 \<times> json) outcome" where
  "stamp_ins k j =
     bindE (at_insert k j) (\<lambda>(e, j1).
     bindE (at_insert k j1) (\<lambda>(e2, j2).
       if is_string e then bindE (bindE (get_string e2) stoull) (\<lambda>x. Inr (x, j2))
       else bindE (get_uint64 e2) (\<lambda>x. Inr (x, j2))))"

definition single_fields :: "json \<Rightarrow> (trade_tick \<times> json) outcome" where
  "single_fields j =
     bindE (at_insert ''s'' j) (\<lambda>(e, j1). bindE (get_string e) (\<lambda>symb.
     bindE (double_ins ''p'' j1) (\<lambda>(p, j2).
     bindE (double_ins ''q'' j2) (\<lambda>(q, j3).
     bindE (stamp_ins ''T'' j3) (\<lambda>(t, j4).
       Inr (\<lparr>tk_symbol = symb, tk_price = p, tk_quantity = q, tk_timestamp = t\<rparr>, j4))))))"

definition funding_branch :: "string \<Rightarrow> json \<Rightarrow> world \<Rightarrow> (json \<times> world) outcome" where
  "funding_branch stream j w =
     (if stream = ''btcusdt@fundingRate''
      then bindE (double_ins ''r'' j) (\<lambda>(fundingRate, j1).
           bindE (stamp_ins ''T'' j1) (\<lambda>(ts, j2).
             Inr (j2, print_out [S ''[Funding] BTCUSDT = '', D fundingRate, S '' @ '', U ts, nl]
                        (w\<lparr>perp := updateFunding fundingRate ts (perp w)\<rparr>))))
      else Inr (j, w))"

definition mark_perp :: "f64 \<Rightarrow> u64 \<Rightarrow> world \<Rightarrow> world" where
  "mark_perp markPrice ts w =
     (case updateMark markPrice ts (perp w) (perp_last_alert w) (cout w) of
        (e, la, out) \<Rightarrow> w\<lparr>perp := e, perp_last_alert := la, cout := out\<rparr>)"

definition mark_branch :: "string \<Rightarrow> json \<Rightarrow> world \<Rightarrow> (json \<times> world) outcome" where
  "mark_branch stream j w =
     (if stream = ''btcusdt@markPrice''
      then bindE (double_ins ''p'' j) (\<lambda>(markPrice, j1).
           bindE (stamp_ins ''T'' j1) (\<lambda>(ts, j2).
             Inr (j2, print_out [S ''[Mark] BTCUSDT = '', D markPrice, S '' @ '', U ts, nl]
                        (mark_perp markPrice ts w))))
      else Inr (j, w))"

definition single_message :: "string \<Rightarrow> json \<Rightarrow> world \<Rightarrow> unit outcome \<times> world" where
  "single_message stream j w =
     (case bindE (single_fields j) (\<lambda>(tick, j1).
             bindE (funding_branch stream j1 w) (\<lambda>(j2, w1).
             bindE (mark_branch stream j2 w1) (\<lambda>(j3, w2). Inr (single_tick tick w2)))) of
        Inl f \<Rightarrow> (Inl f, w)
      | Inr w' \<Rightarrow> (Inr (), w'))"

definition message_body :: "json outcome \<Rightarrow> world \<Rightarrow> unit outcome \<times> world" where
  "message_body parsed w =
     (case bindE parsed (\<lambda>payload.
             bindE (if contains ''data'' payload
                    then bindE (at_insert ''data'' payload) (\<lambda>(d, payload'). Inr d)
                    else Inr payload) (\<lambda>d.
             bindE (value_or ''stream'' get_string '''' payload) (\<lambda>stream.
               Inr (contains ''data'' payload, d, stream)))) of
        Inl f \<Rightarrow> (Inl f, w)
      | Inr (wrapped, d, stream) \<Rightarrow>
          if wrapped \<and> is_array d then array_loop (iter_values d) w else single_message stream d w)"

definition on_message :: "json outcome \<Rightarrow> world \<Rightarrow> world outcome" where
  "on_message parsed w =
     (case message_body parsed w of
        (Inr u, w') \<Rightarrow> Inr w'
      | (Inl (Throw what), w') \<Rightarrow> Inr (print_err [S ''[parse error] '', S what, nl] w')
      | (Inl f, w') \<Rightarrow> Inl f)"

subsection \<open>The other threads\<close>

definition bybit_callback :: "trade_tick \<Rightarrow> world \<Rightarrow> world" where
  "bybit_callback tick w =
     (let w1 = (if tk_symbol tick = ''ETHUSDT''
                then compare_tick tick
                       (w\<lparr>ethCross := cross_update ''Bybit'' (tk_price tick) (tk_timestamp tick) (ethCross w)\<rparr>)
                else w)
      in if tk_symbol tick = ''BTCUSDT'' then mark_perp (tk_price tick) (tk_timestamp tick) w1 else w1)"

definition stats_report :: "int \<Rightarrow> world \<Rightarrow> item list" where
  "stats_report now w =
     (let rp = getPrice ''Binance'' (ethCross w);
          synth = synth_getSynthetic (ethSynth w);
          avgDelta = getAverageMispricing (ethSynth w);
          fundingAdjusted = perp_getSynthetic now (perp w)
      in [nl, S ''=== Arbitrage Engine Snapshot ==='', nl,
          S '' Synthetic ETHUSDT        : '', D synth, nl,
          S '' BTC Funding-Adj Synthetic: '', D fundingAdjusted, nl,
          S '' Real ETHUSDT             : '', D rp, nl,
          S '' Spread                   : '', D (fsub synth rp), nl,
          S '' Rolling Avg              : '', D avgDelta, nl,
          S '' BTC Mark Price           : '', D (getMark (perp w)), nl,
          S '' Funding Rate             : '', D (getFundingRate (perp w)), nl,
          S '' Signals Triggered        : '', S (nat_str (getCount (pnl_engines w 0))), nl,
          S '' Simulated PnL            : '', D (getPnL (pnl_engines w 0)), nl,
          S ''==============================='', nl])"

definition stats_overlay :: "int \<Rightarrow> world \<Rightarrow> world" where
  "stats_overlay now w = print_out (stats_report now w) w"

definition spread_lines :: "f64 \<Rightarrow> f64 \<Rightarrow> item list" where
  "spread_lines bpx ypx =
     (let diff = fsub bpx ypx
      in [S (''['' @ delta_utf8 @ '' ETHUSDT] Binance: ''), D bpx, S '' | Bybit: '', D ypx,
          S ('' | '' @ delta_utf8 @ '' = ''), S (plus_sign diff), D diff, nl]
         @ (if fle (f64_dec 2 1) (fabs diff)
            then [S ''  [ALERT] ETHUSDT spread exceeds 20 cents'', nl] else []))"

definition spread_monitor :: "world \<Rightarrow> world" where
  "spread_monitor w =
     (let bpx = getPrice ''Binance'' (ethCross w); ypx = getPrice ''Bybit'' (ethCross w)
      in if flt (f64_zero False) bpx \<and> flt (f64_zero False) ypx
         then print_out (spread_lines bpx ypx) w else w)"

definition signal_handler :: "world \<Rightarrow> world" where
  "signal_handler w = w\<lparr>running := False\<rparr>"

text \<open>The line \<^verbatim>\<open>main\<close> prints after starting the threads.\<close>

definition option_sample :: "cmath \<Rightarrow> world \<Rightarrow> world" where
  "option_sample cm =
     print_out [S ''[Options] Synthetic Call Price = '',
                D (blackScholesCall cm (f64_dec 2800 0) (f64_dec 2750 0) (f64_dec 7 2) (f64_dec 1 2) (f64_dec 6 1)),
                nl]"

end
