(* ===== verification/Program_Steps.thy ===== *)
theory Program_Steps
  imports Main_Program
begin

text \<open>
  The running program: the events its threads handle, one step per handled message, monitor turn or
  signal, the states reachable from start-up, and the invariants of all of them; then the control
  flow of \<^verbatim>\<open>main\<close> around the connection.
\<close>

datatype event = Binance "json outcome" | Bybit "json outcome" | StatsTurn int | SpreadTurn | Sigint

text \<open>A monitor thread: test the flag, sleep, report, test again.\<close>

definition stats_turn :: "int \<Rightarrow> world \<Rightarrow> world" where
  "stats_turn now w =
     (case stats_loop w of
        Checking \<Rightarrow> w\<lparr>stats_loop := (if running w then Sleeping else Done)\<rparr>
      | Sleeping \<Rightarrow> (stats_overlay now w)\<lparr>stats_loop := Checking\<rparr>
      | Done \<Rightarrow> w)"

definition spread_turn :: "world \<Rightarrow> world" where
  "spread_turn w =
     (case spread_loop w of
        Checking \<Rightarrow> w\<lparr>spread_loop := (if running w then Sleeping else Done)\<rparr>
      | Sleeping \<Rightarrow> (spread_monitor w)\<lparr>spread_loop := Checking\<rparr>
      | Done \<Rightarrow> w)"

inductive main_step :: "world \<Rightarrow> event \<Rightarrow> world \<Rightarrow> bool" where
  binance: "on_message p w = Inr w' \<Longrightarrow> main_step w (Binance p) w'"
| bybit: "bybit_message bybit_callback p w = Inr w' \<Longrightarrow> main_step w (Bybit p) w'"
| stats: "main_step w (StatsTurn now) (stats_turn now w)"
| spread: "main_step w SpreadTurn (spread_turn w)"
| sigint: "main_step w Sigint (signal_handler w)"

inductive_cases main_stepE: "main_step w e w'"

inductive reachable :: "world \<Rightarrow> world \<Rightarrow> bool" for w0 where
  start: "reachable w0 w0"
| step: "reachable w0 w \<Longrightarrow> main_step w e w' \<Longrightarrow> reachable w0 w'"

definition start_world :: "cmath \<Rightarrow> bool \<Rightarrow> (string \<Rightarrow> bool) \<Rightarrow> int \<Rightarrow> world" where
  "start_world cm log_opened opened tellp =
     option_sample cm (main_setup log_opened (initial_world opened tellp))"

subsection \<open>Frames\<close>

lemma world_fields:
  "desk_state.more w = desk_state.more w' \<Longrightarrow>
   ethCross w = ethCross w' \<and> arb w = arb w' \<and> perp w = perp w' \<and> perp_last_alert w = perp_last_alert w'
   \<and> ethSynth w = ethSynth w' \<and> trade_buffers w = trade_buffers w' \<and> running w = running w'
   \<and> stats_loop w = stats_loop w' \<and> spread_loop w = spread_loop w'"
  by (cases w; cases w') simp

lemma io_desk_more: "io_state.more w = io_state.more w' \<Longrightarrow> desk_state.more w = desk_state.more w'"
  by (cases w; cases w') simp

lemma pnl_desk_more: "pnl_state.more w = pnl_state.more w' \<Longrightarrow> desk_state.more w = desk_state.more w'"
  by (cases w; cases w') simp

lemma desk_more [simp]:
  "desk_state.more (print_out is w) = desk_state.more w"
  "desk_state.more (print_err is w) = desk_state.more w"
  "desk_state.more (snd (synth_update symb p t s w)) = desk_state.more w"
  "desk_state.more (compare_logs rp t sp s w) = desk_state.more w"
  "desk_state.more (recordTrade a sy en ex t d w) = desk_state.more w"
proof -
  show "desk_state.more (print_out is w) = desk_state.more w"
    "desk_state.more (print_err is w) = desk_state.more w"
    by (rule io_desk_more, simp)+
  show "desk_state.more (snd (synth_update symb p t s w)) = desk_state.more w"
    by (rule io_desk_more) (simp add: synth_update_def Let_def)
  show "desk_state.more (compare_logs rp t sp s w) = desk_state.more w"
    by (rule io_desk_more) (simp add: compare_logs_def Let_def arb_evaluate_def)
  show "desk_state.more (recordTrade a sy en ex t d w) = desk_state.more w"
    by (rule pnl_desk_more) simp
qed

lemma try_trigger_more [simp]: "desk_state.more (snd (try_trigger p d t w)) = desk_state.more w"
  by (simp add: try_trigger_def split: option.split prod.split)

lemma book_signal_more [simp]: "desk_state.more (book_signal p sp rp d t w) = desk_state.more w"
  by (simp add: book_signal_def Let_def split: option.split)

lemma compare_more [simp]: "desk_state.more (snd (compareToReal rp t s w)) = desk_state.more w"
proof (cases "ready_ethbtc s \<and> ready_btcusdt s")
  case True
  then have r: "ready_ethbtc s" "ready_btcusdt s" by simp_all
  show ?thesis unfolding compare_ready [OF r] by simp
next
  case False
  show ?thesis unfolding compare_unready [OF False] by simp
qed

lemma compare_cooldown:
  "cooldown (arb_engines (snd (compareToReal rp t s w)) a) = cooldown (arb_engines w a)"
proof -
  have b: "arb_engines (book_signal p sp rp d t v) = arb_engines v" for p sp rp d t and v :: "'a desk_state_scheme"
    by (simp add: book_signal_def Let_def split: option.split)
  have tr: "cooldown (arb_engines (snd (try_trigger p d t v)) a) = cooldown (arb_engines v a)"
    for p d t and v :: "'a desk_state_scheme"
    using shouldTrigger_frame(1) [of "''ETHUSDT''" t]
    by (auto simp: try_trigger_def split: option.split prod.split) (metis snd_conv)
  show ?thesis
  proof (cases "ready_ethbtc s \<and> ready_btcusdt s")
    case True
    then have r: "ready_ethbtc s" "ready_btcusdt s" by simp_all
    show ?thesis unfolding compare_ready [OF r] by (simp add: b tr)
  next
    case False
    show ?thesis unfolding compare_unready [OF False] by simp
  qed
qed

text \<open>The updates of the object keep its spread window within its size.\<close>

lemma compare_buffer:
  "length (mb_buffer (ss_buffer s)) \<le> mb_max_size (ss_buffer s) \<Longrightarrow>
   length (mb_buffer (ss_buffer (fst (compareToReal rp t s w)))) \<le> mb_max_size (ss_buffer s)
   \<and> mb_max_size (ss_buffer (fst (compareToReal rp t s w))) = mb_max_size (ss_buffer s)"
  using window.push_bounded [of "ss_buffer s"]
  by (auto simp: compareToReal_def Let_def buffer_add_def split: prod.split)

subsection \<open>The trade buffers as sliding windows\<close>

definition tick_of :: "string \<Rightarrow> f64 \<times> f64 \<times> u64 \<Rightarrow> trade_tick" where
  "tick_of symb = (\<lambda>(p, q, t). \<lparr>tk_symbol = symb, tk_price = p, tk_quantity = q, tk_timestamp = t\<rparr>)"

definition trade_of :: "trade_tick \<Rightarrow> f64 \<times> f64 \<times> u64" where
  "trade_of tick = (tk_price tick, tk_quantity tick, tk_timestamp tick)"

lemma buffer_of_tick:
  "buffer_of symb (buffer_tick tick w) =
     (if tk_symbol tick = symb
      then (let b = buffer_of symb w @ [tick] in if max_buffer_size < length b then tl b else b)
      else buffer_of symb w)"
  by (simp add: buffer_tick_def buffer_of_def Let_def)

interpretation trades_window: sliding_window "\<lambda>x. buffer_tick (tick_of symb x)"
  "\<lambda>w. map trade_of (buffer_of symb w)" "\<lambda>_. max_buffer_size" for symb
  by unfold_locales (auto simp: buffer_of_tick tick_of_def trade_of_def Let_def map_tl)

lemma buffer_of_run:
  "length (buffer_of symb w) \<le> max_buffer_size \<Longrightarrow>
   map trade_of (buffer_of symb (fold buffer_tick ticks w)) =
     takeLast max_buffer_size
       (map trade_of (buffer_of symb w @ filter (\<lambda>tick. tk_symbol tick = symb) ticks))"
proof (induction ticks arbitrary: w)
  case (Cons tick ticks)
  have t: "tick = tick_of (tk_symbol tick) (trade_of tick)" by (simp add: tick_of_def trade_of_def)
  show ?case
  proof (cases "tk_symbol tick = symb")
    case True
    have le: "length (map trade_of (buffer_of symb w)) \<le> max_buffer_size" using Cons.prems by simp
    have push: "map trade_of (buffer_of symb (buffer_tick tick w))
        = takeLast max_buffer_size (map trade_of (buffer_of symb w) @ [trade_of tick])"
      using trades_window.push_takeLast [OF le, of "trade_of tick"] t True by metis
    have "length (buffer_of symb (buffer_tick tick w)) \<le> max_buffer_size"
      using arg_cong [OF push, of length] by simp
    from Cons.IH [OF this] show ?thesis by (simp add: True push takeLast_append_takeLast)
  next
    case False
    then have same: "buffer_of symb (buffer_tick tick w) = buffer_of symb w" by (simp add: buffer_of_tick)
    with Cons False show ?thesis by simp
  qed
qed simp

subsection \<open>The invariant\<close>

text \<open>
  What every step keeps, relative to the state \<open>w0\<close> the program started in: the profit engines, the
  trade logs and the pair object as they were, no tracker attached to the synthetic object, nothing
  from Bybit, the cooldown, the bounds of the buffers, and the flags of the perpetual engine.
\<close>

definition main_inv :: "world \<Rightarrow> world \<Rightarrow> bool" where
  "main_inv w0 w \<longleftrightarrow>
     pnl_engines w = pnl_engines w0 \<and> files w = files w0 \<and> arb_loggers w = arb_loggers w0
     \<and> arb w = arb w0 \<and> pnl_ptr (ethSynth w) = None \<and> \<not> bybitReady (ethCross w)
     \<and> (\<forall>a. cooldown (arb_engines w a) = cooldown (arb_engines w0 a))
     \<and> (\<forall>symb. length (buffer_of symb w) \<le> max_buffer_size
          \<and> (\<forall>tick \<in> set (buffer_of symb w). tk_symbol tick = symb))
     \<and> mb_max_size (ss_buffer (ethSynth w)) = 2 \<and> length (mb_buffer (ss_buffer (ethSynth w))) \<le> 2
     \<and> perp_inv (perp w)"

text \<open>Two states that agree on what the invariant reads.\<close>

lemma main_inv_io:
  assumes "main_inv w0 w" "desk_state.more w' = desk_state.more w"
    and "pnl_engines w' = pnl_engines w" "files w' = files w" "arb_loggers w' = arb_loggers w"
    and "arb_engines w' = arb_engines w"
  shows "main_inv w0 w'"
proof -
  note f = world_fields [OF assms(2)]
  have "buffer_of symb w' = buffer_of symb w" for symb using f by (simp add: buffer_of_def)
  then show ?thesis using assms f by (simp add: main_inv_def)
qed

lemma main_inv_print [intro]:
  "main_inv w0 w \<Longrightarrow> main_inv w0 (print_out is w)" "main_inv w0 w \<Longrightarrow> main_inv w0 (print_err is w)"
  by (erule main_inv_io; simp)+

lemma buffer_of_frame [simp]:
  "buffer_of symb (w\<lparr>ethSynth := s\<rparr>) = buffer_of symb w" "buffer_of symb (w\<lparr>ethCross := c\<rparr>) = buffer_of symb w"
  "buffer_of symb (w\<lparr>perp := e\<rparr>) = buffer_of symb w" "buffer_of symb (w\<lparr>perp_last_alert := l\<rparr>) = buffer_of symb w"
  "buffer_of symb (w\<lparr>cout := out\<rparr>) = buffer_of symb w" "buffer_of symb (w\<lparr>stats_loop := x\<rparr>) = buffer_of symb w"
  "buffer_of symb (w\<lparr>spread_loop := x\<rparr>) = buffer_of symb w" "buffer_of symb (w\<lparr>running := b\<rparr>) = buffer_of symb w"
  by (simp_all add: buffer_of_def)

lemma main_inv_synth:
  assumes inv: "main_inv w0 w" and f: "f (ethSynth w) w = (s, w')"
    and "desk_state.more w' = desk_state.more w" "pnl_engines w' = pnl_engines w" "files w' = files w"
    and "arb_loggers w' = arb_loggers w" "\<forall>a. cooldown (arb_engines w' a) = cooldown (arb_engines w a)"
    and "pnl_ptr s = None" "mb_max_size (ss_buffer s) = 2" "length (mb_buffer (ss_buffer s)) \<le> 2"
  shows "main_inv w0 (with_synth f w)"
proof -
  note g = world_fields [OF assms(3)]
  have "buffer_of symb w' = buffer_of symb w" for symb using g by (simp add: buffer_of_def)
  then show ?thesis using assms g by (simp add: main_inv_def with_synth_def)
qed

lemma main_inv_update_synth:
  assumes "main_inv w0 w"
  shows "main_inv w0 (with_synth (synth_update symb p t) w)"
proof -
  obtain s w' where u: "synth_update symb p t (ethSynth w) w = (s, w')"
    by (cases "synth_update symb p t (ethSynth w) w")
  have s: "s = fst (synth_update symb p t (ethSynth w) w)" and w': "w' = snd (synth_update symb p t (ethSynth w) w)"
    by (simp_all add: u)
  show ?thesis
    using assms by (intro main_inv_synth [where f = "synth_update symb p t" and s = s and w' = w'])
      (simp_all add: u, simp_all add: s w' main_inv_def)
qed

lemma main_inv_compare [intro]:
  assumes "main_inv w0 w"
  shows "main_inv w0 (compare_tick tick w)"
proof -
  let ?c = "compareToReal (tk_price tick) (tk_timestamp tick)"
  obtain s w' where u: "?c (ethSynth w) w = (s, w')" by (cases "?c (ethSynth w) w")
  have s: "s = fst (?c (ethSynth w) w)" and w': "w' = snd (?c (ethSynth w) w)" by (simp_all add: u)
  have p: "pnl_ptr (ethSynth w) = None" using assms by (simp add: main_inv_def)
  have b: "length (mb_buffer (ss_buffer (ethSynth w))) \<le> mb_max_size (ss_buffer (ethSynth w))"
    "mb_max_size (ss_buffer (ethSynth w)) = 2" using assms by (simp_all add: main_inv_def)
  have "main_inv w0 (with_synth ?c w)"
    using assms compare_no_tracker [OF p, of "tk_price tick" "tk_timestamp tick" w] compare_buffer [OF b(1), of "tk_price tick" "tk_timestamp tick" w] b(2) p
    by (intro main_inv_synth [where f = ?c and s = s and w' = w'])
      (simp_all add: u, simp_all add: s w' compare_cooldown)
  then show ?thesis using assms by (simp add: compare_tick_def)
qed

lemma main_inv_engines [intro]:
  assumes "main_inv w0 w"
  shows "main_inv w0 (update_engines tick w)"
proof -
  have spot: "main_inv w0 (w\<lparr>perp := updateSpot p (perp w)\<rparr>)" for p
    using assms by (auto simp: main_inv_def)
  have cross: "main_inv w0 (w\<lparr>ethCross := cross_update ''Binance'' p t (ethCross w)\<rparr>)" for p t
    using assms by (auto simp: main_inv_def cross_update_def)
  show ?thesis
    using assms spot cross by (auto simp: update_engines_def Let_def intro: main_inv_update_synth)
qed

lemma buffer_tick_frame [simp]:
  "pnl_engines (buffer_tick tick w) = pnl_engines w" "files (buffer_tick tick w) = files w"
  "arb_loggers (buffer_tick tick w) = arb_loggers w" "arb (buffer_tick tick w) = arb w"
  "ethSynth (buffer_tick tick w) = ethSynth w" "ethCross (buffer_tick tick w) = ethCross w"
  "arb_engines (buffer_tick tick w) = arb_engines w" "perp (buffer_tick tick w) = perp w"
  by (simp_all add: buffer_tick_def Let_def)

lemma main_inv_buffer [intro]:
  assumes "main_inv w0 w"
  shows "main_inv w0 (buffer_tick tick w)"
proof -
  have tl: "t \<in> set xs" if "t \<in> set (tl xs)" for t and xs :: "trade_tick list"
    using that by (cases xs) simp_all
  have "length (buffer_of symb (buffer_tick tick w)) \<le> max_buffer_size
      \<and> (\<forall>t \<in> set (buffer_of symb (buffer_tick tick w)). tk_symbol t = symb)" for symb
  proof -
    have b: "length (buffer_of symb w) \<le> max_buffer_size"
      "\<And>t. t \<in> set (buffer_of symb w) \<Longrightarrow> tk_symbol t = symb"
      using assms unfolding main_inv_def by blast+
    show ?thesis
    proof (cases "tk_symbol tick = symb")
      case True
      have "tk_symbol t = symb" if "t \<in> set (buffer_of symb w @ [tick])" for t
        using that b(2) True by auto
      then have all: "\<forall>t \<in> set (buffer_of symb w @ [tick]). tk_symbol t = symb"
        "\<forall>t \<in> set (tl (buffer_of symb w @ [tick])). tk_symbol t = symb"
        using tl by blast+
      show ?thesis
      proof (cases "max_buffer_size < length (buffer_of symb w @ [tick])")
        case True
        have "buffer_of symb (buffer_tick tick w) = tl (buffer_of symb w @ [tick])"
          using True \<open>tk_symbol tick = symb\<close> by (simp only: buffer_of_tick Let_def if_True simp_thms)
        then show ?thesis using all(2) b(1) by simp
      next
        case False
        have "buffer_of symb (buffer_tick tick w) = buffer_of symb w @ [tick]"
          using False \<open>tk_symbol tick = symb\<close> by (simp only: buffer_of_tick Let_def if_True if_False simp_thms)
        then show ?thesis using all(1) False by (simp add: not_less)
      qed
    next
      case False
      then show ?thesis using b by (simp only: buffer_of_tick if_False) blast
    qed
  qed
  then show ?thesis using assms unfolding main_inv_def buffer_tick_frame by blast
qed

lemma main_inv_ticks [intro]:
  "main_inv w0 w \<Longrightarrow> main_inv w0 (array_tick tick w)"
  "main_inv w0 w \<Longrightarrow> main_inv w0 (single_tick tick w)"
  by (auto simp: array_tick_def single_tick_def print_tick_def)

lemma main_inv_array_loop: "main_inv w0 w \<Longrightarrow> main_inv w0 (snd (array_loop es w))"
  by (induction es arbitrary: w) (auto split: sum.split)

lemma main_inv_mark [intro]:
  assumes "main_inv w0 w"
  shows "main_inv w0 (mark_perp m ts w)"
proof -
  obtain e la out where u: "updateMark m ts (perp w) (perp_last_alert w) (cout w) = (e, la, out)"
    by (cases "updateMark m ts (perp w) (perp_last_alert w) (cout w)")
  have "perp_inv (perp w)" using assms by (simp add: main_inv_def)
  from perp_inv_updateMark [OF this, of m ts "perp_last_alert w" "cout w"] have "perp_inv e" by (simp add: u)
  then show ?thesis using assms by (simp add: mark_perp_def u main_inv_def)
qed

lemma main_inv_branches:
  "main_inv w0 w \<Longrightarrow> funding_branch stream j w = Inr (j', w') \<Longrightarrow> main_inv w0 w'"
  "main_inv w0 w \<Longrightarrow> mark_branch stream j w = Inr (j', w') \<Longrightarrow> main_inv w0 w'"
proof -
  have funding: "main_inv w0 w \<Longrightarrow> main_inv w0 (w\<lparr>perp := updateFunding r ts (perp w)\<rparr>)" for r ts
    by (auto simp: main_inv_def)
  show "main_inv w0 w \<Longrightarrow> funding_branch stream j w = Inr (j', w') \<Longrightarrow> main_inv w0 w'"
    by (auto simp: funding_branch_def bindE_eq_Inr intro: funding split: if_splits)
  show "main_inv w0 w \<Longrightarrow> mark_branch stream j w = Inr (j', w') \<Longrightarrow> main_inv w0 w'"
    by (auto simp: mark_branch_def bindE_eq_Inr split: if_splits)
qed

lemma main_inv_single: "main_inv w0 w \<Longrightarrow> main_inv w0 (snd (single_message stream j w))"
proof (cases "snd (single_message stream j w) = w")
  case False
  assume inv: "main_inv w0 w"
  from False obtain tick j1 j2 w1 j3 w2 where
    "funding_branch stream j1 w = Inr (j2, w1)" "mark_branch stream j2 w1 = Inr (j3, w2)"
    "snd (single_message stream j w) = single_tick tick w2"
    by (auto simp: single_message_def bindE_eq_Inr split: sum.splits)
  then show ?thesis using inv main_inv_branches by (metis main_inv_ticks(2))
qed simp

lemma main_inv_message:
  "main_inv w0 w \<Longrightarrow> on_message p w = Inr w' \<Longrightarrow> main_inv w0 w'"
proof -
  assume inv: "main_inv w0 w"
  have "main_inv w0 (snd (message_body p w))"
    using inv main_inv_array_loop [OF inv] main_inv_single [OF inv]
    by (auto simp: message_body_def split: sum.split)
  then show "on_message p w = Inr w' \<Longrightarrow> main_inv w0 w'"
    by (auto simp: on_message_def split: prod.splits sum.splits fault.splits)
qed

lemma main_inv_bybit:
  "main_inv w0 w \<Longrightarrow> bybit_message bybit_callback p w = Inr w' \<Longrightarrow> main_inv w0 w'"
  by (auto simp: bybit_message_def split: sum.splits fault.splits)

lemma main_inv_turns:
  "main_inv w0 w \<Longrightarrow> main_inv w0 (stats_turn now w)" "main_inv w0 w \<Longrightarrow> main_inv w0 (spread_turn w)"
  "main_inv w0 w \<Longrightarrow> main_inv w0 (signal_handler w)"
proof -
  have loops: "main_inv w0 v \<Longrightarrow> main_inv w0 (v\<lparr>stats_loop := x\<rparr>)" "main_inv w0 v \<Longrightarrow> main_inv w0 (v\<lparr>spread_loop := x\<rparr>)"
    "main_inv w0 v \<Longrightarrow> main_inv w0 (v\<lparr>running := b\<rparr>)" for v x b
    by (auto simp: main_inv_def)
  assume inv: "main_inv w0 w"
  have "main_inv w0 (stats_overlay now w)" "main_inv w0 (spread_monitor w)"
    using inv by (auto simp: stats_overlay_def spread_monitor_def Let_def)
  then show "main_inv w0 (stats_turn now w)" "main_inv w0 (spread_turn w)" "main_inv w0 (signal_handler w)"
    using inv loops by (auto simp: stats_turn_def spread_turn_def signal_handler_def split: loop_state.split)
qed

lemma main_inv_step: "main_step w e w' \<Longrightarrow> main_inv w0 w \<Longrightarrow> main_inv w0 w'"
  by (induction rule: main_step.induct)
    (auto intro: main_inv_message main_inv_bybit main_inv_turns)

lemma main_inv_reachable: "reachable w0 w \<Longrightarrow> main_inv w0 w0 \<Longrightarrow> main_inv w0 w"
  by (induction rule: reachable.induct) (auto intro: main_inv_step)

lemma main_inv_start: "main_inv (start_world cm lo op tp) (start_world cm lo op tp)"
proof -
  have b: "buffer_of symb (start_world cm lo op tp) = []" for symb
    by (simp add: start_world_def option_sample_def print_out_def main_setup_def initial_world_def buffer_of_def)
  show ?thesis
    by (simp add: main_inv_def b)
      (auto simp: start_world_def option_sample_def print_out_def main_setup_def initial_world_def
        attachArbEngine_def attachLogger_def attachSnapshotLogger_def spot_synth_new_def
        cross_pair_new_def mispricing_buffer_new_def)
qed

lemmas reachable_inv = main_inv_reachable [OF _ main_inv_start]

subsection \<open>The control flow of main\<close>

text \<open>
  One pass from the label \<^verbatim>\<open>reconnect\<close>: \<^verbatim>\<open>get_connection\<close> reports an error; or \<^verbatim>\<open>connect\<close> and \<^verbatim>\<open>run\<close>
  end by returning, by an exception, or because the close handler calls \<^verbatim>\<open>std::exit\<close>.  The three
  threads are joinable until they are joined, so leaving \<^verbatim>\<open>main\<close> by \<^verbatim>\<open>return 1\<close> destroys joinable
  \<^verbatim>\<open>std::thread\<close> objects and ends in \<^verbatim>\<open>std::terminate\<close>.
\<close>

datatype attempt = ConnectError string | RunReturned | RunThrew string | WsClosed

datatype program_end = ExitCode int | Terminated

definition close_handler :: "world \<Rightarrow> program_end \<times> world" where
  "close_handler w = (ExitCode 42, print_err [S ''[info] Binance WS closed. Reconnecting...'', nl] w)"

fun reconnect :: "attempt list \<Rightarrow> world \<Rightarrow> program_end option \<times> world" where
  "reconnect [] w = (None, w)"
| "reconnect (ConnectError m # as) w = (Some Terminated, print_err [S ''[connect error] '', S m, nl] w)"
| "reconnect (RunReturned # as) w = (Some (ExitCode 0), w)"
| "reconnect (RunThrew what # as) w = reconnect as (print_err [S ''[fatal] '', S what, nl] w)"
| "reconnect (WsClosed # as) w = (case close_handler w of (e, w') \<Rightarrow> (Some e, w'))"

subsection \<open>Properties\<close>

text \<open>C7: In every reachable state of the program no trade has been recorded: the statistics always show
  0 signals and a profit of 0, and the two trade logs hold nothing but what was written at start-up.
  (The profit tracker is attached to the arbitrage engine, which never uses it, and not to the
  synthetic object, which would.)\<close>

theorem no_trade_ever:
  assumes "reachable (start_world cm lo op tp) w"
  shows "getCount (pnl_engines w 0) = 0 \<and> getPnL (pnl_engines w 0) = fzero
         \<and> files w 0 = put [S main_log_header, nl] (open_ofstream lo)
         \<and> arb_loggers w 0 = arb_logger_new (op ''arbitrage_log.csv'') tp"
proof -
  have "pnl_engines w = pnl_engines (start_world cm lo op tp)" "files w = files (start_world cm lo op tp)"
    "arb_loggers w = arb_loggers (start_world cm lo op tp)"
    using reachable_inv [OF assms] by (simp_all add: main_inv_def)
  then show ?thesis
    by (simp add: start_world_def option_sample_def print_out_def main_setup_def initial_world_def getCount_def
        getPnL_def attachLogger_arb_def attachLogger_stream_def mock_pnl_new_def)
qed

definition sample_start :: world where
  "sample_start = start_world step_cmath True (\<lambda>_. True) 0"

theorem no_trade_ever_witness:
  "getCount (pnl_engines (signal_handler sample_start) 0) = 0"
proof -
  have "reachable (start_world step_cmath True (\<lambda>_. True) 0) (signal_handler sample_start)"
    using reachable.step [OF reachable.start main_step.sigint] by (simp add: sample_start_def)
  from no_trade_ever [OF this] show ?thesis by blast
qed

text \<open>The spread monitor never prints: no price of Bybit is ever stored, so every turn of that thread
  leaves the console as it is, in every reachable state.\<close>

theorem spread_monitor_silent:
  assumes "reachable (start_world cm lo op tp) w"
  shows "spread_monitor w = w \<and> cout (spread_turn w) = cout w"
proof -
  have "\<not> bybitReady (ethCross w)" using reachable_inv [OF assms] by (simp add: main_inv_def)
  then have "spread_monitor w = w" by (simp add: spread_monitor_def Let_def getPrice_def)
  then show ?thesis by (simp add: spread_turn_def split: loop_state.split)
qed

theorem spread_monitor_silent_witness: "spread_monitor (signal_handler sample_start) = signal_handler sample_start"
proof -
  have "reachable (start_world step_cmath True (\<lambda>_. True) 0) (signal_handler sample_start)"
    using reachable.step [OF reachable.start main_step.sigint] by (simp add: sample_start_def)
  from spread_monitor_silent [OF this] show ?thesis by blast
qed

text \<open>The cooldown of the ETHUSDT engine is 0 ms in every reachable state (0.2 converted to an
  integer), so a spread of at least 0.1 raises a signal whenever the time stamp differs from that of
  the last signal, however close.\<close>

theorem cooldown_is_zero:
  assumes "reachable (start_world cm lo op tp) w"
  shows "cooldown (arb_engines w 0) = 0
         \<and> (fst (shouldTrigger ''ETHUSDT'' t (arb_engines w 0))
              \<longleftrightarrow> last_trigger (arb_engines w 0) ''ETHUSDT'' \<noteq> Some t)"
proof -
  have e: "eth_cooldown = 0" by (simp add: eth_cooldown_def f64_eval)
  have "cooldown (arb_engines w 0) = cooldown (arb_engines (start_world cm lo op tp) 0)"
    using reachable_inv [OF assms] by (simp add: main_inv_def)
  also have "\<dots> = 0"
    by (simp add: start_world_def option_sample_def print_out_def main_setup_def initial_world_def
        attachMockPnL_def arb_engine_new_def e)
  finally show ?thesis by (auto simp: shouldTrigger_def word_gt_0 split: option.split)
qed

theorem cooldown_is_zero_witness:
  "cooldown (arb_engines (signal_handler sample_start) 0) = 0"
proof -
  have "reachable (start_world step_cmath True (\<lambda>_. True) 0) (signal_handler sample_start)"
    using reachable.step [OF reachable.start main_step.sigint] by (simp add: sample_start_def)
  from cooldown_is_zero [OF this] show ?thesis by blast
qed





text \<open>Reading a member of a mutable object twice.\<close>

lemma at_insert_twice:
  assumes "obj_ok ms"
  shows "\<exists>ms'. obj_ok ms' \<and> (\<forall>l. l \<noteq> k \<longrightarrow> map_of ms' l = map_of ms l)
    \<and> at_insert k (JObject ms) = Inr (member_or_null k ms, JObject ms')
    \<and> at_insert k (JObject ms') = Inr (member_or_null k ms, JObject ms')"
proof -
  obtain ms' where ms': "at_insert k (JObject ms) = Inr (member_or_null k ms, JObject ms')" "obj_ok ms'"
    "\<forall>l. l \<noteq> k \<longrightarrow> map_of ms' l = map_of ms l" "map_of ms' k = Some (member_or_null k ms)"
    using insert_member [OF assms, of k] by blast
  then show ?thesis using at_insert_present [OF ms'(2,4)] by blast
qed

lemma double_ins_object:
  assumes "obj_ok ms"
  shows "\<exists>ms'. obj_ok ms' \<and> (\<forall>l. l \<noteq> k \<longrightarrow> map_of ms' l = map_of ms l)
    \<and> double_ins k (JObject ms) = bindE (number_of (member_or_null k ms)) (\<lambda>x. Inr (x, JObject ms'))"
  using at_insert_twice [OF assms, of k]
  by (elim exE conjE, intro exI conjI) (assumption | simp add: double_ins_def number_of_def)+

lemma reads_throw:
  "number_of j = Inl f \<Longrightarrow> \<exists>what. f = Throw what" "get_string j = Inl f \<Longrightarrow> \<exists>what. f = Throw what"
proof -
  have "stod s = Inl f \<Longrightarrow> \<exists>what. f = Throw what" for s
    by (auto simp: stod_def split: option.splits if_splits)
  then show "number_of j = Inl f \<Longrightarrow> \<exists>what. f = Throw what"
    by (cases j) (auto simp: number_of_def not_a_number_def type_error_def)
  show "get_string j = Inl f \<Longrightarrow> \<exists>what. f = Throw what"
    by (cases j) (auto simp: type_error_def)
qed

lemma single_fields_no_q:
  assumes "obj_ok ms" "map_of ms ''q'' = None"
  shows "\<exists>what. single_fields (JObject ms) = Inl (Throw what)"
proof -
  obtain m1 where m1: "obj_ok m1" "\<forall>l. l \<noteq> ''s'' \<longrightarrow> map_of m1 l = map_of ms l"
    "at_insert ''s'' (JObject ms) = Inr (member_or_null ''s'' ms, JObject m1)"
    using at_insert_twice [OF assms(1), of "''s''"] by blast
  obtain m2 where m2: "obj_ok m2" "\<forall>l. l \<noteq> ''p'' \<longrightarrow> map_of m2 l = map_of m1 l"
    "double_ins ''p'' (JObject m1) = bindE (number_of (member_or_null ''p'' m1)) (\<lambda>x. Inr (x, JObject m2))"
    using double_ins_object [OF m1(1), of "''p''"] by blast
  obtain m3 where m3: "double_ins ''q'' (JObject m2)
      = bindE (number_of (member_or_null ''q'' m2)) (\<lambda>x. Inr (x, JObject m3))"
    using double_ins_object [OF m2(1), of "''q''"] by blast
  have "member_or_null ''q'' m2 = JNull" using m1(2) m2(2) assms(2) by (simp add: member_or_null_def)
  then have q: "\<exists>what. double_ins ''q'' (JObject m2) = Inl (Throw what)"
    by (simp add: m3 number_of_def not_a_number_def type_error_def)
  show ?thesis
  proof (cases "get_string (member_or_null ''s'' ms)")
    case (Inl f)
    then show ?thesis using reads_throw(2) [OF Inl] by (auto simp: single_fields_def m1(3) simp del: at_insert.simps)
  next
    case (Inr symb)
    show ?thesis
    proof (cases "number_of (member_or_null ''p'' m1)")
      case (Inl f)
      then show ?thesis using reads_throw(1) [OF Inl] Inr by (auto simp: single_fields_def m1(3) m2(3) simp del: at_insert.simps)
    next
      case p: (Inr x)
      then show ?thesis using q Inr by (auto simp: single_fields_def m1(3) m2(3) simp del: at_insert.simps)
    qed
  qed
qed

text \<open>Funding and mark-price messages are read like trades first: one whose data has no \<^verbatim>\<open>q\<close> member
  (as those streams' messages do not) only prints an error, and neither the funding rate nor the
  mark price is stored.\<close>

theorem message_without_quantity:
  assumes "obj_ok ps" "map_of ps ''data'' = Some (JObject ms)" "map_of ps ''stream'' = Some (JString stream)"
    and "obj_ok ms" "map_of ms ''q'' = None"
  shows "\<exists>w'. on_message (Inr (JObject ps)) w = Inr w' \<and> w'\<lparr>cerr := cerr w\<rparr> = w"
proof -
  obtain what where f: "single_fields (JObject ms) = Inl (Throw what)"
    using single_fields_no_q [OF assms(4,5)] by blast
  have "message_body (Inr (JObject ps)) w = (Inl (Throw what), w)"
    using at_insert_present [OF assms(1,2)] assms(2,3)
    by (simp add: message_body_def single_message_def f del: at_insert.simps)
  then show ?thesis by (simp add: on_message_def print_err_def)
qed

theorem message_without_quantity_witness:
  "\<exists>w'. on_message (Inr (JObject [(''data'', JObject [(''T'', JUnsigned 1700000000000), (''p'', JString ''60000''),
       (''s'', JString ''BTCUSDT'')]), (''stream'', JString ''btcusdt@markPrice'')])) sample_start = Inr w'
     \<and> w'\<lparr>cerr := cerr sample_start\<rparr> = sample_start"
  by (rule message_without_quantity [where stream = "''btcusdt@markPrice''"
      and ms = "[(''T'', JUnsigned 1700000000000), (''p'', JString ''60000''), (''s'', JString ''BTCUSDT'')]"])
    (simp_all add: obj_ok_def less_char_def)

lemma array_tick_no_compare:
  "arb_engines (array_tick tick w) = arb_engines w
   \<and> real_ethusdt (ethSynth (array_tick tick w)) = real_ethusdt (ethSynth w)
   \<and> ss_buffer (ethSynth (array_tick tick w)) = ss_buffer (ethSynth w)"
proof -
  have s: "arb_engines (with_synth (synth_update symb p t) v) = arb_engines v
      \<and> real_ethusdt (ethSynth (with_synth (synth_update symb p t) v)) = real_ethusdt (ethSynth v)
      \<and> ss_buffer (ethSynth (with_synth (synth_update symb p t) v)) = ss_buffer (ethSynth v)" for symb p t v
    using update_pointers(5,6) [of symb p t "ethSynth v" v] update_arb [of symb p t "ethSynth v" v]
    by (cases "synth_update symb p t (ethSynth v) v") (simp add: with_synth_def)
  have p: "ethSynth (print_tick tick w) = ethSynth w" "arb_engines (print_tick tick w) = arb_engines w"
    using world_fields [of "print_tick tick w" w] by (simp_all add: print_tick_def)
  show ?thesis by (simp add: array_tick_def update_engines_def Let_def s p)
qed

text \<open>An array message never compares prices: it raises no signal and stores no real price, so
  ETHUSDT trades that arrive in arrays update only the cross-exchange price and the buffers.\<close>

theorem array_never_compares:
  assumes "on_message (Inr (JObject [(''data'', JArray es)])) w = Inr w'"
  shows "arb_engines w' = arb_engines w \<and> real_ethusdt (ethSynth w') = real_ethusdt (ethSynth w)
         \<and> ss_buffer (ethSynth w') = ss_buffer (ethSynth w)"
proof -
  have l: "arb_engines (snd (array_loop es w)) = arb_engines w
      \<and> real_ethusdt (ethSynth (snd (array_loop es w))) = real_ethusdt (ethSynth w)
      \<and> ss_buffer (ethSynth (snd (array_loop es w))) = ss_buffer (ethSynth w)"
    by (induction es arbitrary: w) (simp_all add: array_tick_no_compare split: sum.split)
  have b: "message_body (Inr (JObject [(''data'', JArray es)])) w = array_loop es w"
    by (simp add: message_body_def Let_def member_or_null_def)
  obtain r v where r: "array_loop es w = (r, v)" by (cases "array_loop es w")
  have e: "ethSynth (print_err is v) = ethSynth v" for "is"
    using world_fields [of "print_err is v" v] by simp
  show ?thesis
    using assms l by (cases r) (auto simp: on_message_def b r e split: fault.splits)
qed

theorem array_never_compares_witness:
  "\<exists>w'. on_message (Inr (JObject [(''data'', JArray [])])) sample_start = Inr w'
     \<and> arb_engines w' = arb_engines sample_start"
proof -
  have "on_message (Inr (JObject [(''data'', JArray [])])) sample_start = Inr sample_start"
    by (simp add: on_message_def message_body_def Let_def member_or_null_def)
  with array_never_compares [OF this] show ?thesis by blast
qed

text \<open>C40: After SIGINT each monitor thread takes at most two more turns, one of them a report, and is
  done; no turn before that ends it.\<close>

theorem monitors_end:
  "(\<not> running w \<longrightarrow> stats_loop (stats_turn n1 (stats_turn n2 w)) = Done \<and> spread_loop (spread_turn (spread_turn w)) = Done)
   \<and> (running w \<and> stats_loop w \<noteq> Done \<longrightarrow> stats_loop (stats_turn n1 w) \<noteq> Done)
   \<and> (running w \<and> spread_loop w \<noteq> Done \<longrightarrow> spread_loop (spread_turn w) \<noteq> Done)"
proof -
  have r: "running (stats_overlay n w) = running w" "running (spread_monitor w) = running w" for n
    using world_fields [of "stats_overlay n w" w] world_fields [of "spread_monitor w" w]
    by (simp_all add: stats_overlay_def spread_monitor_def Let_def)
  show ?thesis
    by (auto simp: stats_turn_def spread_turn_def r split: loop_state.splits)
qed

theorem monitors_end_witness:
  "stats_loop (stats_turn 0 (stats_turn 0 (signal_handler sample_start))) = Done"
  using monitors_end [of "signal_handler sample_start" 0 0] by (simp add: signal_handler_def)


end
