(* ===== verification/Utf8.thy ===== *)
theory Utf8
  imports Prelude
begin

text \<open>
  UTF-8 as the JSON library uses it: the encoder of the lexer, its table of the bytes that may follow
  a leading byte, and the decoding automaton of the serializer, which the WebSocket library has too.
  Bytes and code points are numbers.  The encoder and the automaton are inverse to each other on the
  Unicode scalar values, and the automaton accepts exactly the encodings of scalar values.
\<close>

definition scalar :: "nat \<Rightarrow> bool" where
  "scalar c \<longleftrightarrow> c < 0xD800 \<or> 0xDFFF < c \<and> c \<le> 0x10FFFF"

definition utf8_units :: "nat \<Rightarrow> nat list" where
  "utf8_units c =
     (if c < 0x80 then [c]
      else if c \<le> 0x7FF then [0xC0 + c div 2 ^ 6, 0x80 + c mod 2 ^ 6]
      else if c \<le> 0xFFFF then [0xE0 + c div 2 ^ 12, 0x80 + c div 2 ^ 6 mod 2 ^ 6, 0x80 + c mod 2 ^ 6]
      else [0xF0 + c div 2 ^ 18, 0x80 + c div 2 ^ 12 mod 2 ^ 6, 0x80 + c div 2 ^ 6 mod 2 ^ 6, 0x80 + c mod 2 ^ 6])"

text \<open>The ranges of the bytes that may follow a leading byte of a multi-byte sequence.\<close>

definition utf8_ranges :: "nat \<Rightarrow> (nat \<times> nat) list option" where
  "utf8_ranges b =
     (if 0xC2 \<le> b \<and> b \<le> 0xDF then Some [(0x80, 0xBF)]
      else if b = 0xE0 then Some [(0xA0, 0xBF), (0x80, 0xBF)]
      else if 0xE1 \<le> b \<and> b \<le> 0xEC \<or> b = 0xEE \<or> b = 0xEF then Some [(0x80, 0xBF), (0x80, 0xBF)]
      else if b = 0xED then Some [(0x80, 0x9F), (0x80, 0xBF)]
      else if b = 0xF0 then Some [(0x90, 0xBF), (0x80, 0xBF), (0x80, 0xBF)]
      else if 0xF1 \<le> b \<and> b \<le> 0xF3 then Some [(0x80, 0xBF), (0x80, 0xBF), (0x80, 0xBF)]
      else if b = 0xF4 then Some [(0x80, 0x8F), (0x80, 0xBF), (0x80, 0xBF)]
      else None)"

definition in_ranges :: "(nat \<times> nat) list \<Rightarrow> nat list \<Rightarrow> bool" where
  "in_ranges rs bs \<longleftrightarrow> list_all2 (\<lambda>(lo, hi) b. lo \<le> b \<and> b \<le> hi) rs bs"

lemma in_ranges_simps [simp]:
  "in_ranges [] bs \<longleftrightarrow> bs = []"
  "in_ranges ((lo, hi) # rs) bs \<longleftrightarrow> (\<exists>b cs. bs = b # cs \<and> lo \<le> b \<and> b \<le> hi \<and> in_ranges rs cs)"
  by (auto simp: in_ranges_def list_all2_Cons1)

definition utf8_text :: "nat list \<Rightarrow> bool" where
  "utf8_text bs \<longleftrightarrow> (\<exists>cs. list_all scalar cs \<and> bs = concat (map utf8_units cs))"

lemma utf8_text_Nil [simp]: "utf8_text []"
  unfolding utf8_text_def by (rule exI [of _ "[]"]) simp

lemma utf8_text_append: "utf8_text bs \<Longrightarrow> utf8_text cs \<Longrightarrow> utf8_text (bs @ cs)"
  unfolding utf8_text_def by (metis concat_append list_all_append map_append)

lemma utf8_text_units: "scalar c \<Longrightarrow> utf8_text (utf8_units c)"
  unfolding utf8_text_def by (rule exI [of _ "[c]"]) simp

lemma units_small: "c < 0x80 \<Longrightarrow> utf8_units c = [c]"
  by (simp add: utf8_units_def)

lemma units_ranges:
  assumes "scalar c" "0x80 \<le> c"
  shows "\<exists>b rs cs. utf8_units c = b # cs \<and> utf8_ranges b = Some rs \<and> in_ranges rs cs"
proof -
  have m: "(x :: nat) mod 64 \<le> 63" for x by (simp add: less_Suc_eq_le [symmetric])
  have d: "64 * (c div 4096) + c div 64 mod 64 = c div 64" "64 * (c div 262144) + c div 4096 mod 64 = c div 4096"
    using mult_div_mod_eq [of 64 "c div 64"] mult_div_mod_eq [of 64 "c div 4096"] by (simp_all flip: div_mult2_eq)
  consider "c \<le> 0x7FF" | "0x7FF < c" "c \<le> 0xFFF" | "0xFFF < c" "c \<le> 0xFFFF" | "0xFFFF < c" "c \<le> 0x3FFFF"
    | "0x3FFFF < c" "c \<le> 0xFFFFF" | "0xFFFFF < c" by linarith
  then show ?thesis
  proof cases
    case 1
    then have "2 \<le> c div 64" "c div 64 \<le> 31" using assms(2) by simp_all
    then show ?thesis using 1 assms m by (auto simp: utf8_units_def utf8_ranges_def)
  next
    case 2
    then have "c div 4096 = 0" "32 \<le> c div 64" "c div 64 < 64" by simp_all
    then show ?thesis using 2 m by (auto simp: utf8_units_def utf8_ranges_def)
  next
    case 3
    have "1 \<le> c div 4096" "c div 4096 \<le> 15" using 3 by simp_all
    moreover have "c div 4096 = 13 \<Longrightarrow> c div 64 mod 64 \<le> 31" using assms(1) 3 d(1) by (auto simp: scalar_def)
    ultimately show ?thesis using 3 m by (auto simp: utf8_units_def utf8_ranges_def)
  next
    case 4
    then have "c div 262144 = 0" "16 \<le> c div 4096" "c div 4096 < 64" by simp_all
    then show ?thesis using 4 m by (auto simp: utf8_units_def utf8_ranges_def)
  next
    case 5
    then have "1 \<le> c div 262144" "c div 262144 \<le> 3" by simp_all
    then show ?thesis using 5 m by (auto simp: utf8_units_def utf8_ranges_def)
  next
    case 6
    then have "c div 262144 = 4" "c div 4096 \<le> 271" using assms(1) by (auto simp: scalar_def)
    then have "c div 262144 = 4" "c div 4096 mod 64 \<le> 15" using d(2) by simp_all
    then show ?thesis using 6 m by (auto simp: utf8_units_def utf8_ranges_def)
  qed
qed

lemma digit64: "v < 64 \<Longrightarrow> (u * 64 + v) div 64 = u" "v < 64 \<Longrightarrow> (u * 64 + v) mod 64 = (v :: nat)"
  by simp_all

lemma offset_by: "lo \<le> x \<Longrightarrow> \<exists>v. x = lo + (v :: nat)"
  by (rule exI [of _ "x - lo"]) simp

lemma two_units:
  assumes "0xC2 \<le> b" "b \<le> 0xDF" "0x80 \<le> x" "x \<le> 0xBF"
  shows "\<exists>c. scalar c \<and> utf8_units c = [b, x]"
proof -
  obtain u v where b: "b = 0xC0 + u" "x = 0x80 + v" using offset_by [of "0xC0" b] offset_by [of "0x80" x] assms by auto
  define c where "c = u * 64 + v"
  have "c div 64 = u" "c mod 64 = v" using assms b digit64 [where u = u and v = v] unfolding c_def by simp_all
  moreover have "0x80 \<le> c" "c \<le> 0x7FF" using assms b unfolding c_def by simp_all
  ultimately have "scalar c \<and> utf8_units c = [b, x]" using b by (simp add: scalar_def utf8_units_def)
  then show ?thesis ..
qed

lemma three_units:
  assumes "0xE0 \<le> b" "b \<le> 0xEF" "b = 0xE0 \<longrightarrow> 0xA0 \<le> x" "b = 0xED \<longrightarrow> x \<le> 0x9F"
    "0x80 \<le> x" "x \<le> 0xBF" "0x80 \<le> y" "y \<le> 0xBF"
  shows "\<exists>c. scalar c \<and> utf8_units c = [b, x, y]"
proof -
  obtain u v w where b: "b = 0xE0 + u" "x = 0x80 + v" "y = 0x80 + w"
    using offset_by [of "0xE0" b] offset_by [of "0x80" x] offset_by [of "0x80" y] assms by auto
  define c where "c = (u * 64 + v) * 64 + w"
  have d: "c div 64 = u * 64 + v" "c mod 64 = w" "c div 64 div 64 = u" "c div 64 mod 64 = v"
    using assms b digit64 [where u = "u * 64 + v" and v = w] digit64 [where u = u and v = v] unfolding c_def by simp_all
  then have e: "c div 4096 = u" by (simp flip: div_mult2_eq)
  have "0x7FF < c" "c \<le> 0xFFFF" using assms b unfolding c_def by (cases "u = 0"; simp)+
  moreover have "scalar c"
  proof -
    consider "u < 13" | "u = 13" | "13 < u" by linarith
    then show ?thesis using assms b unfolding c_def scalar_def by cases simp_all
  qed
  ultimately have "scalar c \<and> utf8_units c = [b, x, y]" using b d e by (simp add: utf8_units_def)
  then show ?thesis ..
qed

lemma four_units:
  assumes "0xF0 \<le> b" "b \<le> 0xF4" "b = 0xF0 \<longrightarrow> 0x90 \<le> x" "b = 0xF4 \<longrightarrow> x \<le> 0x8F"
    "0x80 \<le> x" "x \<le> 0xBF" "0x80 \<le> y" "y \<le> 0xBF" "0x80 \<le> z" "z \<le> 0xBF"
  shows "\<exists>c. scalar c \<and> utf8_units c = [b, x, y, z]"
proof -
  obtain u v w t where b: "b = 0xF0 + u" "x = 0x80 + v" "y = 0x80 + w" "z = 0x80 + t"
    using offset_by [of "0xF0" b] offset_by [of "0x80" x] offset_by [of "0x80" y] offset_by [of "0x80" z] assms by auto
  define c where "c = ((u * 64 + v) * 64 + w) * 64 + t"
  have d: "c div 64 = (u * 64 + v) * 64 + w" "c mod 64 = t" "c div 64 mod 64 = w"
      "c div 64 div 64 = u * 64 + v" "c div 64 div 64 mod 64 = v" "c div 64 div 64 div 64 = u"
    using assms b digit64 [where u = "(u * 64 + v) * 64 + w" and v = t] digit64 [where u = "u * 64 + v" and v = w] digit64 [where u = u and v = v]
    unfolding c_def by simp_all
  have q: "c div 4096 = c div 64 div 64" "c div 262144 = c div 64 div 64 div 64" by (simp_all flip: div_mult2_eq)
  have e: "c div 4096 mod 64 = v" unfolding q by (rule d(5))
  have e': "c div 262144 = u" unfolding q by (rule d(6))
  have "0xFFFF < c" using assms b unfolding c_def by (cases "u = 0") simp_all
  moreover have "c \<le> 0x10FFFF" using assms b unfolding c_def by (cases "u = 4") simp_all
  ultimately have "scalar c \<and> utf8_units c = [b, x, y, z]" using b d e e' by (simp add: utf8_units_def scalar_def)
  then show ?thesis ..
qed

lemma ranges_units:
  assumes "utf8_ranges b = Some rs" "in_ranges rs cs"
  shows "\<exists>c. scalar c \<and> utf8_units c = b # cs"
proof -
  consider (two) x where "cs = [x]" "0xC2 \<le> b" "b \<le> 0xDF" "0x80 \<le> x" "x \<le> 0xBF"
    | (three) x y where "cs = [x, y]" "0xE0 \<le> b" "b \<le> 0xEF" "b = 0xE0 \<longrightarrow> 0xA0 \<le> x" "b = 0xED \<longrightarrow> x \<le> 0x9F"
        "0x80 \<le> x" "x \<le> 0xBF" "0x80 \<le> y" "y \<le> 0xBF"
    | (four) x y z where "cs = [x, y, z]" "0xF0 \<le> b" "b \<le> 0xF4" "b = 0xF0 \<longrightarrow> 0x90 \<le> x" "b = 0xF4 \<longrightarrow> x \<le> 0x8F"
        "0x80 \<le> x" "x \<le> 0xBF" "0x80 \<le> y" "y \<le> 0xBF" "0x80 \<le> z" "z \<le> 0xBF"
    using assms by (auto simp: utf8_ranges_def split: if_splits)
  then show ?thesis
  proof cases
    case two
    then show ?thesis using two_units [of b x] by simp
  next
    case (three x y)
    then show ?thesis using three_units [of b x y] by simp
  next
    case (four x y z)
    then show ?thesis using four_units [of b x y z] by simp
  qed
qed

subsection \<open>The decoding automaton\<close>

definition utf8d :: "nat list" where
  "utf8d =
     [0, 0, 0, 0, 0, 0, 0, 0, 0, 0, 0, 0, 0, 0, 0, 0, 0, 0, 0, 0, 0, 0, 0, 0, 0, 0, 0, 0, 0, 0, 0, 0,
      0, 0, 0, 0, 0, 0, 0, 0, 0, 0, 0, 0, 0, 0, 0, 0, 0, 0, 0, 0, 0, 0, 0, 0, 0, 0, 0, 0, 0, 0, 0, 0,
      0, 0, 0, 0, 0, 0, 0, 0, 0, 0, 0, 0, 0, 0, 0, 0, 0, 0, 0, 0, 0, 0, 0, 0, 0, 0, 0, 0, 0, 0, 0, 0,
      0, 0, 0, 0, 0, 0, 0, 0, 0, 0, 0, 0, 0, 0, 0, 0, 0, 0, 0, 0, 0, 0, 0, 0, 0, 0, 0, 0, 0, 0, 0, 0,
      1, 1, 1, 1, 1, 1, 1, 1, 1, 1, 1, 1, 1, 1, 1, 1, 9, 9, 9, 9, 9, 9, 9, 9, 9, 9, 9, 9, 9, 9, 9, 9,
      7, 7, 7, 7, 7, 7, 7, 7, 7, 7, 7, 7, 7, 7, 7, 7, 7, 7, 7, 7, 7, 7, 7, 7, 7, 7, 7, 7, 7, 7, 7, 7,
      8, 8, 2, 2, 2, 2, 2, 2, 2, 2, 2, 2, 2, 2, 2, 2, 2, 2, 2, 2, 2, 2, 2, 2, 2, 2, 2, 2, 2, 2, 2, 2,
      0xA, 0x3, 0x3, 0x3, 0x3, 0x3, 0x3, 0x3, 0x3, 0x3, 0x3, 0x3, 0x3, 0x4, 0x3, 0x3,
      0xB, 0x6, 0x6, 0x6, 0x5, 0x8, 0x8, 0x8, 0x8, 0x8, 0x8, 0x8, 0x8, 0x8, 0x8, 0x8,
      0x0, 0x1, 0x2, 0x3, 0x5, 0x8, 0x7, 0x1, 0x1, 0x1, 0x4, 0x6, 0x1, 0x1, 0x1, 0x1,
      1, 1, 1, 1, 1, 1, 1, 1, 1, 1, 1, 1, 1, 1, 1, 1, 1, 0, 1, 1, 1, 1, 1, 0, 1, 0, 1, 1, 1, 1, 1, 1,
      1, 2, 1, 1, 1, 1, 1, 2, 1, 2, 1, 1, 1, 1, 1, 1, 1, 1, 1, 1, 1, 1, 1, 2, 1, 1, 1, 1, 1, 1, 1, 1,
      1, 2, 1, 1, 1, 1, 1, 1, 1, 2, 1, 1, 1, 1, 1, 1, 1, 1, 1, 1, 1, 1, 1, 3, 1, 3, 1, 1, 1, 1, 1, 1,
      1, 3, 1, 1, 1, 1, 1, 3, 1, 3, 1, 1, 1, 1, 1, 1, 1, 3, 1, 1, 1, 1, 1, 1, 1, 1, 1, 1, 1, 1, 1, 1]"

text \<open>One step: the new state (0 accepts, 1 rejects) and the 32-bit code point.\<close>

definition decode :: "nat \<Rightarrow> nat \<Rightarrow> nat \<Rightarrow> nat \<times> nat" where
  "decode state codep byte =
     (let type = utf8d ! byte;
          codep' = (if state \<noteq> 0 then (byte mod 0x40 + codep * 2 ^ 6) mod 2 ^ 32 else byte mod 2 ^ (8 - type))
      in (utf8d ! (256 + state * 16 + type), codep'))"

definition byte_class :: "nat \<Rightarrow> nat" where
  "byte_class b =
     (if b < 0x80 then 0 else if b < 0x90 then 1 else if b < 0xA0 then 9 else if b < 0xC0 then 7
      else if b < 0xC2 then 8 else if b < 0xE0 then 2 else if b = 0xE0 then 10 else if b < 0xED then 3
      else if b = 0xED then 4 else if b < 0xF0 then 3 else if b = 0xF0 then 11 else if b < 0xF4 then 6
      else if b = 0xF4 then 5 else 8)"

lemma utf8d_class_all: "list_all (\<lambda>b. utf8d ! b = byte_class b) [0 ..< 256]"
  by code_simp

lemma utf8d_class: "b < 256 \<Longrightarrow> utf8d ! b = byte_class b"
  using utf8d_class_all by (simp add: list_all_iff)

definition transition :: "nat \<Rightarrow> nat \<Rightarrow> nat" where
  "transition s c =
     (if s = 0 then [0, 1, 2, 3, 5, 8, 7, 1, 1, 1, 4, 6] ! c
      else if s = 2 then (if c = 1 \<or> c = 7 \<or> c = 9 then 0 else 1)
      else if s = 3 then (if c = 1 \<or> c = 7 \<or> c = 9 then 2 else 1)
      else if s = 4 then (if c = 7 then 2 else 1)
      else if s = 5 then (if c = 1 \<or> c = 9 then 2 else 1)
      else if s = 6 then (if c = 7 \<or> c = 9 then 3 else 1)
      else if s = 7 then (if c = 1 \<or> c = 7 \<or> c = 9 then 3 else 1)
      else if s = 8 then (if c = 1 then 3 else 1)
      else 1)"

lemma transition_all:
  "list_all (\<lambda>s. list_all (\<lambda>c. utf8d ! (256 + s * 16 + c) = transition s c) [0 ..< 12]) [0 ..< 9]"
  by code_simp

lemma byte_class_less: "byte_class b < 12"
  by (simp add: byte_class_def)

lemma decode_state: "s < 9 \<Longrightarrow> b < 256 \<Longrightarrow> fst (decode s cp b) = transition s (byte_class b)"
  using transition_all byte_class_less [of b] by (simp add: decode_def Let_def utf8d_class list_all_iff)

text \<open>The ranges a state still expects.\<close>

definition expected_ranges :: "nat \<Rightarrow> (nat \<times> nat) list" where
  "expected_ranges s =
     (if s = 2 then [(0x80, 0xBF)]
      else if s = 3 then [(0x80, 0xBF), (0x80, 0xBF)]
      else if s = 4 then [(0xA0, 0xBF), (0x80, 0xBF)]
      else if s = 5 then [(0x80, 0x9F), (0x80, 0xBF)]
      else if s = 6 then [(0x90, 0xBF), (0x80, 0xBF), (0x80, 0xBF)]
      else if s = 7 then [(0x80, 0xBF), (0x80, 0xBF), (0x80, 0xBF)]
      else if s = 8 then [(0x80, 0x8F), (0x80, 0xBF), (0x80, 0xBF)]
      else [])"

lemma decode_ascii: "b < 0x80 \<Longrightarrow> decode 0 cp b = (0, b)"
  by (simp add: prod_eq_iff decode_state) (simp add: decode_def Let_def utf8d_class byte_class_def transition_def)

definition lead_ok :: "nat \<Rightarrow> bool" where
  "lead_ok b \<longleftrightarrow>
     (let s = transition 0 (byte_class b)
      in case utf8_ranges b of None \<Rightarrow> s = 1 | Some rs \<Rightarrow> 2 \<le> s \<and> s < 9 \<and> expected_ranges s = rs)"

lemma lead_all: "list_all lead_ok [0x80 ..< 256]"
  by code_simp

lemma continuation_class:
  "byte_class b = 1 \<longleftrightarrow> 0x80 \<le> b \<and> b \<le> 0x8F"
  "byte_class b = 9 \<longleftrightarrow> 0x90 \<le> b \<and> b \<le> 0x9F"
  "byte_class b = 7 \<longleftrightarrow> 0xA0 \<le> b \<and> b \<le> 0xBF"
  by (auto simp: byte_class_def)

lemma transition_continue:
  "transition 2 (byte_class b) = (if 0x80 \<le> b \<and> b \<le> 0xBF then 0 else 1)"
  "transition 3 (byte_class b) = (if 0x80 \<le> b \<and> b \<le> 0xBF then 2 else 1)"
  "transition 4 (byte_class b) = (if 0xA0 \<le> b \<and> b \<le> 0xBF then 2 else 1)"
  "transition 5 (byte_class b) = (if 0x80 \<le> b \<and> b \<le> 0x9F then 2 else 1)"
  "transition 6 (byte_class b) = (if 0x90 \<le> b \<and> b \<le> 0xBF then 3 else 1)"
  "transition 7 (byte_class b) = (if 0x80 \<le> b \<and> b \<le> 0xBF then 3 else 1)"
  "transition 8 (byte_class b) = (if 0x80 \<le> b \<and> b \<le> 0x8F then 3 else 1)"
  using continuation_class [of b] unfolding transition_def by auto

lemma expected_simps:
  "expected_ranges 0 = []"
  "expected_ranges 2 = [(0x80, 0xBF)]" "expected_ranges 3 = [(0x80, 0xBF), (0x80, 0xBF)]"
  "expected_ranges 4 = [(0xA0, 0xBF), (0x80, 0xBF)]" "expected_ranges 5 = [(0x80, 0x9F), (0x80, 0xBF)]"
  "expected_ranges 6 = [(0x90, 0xBF), (0x80, 0xBF), (0x80, 0xBF)]"
  "expected_ranges 7 = [(0x80, 0xBF), (0x80, 0xBF), (0x80, 0xBF)]"
  "expected_ranges 8 = [(0x80, 0x8F), (0x80, 0xBF), (0x80, 0xBF)]"
  by (simp_all add: expected_ranges_def)

lemma inner_states: "2 \<le> s \<Longrightarrow> s < 9 \<Longrightarrow> s = 2 \<or> s = 3 \<or> s = 4 \<or> s = 5 \<or> s = 6 \<or> s = 7 \<or> s = (8 :: nat)"
  by linarith

lemma decode_lead:
  assumes "0x80 \<le> b" "b < 256"
  shows "utf8_ranges b = None \<Longrightarrow> fst (decode 0 cp b) = 1"
    and "utf8_ranges b = Some rs \<Longrightarrow>
      2 \<le> fst (decode 0 cp b) \<and> fst (decode 0 cp b) < 9 \<and> expected_ranges (fst (decode 0 cp b)) = rs"
proof -
  have "\<forall>b \<in> set [0x80 ..< 256]. lead_ok b" using lead_all unfolding list_all_iff .
  moreover have "b \<in> set [0x80 ..< 256]" unfolding set_upt using assms by simp
  ultimately have "lead_ok b" by blast
  then show "utf8_ranges b = None \<Longrightarrow> fst (decode 0 cp b) = 1"
    and "utf8_ranges b = Some rs \<Longrightarrow>
      2 \<le> fst (decode 0 cp b) \<and> fst (decode 0 cp b) < 9 \<and> expected_ranges (fst (decode 0 cp b)) = rs"
    using assms by (simp_all add: decode_state lead_ok_def Let_def)
qed

lemma decode_continue:
  assumes "2 \<le> s" "s < 9" "b < 256" "expected_ranges s = (lo, hi) # rs"
  shows "lo \<le> b \<and> b \<le> hi \<Longrightarrow> fst (decode s cp b) < 9 \<and> fst (decode s cp b) \<noteq> 1 \<and>
      (fst (decode s cp b) = 0 \<longleftrightarrow> rs = []) \<and> expected_ranges (fst (decode s cp b)) = rs"
    and "\<not> (lo \<le> b \<and> b \<le> hi) \<Longrightarrow> fst (decode s cp b) = 1"
proof -
  let ?t = "transition s (byte_class b)"
  have "if lo \<le> b \<and> b \<le> hi then ?t < 9 \<and> ?t \<noteq> 1 \<and> (?t = 0 \<longleftrightarrow> rs = []) \<and> expected_ranges ?t = rs else ?t = 1"
    using inner_states [OF assms(1,2)] assms(4)
    by (elim disjE) (auto simp: transition_continue expected_simps)
  then show "lo \<le> b \<and> b \<le> hi \<Longrightarrow> fst (decode s cp b) < 9 \<and> fst (decode s cp b) \<noteq> 1 \<and>
      (fst (decode s cp b) = 0 \<longleftrightarrow> rs = []) \<and> expected_ranges (fst (decode s cp b)) = rs"
    and "\<not> (lo \<le> b \<and> b \<le> hi) \<Longrightarrow> fst (decode s cp b) = 1"
    unfolding decode_state [OF assms(2,3)] by simp_all
qed

text \<open>The code point after the bytes of a sequence.\<close>

definition add_six :: "nat \<Rightarrow> nat \<Rightarrow> nat" where
  "add_six cp b = (b mod 0x40 + cp * 2 ^ 6) mod 2 ^ 32"

lemma decode_value: "s \<noteq> 0 \<Longrightarrow> snd (decode s cp b) = add_six cp b"
  by (simp add: decode_def Let_def add_six_def)

lemma lead_value: "b < 256 \<Longrightarrow> snd (decode 0 cp b) = b mod 2 ^ (8 - byte_class b)"
  by (simp add: decode_def Let_def utf8d_class)

lemma low_six: "x < 64 \<Longrightarrow> add_six cp (0x80 + x) = (x + cp * 64) mod 2 ^ 32"
  by (simp add: add_six_def mod_add_eq [of "0x80" 64, symmetric])

lemma lead_values_all:
  "list_all (\<lambda>q. (0xC0 + q) mod 2 ^ (8 - byte_class (0xC0 + q)) = q) [2 ..< 32]"
  "list_all (\<lambda>q. (0xE0 + q) mod 2 ^ (8 - byte_class (0xE0 + q)) = q) [0 ..< 16]"
  "list_all (\<lambda>q. (0xF0 + q) mod 2 ^ (8 - byte_class (0xF0 + q)) = q) [0 ..< 5]"
  by code_simp+

lemma lead_values:
  "2 \<le> q \<Longrightarrow> q < 32 \<Longrightarrow> snd (decode 0 cp (0xC0 + q)) = q"
  "q < 16 \<Longrightarrow> snd (decode 0 cp (0xE0 + q)) = q"
  "q < 5 \<Longrightarrow> snd (decode 0 cp (0xF0 + q)) = q"
  using lead_values_all unfolding list_all_iff set_upt by (simp_all add: lead_value)

lemma units_value:
  assumes "scalar c" "utf8_units c = b # cs" "0x80 \<le> c"
  shows "foldl add_six (snd (decode 0 cp b)) cs = c"
proof -
  have d: "c div 64 mod 64 + 64 * (c div 4096) = c div 64" "c div 4096 mod 64 + 64 * (c div 262144) = c div 4096"
      "c mod 64 + 64 * (c div 64) = c"
    using mod_mult_div_eq [of "c div 64" 64] mod_mult_div_eq [of "c div 4096" 64] by (simp_all flip: div_mult2_eq)
  have m: "(x :: nat) mod 64 < 64" for x by simp
  have small: "x \<le> c \<Longrightarrow> x mod 2 ^ 32 = x" for x using assms(1) by (auto simp: scalar_def)
  consider "c \<le> 0x7FF" | "0x7FF < c" "c \<le> 0xFFFF" | "0xFFFF < c" by linarith
  then show ?thesis
  proof cases
    case 1
    then have q: "c div 64 < 32" "2 \<le> c div 64" using assms(3) by simp_all
    have "b = 0xC0 + c div 64" "cs = [0x80 + c mod 64]" using 1 assms by (auto simp: utf8_units_def)
    then show ?thesis using lead_values(1) [OF q(2,1)] low_six [OF m] small [of c] d(3) by (simp add: mult.commute)
  next
    case 2
    then have q: "c div 4096 < 16" by simp
    have "b = 0xE0 + c div 4096" "cs = [0x80 + c div 64 mod 64, 0x80 + c mod 64]" using 2 assms by (auto simp: utf8_units_def)
    then show ?thesis using lead_values(2) [OF q] low_six [OF m] small [of c] small [of "c div 64"] d
      by (simp add: mult.commute)
  next
    case 3
    then have q: "c div 262144 < 5" using assms(1) by (auto simp: scalar_def)
    have "b = 0xF0 + c div 262144" "cs = [0x80 + c div 4096 mod 64, 0x80 + c div 64 mod 64, 0x80 + c mod 64]"
      using 3 assms by (auto simp: utf8_units_def)
    then show ?thesis
      using lead_values(3) [OF q] low_six [OF m] small [of c] small [of "c div 64"] small [of "c div 4096"] d
      by (simp add: mult.commute)
  qed
qed

end
