(* ===== verification/Json_Lexer.thy ===== *)
theory Json_Lexer
  imports Json Utf8
begin

text \<open>
  The lexer of \<^verbatim>\<open>nlohmann/json.hpp\<close> (class \<^verbatim>\<open>lexer\<close>), reading a string.  The object's state is the
  record \<open>lexer\<close>; \<open>get\<close> reads one byte or re-reads the one given back by \<open>unget\<close>, and end of file is
  \<open>None\<close>.  Scanning loops are one-iteration functions and a recursion that ends because every
  iteration that goes on has consumed input (\<open>lexer_size\<close>).  The decimal point of the locale is the
  dot, so its position is not recorded.  A scan function returns the token and the state after it.
\<close>

datatype token_type =
    T_uninitialized | T_literal_true | T_literal_false | T_literal_null | T_value_string
  | T_value_unsigned | T_value_integer | T_value_float | T_begin_array | T_begin_object
  | T_end_array | T_end_object | T_name_separator | T_value_separator | T_parse_error
  | T_end_of_input | T_literal_or_value

abbreviation squote :: string where "squote \<equiv> [CHR 0x27]"
abbreviation dquote :: char where "dquote \<equiv> CHR 0x22"
abbreviation backslash :: char where "backslash \<equiv> CHR 0x5C"

definition quoted :: "string \<Rightarrow> string" where
  "quoted s = squote @ s @ squote"

fun token_type_name :: "token_type \<Rightarrow> string" where
  "token_type_name T_uninitialized = ''<uninitialized>''"
| "token_type_name T_literal_true = ''true literal''"
| "token_type_name T_literal_false = ''false literal''"
| "token_type_name T_literal_null = ''null literal''"
| "token_type_name T_value_string = ''string literal''"
| "token_type_name T_value_unsigned = ''number literal''"
| "token_type_name T_value_integer = ''number literal''"
| "token_type_name T_value_float = ''number literal''"
| "token_type_name T_begin_array = quoted ''[''"
| "token_type_name T_begin_object = quoted ''{''"
| "token_type_name T_end_array = quoted '']''"
| "token_type_name T_end_object = quoted ''}''"
| "token_type_name T_name_separator = quoted '':''"
| "token_type_name T_value_separator = quoted '',''"
| "token_type_name T_parse_error = ''<parse error>''"
| "token_type_name T_end_of_input = ''end of input''"
| "token_type_name T_literal_or_value = quoted ''['' @ '', '' @ quoted ''{'' @ '', or a literal''"

record position =
  chars_read_total :: nat
  chars_read_current_line :: nat
  lines_read :: nat

record lexer =
  lx_input :: string
  lx_current :: "char option"
  next_unget :: bool
  lx_position :: position
  token_string :: string
  token_buffer :: string
  error_message :: string
  value_integer :: u64
  value_unsigned :: u64
  value_float :: f64
  ignore_comments :: bool

definition lexer_new :: "string \<Rightarrow> bool \<Rightarrow> lexer" where
  "lexer_new input comments =
     \<lparr>lx_input = input, lx_current = None, next_unget = False,
      lx_position = \<lparr>chars_read_total = 0, chars_read_current_line = 0, lines_read = 0\<rparr>,
      token_string = '''', token_buffer = '''', error_message = '''', value_integer = 0,
      value_unsigned = 0, value_float = f64_zero False, ignore_comments = comments\<rparr>"

subsection \<open>Input management\<close>

definition advance :: "char option \<Rightarrow> position \<Rightarrow> position" where
  "advance c p =
     (let p1 = p\<lparr>chars_read_total := chars_read_total p + 1,
                 chars_read_current_line := chars_read_current_line p + 1\<rparr>
      in if c = Some (CHR 0x0A)
         then p1\<lparr>lines_read := lines_read p1 + 1, chars_read_current_line := 0\<rparr> else p1)"

definition get :: "lexer \<Rightarrow> lexer" where
  "get l =
     (let (cur, rest) =
            (if next_unget l then (lx_current l, lx_input l)
             else case lx_input l of [] \<Rightarrow> (None, []) | c # cs \<Rightarrow> (Some c, cs))
      in l\<lparr>lx_input := rest, lx_current := cur, next_unget := False,
           lx_position := advance cur (lx_position l),
           token_string := (case cur of Some c \<Rightarrow> token_string l @ [c] | None \<Rightarrow> token_string l)\<rparr>)"

definition retreat :: "position \<Rightarrow> position" where
  "retreat p =
     (let p1 = p\<lparr>chars_read_total := chars_read_total p - 1\<rparr>
      in if chars_read_current_line p = 0
         then p1\<lparr>lines_read := lines_read p - 1\<rparr>
         else p1\<lparr>chars_read_current_line := chars_read_current_line p - 1\<rparr>)"

definition unget :: "lexer \<Rightarrow> lexer" where
  "unget l =
     l\<lparr>next_unget := True, lx_position := retreat (lx_position l),
       token_string := (if lx_current l = None then token_string l else butlast (token_string l))\<rparr>"

definition add_char :: "char \<Rightarrow> lexer \<Rightarrow> lexer" where
  "add_char c l = l\<lparr>token_buffer := token_buffer l @ [c]\<rparr>"

text \<open>\<^verbatim>\<open>add(current)\<close>; the code calls it on a byte only.\<close>

definition add_current :: "lexer \<Rightarrow> lexer" where
  "add_current l = (case lx_current l of Some c \<Rightarrow> add_char c l | None \<Rightarrow> l)"

definition reset_token :: "lexer \<Rightarrow> lexer" where
  "reset_token l =
     l\<lparr>token_buffer := '''', token_string := (case lx_current l of Some c \<Rightarrow> [c] | None \<Rightarrow> [])\<rparr>"

definition fail_with :: "string \<Rightarrow> lexer \<Rightarrow> token_type \<times> lexer" where
  "fail_with msg l = (T_parse_error, l\<lparr>error_message := msg\<rparr>)"

text \<open>Control characters are escaped in the token shown in error messages.\<close>

definition hex_digit :: "nat \<Rightarrow> char" where
  "hex_digit d = ''0123456789ABCDEF'' ! d"

definition hex4 :: "nat \<Rightarrow> string" where
  "hex4 n = [hex_digit (n div 4096 mod 16), hex_digit (n div 256 mod 16), hex_digit (n div 16 mod 16),
             hex_digit (n mod 16)]"

definition get_token_string :: "lexer \<Rightarrow> string" where
  "get_token_string l =
     concat (map (\<lambda>c. if (of_char c :: nat) \<le> 31 then ''<U+'' @ hex4 (of_char c) @ ''>'' else [c])
       (token_string l))"

subsection \<open>Progress\<close>

definition lexer_size :: "lexer \<Rightarrow> nat" where
  "lexer_size l = 2 * length (lx_input l) + (if next_unget l \<and> lx_current l \<noteq> None then 1 else 0)"

lemma get_size: "lexer_size (get l) \<le> lexer_size l"
  by (auto simp: lexer_size_def get_def Let_def split: list.split)

lemma get_size_less: "lx_current (get l) \<noteq> None \<Longrightarrow> lexer_size (get l) < lexer_size l"
  by (auto simp: lexer_size_def get_def Let_def split: list.splits if_splits)

lemma size_frame [simp]:
  "lexer_size (l\<lparr>lx_position := p\<rparr>) = lexer_size l" "lexer_size (l\<lparr>token_string := s\<rparr>) = lexer_size l"
  "lexer_size (l\<lparr>token_buffer := s\<rparr>) = lexer_size l" "lexer_size (l\<lparr>error_message := s\<rparr>) = lexer_size l"
  "lexer_size (l\<lparr>value_integer := w\<rparr>) = lexer_size l" "lexer_size (l\<lparr>value_unsigned := w\<rparr>) = lexer_size l"
  "lexer_size (l\<lparr>value_float := x\<rparr>) = lexer_size l" "lexer_size (add_char c l) = lexer_size l"
  "lexer_size (add_current l) = lexer_size l" "lexer_size (reset_token l) = lexer_size l"
  "lexer_size (snd (fail_with msg l)) = lexer_size l"
  by (simp_all add: lexer_size_def add_char_def add_current_def reset_token_def fail_with_def split: option.split)

lemma unget_size: "lexer_size (unget (get l)) \<le> lexer_size l"
  by (auto simp: lexer_size_def get_def unget_def Let_def split: list.split)

subsection \<open>Strings\<close>

definition in_range :: "nat \<Rightarrow> nat \<Rightarrow> char option \<Rightarrow> bool" where
  "in_range lo hi c = (case c of None \<Rightarrow> False | Some b \<Rightarrow> lo \<le> of_char b \<and> of_char b \<le> hi)"

definition byte_of :: "char option \<Rightarrow> nat" where
  "byte_of c = (case c of None \<Rightarrow> 0 | Some b \<Rightarrow> of_char b)"

text \<open>Four hexadecimal digits; \<open>None\<close> for the result \<open>-1\<close>.\<close>

fun codepoint_loop :: "nat list \<Rightarrow> nat \<Rightarrow> lexer \<Rightarrow> nat option \<times> lexer" where
  "codepoint_loop [] codepoint l = (Some codepoint, l)"
| "codepoint_loop (factor # factors) codepoint l =
     (let l1 = get l; c = byte_of (lx_current l1)
      in if in_range 0x30 0x39 (lx_current l1)
         then codepoint_loop factors (codepoint + (c - 0x30) * 2 ^ factor) l1
         else if in_range 0x41 0x46 (lx_current l1)
         then codepoint_loop factors (codepoint + (c - 0x37) * 2 ^ factor) l1
         else if in_range 0x61 0x66 (lx_current l1)
         then codepoint_loop factors (codepoint + (c - 0x57) * 2 ^ factor) l1
         else (None, l1))"

definition get_codepoint :: "lexer \<Rightarrow> nat option \<times> lexer" where
  "get_codepoint l = codepoint_loop [12, 8, 4, 0] 0 l"

fun next_bytes :: "(nat \<times> nat) list \<Rightarrow> lexer \<Rightarrow> bool \<times> lexer" where
  "next_bytes [] l = (True, l)"
| "next_bytes ((lo, hi) # ranges) l =
     (let l1 = get l
      in if in_range lo hi (lx_current l1) then next_bytes ranges (add_current l1)
         else (False, l1\<lparr>error_message := ''invalid string: ill-formed UTF-8 byte''\<rparr>))"

definition next_byte_in_range :: "(nat \<times> nat) list \<Rightarrow> lexer \<Rightarrow> bool \<times> lexer" where
  "next_byte_in_range ranges l = next_bytes ranges (add_current l)"

definition utf8_bytes :: "nat \<Rightarrow> char list" where
  "utf8_bytes codepoint = map char_of (utf8_units codepoint)"

definition add_codepoint :: "nat \<Rightarrow> lexer \<Rightarrow> lexer" where
  "add_codepoint codepoint l = l\<lparr>token_buffer := token_buffer l @ utf8_bytes codepoint\<rparr>"

definition hex_message :: string where
  "hex_message = ''invalid string: '' @ squote @ [backslash] @ ''u'' @ squote @ '' must be followed by 4 hex digits''"

definition high_message :: string where
  "high_message = ''invalid string: surrogate U+D800..U+DBFF must be followed by U+DC00..U+DFFF''"

definition low_message :: string where
  "low_message = ''invalid string: surrogate U+DC00..U+DFFF must follow U+D800..U+DBFF''"

text \<open>What the body of the scanning loop does: end with a token, or go on.\<close>

type_synonym scan_step = "token_type option \<times> lexer"

definition fail_step :: "string \<Rightarrow> lexer \<Rightarrow> scan_step" where
  "fail_step msg l = (Some T_parse_error, l\<lparr>error_message := msg\<rparr>)"

definition surrogate_pair :: "nat \<Rightarrow> lexer \<Rightarrow> scan_step" where
  "surrogate_pair codepoint1 l =
     (let l1 = get l
      in if lx_current l1 \<noteq> Some backslash then fail_step high_message l1
         else let l2 = get l1
              in if lx_current l2 \<noteq> Some (CHR ''u'') then fail_step high_message l2
                 else case get_codepoint l2 of
                        (None, l3) \<Rightarrow> fail_step hex_message l3
                      | (Some codepoint2, l3) \<Rightarrow>
                          if 0xDC00 \<le> codepoint2 \<and> codepoint2 \<le> 0xDFFF
                          then (None, add_codepoint (codepoint1 * 2 ^ 10 + codepoint2 - 0x35FDC00) l3)
                          else fail_step high_message l3)"

definition unicode_escape :: "lexer \<Rightarrow> scan_step" where
  "unicode_escape l =
     (case get_codepoint l of
        (None, l1) \<Rightarrow> fail_step hex_message l1
      | (Some codepoint1, l1) \<Rightarrow>
          if 0xD800 \<le> codepoint1 \<and> codepoint1 \<le> 0xDBFF then surrogate_pair codepoint1 l1
          else if 0xDC00 \<le> codepoint1 \<and> codepoint1 \<le> 0xDFFF then fail_step low_message l1
          else (None, add_codepoint codepoint1 l1))"

definition simple_escape :: "char \<Rightarrow> char option" where
  "simple_escape c =
     (if c = dquote then Some dquote
      else if c = backslash then Some backslash
      else if c = CHR ''/'' then Some (CHR ''/'')
      else if c = CHR ''b'' then Some (CHR 0x08)
      else if c = CHR ''f'' then Some (CHR 0x0C)
      else if c = CHR ''n'' then Some (CHR 0x0A)
      else if c = CHR ''r'' then Some (CHR 0x0D)
      else if c = CHR ''t'' then Some (CHR 0x09)
      else None)"

definition escape_step :: "lexer \<Rightarrow> scan_step" where
  "escape_step l =
     (let l1 = get l
      in case lx_current l1 of
           None \<Rightarrow> fail_step ''invalid string: forbidden character after backslash'' l1
         | Some c \<Rightarrow>
             if c = CHR ''u'' then unicode_escape l1
             else case simple_escape c of
                    Some e \<Rightarrow> (None, add_char e l1)
                  | None \<Rightarrow> fail_step ''invalid string: forbidden character after backslash'' l1)"

definition control_names :: "string list" where
  "control_names =
     [''NUL'', ''SOH'', ''STX'', ''ETX'', ''EOT'', ''ENQ'', ''ACK'', ''BEL'', ''BS'', ''HT'', ''LF'', ''VT'',
      ''FF'', ''CR'', ''SO'', ''SI'', ''DLE'', ''DC1'', ''DC2'', ''DC3'', ''DC4'', ''NAK'', ''SYN'', ''ETB'',
      ''CAN'', ''EM'', ''SUB'', ''ESC'', ''FS'', ''GS'', ''RS'', ''US'']"

definition short_escape :: "nat \<Rightarrow> string" where
  "short_escape b =
     (if b = 8 then ''b'' else if b = 9 then ''t'' else if b = 10 then ''n'' else if b = 12 then ''f''
      else if b = 13 then ''r'' else '''')"

definition control_message :: "nat \<Rightarrow> string" where
  "control_message b =
     ''invalid string: control character U+'' @ hex4 b @ '' ('' @ control_names ! b @ '') must be escaped to '' @
     [backslash] @ ''u'' @ hex4 b @
     (if short_escape b = '''' then '''' else '' or '' @ [backslash] @ short_escape b)"

definition plain_byte :: "nat \<Rightarrow> bool" where
  "plain_byte b \<longleftrightarrow> 0x20 \<le> b \<and> b \<le> 0x7F \<and> b \<noteq> 0x22 \<and> b \<noteq> 0x5C"

definition multibyte_step :: "nat \<Rightarrow> lexer \<Rightarrow> scan_step" where
  "multibyte_step b l =
     (case utf8_ranges b of
        None \<Rightarrow> fail_step ''invalid string: ill-formed UTF-8 byte'' l
      | Some ranges \<Rightarrow>
          (case next_byte_in_range ranges l of
             (ok, l1) \<Rightarrow> if ok then (None, l1) else (Some T_parse_error, l1)))"

definition string_step :: "lexer \<Rightarrow> scan_step" where
  "string_step l =
     (let l1 = get l
      in case lx_current l1 of
           None \<Rightarrow> fail_step ''invalid string: missing closing quote'' l1
         | Some c \<Rightarrow>
             if c = dquote then (Some T_value_string, l1)
             else if c = backslash then escape_step l1
             else let b = of_char c
                  in if b < 0x20 then fail_step (control_message b) l1
                     else if plain_byte b then (None, add_current l1)
                     else multibyte_step b l1)"

lemma codepoint_loop_size: "codepoint_loop fs n l = (r, l') \<Longrightarrow> lexer_size l' \<le> lexer_size l"
proof (induction fs n l rule: codepoint_loop.induct)
  case (2 f fs n l)
  then show ?case using get_size [of l] by (auto simp: Let_def split: if_splits intro: le_trans)
qed simp

lemma get_codepoint_size: "get_codepoint l = (r, l') \<Longrightarrow> lexer_size l' \<le> lexer_size l"
  unfolding get_codepoint_def by (rule codepoint_loop_size)

lemma next_bytes_size: "next_bytes rs l = (r, l') \<Longrightarrow> lexer_size l' \<le> lexer_size l"
proof (induction rs l rule: next_bytes.induct)
  case (2 lo hi rs l)
  then show ?case using get_size [of l] by (auto simp: Let_def split: if_splits intro: le_trans)
qed simp

lemma add_codepoint_size [simp]: "lexer_size (add_codepoint n l) = lexer_size l"
  by (simp add: add_codepoint_def)

lemma fail_step_size: "fail_step msg l = (r, l') \<Longrightarrow> lexer_size l' = lexer_size l"
  by (auto simp: fail_step_def)

lemma fail_step_not_None [simp]: "fail_step msg l \<noteq> (None, l')"
  by (simp add: fail_step_def)

lemma surrogate_pair_size:
  assumes "surrogate_pair n l = (r, l')"
  shows "lexer_size l' \<le> lexer_size l"
proof -
  obtain c l3 where g: "get_codepoint (get (get l)) = (c, l3)" by (cases "get_codepoint (get (get l))")
  have "lexer_size (get (get l)) \<le> lexer_size l" using get_size [of l] get_size [of "get l"] by linarith
  moreover have "lexer_size l3 \<le> lexer_size (get (get l))" by (rule get_codepoint_size [OF g])
  ultimately show ?thesis
    using assms g get_size [of l]
    by (auto simp: surrogate_pair_def Let_def dest!: fail_step_size split: if_splits option.splits)
qed

lemma unicode_escape_size:
  assumes "unicode_escape l = (r, l')"
  shows "lexer_size l' \<le> lexer_size l"
proof -
  obtain c l1 where g: "get_codepoint l = (c, l1)" by (cases "get_codepoint l")
  have "lexer_size l1 \<le> lexer_size l" by (rule get_codepoint_size [OF g])
  then show ?thesis
    using assms g surrogate_pair_size [of _ l1 r l']
    by (fastforce simp: unicode_escape_def dest!: fail_step_size split: if_splits option.splits)
qed

lemma escape_step_size: "escape_step l = (r, l') \<Longrightarrow> lexer_size l' \<le> lexer_size l"
  using get_size [of l] unicode_escape_size [of "get l" r l']
  by (auto simp: escape_step_def Let_def dest!: fail_step_size split: if_splits option.splits)

lemma multibyte_step_size: "multibyte_step b l = (r, l') \<Longrightarrow> lexer_size l' \<le> lexer_size l"
  using next_bytes_size [of _ "add_current l"]
  by (auto simp: multibyte_step_def next_byte_in_range_def dest!: fail_step_size
      split: if_splits prod.splits option.splits)

lemma string_step_le:
  assumes "string_step l = (r, l')"
  shows "lexer_size l' \<le> lexer_size l"
proof -
  have "escape_step (get l) = (r, l') \<Longrightarrow> lexer_size l' \<le> lexer_size l"
    using escape_step_size [of "get l" r l'] get_size [of l] by linarith
  moreover have "multibyte_step b (get l) = (r, l') \<Longrightarrow> lexer_size l' \<le> lexer_size l" for b
    using multibyte_step_size [of b "get l" r l'] get_size [of l] by linarith
  ultimately show ?thesis
    using assms get_size [of l]
    by (auto simp: string_step_def Let_def dest!: fail_step_size split: if_splits option.splits)
qed

lemma string_step_size: "string_step l = (None, l') \<Longrightarrow> lexer_size l' < lexer_size l"
  using get_size_less [of l] escape_step_size [of "get l"] multibyte_step_size [of _ "get l"]
  by (auto simp: string_step_def Let_def split: if_splits option.splits) (meson le_less_trans)+

text \<open>The loops of the lexer: repeat a step until it yields a token.\<close>

function scan_loop :: "lexer \<Rightarrow> token_type \<times> lexer" where
  "scan_loop l = (case string_step l of (Some t, l') \<Rightarrow> (t, l') | (None, l') \<Rightarrow> scan_loop l')"
  by pat_completeness auto
termination
  by (relation "measure lexer_size") (auto dest: string_step_size [OF sym])

declare scan_loop.simps [simp del]

definition scan_string :: "lexer \<Rightarrow> token_type \<times> lexer" where
  "scan_string l = scan_loop (reset_token l)"

subsection \<open>Comments\<close>

function line_comment :: "lexer \<Rightarrow> lexer" where
  "line_comment l =
     (let l1 = get l
      in case lx_current l1 of
           None \<Rightarrow> l1
         | Some c \<Rightarrow>
             if c = CHR 0x0A \<or> c = CHR 0x0D \<or> c = CHR 0x00 then l1 else line_comment l1)"
  by pat_completeness auto
termination
  by (relation "measure lexer_size") (auto simp: Let_def intro: get_size_less)

function block_comment :: "lexer \<Rightarrow> bool \<times> lexer" where
  "block_comment l =
     (let l1 = get l
      in case lx_current l1 of
           None \<Rightarrow> (False, l1\<lparr>error_message := ''invalid comment; missing closing '' @ quoted ''*/''\<rparr>)
         | Some c \<Rightarrow>
             if c = CHR 0x00
             then (False, l1\<lparr>error_message := ''invalid comment; missing closing '' @ quoted ''*/''\<rparr>)
             else if c = CHR ''*''
             then (let l2 = get l1
                   in if lx_current l2 = Some (CHR ''/'') then (True, l2) else block_comment (unget l2))
             else block_comment l1)"
  by pat_completeness auto
termination
proof (relation "measure lexer_size")
  fix l :: lexer and l1 c l2
  assume a: "l1 = get l" "lx_current l1 = Some c" "l2 = get l1"
  have "lexer_size (unget l2) \<le> lexer_size l1" unfolding a(3) by (rule unget_size)
  moreover have "lexer_size l1 < lexer_size l" using a(1,2) get_size_less [of l] by simp
  ultimately show "(unget l2, l) \<in> measure lexer_size" by simp
qed (auto intro: get_size_less)

declare line_comment.simps [simp del] block_comment.simps [simp del]

definition scan_comment :: "lexer \<Rightarrow> bool \<times> lexer" where
  "scan_comment l =
     (let l1 = get l
      in if lx_current l1 = Some (CHR ''/'') then (True, line_comment l1)
         else if lx_current l1 = Some (CHR ''*'') then block_comment l1
         else (False, l1\<lparr>error_message := ''invalid comment; expecting '' @ quoted ''/'' @ '' or '' @ quoted ''*'' @
                                            '' after '' @ quoted ''/''\<rparr>))"

subsection \<open>Numbers\<close>

text \<open>
  The states of the number scanner, named after the labels of the code.  A state function reads a
  byte and says where to go, with the type of number seen so far.
\<close>

datatype number_state = N_minus | N_zero | N_any1 | N_decimal1 | N_decimal2 | N_exponent | N_sign | N_any2

datatype number_next = Goto number_state | Number_done | Number_error

type_synonym number_out = "number_next \<times> token_type \<times> lexer"

definition digit1 :: "char option \<Rightarrow> bool" where
  "digit1 c = in_range 0x31 0x39 c"

definition digit0 :: "char option \<Rightarrow> bool" where
  "digit0 c = in_range 0x30 0x39 c"

definition exp_mark :: "char option \<Rightarrow> bool" where
  "exp_mark c \<longleftrightarrow> c = Some (CHR ''e'') \<or> c = Some (CHR ''E'')"

definition go :: "number_state \<Rightarrow> token_type \<Rightarrow> lexer \<Rightarrow> number_out" where
  "go st ty l = (Goto st, ty, add_current l)"

definition number_fail :: "string \<Rightarrow> token_type \<Rightarrow> lexer \<Rightarrow> number_out" where
  "number_fail msg ty l = (Number_error, ty, l\<lparr>error_message := msg\<rparr>)"

definition number_minus :: "token_type \<Rightarrow> lexer \<Rightarrow> number_out" where
  "number_minus ty l =
     (let ty = T_value_integer; l1 = get l; c = lx_current l1
      in if c = Some (CHR ''0'') then go N_zero ty l1
         else if digit1 c then go N_any1 ty l1
         else number_fail (''invalid number; expected digit after '' @ quoted ''-'') ty l1)"

definition number_zero :: "token_type \<Rightarrow> lexer \<Rightarrow> number_out" where
  "number_zero ty l =
     (let l1 = get l; c = lx_current l1
      in if c = Some (CHR ''.'') then go N_decimal1 ty l1
         else if exp_mark c then go N_exponent ty l1
         else (Number_done, ty, l1))"

definition number_any1 :: "token_type \<Rightarrow> lexer \<Rightarrow> number_out" where
  "number_any1 ty l =
     (let l1 = get l; c = lx_current l1
      in if digit0 c then go N_any1 ty l1
         else if c = Some (CHR ''.'') then go N_decimal1 ty l1
         else if exp_mark c then go N_exponent ty l1
         else (Number_done, ty, l1))"

definition number_decimal1 :: "token_type \<Rightarrow> lexer \<Rightarrow> number_out" where
  "number_decimal1 ty l =
     (let ty = T_value_float; l1 = get l; c = lx_current l1
      in if digit0 c then go N_decimal2 ty l1
         else number_fail (''invalid number; expected digit after '' @ quoted ''.'') ty l1)"

definition number_decimal2 :: "token_type \<Rightarrow> lexer \<Rightarrow> number_out" where
  "number_decimal2 ty l =
     (let l1 = get l; c = lx_current l1
      in if digit0 c then go N_decimal2 ty l1
         else if exp_mark c then go N_exponent ty l1
         else (Number_done, ty, l1))"

definition number_exponent :: "token_type \<Rightarrow> lexer \<Rightarrow> number_out" where
  "number_exponent ty l =
     (let ty = T_value_float; l1 = get l; c = lx_current l1
      in if c = Some (CHR ''+'') \<or> c = Some (CHR ''-'') then go N_sign ty l1
         else if digit0 c then go N_any2 ty l1
         else number_fail (''invalid number; expected '' @ quoted ''+'' @ '', '' @ quoted ''-'' @
                           '', or digit after exponent'') ty l1)"

definition number_sign :: "token_type \<Rightarrow> lexer \<Rightarrow> number_out" where
  "number_sign ty l =
     (let l1 = get l; c = lx_current l1
      in if digit0 c then go N_any2 ty l1
         else number_fail ''invalid number; expected digit after exponent sign'' ty l1)"

definition number_any2 :: "token_type \<Rightarrow> lexer \<Rightarrow> number_out" where
  "number_any2 ty l =
     (let l1 = get l; c = lx_current l1
      in if digit0 c then go N_any2 ty l1 else (Number_done, ty, l1))"

primrec number_step :: "number_state \<Rightarrow> token_type \<Rightarrow> lexer \<Rightarrow> number_out" where
  "number_step N_minus ty l = number_minus ty l"
| "number_step N_zero ty l = number_zero ty l"
| "number_step N_any1 ty l = number_any1 ty l"
| "number_step N_decimal1 ty l = number_decimal1 ty l"
| "number_step N_decimal2 ty l = number_decimal2 ty l"
| "number_step N_exponent ty l = number_exponent ty l"
| "number_step N_sign ty l = number_sign ty l"
| "number_step N_any2 ty l = number_any2 ty l"

lemmas number_defs =
  number_minus_def number_zero_def number_any1_def number_decimal1_def number_decimal2_def
  number_exponent_def number_sign_def number_any2_def go_def number_fail_def

lemma number_step_size:
  assumes "number_step st ty l = (Goto st', ty', l')"
  shows "lexer_size l' < lexer_size l"
proof -
  have some: "digit0 c \<or> digit1 c \<or> exp_mark c \<Longrightarrow> c \<noteq> None" for c
    by (auto simp: digit0_def digit1_def exp_mark_def in_range_def split: option.splits)
  have "lx_current (get l) \<noteq> None \<and> l' = add_current (get l)"
    using assms some by (cases st) (auto simp: number_defs Let_def split: if_splits)
  then show ?thesis using get_size_less [of l] by simp
qed

function number_loop :: "number_state \<Rightarrow> token_type \<Rightarrow> lexer \<Rightarrow> token_type option \<times> lexer" where
  "number_loop st ty l =
     (case number_step st ty l of
        (Goto st', ty', l') \<Rightarrow> number_loop st' ty' l'
      | (Number_done, ty', l') \<Rightarrow> (Some ty', l')
      | (Number_error, ty', l') \<Rightarrow> (None, l'))"
  by pat_completeness auto
termination
  by (relation "measure (\<lambda>(st, ty, l). lexer_size l)") (auto dest: number_step_size [OF sym])

declare number_loop.simps [simp del]

text \<open>After the last character: integers first, and a double when they do not fit.\<close>

definition float_result :: "lexer \<Rightarrow> token_type \<times> lexer" where
  "float_result l =
     (T_value_float,
      case strtod (token_buffer l) of Some (x, erange) \<Rightarrow> l\<lparr>value_float := x\<rparr> | None \<Rightarrow> l)"

definition number_done :: "token_type \<Rightarrow> lexer \<Rightarrow> token_type \<times> lexer" where
  "number_done ty l =
     (let l1 = unget l
      in if ty = T_value_unsigned
         then (case strtoull (token_buffer l1) of
                 Some (x, False) \<Rightarrow> (T_value_unsigned, l1\<lparr>value_unsigned := x\<rparr>)
               | _ \<Rightarrow> float_result l1)
         else if ty = T_value_integer
         then (case strtoll (token_buffer l1) of
                 Some (x, False) \<Rightarrow> (T_value_integer, l1\<lparr>value_integer := x\<rparr>)
               | _ \<Rightarrow> float_result l1)
         else float_result l1)"

definition scan_number :: "lexer \<Rightarrow> token_type \<times> lexer" where
  "scan_number l =
     (let l1 = reset_token l; ty = T_value_unsigned;
          st = (if lx_current l1 = Some (CHR ''-'') then N_minus
                else if lx_current l1 = Some (CHR ''0'') then N_zero else N_any1)
      in case number_loop st ty (add_current l1) of
           (None, l2) \<Rightarrow> (T_parse_error, l2)
         | (Some ty', l2) \<Rightarrow> number_done ty' l2)"

subsection \<open>Tokens\<close>

fun literal_rest :: "string \<Rightarrow> lexer \<Rightarrow> bool \<times> lexer" where
  "literal_rest [] l = (True, l)"
| "literal_rest (c # cs) l =
     (let l1 = get l in if lx_current l1 = Some c then literal_rest cs l1 else (False, l1))"

definition scan_literal :: "string \<Rightarrow> token_type \<Rightarrow> lexer \<Rightarrow> token_type \<times> lexer" where
  "scan_literal text ty l =
     (case literal_rest (tl text) l of
        (True, l1) \<Rightarrow> (ty, l1)
      | (False, l1) \<Rightarrow> fail_with ''invalid literal'' l1)"

definition skip_bom :: "lexer \<Rightarrow> bool \<times> lexer" where
  "skip_bom l =
     (let l1 = get l
      in if lx_current l1 = Some (CHR 0xEF)
         then let l2 = get l1
              in if lx_current l2 = Some (CHR 0xBB)
                 then let l3 = get l2 in (lx_current l3 = Some (CHR 0xBF), l3) else (False, l2)
         else (True, unget l1))"

definition json_space :: "char \<Rightarrow> bool" where
  "json_space c \<longleftrightarrow> c = CHR '' '' \<or> c = CHR 0x09 \<or> c = CHR 0x0A \<or> c = CHR 0x0D"

function skip_whitespace :: "lexer \<Rightarrow> lexer" where
  "skip_whitespace l =
     (let l1 = get l
      in case lx_current l1 of
           None \<Rightarrow> l1
         | Some c \<Rightarrow> if json_space c then skip_whitespace l1 else l1)"
  by pat_completeness auto
termination
  by (relation "measure lexer_size") (auto simp: Let_def intro: get_size_less)

declare skip_whitespace.simps [simp del]

lemma line_comment_size: "lexer_size (line_comment l) \<le> lexer_size l"
proof (induction l rule: line_comment.induct)
  case (1 l)
  then show ?case
    using get_size [of l] by (subst line_comment.simps) (auto simp: Let_def split: option.split intro: le_trans)
qed

lemma block_comment_size: "block_comment l = (b, l') \<Longrightarrow> lexer_size l' \<le> lexer_size l"
proof (induction l arbitrary: b l' rule: block_comment.induct)
  case (1 l)
  show ?case
  proof (cases "lx_current (get l)")
    case None
    then show ?thesis using 1(3) get_size [of l] by (subst (asm) block_comment.simps) auto
  next
    case (Some c)
    have u: "lexer_size (unget (get (get l))) \<le> lexer_size l"
      using unget_size [of "get l"] get_size [of l] by simp
    have g: "lexer_size (get (get l)) \<le> lexer_size l" using get_size [of l] get_size [of "get l"] by simp
    consider "c = CHR 0x00" | "c = CHR ''*''" "lx_current (get (get l)) = Some (CHR ''/'')"
      | "c = CHR ''*''" "lx_current (get (get l)) \<noteq> Some (CHR ''/'')" | "c \<noteq> CHR 0x00" "c \<noteq> CHR ''*''" by blast
    then show ?thesis
    proof cases
      case 1
      then show ?thesis using Some \<open>block_comment l = (b, l')\<close> get_size [of l]
        by (subst (asm) block_comment.simps) auto
    next
      case 2
      then show ?thesis using Some \<open>block_comment l = (b, l')\<close> g by (subst (asm) block_comment.simps) auto
    next
      case 3
      then have "block_comment (unget (get (get l))) = (b, l')"
        using Some \<open>block_comment l = (b, l')\<close> by (subst (asm) block_comment.simps) (auto simp: Let_def)
      then show ?thesis using 1(1) [OF refl Some _ _ refl] 3 u by fastforce
    next
      case 4
      then have "block_comment (get l) = (b, l')"
        using Some \<open>block_comment l = (b, l')\<close> by (subst (asm) block_comment.simps) (auto simp: Let_def)
      then show ?thesis using 1(2) [OF refl Some] 4 get_size [of l] by fastforce
    qed
  qed
qed

lemma scan_comment_le: "scan_comment l = (b, l') \<Longrightarrow> lexer_size l' \<le> lexer_size l"
  using get_size [of l] line_comment_size [of "get l"] block_comment_size [of "get l" b l']
  by (auto simp: scan_comment_def Let_def split: if_splits)

lemma scan_comment_size: "scan_comment l = (True, l') \<Longrightarrow> lexer_size l' < lexer_size l"
  using get_size_less [of l] line_comment_size [of "get l"] block_comment_size [of "get l" True l']
  by (auto simp: scan_comment_def Let_def split: if_splits)

lemma skip_whitespace_both:
  "lexer_size (skip_whitespace l) \<le> lexer_size l
   \<and> (lx_current (skip_whitespace l) \<noteq> None \<longrightarrow> lexer_size (skip_whitespace l) < lexer_size l)"
proof (induction l rule: skip_whitespace.induct)
  case (1 l)
  show ?case
  proof (cases "lx_current (get l)")
    case None
    then have "skip_whitespace l = get l" by (subst skip_whitespace.simps) (simp add: Let_def)
    then show ?thesis using None get_size [of l] by simp
  next
    case (Some c)
    then have g: "lexer_size (get l) < lexer_size l" using get_size_less [of l] by simp
    show ?thesis
    proof (cases "json_space c")
      case True
      then have e: "skip_whitespace l = skip_whitespace (get l)"
        using Some by (subst skip_whitespace.simps) (simp add: Let_def)
      show ?thesis using "1.IH" [OF refl Some True] g unfolding e by simp
    next
      case False
      then have "skip_whitespace l = get l" using Some by (subst skip_whitespace.simps) (simp add: Let_def)
      then show ?thesis using g by simp
    qed
  qed
qed

lemmas skip_whitespace_size =
  skip_whitespace_both [THEN conjunct1] skip_whitespace_both [THEN conjunct2, rule_format]

text \<open>Comments are skipped while the current character starts one and they are to be ignored.\<close>

function skip_comments :: "lexer \<Rightarrow> bool \<times> lexer" where
  "skip_comments l =
     (if ignore_comments l \<and> lx_current l = Some (CHR ''/'')
      then case scan_comment l of
             (False, l1) \<Rightarrow> (False, l1)
           | (True, l1) \<Rightarrow> skip_comments (skip_whitespace l1)
      else (True, l))"
  by pat_completeness auto
termination
  by (relation "measure lexer_size")
    (auto dest!: scan_comment_size [OF sym] intro: le_less_trans [OF skip_whitespace_size(1)])

declare skip_comments.simps [simp del]

definition scan_token :: "lexer \<Rightarrow> token_type \<times> lexer" where
  "scan_token l =
     (case lx_current l of
        None \<Rightarrow> (T_end_of_input, l)
      | Some c \<Rightarrow>
          if c = CHR ''['' then (T_begin_array, l)
          else if c = CHR '']'' then (T_end_array, l)
          else if c = CHR ''{'' then (T_begin_object, l)
          else if c = CHR ''}'' then (T_end_object, l)
          else if c = CHR '':'' then (T_name_separator, l)
          else if c = CHR '','' then (T_value_separator, l)
          else if c = CHR ''t'' then scan_literal ''true'' T_literal_true l
          else if c = CHR ''f'' then scan_literal ''false'' T_literal_false l
          else if c = CHR ''n'' then scan_literal ''null'' T_literal_null l
          else if c = dquote then scan_string l
          else if c = CHR ''-'' \<or> in_range 0x30 0x39 (Some c) then scan_number l
          else if c = CHR 0x00 then (T_end_of_input, l)
          else fail_with ''invalid literal'' l)"

definition scan :: "lexer \<Rightarrow> token_type \<times> lexer" where
  "scan l =
     (case (if chars_read_total (lx_position l) = 0 then skip_bom l else (True, l)) of
        (False, l1) \<Rightarrow> fail_with ''invalid BOM; must be 0xEF 0xBB 0xBF if given'' l1
      | (True, l1) \<Rightarrow>
          (case skip_comments (skip_whitespace l1) of
             (False, l2) \<Rightarrow> (T_parse_error, l2)
           | (True, l2) \<Rightarrow> scan_token l2))"

subsection \<open>Every token consumes input\<close>

lemma scan_loop_size: "scan_loop l = (t, l') \<Longrightarrow> lexer_size l' \<le> lexer_size l"
proof (induction l arbitrary: t l' rule: scan_loop.induct)
  case (1 l)
  obtain r l1 where s: "string_step l = (r, l1)" by (cases "string_step l")
  show ?case
    using 1(1) [OF s [symmetric]] 1(2) s string_step_le [OF s]
    by (cases r) (fastforce simp: scan_loop.simps [of l])+
qed

lemma number_step_le: "number_step st ty l = (n, ty', l') \<Longrightarrow> lexer_size l' \<le> lexer_size l"
  using get_size [of l] by (cases st) (auto simp: number_defs Let_def split: if_splits)

lemma number_loop_size:
  "number_loop st ty l = (r, l') \<Longrightarrow>
   lexer_size l' \<le> lexer_size l \<and> (r \<noteq> None \<longrightarrow> lexer_size (unget l') \<le> lexer_size l)"
proof (induction st ty l arbitrary: r l' rule: number_loop.induct)
  case (1 st ty l)
  obtain n t1 l1 where s: "number_step st ty l = (n, t1, l1)" by (cases "number_step st ty l")
  show ?case
  proof (cases n)
    case (Goto st')
    then show ?thesis
      using 1(1) [OF s [symmetric]] 1(2) s number_step_size [of st ty l st' t1 l1]
      by (fastforce simp: number_loop.simps [of st ty l])
  next
    case Number_done
    then have "l1 = get l"
      using s by (cases st) (auto simp: number_defs Let_def split: if_splits)
    then show ?thesis using 1(2) s Number_done unget_size [of l] get_size [of l]
      by (auto simp: number_loop.simps [of st ty l])
  next
    case Number_error
    then show ?thesis using 1(2) s number_step_le [OF s] by (auto simp: number_loop.simps [of st ty l])
  qed
qed

lemma literal_rest_size: "literal_rest cs l = (b, l') \<Longrightarrow> lexer_size l' \<le> lexer_size l"
proof (induction cs l rule: literal_rest.induct)
  case (2 c cs l)
  then show ?case using get_size [of l] by (auto simp: Let_def split: if_splits intro: le_trans)
qed simp

lemma scan_number_size:
  assumes "scan_number l = (t, l')"
  shows "lexer_size l' \<le> lexer_size l"
proof -
  define st where "st = (if lx_current (reset_token l) = Some (CHR ''-'') then N_minus
    else if lx_current (reset_token l) = Some (CHR ''0'') then N_zero else N_any1)"
  obtain r l2 where n: "number_loop st T_value_unsigned (add_current (reset_token l)) = (r, l2)"
    by (cases "number_loop st T_value_unsigned (add_current (reset_token l))")
  have f: "lexer_size (snd (float_result v)) = lexer_size v" for v
    by (simp add: float_result_def split: option.split)
  have nd: "lexer_size (snd (number_done ty v)) = lexer_size (unget v)" for ty v
    by (simp add: number_done_def Let_def f split: option.split bool.split)
  show ?thesis
  proof (cases r)
    case None
    then show ?thesis using assms n number_loop_size [OF n] by (simp add: scan_number_def Let_def flip: st_def)
  next
    case (Some ty)
    then have "l' = snd (number_done ty l2)"
      using assms n by (simp add: scan_number_def Let_def flip: st_def)
    then show ?thesis using number_loop_size [OF n] Some nd by simp
  qed
qed

lemma scan_token_size:
  assumes "scan_token l = (t, l')"
  shows "lexer_size l' \<le> lexer_size l"
proof -
  have lit: "scan_literal cs ty l = (t, l') \<Longrightarrow> lexer_size l' \<le> lexer_size l" for cs ty
    using literal_rest_size [of "tl cs" l]
    by (auto simp: scan_literal_def fail_with_def split: prod.splits bool.splits)
  have str: "scan_string l = (t, l') \<Longrightarrow> lexer_size l' \<le> lexer_size l"
    using scan_loop_size [of "reset_token l" t l'] by (simp add: scan_string_def)
  show ?thesis
    using assms lit str scan_number_size [of l t l']
    by (auto simp: scan_token_def fail_with_def split: option.splits if_splits)
qed

lemma scan_token_eof: "lx_current l = None \<Longrightarrow> scan_token l = (T_end_of_input, l)"
  by (simp add: scan_token_def)

lemma skip_comments_size:
  "skip_comments l = (b, l') \<Longrightarrow>
   lexer_size l' \<le> lexer_size l \<and> (b \<and> lx_current l' \<noteq> None \<longrightarrow> lx_current l \<noteq> None)"
proof (induction l arbitrary: b l' rule: skip_comments.induct)
  case (1 l)
  show ?case
  proof (cases "ignore_comments l \<and> lx_current l = Some (CHR ''/'')")
    case True
    obtain c l1 where s: "scan_comment l = (c, l1)" by (cases "scan_comment l")
    show ?thesis
    proof (cases c)
      case c: True
      then have "skip_comments (skip_whitespace l1) = (b, l')"
        using 1(2) True s by (simp add: skip_comments.simps [of l])
      then have "lexer_size l' \<le> lexer_size (skip_whitespace l1)"
        using 1(1) [OF True s [symmetric]] c by simp
      moreover have "lexer_size l1 < lexer_size l" using scan_comment_size s c by simp
      ultimately show ?thesis using skip_whitespace_size(1) [of l1] True by simp
    next
      case False
      then show ?thesis using 1(2) True s scan_comment_le [OF s] by (simp add: skip_comments.simps [of l])
    qed
  next
    case False
    then have "skip_comments l = (True, l)" by (subst skip_comments.simps) (rule if_not_P)
    then show ?thesis using 1(2) by simp
  qed
qed

lemma skip_bom_size: "skip_bom l = (b, l') \<Longrightarrow> lexer_size l' \<le> lexer_size l"
  using unget_size [of l] get_size [of l] get_size [of "get l"] get_size [of "get (get l)"]
  by (auto simp: skip_bom_def Let_def split: if_splits)

lemma scan_progress:
  assumes "scan l = (t, l')" "t \<noteq> T_parse_error" "t \<noteq> T_end_of_input"
  shows "lexer_size l' < lexer_size l"
proof -
  obtain b l1 where b: "(if chars_read_total (lx_position l) = 0 then skip_bom l else (True, l)) = (b, l1)"
    by (cases "if chars_read_total (lx_position l) = 0 then skip_bom l else (True, l)")
  have b': b using assms b by (cases b) (auto simp: scan_def fail_with_def)
  then have l1: "lexer_size l1 \<le> lexer_size l" using b skip_bom_size [of l b l1] by (auto split: if_splits)
  obtain c l2 where c: "skip_comments (skip_whitespace l1) = (c, l2)" by (cases "skip_comments (skip_whitespace l1)")
  have c': c using assms b b' c by (cases c) (auto simp: scan_def)
  have t: "scan_token l2 = (t, l')" using assms b b' c c' by (simp add: scan_def)
  then have "lx_current l2 \<noteq> None" using scan_token_eof [of l2] assms(3) by auto
  then have "lexer_size l2 < lexer_size l1"
    using skip_comments_size [OF c] c' skip_whitespace_size(2) [of l1] by simp
  then show ?thesis using scan_token_size [OF t] l1 by simp
qed

lemma scan_size: "lexer_size (snd (scan l)) \<le> lexer_size l"
proof -
  obtain b l1 where b: "(if chars_read_total (lx_position l) = 0 then skip_bom l else (True, l)) = (b, l1)"
    by (cases "if chars_read_total (lx_position l) = 0 then skip_bom l else (True, l)")
  then have l1: "lexer_size l1 \<le> lexer_size l" using skip_bom_size [of l b l1] by (auto split: if_splits)
  obtain c l2 where c: "skip_comments (skip_whitespace l1) = (c, l2)" by (cases "skip_comments (skip_whitespace l1)")
  have l2: "lexer_size l2 \<le> lexer_size l1"
    using skip_comments_size [OF c] skip_whitespace_size(1) [of l1] by simp
  obtain t l3 where t: "scan_token l2 = (t, l3)" by (cases "scan_token l2")
  show ?thesis
    using l1 l2 scan_token_size [OF t] by (auto simp: scan_def b c t fail_with_def split: bool.split)
qed

end
