(* ===== verification/Json_Parser.thy ===== *)
theory Json_Parser
  imports Json_Lexer
begin

text \<open>
  The parser of \<^verbatim>\<open>nlohmann/json.hpp\<close>: \<^verbatim>\<open>sax_parse_internal\<close> with its explicit stack of open
  containers, its event interface (\<open>sax_events\<close>, the template parameter \<^verbatim>\<open>SAX\<close> of the code), and the
  two handlers the library drives with it: \<^verbatim>\<open>json_sax_dom_parser\<close>, which builds the value through
  pointers into it, and \<^verbatim>\<open>json_sax_acceptor\<close>.  A pointer into the value being built is the list of
  steps from the root to the element (\<open>path\<close>).  The local variables of the loop and the fields of
  the parser are one record, \<open>run\<close>; an iteration continues, falls through to the evaluation of the
  enclosing container, or returns.
\<close>

subsection \<open>Exceptions\<close>

definition exception_name :: "string \<Rightarrow> nat \<Rightarrow> string" where
  "exception_name ename i = ''[json.exception.'' @ ename @ ''.'' @ nat_str i @ ''] ''"

definition position_string :: "position \<Rightarrow> string" where
  "position_string p =
     '' at line '' @ nat_str (lines_read p + 1) @ '', column '' @ nat_str (chars_read_current_line p)"

definition parse_error_create :: "nat \<Rightarrow> position \<Rightarrow> string \<Rightarrow> string" where
  "parse_error_create i p what_arg =
     exception_name ''parse_error'' i @ ''parse error'' @ position_string p @ '': '' @ what_arg"

definition out_of_range_create :: "nat \<Rightarrow> string \<Rightarrow> string" where
  "out_of_range_create i what_arg = exception_name ''out_of_range'' i @ what_arg"

subsection \<open>The event interface\<close>

type_synonym 's handler = "'s \<Rightarrow> (bool \<times> 's) outcome"

record 's sax_events =
  on_null :: "'s handler"
  on_boolean :: "bool \<Rightarrow> 's handler"
  on_integer :: "u64 \<Rightarrow> 's handler"
  on_unsigned :: "u64 \<Rightarrow> 's handler"
  on_float :: "f64 \<Rightarrow> string \<Rightarrow> 's handler"
  on_string :: "string \<Rightarrow> 's handler"
  on_start_object :: "'s handler"
  on_key :: "string \<Rightarrow> 's handler"
  on_end_object :: "'s handler"
  on_start_array :: "'s handler"
  on_end_array :: "'s handler"
  on_parse_error :: "position \<Rightarrow> string \<Rightarrow> string \<Rightarrow> 's handler"

record 's run =
  last_token :: token_type
  m_lexer :: lexer
  states :: "bool list"
  skip_to_state_evaluation :: bool
  sax :: 's

datatype 's flow = Continue "'s run" | Evaluate "'s run" | Return bool "'s run"

definition get_token :: "'s run \<Rightarrow> 's run" where
  "get_token r = (case scan (m_lexer r) of (t, l) \<Rightarrow> r\<lparr>last_token := t, m_lexer := l\<rparr>)"

definition exception_message :: "token_type \<Rightarrow> string \<Rightarrow> 's run \<Rightarrow> string" where
  "exception_message expected context r =
     ''syntax error '' @
     (if context = [] then [] else ''while parsing '' @ context @ '' '') @ ''- '' @
     (if last_token r = T_parse_error
      then error_message (m_lexer r) @ ''; last read: '' @ quoted (get_token_string (m_lexer r))
      else ''unexpected '' @ token_type_name (last_token r)) @
     (if expected = T_uninitialized then [] else ''; expected '' @ token_type_name expected)"

text \<open>A call of a handler: \<^verbatim>\<open>false\<close> ends the parse.\<close>

definition notify :: "'s handler \<Rightarrow> ('s run \<Rightarrow> 's flow outcome) \<Rightarrow> 's run \<Rightarrow> 's flow outcome" where
  "notify h k r =
     bindE (h (sax r))
       (\<lambda>(ok, s). if ok then k (r\<lparr>sax := s\<rparr>) else Inr (Return False (r\<lparr>sax := s\<rparr>)))"

definition report :: "'s sax_events \<Rightarrow> string \<Rightarrow> 's run \<Rightarrow> 's flow outcome" where
  "report ev ex r =
     bindE (on_parse_error ev (lx_position (m_lexer r)) (get_token_string (m_lexer r)) ex (sax r))
       (\<lambda>(b, s). Inr (Return b (r\<lparr>sax := s\<rparr>)))"

definition syntax_error :: "'s sax_events \<Rightarrow> token_type \<Rightarrow> string \<Rightarrow> 's run \<Rightarrow> 's flow outcome" where
  "syntax_error ev expected context r =
     report ev (parse_error_create 101 (lx_position (m_lexer r)) (exception_message expected context r)) r"

subsection \<open>The loop\<close>

definition then_evaluate :: "'s run \<Rightarrow> 's flow outcome" where
  "then_evaluate r = Inr (Evaluate r)"

definition empty_input_text :: string where
  "empty_input_text =
     ''attempting to parse an empty input; check that your input string or stream contains the expected JSON''"

text \<open>After a key: the separator, and the first token of the value.\<close>

definition after_key :: "'s sax_events \<Rightarrow> ('s run \<Rightarrow> 's run) \<Rightarrow> 's run \<Rightarrow> 's flow outcome" where
  "after_key ev push r =
     (if last_token r \<noteq> T_value_string then syntax_error ev T_value_string ''object key'' r
      else notify (on_key ev (token_buffer (m_lexer r)))
        (\<lambda>r1. let r2 = get_token r1
              in if last_token r2 \<noteq> T_name_separator
                 then syntax_error ev T_name_separator ''object separator'' r2
                 else Inr (Continue (get_token (push r2)))) r)"

definition begin_object :: "'s sax_events \<Rightarrow> 's run \<Rightarrow> 's flow outcome" where
  "begin_object ev =
     notify (on_start_object ev)
       (\<lambda>r. let r1 = get_token r
            in if last_token r1 = T_end_object then notify (on_end_object ev) then_evaluate r1
               else after_key ev (\<lambda>r2. r2\<lparr>states := False # states r2\<rparr>) r1)"

definition begin_array :: "'s sax_events \<Rightarrow> 's run \<Rightarrow> 's flow outcome" where
  "begin_array ev =
     notify (on_start_array ev)
       (\<lambda>r. let r1 = get_token r
            in if last_token r1 = T_end_array then notify (on_end_array ev) then_evaluate r1
               else Inr (Continue (r1\<lparr>states := True # states r1\<rparr>)))"

definition float_value :: "'s sax_events \<Rightarrow> 's run \<Rightarrow> 's flow outcome" where
  "float_value ev r =
     (let res = value_float (m_lexer r)
      in if \<not> is_finite res
         then report ev (out_of_range_create 406
                (''number overflow parsing '' @ quoted (get_token_string (m_lexer r)))) r
         else notify (on_float ev res (token_buffer (m_lexer r))) then_evaluate r)"

definition value_step :: "'s sax_events \<Rightarrow> 's run \<Rightarrow> 's flow outcome" where
  "value_step ev r =
     (case last_token r of
        T_begin_object \<Rightarrow> begin_object ev r
      | T_begin_array \<Rightarrow> begin_array ev r
      | T_value_float \<Rightarrow> float_value ev r
      | T_literal_false \<Rightarrow> notify (on_boolean ev False) then_evaluate r
      | T_literal_null \<Rightarrow> notify (on_null ev) then_evaluate r
      | T_literal_true \<Rightarrow> notify (on_boolean ev True) then_evaluate r
      | T_value_integer \<Rightarrow> notify (on_integer ev (value_integer (m_lexer r))) then_evaluate r
      | T_value_string \<Rightarrow> notify (on_string ev (token_buffer (m_lexer r))) then_evaluate r
      | T_value_unsigned \<Rightarrow> notify (on_unsigned ev (value_unsigned (m_lexer r))) then_evaluate r
      | T_parse_error \<Rightarrow> syntax_error ev T_uninitialized ''value'' r
      | T_end_of_input \<Rightarrow>
          if chars_read_total (lx_position (m_lexer r)) = 1
          then report ev (parse_error_create 101 (lx_position (m_lexer r)) empty_input_text) r
          else syntax_error ev T_literal_or_value ''value'' r
      | _ \<Rightarrow> syntax_error ev T_literal_or_value ''value'' r)"

definition close_container :: "'s run \<Rightarrow> 's flow outcome" where
  "close_container r = Inr (Continue (r\<lparr>states := tl (states r), skip_to_state_evaluation := True\<rparr>))"

definition evaluate_array :: "'s sax_events \<Rightarrow> 's run \<Rightarrow> 's flow outcome" where
  "evaluate_array ev r =
     (let r1 = get_token r
      in if last_token r1 = T_value_separator then Inr (Continue (get_token r1))
         else if last_token r1 = T_end_array then notify (on_end_array ev) close_container r1
         else syntax_error ev T_end_array ''array'' r1)"

definition evaluate_object :: "'s sax_events \<Rightarrow> 's run \<Rightarrow> 's flow outcome" where
  "evaluate_object ev r =
     (let r1 = get_token r
      in if last_token r1 = T_value_separator then after_key ev (\<lambda>r2. r2) (get_token r1)
         else if last_token r1 = T_end_object then notify (on_end_object ev) close_container r1
         else syntax_error ev T_end_object ''object'' r1)"

definition evaluate_step :: "'s sax_events \<Rightarrow> 's run \<Rightarrow> 's flow outcome" where
  "evaluate_step ev r =
     (case states r of
        [] \<Rightarrow> Inr (Return True r)
      | in_array # _ \<Rightarrow> if in_array then evaluate_array ev r else evaluate_object ev r)"

definition sax_iteration :: "'s sax_events \<Rightarrow> 's run \<Rightarrow> 's flow outcome" where
  "sax_iteration ev r =
     (if skip_to_state_evaluation r then evaluate_step ev (r\<lparr>skip_to_state_evaluation := False\<rparr>)
      else bindE (value_step ev r)
             (\<lambda>f. case f of Evaluate r1 \<Rightarrow> evaluate_step ev r1 | _ \<Rightarrow> Inr f))"

text \<open>Every iteration that goes on has read a token, and a token that ends the input is not read past.\<close>

definition ends :: "token_type \<Rightarrow> bool" where
  "ends t \<longleftrightarrow> t = T_parse_error \<or> t = T_end_of_input"

definition parse_size :: "'s run \<Rightarrow> nat" where
  "parse_size r = 2 * lexer_size (m_lexer r) + (if ends (last_token r) then 0 else 1)"

definition below :: "nat \<Rightarrow> nat \<Rightarrow> 's flow outcome \<Rightarrow> bool" where
  "below n e f =
     (case f of
        Inr (Continue r) \<Rightarrow> parse_size r < n
      | Inr (Evaluate r) \<Rightarrow> lexer_size (m_lexer r) \<le> e
      | _ \<Rightarrow> True)"

lemma below_simps [simp]:
  "below n e (Inr (Continue r)) \<longleftrightarrow> parse_size r < n"
  "below n e (Inr (Evaluate r)) \<longleftrightarrow> lexer_size (m_lexer r) \<le> e"
  "below n e (Inr (Return b r))" "below n e (Inl x)"
  by (simp_all add: below_def)

lemma notify_below:
  "(\<And>s. below n e (k (r\<lparr>sax := s\<rparr>))) \<Longrightarrow> below n e (notify h k r)"
  by (cases "h (sax r)") (auto simp: notify_def)

lemma report_below [simp]: "below n e (report ev ex r)" "below n e (syntax_error ev t c r)"
  by (cases "on_parse_error ev (lx_position (m_lexer r)) (get_token_string (m_lexer r)) ex (sax r)",
      auto simp: report_def syntax_error_def bindE_def split: sum.split)

lemma get_token_size:
  "parse_size (get_token r) \<le> 2 * lexer_size (m_lexer r)"
  "\<not> ends (last_token (get_token r)) \<Longrightarrow> lexer_size (m_lexer (get_token r)) < lexer_size (m_lexer r)"
  using scan_size [of "m_lexer r"] scan_progress [of "m_lexer r"]
  by (auto simp: get_token_def parse_size_def ends_def split: prod.splits)

lemma after_key_below:
  assumes "\<And>r. m_lexer (push r) = m_lexer r" and "2 * lexer_size (m_lexer r) < n + 2"
  shows "below n e (after_key ev push r)"
proof -
  have "below n e (let r2 = get_token (r\<lparr>sax := s\<rparr>)
      in if last_token r2 \<noteq> T_name_separator
         then syntax_error ev T_name_separator ''object separator'' r2
         else Inr (Continue (get_token (push r2))))" for s
  proof -
    let ?r = "get_token (r\<lparr>sax := s\<rparr>)"
    have "last_token ?r = T_name_separator \<Longrightarrow> lexer_size (m_lexer ?r) < lexer_size (m_lexer r)"
      using get_token_size(2) [of "r\<lparr>sax := s\<rparr>"] by (simp add: ends_def)
    then show ?thesis
      using get_token_size(1) [of "push ?r"] assms(1) [of ?r] assms(2) by (auto simp: Let_def)
  qed
  then show ?thesis unfolding after_key_def by (simp add: notify_below)
qed

lemma evaluate_array_below: "below (2 * lexer_size (m_lexer r)) e (evaluate_array ev r)"
proof -
  let ?r = "get_token r"
  have less: "\<not> ends (last_token ?r) \<Longrightarrow> lexer_size (m_lexer ?r) < lexer_size (m_lexer r)"
    by (rule get_token_size)
  show ?thesis
  proof (cases "last_token ?r = T_value_separator")
    case True
    then show ?thesis using less get_token_size(1) [of ?r] by (simp add: evaluate_array_def Let_def ends_def)
  next
    case False
    have "below (2 * lexer_size (m_lexer r)) e (notify (on_end_array ev) close_container ?r)"
      if "last_token ?r = T_end_array"
      using less that by (intro notify_below) (simp add: close_container_def parse_size_def ends_def)
    then show ?thesis using False by (simp add: evaluate_array_def Let_def)
  qed
qed

lemma evaluate_object_below: "below (2 * lexer_size (m_lexer r)) e (evaluate_object ev r)"
proof -
  let ?r = "get_token r"
  have less: "\<not> ends (last_token ?r) \<Longrightarrow> lexer_size (m_lexer ?r) < lexer_size (m_lexer r)"
    by (rule get_token_size)
  show ?thesis
  proof (cases "last_token ?r = T_value_separator")
    case True
    have "2 * lexer_size (m_lexer (get_token ?r)) < 2 * lexer_size (m_lexer r)"
      using less True get_token_size(1) [of ?r] by (simp add: ends_def parse_size_def split: if_splits)
    then show ?thesis using True by (simp add: evaluate_object_def Let_def after_key_below)
  next
    case False
    have "below (2 * lexer_size (m_lexer r)) e (notify (on_end_object ev) close_container ?r)"
      if "last_token ?r = T_end_object"
      using less that by (intro notify_below) (simp add: close_container_def parse_size_def ends_def)
    then show ?thesis using False by (simp add: evaluate_object_def Let_def)
  qed
qed

lemma evaluate_step_below: "below (2 * lexer_size (m_lexer r)) e (evaluate_step ev r)"
  by (auto simp: evaluate_step_def evaluate_array_below evaluate_object_below split: list.split)

lemma begin_object_below:
  "last_token r = T_begin_object \<Longrightarrow> below (parse_size r) (lexer_size (m_lexer r)) (begin_object ev r)"
  unfolding begin_object_def
proof (rule notify_below, goal_cases)
  case (1 s)
  let ?r = "get_token (r\<lparr>sax := s\<rparr>)"
  have g: "parse_size ?r \<le> 2 * lexer_size (m_lexer r)" using get_token_size(1) [of "r\<lparr>sax := s\<rparr>"] by simp
  then have l: "2 * lexer_size (m_lexer ?r) \<le> 2 * lexer_size (m_lexer r)" by (simp add: parse_size_def)
  have p: "parse_size r = 2 * lexer_size (m_lexer r) + 1" using 1 by (simp add: parse_size_def ends_def)
  have "below (parse_size r) (lexer_size (m_lexer r)) (notify (on_end_object ev) then_evaluate ?r)"
    using l by (intro notify_below) (simp add: then_evaluate_def)
  moreover have "below (parse_size r) (lexer_size (m_lexer r))
      (after_key ev (\<lambda>r2. r2\<lparr>states := False # states r2\<rparr>) ?r)"
    using l p by (intro after_key_below) simp_all
  ultimately show ?case by (simp add: Let_def)
qed

lemma begin_array_below:
  "last_token r = T_begin_array \<Longrightarrow> below (parse_size r) (lexer_size (m_lexer r)) (begin_array ev r)"
  unfolding begin_array_def
proof (rule notify_below, goal_cases)
  case (1 s)
  let ?r = "get_token (r\<lparr>sax := s\<rparr>)"
  have g: "parse_size ?r \<le> 2 * lexer_size (m_lexer r)" using get_token_size(1) [of "r\<lparr>sax := s\<rparr>"] by simp
  have p: "parse_size r = 2 * lexer_size (m_lexer r) + 1" using 1 by (simp add: parse_size_def ends_def)
  have "below (parse_size r) (lexer_size (m_lexer r)) (notify (on_end_array ev) then_evaluate ?r)"
    using g by (intro notify_below) (simp add: then_evaluate_def parse_size_def)
  moreover have "parse_size (?r\<lparr>states := True # states ?r\<rparr>) < parse_size r"
    using g p by (simp add: parse_size_def)
  ultimately show ?case by (simp add: Let_def)
qed

lemma value_step_below: "below (parse_size r) (lexer_size (m_lexer r)) (value_step ev r)"
proof -
  have "below (parse_size r) (lexer_size (m_lexer r)) (notify h then_evaluate r)" for h
    by (rule notify_below) (simp add: then_evaluate_def)
  then show ?thesis
    using begin_object_below [of r ev] begin_array_below [of r ev]
    by (simp add: value_step_def float_value_def Let_def split: token_type.split)
qed

lemma sax_iteration_less:
  assumes "sax_iteration ev r = Inr (Continue r')"
  shows "parse_size r' < parse_size r"
proof (cases "skip_to_state_evaluation r")
  case True
  then show ?thesis
    using assms evaluate_step_below [of "r\<lparr>skip_to_state_evaluation := False\<rparr>" 0 ev]
    by (simp add: sax_iteration_def parse_size_def)
next
  case False
  then obtain f where f: "value_step ev r = Inr f"
    and k: "(case f of Evaluate r1 \<Rightarrow> evaluate_step ev r1 | _ \<Rightarrow> Inr f) = Inr (Continue r')"
    using assms by (auto simp: sax_iteration_def bindE_eq_Inr)
  have b: "below (parse_size r) (lexer_size (m_lexer r)) (Inr f)" using value_step_below [of r ev] f by simp
  show ?thesis
  proof (cases f)
    case (Continue r1)
    then show ?thesis using b k by simp
  next
    case (Evaluate r1)
    then show ?thesis using b k evaluate_step_below [of r1 0 ev] by (simp add: parse_size_def)
  next
    case (Return c r1)
    then show ?thesis using k by simp
  qed
qed

lemma notify_not_evaluate:
  "(\<And>r2. k r2 \<noteq> Inr (Evaluate r1)) \<Longrightarrow> notify h k r \<noteq> Inr (Evaluate r1)"
  by (cases "h (sax r)") (auto simp: notify_def split: if_splits)

lemma report_not_evaluate: "report ev ex r \<noteq> Inr (Evaluate r1)" "syntax_error ev t c r \<noteq> Inr (Evaluate r1)"
  by (auto simp: report_def syntax_error_def bindE_eq_Inr split: prod.splits)

lemma evaluate_step_not_evaluate: "evaluate_step ev r \<noteq> Inr (Evaluate r1)"
proof -
  have "after_key ev push r \<noteq> Inr (Evaluate r1)" for push r
    by (auto simp: after_key_def Let_def report_not_evaluate intro!: notify_not_evaluate split: if_splits)
  moreover have "notify h close_container r \<noteq> Inr (Evaluate r1)" for h r
    by (rule notify_not_evaluate) (simp add: close_container_def)
  ultimately show ?thesis
    by (simp add: evaluate_step_def evaluate_array_def evaluate_object_def Let_def report_not_evaluate
        split: list.split)
qed

lemma sax_iteration_not_evaluate: "sax_iteration ev r \<noteq> Inr (Evaluate r1)"
  by (auto simp: sax_iteration_def bindE_eq_Inr evaluate_step_not_evaluate split: flow.splits)

function sax_parse_internal :: "'s sax_events \<Rightarrow> 's run \<Rightarrow> (bool \<times> 's run) outcome" where
  "sax_parse_internal ev r =
     (case sax_iteration ev r of
        Inl f \<Rightarrow> Inl f
      | Inr (Return b r') \<Rightarrow> Inr (b, r')
      | Inr (Continue r') \<Rightarrow> sax_parse_internal ev r'
      | Inr (Evaluate r') \<Rightarrow> Inr (True, r'))"
  by pat_completeness auto
termination
  by (relation "measure (\<lambda>(ev, r). parse_size r)") (auto dest: sax_iteration_less)

declare sax_parse_internal.simps [simp del]

subsection \<open>Building the value\<close>

datatype step = At nat | Key string

type_synonym path = "step list"

fun deref :: "path \<Rightarrow> json \<Rightarrow> json option" where
  "deref [] j = Some j"
| "deref (At i # p) (JArray xs) = (if i < length xs then deref p (xs ! i) else None)"
| "deref (Key k # p) (JObject ms) = (case map_of ms k of Some v \<Rightarrow> deref p v | None \<Rightarrow> None)"
| "deref _ _ = None"

text \<open>Assignment through a pointer.\<close>

fun store :: "path \<Rightarrow> json \<Rightarrow> json \<Rightarrow> json" where
  "store [] v j = v"
| "store (At i # p) v (JArray xs) = (if i < length xs then JArray (xs[i := store p v (xs ! i)]) else JArray xs)"
| "store (Key k # p) v (JObject ms) =
     (case map_of ms k of Some u \<Rightarrow> JObject (obj_set k (store p v u) ms) | None \<Rightarrow> JObject ms)"
| "store _ v j = j"

record sax_dom =
  root :: json
  ref_stack :: "path list"
  object_element :: "path option"
  errored :: bool
  allow_exceptions :: bool

definition sax_dom_new :: "bool \<Rightarrow> sax_dom" where
  "sax_dom_new allow =
     \<lparr>root = JNull, ref_stack = [], object_element = None, errored = False, allow_exceptions = allow\<rparr>"

text \<open>
  \<^verbatim>\<open>handle_value\<close>: where the value goes, and the pointer to it.  The top of the stack is the head of
  the list.  The assertions of the code are \<open>Abort\<close>; a dangling pointer would be \<open>Undefined\<close>.
\<close>

definition handle_value :: "json \<Rightarrow> sax_dom \<Rightarrow> (path \<times> sax_dom) outcome" where
  "handle_value v s =
     (case ref_stack s of
        [] \<Rightarrow> Inr ([], s\<lparr>root := v\<rparr>)
      | r # _ \<Rightarrow>
          (case deref r (root s) of
             None \<Rightarrow> Inl Undefined
           | Some (JArray xs) \<Rightarrow>
               Inr (r @ [At (length xs)], s\<lparr>root := store r (JArray (xs @ [v])) (root s)\<rparr>)
           | Some (JObject ms) \<Rightarrow>
               (case object_element s of
                  None \<Rightarrow> Inl Abort
                | Some e \<Rightarrow> Inr (e, s\<lparr>root := store e v (root s)\<rparr>))
           | Some _ \<Rightarrow> Inl Abort))"

definition dom_value :: "json \<Rightarrow> sax_dom handler" where
  "dom_value v s = bindE (handle_value v s) (\<lambda>(p, s'). Inr (True, s'))"

definition dom_start :: "json \<Rightarrow> sax_dom handler" where
  "dom_start v s = bindE (handle_value v s) (\<lambda>(p, s'). Inr (True, s'\<lparr>ref_stack := p # ref_stack s'\<rparr>))"

definition dom_key :: "string \<Rightarrow> sax_dom handler" where
  "dom_key k s =
     (case ref_stack s of
        [] \<Rightarrow> Inl Abort
      | r # _ \<Rightarrow>
          (case deref r (root s) of
             None \<Rightarrow> Inl Undefined
           | Some (JObject ms) \<Rightarrow>
               Inr (True, s\<lparr>root := store r (JObject (obj_emplace k JNull ms)) (root s),
                            object_element := Some (r @ [Key k])\<rparr>)
           | Some _ \<Rightarrow> Inl Abort))"

definition dom_end :: "(json \<Rightarrow> bool) \<Rightarrow> sax_dom handler" where
  "dom_end expected s =
     (case ref_stack s of
        [] \<Rightarrow> Inl Abort
      | r # rs \<Rightarrow>
          (case deref r (root s) of
             None \<Rightarrow> Inl Undefined
           | Some j \<Rightarrow> if expected j then Inr (True, s\<lparr>ref_stack := rs\<rparr>) else Inl Abort))"

fun is_object :: "json \<Rightarrow> bool" where
  "is_object (JObject ms) = True"
| "is_object _ = False"

definition dom_parse_error :: "position \<Rightarrow> string \<Rightarrow> string \<Rightarrow> sax_dom handler" where
  "dom_parse_error p tok ex s =
     (if allow_exceptions s then Inl (Throw ex) else Inr (False, s\<lparr>errored := True\<rparr>))"

definition dom_events :: "sax_dom sax_events" where
  "dom_events =
     \<lparr>on_null = dom_value JNull, on_boolean = (\<lambda>b. dom_value (JBoolean b)),
      on_integer = (\<lambda>w. dom_value (JInteger w)), on_unsigned = (\<lambda>w. dom_value (JUnsigned w)),
      on_float = (\<lambda>x tok. dom_value (JFloat x)), on_string = (\<lambda>str. dom_value (JString str)),
      on_start_object = dom_start (JObject []), on_key = dom_key, on_end_object = dom_end is_object,
      on_start_array = dom_start (JArray []), on_end_array = dom_end is_array,
      on_parse_error = dom_parse_error\<rparr>"

definition accept_all :: "unit handler" where
  "accept_all s = Inr (True, s)"

definition acceptor_events :: "unit sax_events" where
  "acceptor_events =
     \<lparr>on_null = accept_all, on_boolean = (\<lambda>b. accept_all), on_integer = (\<lambda>w. accept_all),
      on_unsigned = (\<lambda>w. accept_all), on_float = (\<lambda>x tok. accept_all), on_string = (\<lambda>str. accept_all),
      on_start_object = accept_all, on_key = (\<lambda>k. accept_all), on_end_object = accept_all,
      on_start_array = accept_all, on_end_array = accept_all,
      on_parse_error = (\<lambda>p tok ex s. Inr (False, s))\<rparr>"

subsection \<open>parse and accept\<close>

text \<open>The constructor reads the first token.\<close>

definition parser_new :: "string \<Rightarrow> bool \<Rightarrow> 's \<Rightarrow> 's run" where
  "parser_new input ignore s =
     get_token \<lparr>last_token = T_uninitialized, m_lexer = lexer_new input ignore, states = [],
       skip_to_state_evaluation = False, sax = s\<rparr>"

text \<open>In strict mode the input must end after the value.\<close>

definition strict_end :: "'s sax_events \<Rightarrow> bool \<Rightarrow> 's run \<Rightarrow> (bool \<times> 's run) outcome" where
  "strict_end ev result r =
     (let r1 = get_token r
      in if last_token r1 = T_end_of_input then Inr (result, r1)
         else bindE (syntax_error ev T_end_of_input ''value'' r1)
                (\<lambda>f. case f of Return b r2 \<Rightarrow> Inr (b, r2) | Continue r2 \<Rightarrow> Inr (result, r2)
                            | Evaluate r2 \<Rightarrow> Inr (result, r2)))"

definition parser_parse :: "bool \<Rightarrow> sax_dom run \<Rightarrow> json outcome" where
  "parser_parse strict r =
     bindE (sax_parse_internal dom_events r)
       (\<lambda>(result, r1). bindE (if strict then strict_end dom_events result r1 else Inr (result, r1))
          (\<lambda>(_, r2). Inr (if errored (sax r2) then JDiscarded else root (sax r2))))"

definition json_parse :: "string \<Rightarrow> bool \<Rightarrow> bool \<Rightarrow> json outcome" where
  "json_parse input allow ignore = parser_parse True (parser_new input ignore (sax_dom_new allow))"

definition sax_parse :: "'s sax_events \<Rightarrow> bool \<Rightarrow> 's run \<Rightarrow> (bool \<times> 's run) outcome" where
  "sax_parse ev strict r =
     bindE (sax_parse_internal ev r)
       (\<lambda>(result, r1). if result \<and> strict then strict_end ev result r1 else Inr (result, r1))"

definition json_accept :: "string \<Rightarrow> bool \<Rightarrow> bool outcome" where
  "json_accept input ignore =
     bindE (sax_parse acceptor_events True (parser_new input ignore ())) (\<lambda>(b, r). Inr b)"

end
