(* ===== verification/Json_Builder.thy ===== *)
theory Json_Builder
  imports Json_Parser
begin

text \<open>
  What \<^verbatim>\<open>json_sax_dom_parser\<close> does through its pointers, on an abstract state without pointers: the
  containers that are open, each with the place its child goes to (\<open>builder\<close>).  \<open>rep\<close> relates the two
  and every handler is shown to implement its abstract operation.
\<close>

datatype frame = InArray "json list" | InObject "(string \<times> json) list" string

datatype builder =
    Finished json
  | Arr "json list" "frame list"
  | Obj "(string \<times> json) list" "frame list"
  | ObjKey "(string \<times> json) list" string "frame list"

fun fill :: "frame \<Rightarrow> json \<Rightarrow> json" where
  "fill (InArray xs) c = JArray (xs @ [c])"
| "fill (InObject ms k) c = JObject (obj_set k c ms)"

fun frame_step :: "frame \<Rightarrow> step" where
  "frame_step (InArray xs) = At (length xs)"
| "frame_step (InObject ms k) = Key k"

fun frame_array :: "frame \<Rightarrow> bool" where
  "frame_array (InArray xs) = True"
| "frame_array (InObject ms k) = False"

fun plug :: "json \<Rightarrow> frame list \<Rightarrow> json" where
  "plug c [] = c"
| "plug c (f # fs) = plug (fill f c) fs"

fun path_to :: "frame list \<Rightarrow> path" where
  "path_to [] = []"
| "path_to (f # fs) = path_to fs @ [frame_step f]"

fun refs :: "frame list \<Rightarrow> path list" where
  "refs [] = [[]]"
| "refs (f # fs) = path_to (f # fs) # refs fs"

lemma deref_append: "deref (p @ q) j = (case deref p j of Some u \<Rightarrow> deref q u | None \<Rightarrow> None)"
  by (induction p j rule: deref.induct) (auto split: option.split)

lemma store_append: "deref p j = Some u \<Longrightarrow> store (p @ q) v j = store p (store q v u) j"
  by (induction p j rule: deref.induct) (auto split: option.splits if_splits)

lemma deref_frame: "deref [frame_step f] (fill f c) = Some c"
  by (cases f) (simp_all add: map_of_obj_set)

lemma obj_set_set: "obj_set k v (obj_set k u ms) = obj_set k v ms"
  by (induction k u ms rule: obj_set.induct) auto

lemma obj_set_emplace: "obj_set k v (obj_emplace k u ms) = obj_set k v ms"
  by (induction k u ms rule: obj_emplace.induct) auto

lemma obj_emplace_some: "\<exists>w. map_of (obj_emplace k v ms) k = Some w"
  by (induction k v ms rule: obj_emplace.induct) auto

lemma store_frame: "store [frame_step f] v (fill f c) = fill f v"
  by (cases f) (simp_all add: map_of_obj_set obj_set_set)

lemma deref_plug: "deref (path_to fs) (plug c fs) = Some c"
  by (induction fs arbitrary: c) (auto simp: deref_append deref_frame)

lemma store_plug: "store (path_to fs) v (plug c fs) = plug v fs"
  by (induction fs arbitrary: c v) (auto simp: store_append [OF deref_plug] store_frame)

lemma refs_hd: "refs fs = path_to fs # (case fs of [] \<Rightarrow> [] | _ # gs \<Rightarrow> refs gs)"
  by (cases fs) simp_all

text \<open>The abstract operations; \<open>close_frames\<close> puts a finished container into its parent.\<close>

fun add_value :: "json \<Rightarrow> builder \<Rightarrow> builder" where
  "add_value v (Finished _) = Finished v"
| "add_value v (Arr xs fs) = Arr (xs @ [v]) fs"
| "add_value v (ObjKey ms k fs) = Obj (obj_set k v ms) fs"
| "add_value v (Obj ms fs) = Obj ms fs"

fun parents :: "builder \<Rightarrow> frame list" where
  "parents (Finished _) = []"
| "parents (Arr xs fs) = InArray xs # fs"
| "parents (ObjKey ms k fs) = InObject ms k # fs"
| "parents (Obj ms fs) = fs"

fun close_frames :: "json \<Rightarrow> frame list \<Rightarrow> builder" where
  "close_frames c [] = Finished c"
| "close_frames c (InArray xs # fs) = Arr (xs @ [c]) fs"
| "close_frames c (InObject ms k # fs) = Obj (obj_set k c ms) fs"

fun awaits_value :: "builder \<Rightarrow> bool" where
  "awaits_value (Obj ms fs) = False"
| "awaits_value _ = True"

fun complete :: "builder \<Rightarrow> bool" where
  "complete (ObjKey ms k fs) = False"
| "complete _ = True"

fun open_kinds :: "builder \<Rightarrow> bool list" where
  "open_kinds (Finished _) = []"
| "open_kinds (Arr xs fs) = True # map frame_array fs"
| "open_kinds (Obj ms fs) = False # map frame_array fs"
| "open_kinds (ObjKey ms k fs) = False # map frame_array fs"

lemma close_parents: "awaits_value b \<Longrightarrow> close_frames c (parents b) = add_value c b"
  by (cases b) auto

lemma close_kinds: "open_kinds (close_frames c fs) = map frame_array fs"
  by (cases "(c, fs)" rule: close_frames.cases) auto

lemma add_value_kinds [simp]: "open_kinds (add_value v b) = open_kinds b"
  by (cases b) auto

lemma parents_kinds: "awaits_value b \<Longrightarrow> map frame_array (parents b) = open_kinds b"
  by (cases b) auto

lemma add_value_complete [simp]: "complete (add_value v b)"
  by (cases b) auto

lemma close_complete [simp]: "complete (close_frames c fs)"
  by (cases "(c, fs)" rule: close_frames.cases) auto

subsection \<open>The relation\<close>

fun rep :: "builder \<Rightarrow> sax_dom \<Rightarrow> bool" where
  "rep (Finished v) s \<longleftrightarrow> root s = v \<and> ref_stack s = [] \<and> \<not> errored s"
| "rep (Arr xs fs) s \<longleftrightarrow> root s = plug (JArray xs) fs \<and> ref_stack s = refs fs \<and> \<not> errored s"
| "rep (Obj ms fs) s \<longleftrightarrow> root s = plug (JObject ms) fs \<and> ref_stack s = refs fs \<and> \<not> errored s"
| "rep (ObjKey ms k fs) s \<longleftrightarrow>
     root s = plug (JObject (obj_emplace k JNull ms)) fs \<and> ref_stack s = refs fs
     \<and> object_element s = Some (path_to fs @ [Key k]) \<and> \<not> errored s"

text \<open>Where \<^verbatim>\<open>handle_value\<close> puts a value, and what it returns.\<close>

lemma handle_value_rep:
  assumes "rep b s" "awaits_value b"
  shows "\<exists>s'. handle_value v s = Inr (path_to (parents b), s') \<and> root s' = plug v (parents b)
    \<and> ref_stack s' = ref_stack s \<and> errored s' = errored s \<and> allow_exceptions s' = allow_exceptions s
    \<and> rep (add_value v b) s'"
proof (cases b)
  case (Finished u)
  then show ?thesis using assms by (simp add: handle_value_def)
next
  case (Arr xs fs)
  then show ?thesis
    using assms by (auto simp: handle_value_def refs_hd [of fs] deref_plug store_plug)
next
  case (Obj ms fs)
  then show ?thesis using assms by simp
next
  case (ObjKey ms k fs)
  have "store (path_to fs @ [Key k]) v (root s) = plug (JObject (obj_set k v ms)) fs"
    using assms ObjKey obj_emplace_some [of k JNull ms]
    by (auto simp: store_append [OF deref_plug] store_plug obj_set_emplace)
  then show ?thesis
    using assms ObjKey by (auto simp: handle_value_def refs_hd [of fs] deref_plug)
qed

lemma dom_value_rep:
  assumes "rep b s" "awaits_value b"
  shows "\<exists>s'. dom_value v s = Inr (True, s') \<and> rep (add_value v b) s' \<and> allow_exceptions s' = allow_exceptions s"
  using handle_value_rep [OF assms, of v] by (auto simp: dom_value_def)

lemma refs_parents: "rep b s \<Longrightarrow> awaits_value b \<Longrightarrow> refs (parents b) = path_to (parents b) # ref_stack s"
  by (cases b) auto

lemma dom_start_rep:
  assumes "rep b s" "awaits_value b"
  shows "\<exists>s'. dom_start (JArray []) s = Inr (True, s') \<and> rep (Arr [] (parents b)) s' \<and> allow_exceptions s' = allow_exceptions s"
    and "\<exists>s'. dom_start (JObject []) s = Inr (True, s') \<and> rep (Obj [] (parents b)) s' \<and> allow_exceptions s' = allow_exceptions s"
proof -
  have "errored s = False" using assms by (cases b) auto
  then show "\<exists>s'. dom_start (JArray []) s = Inr (True, s') \<and> rep (Arr [] (parents b)) s' \<and> allow_exceptions s' = allow_exceptions s"
    and "\<exists>s'. dom_start (JObject []) s = Inr (True, s') \<and> rep (Obj [] (parents b)) s' \<and> allow_exceptions s' = allow_exceptions s"
    using handle_value_rep [OF assms, of "JArray []"] handle_value_rep [OF assms, of "JObject []"]
      refs_parents [OF assms]
    by (auto simp: dom_start_def)
qed

lemma dom_key_rep:
  assumes "rep (Obj ms fs) s"
  shows "\<exists>s'. dom_key k s = Inr (True, s') \<and> rep (ObjKey ms k fs) s' \<and> allow_exceptions s' = allow_exceptions s"
  using assms by (auto simp: dom_key_def refs_hd [of fs] deref_plug store_plug)

lemma rep_close:
  assumes "root s = plug c fs" "ref_stack s = refs fs" "\<not> errored s"
  shows "rep (close_frames c fs) (s\<lparr>ref_stack := tl (refs fs)\<rparr>)"
proof (cases fs)
  case (Cons f gs)
  then show ?thesis using assms by (cases f) auto
qed (use assms in simp)

lemma dom_end_rep:
  "rep (Arr xs fs) s \<Longrightarrow> \<exists>s'. dom_end is_array s = Inr (True, s') \<and> rep (close_frames (JArray xs) fs) s'
     \<and> allow_exceptions s' = allow_exceptions s"
  "rep (Obj ms fs) s \<Longrightarrow> \<exists>s'. dom_end is_object s = Inr (True, s') \<and> rep (close_frames (JObject ms) fs) s'
     \<and> allow_exceptions s' = allow_exceptions s"
  using rep_close [of s "JArray xs" fs] rep_close [of s "JObject ms" fs]
  by (auto simp: dom_end_def refs_hd [of fs] deref_plug)

subsection \<open>Well-formed values\<close>

text \<open>
  What a parsed value looks like inside: members in strictly increasing key order, finite numbers, no
  binary and no discarded value anywhere.
\<close>

fun json_ok :: "json \<Rightarrow> bool" where
  "json_ok (JObject ms) = (obj_ok ms \<and> (\<forall>m \<in> set ms. json_ok (snd m)))"
| "json_ok (JArray xs) = (\<forall>x \<in> set xs. json_ok x)"
| "json_ok (JFloat x) = is_finite x"
| "json_ok (JBinary bs st) = False"
| "json_ok JDiscarded = False"
| "json_ok j = True"

definition members_ok :: "(string \<times> json) list \<Rightarrow> bool" where
  "members_ok ms \<longleftrightarrow> obj_ok ms \<and> (\<forall>m \<in> set ms. json_ok (snd m))"

fun frame_ok :: "frame \<Rightarrow> bool" where
  "frame_ok (InArray xs) = (\<forall>x \<in> set xs. json_ok x)"
| "frame_ok (InObject ms k) = members_ok ms"

fun builder_ok :: "builder \<Rightarrow> bool" where
  "builder_ok (Finished v) = json_ok v"
| "builder_ok (Arr xs fs) = ((\<forall>x \<in> set xs. json_ok x) \<and> (\<forall>f \<in> set fs. frame_ok f))"
| "builder_ok (Obj ms fs) = (members_ok ms \<and> (\<forall>f \<in> set fs. frame_ok f))"
| "builder_ok (ObjKey ms k fs) = (members_ok ms \<and> (\<forall>f \<in> set fs. frame_ok f))"

lemma set_obj_set: "set (obj_set k v ms) \<subseteq> insert (k, v) (set ms)"
  by (induction k v ms rule: obj_set.induct) auto

lemma members_ok_set: "members_ok ms \<Longrightarrow> json_ok v \<Longrightarrow> members_ok (obj_set k v ms)"
  using set_obj_set [of k v ms] obj_set_ok [of ms k v] by (auto simp: members_ok_def)

lemma members_ok_Nil [simp]: "members_ok []"
  by (simp add: members_ok_def obj_ok_def)

lemma json_ok_object: "json_ok (JObject ms) \<longleftrightarrow> members_ok ms"
  by (simp add: members_ok_def)

lemma add_value_ok: "builder_ok b \<Longrightarrow> json_ok v \<Longrightarrow> builder_ok (add_value v b)"
  by (cases b) (auto simp: members_ok_set)

lemma parents_ok: "builder_ok b \<Longrightarrow> \<forall>f \<in> set (parents b). frame_ok f"
  by (cases b) auto

lemma close_ok: "json_ok c \<Longrightarrow> \<forall>f \<in> set fs. frame_ok f \<Longrightarrow> builder_ok (close_frames c fs)"
  by (cases "(c, fs)" rule: close_frames.cases) (auto simp: members_ok_set)

end
