(* ===== verification/Json_Protocol.thy ===== *)
theory Json_Protocol
  imports Json_Parser
begin

text \<open>
  The contract between the parser's loop and its event handler: \<open>awaiting st s\<close> says that a value may be
  reported when the containers \<open>st\<close> are open (innermost first, \<open>True\<close> an array), \<open>between st s\<close> that a
  value was completed.  A handler that keeps the contract is driven exactly as the acceptor is: the
  two runs read the same tokens and agree on the outcome.
\<close>

definition erase :: "'s run \<Rightarrow> unit run" where
  "erase r =
     \<lparr>last_token = last_token r, m_lexer = m_lexer r, states = states r,
      skip_to_state_evaluation = skip_to_state_evaluation r, sax = ()\<rparr>"

lemma erase_simps [simp]:
  "last_token (erase r) = last_token r" "m_lexer (erase r) = m_lexer r" "states (erase r) = states r"
  "skip_to_state_evaluation (erase r) = skip_to_state_evaluation r" "sax (erase r) = ()"
  "erase (r\<lparr>sax := s\<rparr>) = erase r" "erase (get_token r) = get_token (erase r)"
  "erase (r\<lparr>states := st\<rparr>) = (erase r)\<lparr>states := st\<rparr>"
  "erase (r\<lparr>skip_to_state_evaluation := b\<rparr>) = (erase r)\<lparr>skip_to_state_evaluation := b\<rparr>"
  by (simp_all add: erase_def get_token_def split: prod.split)

lemma get_token_frame [simp]:
  "sax (get_token r) = sax r" "states (get_token r) = states r"
  "skip_to_state_evaluation (get_token r) = skip_to_state_evaluation r"
  "last_token (get_token r) = fst (scan (m_lexer r))" "m_lexer (get_token r) = snd (scan (m_lexer r))"
  by (simp_all add: get_token_def split: prod.split)

lemma acceptor_notify [simp]: "notify accept_all k (r :: unit run) = k r"
  by (cases r) (simp add: notify_def accept_all_def)

lemma acceptor_simps [simp]:
  "on_null acceptor_events = accept_all" "on_boolean acceptor_events b = accept_all"
  "on_integer acceptor_events w = accept_all" "on_unsigned acceptor_events w = accept_all"
  "on_float acceptor_events x tok = accept_all" "on_string acceptor_events str = accept_all"
  "on_start_object acceptor_events = accept_all" "on_key acceptor_events k = accept_all"
  "on_end_object acceptor_events = accept_all" "on_start_array acceptor_events = accept_all"
  "on_end_array acceptor_events = accept_all"
  by (simp_all add: acceptor_events_def)

lemma acceptor_report [simp]: "report acceptor_events ex (r :: unit run) = Inr (Return False r)"
  by (simp add: report_def acceptor_events_def)

lemma acceptor_syntax_error [simp]: "syntax_error acceptor_events t c (r :: unit run) = Inr (Return False r)"
  by (simp add: syntax_error_def)

text \<open>The two texts a failing parse can end with.\<close>

definition documented :: "string \<Rightarrow> bool" where
  "documented ex \<longleftrightarrow>
     (\<exists>p msg. ex = parse_error_create 101 p msg) \<or> (\<exists>msg. ex = out_of_range_create 406 msg)"

lemma documented_101 [simp]: "documented (parse_error_create 101 p msg)"
  by (auto simp: documented_def)

lemma documented_406 [simp]: "documented (out_of_range_create 406 msg)"
  by (auto simp: documented_def)

definition ready ::
    "(bool list \<Rightarrow> 's \<Rightarrow> bool) \<Rightarrow> (bool list \<Rightarrow> 's \<Rightarrow> bool) \<Rightarrow> 's run \<Rightarrow> bool" where
  "ready aw bt r \<longleftrightarrow>
     (if skip_to_state_evaluation r then bt (states r) (sax r) else aw (states r) (sax r))"

inductive agrees ::
    "'s sax_events \<Rightarrow> (bool list \<Rightarrow> 's \<Rightarrow> bool) \<Rightarrow> (bool list \<Rightarrow> 's \<Rightarrow> bool)
      \<Rightarrow> 's flow outcome \<Rightarrow> unit flow outcome \<Rightarrow> bool" for ev aw bt where
  agrees_continue: "ready aw bt r \<Longrightarrow> r' = erase r \<Longrightarrow> agrees ev aw bt (Inr (Continue r)) (Inr (Continue r'))"
| agrees_evaluate: "bt (states r) (sax r) \<Longrightarrow> \<not> skip_to_state_evaluation r \<Longrightarrow> r' = erase r \<Longrightarrow>
    agrees ev aw bt (Inr (Evaluate r)) (Inr (Evaluate r'))"
| agrees_done: "bt [] (sax r) \<Longrightarrow> r' = erase r \<Longrightarrow> agrees ev aw bt (Inr (Return True r)) (Inr (Return True r'))"
| agrees_error: "aw st (sax r) \<or> bt st (sax r) \<Longrightarrow> documented ex \<Longrightarrow> r' = erase r \<Longrightarrow>
    agrees ev aw bt (report ev ex r) (Inr (Return False r'))"

lemma agrees_notify:
  "h (sax r) = Inr (True, s) \<Longrightarrow> agrees ev aw bt (k (r\<lparr>sax := s\<rparr>)) g \<Longrightarrow> agrees ev aw bt (notify h k r) g"
  by (simp add: notify_def)

text \<open>The result of a parse that ends by reporting an error.\<close>

definition fails_with :: "'s sax_events \<Rightarrow> string \<Rightarrow> 's run \<Rightarrow> (bool \<times> 's run) outcome" where
  "fails_with ev ex r =
     bindE (on_parse_error ev (lx_position (m_lexer r)) (get_token_string (m_lexer r)) ex (sax r))
       (\<lambda>(b, s). Inr (b, r\<lparr>sax := s\<rparr>))"

lemma agrees_syntax_error:
  "aw st (sax r) \<or> bt st (sax r) \<Longrightarrow> r' = erase r \<Longrightarrow>
   agrees ev aw bt (syntax_error ev t c r) (Inr (Return False r'))"
  unfolding syntax_error_def by (rule agrees_error) simp_all

locale sax_protocol =
  fixes ev :: "'s sax_events" and awaiting :: "bool list \<Rightarrow> 's \<Rightarrow> bool" and between :: "bool list \<Rightarrow> 's \<Rightarrow> bool"
  assumes null_law: "awaiting st s \<Longrightarrow> \<exists>s'. on_null ev s = Inr (True, s') \<and> between st s'"
    and boolean_law: "awaiting st s \<Longrightarrow> \<exists>s'. on_boolean ev b s = Inr (True, s') \<and> between st s'"
    and integer_law: "awaiting st s \<Longrightarrow> \<exists>s'. on_integer ev w s = Inr (True, s') \<and> between st s'"
    and unsigned_law: "awaiting st s \<Longrightarrow> \<exists>s'. on_unsigned ev w s = Inr (True, s') \<and> between st s'"
    and float_law: "awaiting st s \<Longrightarrow> is_finite x \<Longrightarrow> \<exists>s'. on_float ev x tok s = Inr (True, s') \<and> between st s'"
    and string_law: "awaiting st s \<Longrightarrow> \<exists>s'. on_string ev str s = Inr (True, s') \<and> between st s'"
    and start_object_law: "awaiting st s \<Longrightarrow> \<exists>s'. on_start_object ev s = Inr (True, s') \<and> between (False # st) s'"
    and key_law: "between (False # st) s \<Longrightarrow> \<exists>s'. on_key ev k s = Inr (True, s') \<and> awaiting (False # st) s'"
    and end_object_law: "between (False # st) s \<Longrightarrow> \<exists>s'. on_end_object ev s = Inr (True, s') \<and> between st s'"
    and start_array_law: "awaiting st s \<Longrightarrow> \<exists>s'. on_start_array ev s = Inr (True, s') \<and> between (True # st) s'"
    and next_element_law: "between (True # st) s \<Longrightarrow> awaiting (True # st) s"
    and end_array_law: "between (True # st) s \<Longrightarrow> \<exists>s'. on_end_array ev s = Inr (True, s') \<and> between st s'"
begin

abbreviation agree :: "'s flow outcome \<Rightarrow> unit flow outcome \<Rightarrow> bool" where
  "agree \<equiv> agrees ev awaiting between"

lemma agree_value:
  assumes "\<exists>s'. h (sax r) = Inr (True, s') \<and> between (states r) s'" "\<not> skip_to_state_evaluation r"
  shows "agree (notify h then_evaluate r) (Inr (Evaluate (erase r)))"
proof -
  obtain s' where "h (sax r) = Inr (True, s')" "between (states r) s'" using assms(1) by blast
  then show ?thesis
    using assms(2) by (intro agrees_notify) (auto simp: then_evaluate_def intro!: agrees_evaluate)
qed

lemma agree_after_key:
  assumes "between (False # st) (sax r)" "\<not> skip_to_state_evaluation r"
    and "\<And>r. push r = r\<lparr>states := f (states r)\<rparr>" "\<And>r. push' r = r\<lparr>states := f (states r)\<rparr>"
    and "f (states r) = False # st"
  shows "agree (after_key ev push r) (after_key acceptor_events push' (erase r))"
proof (cases "last_token r = T_value_string")
  case True
  obtain s' where s': "on_key ev (token_buffer (m_lexer r)) (sax r) = Inr (True, s')" "awaiting (False # st) s'"
    using key_law [OF assms(1)] by blast
  show ?thesis
    using True s' assms(2-)
    by (auto simp: after_key_def Let_def ready_def intro!: agrees_continue agrees_syntax_error
        agrees_notify [where h = "on_key ev (token_buffer (m_lexer r))", OF s'(1)])
next
  case False
  then show ?thesis using assms(1) by (auto simp: after_key_def intro!: agrees_syntax_error)
qed

lemma agree_begin_object:
  assumes "awaiting (states r) (sax r)" "\<not> skip_to_state_evaluation r"
  shows "agree (begin_object ev r) (begin_object acceptor_events (erase r))"
proof -
  obtain s' where s': "on_start_object ev (sax r) = Inr (True, s')" "between (False # states r) s'"
    using start_object_law [OF assms(1)] by blast
  let ?r = "get_token (r\<lparr>sax := s'\<rparr>)"
  have b: "between (False # states ?r) (sax ?r)" and sk: "\<not> skip_to_state_evaluation ?r"
    using s' assms by simp_all
  have close: "agree (notify (on_end_object ev) then_evaluate ?r) (then_evaluate (erase ?r))"
    using agree_value [where h = "on_end_object ev", OF end_object_law [OF b] sk] by (simp add: then_evaluate_def)
  have key: "agree (after_key ev (\<lambda>r2. r2\<lparr>states := False # states r2\<rparr>) ?r)
      (after_key acceptor_events (\<lambda>r2. r2\<lparr>states := False # states r2\<rparr>) (erase ?r))"
    by (rule agree_after_key [OF b sk, where f = "\<lambda>st. False # st"]) simp_all
  show ?thesis
    unfolding begin_object_def using close key by (intro agrees_notify [where h = "on_start_object ev", OF s'(1)]) (simp add: Let_def)
qed

lemma agree_begin_array:
  assumes "awaiting (states r) (sax r)" "\<not> skip_to_state_evaluation r"
  shows "agree (begin_array ev r) (begin_array acceptor_events (erase r))"
proof -
  obtain s' where s': "on_start_array ev (sax r) = Inr (True, s')" "between (True # states r) s'"
    using start_array_law [OF assms(1)] by blast
  let ?r = "get_token (r\<lparr>sax := s'\<rparr>)"
  have b: "between (True # states ?r) (sax ?r)" and sk: "\<not> skip_to_state_evaluation ?r"
    using s' assms by simp_all
  have close: "agree (notify (on_end_array ev) then_evaluate ?r) (then_evaluate (erase ?r))"
    using agree_value [where h = "on_end_array ev", OF end_array_law [OF b] sk] by (simp add: then_evaluate_def)
  have go: "ready awaiting between (?r\<lparr>states := True # states ?r\<rparr>)"
    using next_element_law [OF b] sk by (simp add: ready_def)
  show ?thesis
    unfolding begin_array_def using close go
    by (intro agrees_notify [where h = "on_start_array ev", OF s'(1)]) (auto simp: Let_def intro!: agrees_continue)
qed

lemma agree_value_step:
  assumes a: "awaiting (states r) (sax r)" and k: "\<not> skip_to_state_evaluation r"
  shows "agree (value_step ev r) (value_step acceptor_events (erase r))"
proof -
  have v: "\<exists>s'. h (sax r) = Inr (True, s') \<and> between (states r) s' \<Longrightarrow>
      agree (notify h then_evaluate r) (Inr (Evaluate (erase r)))" for h
    by (rule agree_value [OF _ k])
  have err: "agree (syntax_error ev t c r) (Inr (Return False (erase r)))" for t c
    using a by (intro agrees_syntax_error) auto
  have rep: "documented ex \<Longrightarrow> agree (report ev ex r) (Inr (Return False (erase r)))" for ex
    using a by (intro agrees_error) auto
  show ?thesis
    using v [of "on_null ev", OF null_law [OF a]] v [of "on_boolean ev True", OF boolean_law [OF a]]
      v [of "on_boolean ev False", OF boolean_law [OF a]]
      v [of "on_integer ev (value_integer (m_lexer r))", OF integer_law [OF a]]
      v [of "on_unsigned ev (value_unsigned (m_lexer r))", OF unsigned_law [OF a]]
      v [of "on_float ev (value_float (m_lexer r)) (token_buffer (m_lexer r))"] float_law [OF a]
      v [of "on_string ev (token_buffer (m_lexer r))", OF string_law [OF a]]
      agree_begin_object [OF a k] agree_begin_array [OF a k] err rep
    by (simp add: value_step_def float_value_def Let_def then_evaluate_def split: token_type.split)
qed

lemma agree_close:
  assumes "\<exists>s'. h (sax r) = Inr (True, s') \<and> between (tl (states r)) s'"
  shows "agree (notify h close_container r) (close_container (erase r))"
proof -
  obtain s' where "h (sax r) = Inr (True, s')" "between (tl (states r)) s'" using assms by blast
  then show ?thesis
    by (intro agrees_notify) (auto simp: close_container_def ready_def intro!: agrees_continue)
qed

lemma agree_evaluate_step:
  assumes b: "between (states r) (sax r)" and k: "\<not> skip_to_state_evaluation r"
  shows "agree (evaluate_step ev r) (evaluate_step acceptor_events (erase r))"
proof (cases "states r")
  case Nil
  then show ?thesis using b by (auto simp: evaluate_step_def intro!: agrees_done)
next
  case (Cons x st)
  let ?r = "get_token r"
  have err: "agree (syntax_error ev t c ?r) (Inr (Return False (erase ?r)))" for t c
    using b by (intro agrees_syntax_error) auto
  show ?thesis
  proof (cases x)
    case True
    then have b': "between (True # st) (sax ?r)" using b Cons by simp
    have close: "agree (notify (on_end_array ev) close_container ?r) (close_container (erase ?r))"
      using end_array_law [OF b'] Cons by (intro agree_close) simp
    have go: "ready awaiting between (get_token ?r)"
      using next_element_law [OF b'] Cons True k by (simp add: ready_def)
    show ?thesis
      using True Cons close go err
      by (auto simp: evaluate_step_def evaluate_array_def Let_def intro!: agrees_continue)
  next
    case False
    then have b': "between (False # st) (sax ?r)" using b Cons by simp
    have close: "agree (notify (on_end_object ev) close_container ?r) (close_container (erase ?r))"
      using end_object_law [OF b'] Cons by (intro agree_close) simp
    have key: "agree (after_key ev (\<lambda>r2. r2) (get_token ?r)) (after_key acceptor_events (\<lambda>r2. r2) (erase (get_token ?r)))"
      using b' k Cons False by (intro agree_after_key [where f = "\<lambda>st. st"]) simp_all
    show ?thesis
      using False Cons close key err by (simp add: evaluate_step_def evaluate_object_def Let_def)
  qed
qed

lemma agree_iteration:
  assumes "ready awaiting between r"
  shows "agree (sax_iteration ev r) (sax_iteration acceptor_events (erase r))"
proof (cases "skip_to_state_evaluation r")
  case True
  then show ?thesis
    using assms agree_evaluate_step [of "r\<lparr>skip_to_state_evaluation := False\<rparr>"]
    by (simp add: sax_iteration_def ready_def)
next
  case False
  then have "agree (value_step ev r) (value_step acceptor_events (erase r))"
    using assms by (intro agree_value_step) (simp_all add: ready_def)
  then show ?thesis
  proof cases
    case (agrees_evaluate r1 r2)
    then show ?thesis using False agree_evaluate_step [of r1] by (simp add: sax_iteration_def)
  next
    case (agrees_error st r1 ex r2)
    have "bindE (report ev ex r1) (\<lambda>f. case f of Evaluate r1 \<Rightarrow> evaluate_step ev r1 | _ \<Rightarrow> Inr f) = report ev ex r1"
      by (cases "on_parse_error ev (lx_position (m_lexer r1)) (get_token_string (m_lexer r1)) ex (sax r1)")
        (auto simp: report_def)
    then show ?thesis using agrees_error False
      by (auto simp: sax_iteration_def intro!: agrees.agrees_error)
  qed (use False in \<open>auto simp: sax_iteration_def intro!: agrees.intros\<close>)
qed

text \<open>The whole loop.\<close>

lemma agree_parse:
  "ready awaiting between r \<Longrightarrow>
   (\<exists>r'. sax_parse_internal ev r = Inr (True, r') \<and> between [] (sax r')
      \<and> sax_parse_internal acceptor_events (erase r) = Inr (True, erase r'))
   \<or> (\<exists>st r' ex. (awaiting st (sax r') \<or> between st (sax r')) \<and> documented ex
      \<and> sax_parse_internal acceptor_events (erase r) = Inr (False, erase r')
      \<and> sax_parse_internal ev r = fails_with ev ex r')"
proof (induction "parse_size r" arbitrary: r rule: less_induct)
  case less
  have step: "sax_parse_internal ev r =
      (case sax_iteration ev r of
        Inl f \<Rightarrow> Inl f
      | Inr (Return b r') \<Rightarrow> Inr (b, r')
      | Inr (Continue r') \<Rightarrow> sax_parse_internal ev r'
      | Inr (Evaluate r') \<Rightarrow> Inr (True, r'))" for ev :: "'a sax_events" and r
    by (rule sax_parse_internal.simps)
  note step' = sax_parse_internal.simps [of acceptor_events "erase r"]
  from less(2) have "agree (sax_iteration ev r) (sax_iteration acceptor_events (erase r))" by (rule agree_iteration)
  then show ?case
  proof cases
    case (agrees_continue r1 r2)
    then have "sax_parse_internal ev r = sax_parse_internal ev r1"
      "sax_parse_internal acceptor_events (erase r) = sax_parse_internal acceptor_events (erase r1)"
      using step [of ev r] step' by simp_all
    then show ?thesis using less(1) [OF sax_iteration_less] agrees_continue by simp
  next
    case (agrees_evaluate r1 r2)
    then show ?thesis using sax_iteration_not_evaluate by metis
  next
    case (agrees_done r1 r2)
    then show ?thesis using step [of ev r] step' by auto
  next
    case (agrees_error st r1 ex r2)
    then have "sax_parse_internal ev r = fails_with ev ex r1"
      using step [of ev r]
      by (cases "on_parse_error ev (lx_position (m_lexer r1)) (get_token_string (m_lexer r1)) ex (sax r1)")
        (auto simp: report_def fails_with_def)
    moreover have "sax_parse_internal acceptor_events (erase r) = Inr (False, erase r1)"
      using agrees_error step' by simp
    ultimately show ?thesis using agrees_error by blast
  qed
qed

end

end
