(* ===== verification/Json_Parse.thy ===== *)
theory Json_Parse
  imports Json_Builder Json_Protocol
begin

text \<open>
  What \<^verbatim>\<open>json::parse\<close> and \<^verbatim>\<open>json::accept\<close> compute.  Both handlers keep the parser's contract; for the
  one that builds the value the states are related to the abstract builder.
\<close>

definition dom_awaiting :: "bool \<Rightarrow> bool list \<Rightarrow> sax_dom \<Rightarrow> bool" where
  "dom_awaiting allow st s \<longleftrightarrow>
     (\<exists>b. rep b s \<and> awaits_value b \<and> open_kinds b = st \<and> builder_ok b \<and> allow_exceptions s = allow)"

definition dom_between :: "bool \<Rightarrow> bool list \<Rightarrow> sax_dom \<Rightarrow> bool" where
  "dom_between allow st s \<longleftrightarrow>
     (\<exists>b. rep b s \<and> complete b \<and> open_kinds b = st \<and> builder_ok b \<and> allow_exceptions s = allow)"

lemma dom_value_law:
  "dom_awaiting allow st s \<Longrightarrow> json_ok v \<Longrightarrow> \<exists>s'. dom_value v s = Inr (True, s') \<and> dom_between allow st s'"
  using dom_value_rep add_value_ok unfolding dom_awaiting_def dom_between_def
  by (metis add_value_complete add_value_kinds)

lemma dom_start_law:
  assumes "dom_awaiting allow st s"
  shows "\<exists>s'. dom_start (JArray []) s = Inr (True, s') \<and> dom_between allow (True # st) s'"
    and "\<exists>s'. dom_start (JObject []) s = Inr (True, s') \<and> dom_between allow (False # st) s'"
proof -
  obtain b where b: "rep b s" "awaits_value b" "open_kinds b = st" "builder_ok b" "allow_exceptions s = allow"
    using assms by (auto simp: dom_awaiting_def)
  have k: "open_kinds (Arr [] (parents b)) = True # st" "open_kinds (Obj [] (parents b)) = False # st"
    "builder_ok (Arr [] (parents b))" "builder_ok (Obj [] (parents b))"
    using parents_kinds [OF b(2)] b(3) parents_ok [OF b(4)] by simp_all
  show "\<exists>s'. dom_start (JArray []) s = Inr (True, s') \<and> dom_between allow (True # st) s'"
    and "\<exists>s'. dom_start (JObject []) s = Inr (True, s') \<and> dom_between allow (False # st) s'"
    using dom_start_rep [OF b(1,2)] k b(5) complete.simps unfolding dom_between_def by metis+
qed

lemma kinds_object: "open_kinds b = False # st \<Longrightarrow> complete b \<Longrightarrow> \<exists>ms fs. b = Obj ms fs \<and> st = map frame_array fs"
  by (cases b) auto

lemma kinds_array: "open_kinds b = True # st \<Longrightarrow> \<exists>xs fs. b = Arr xs fs \<and> st = map frame_array fs"
  by (cases b) auto

lemma between_object:
  assumes "dom_between allow (False # st) s"
  obtains ms fs where "rep (Obj ms fs) s" "st = map frame_array fs" "allow_exceptions s = allow"
    "builder_ok (Obj ms fs)"
  using assms kinds_object by (fastforce simp: dom_between_def)

lemma dom_key_law:
  assumes "dom_between allow (False # st) s"
  shows "\<exists>s'. dom_key k s = Inr (True, s') \<and> dom_awaiting allow (False # st) s'"
proof -
  obtain ms fs where b: "rep (Obj ms fs) s" "st = map frame_array fs" "allow_exceptions s = allow"
    "builder_ok (Obj ms fs)"
    using assms by (rule between_object)
  obtain s' where s': "dom_key k s = Inr (True, s')" "rep (ObjKey ms k fs) s'" "allow_exceptions s' = allow"
    using dom_key_rep [OF b(1), of k] b(3) by auto
  have "dom_awaiting allow (False # st) s'"
    unfolding dom_awaiting_def using s' b by (intro exI [of _ "ObjKey ms k fs"]) simp
  then show ?thesis using s' by blast
qed

lemma between_close:
  assumes "rep (close_frames c fs) s" "st = map frame_array fs" "allow_exceptions s = allow"
    "json_ok c" "\<forall>f \<in> set fs. frame_ok f"
  shows "dom_between allow st s"
  unfolding dom_between_def using assms close_ok
  by (intro exI [of _ "close_frames c fs"]) (simp add: close_kinds)

lemma dom_end_object_law:
  assumes "dom_between allow (False # st) s"
  shows "\<exists>s'. dom_end is_object s = Inr (True, s') \<and> dom_between allow st s'"
proof -
  obtain ms fs where b: "rep (Obj ms fs) s" "st = map frame_array fs" "allow_exceptions s = allow"
    "builder_ok (Obj ms fs)"
    using assms by (rule between_object)
  obtain s' where s': "dom_end is_object s = Inr (True, s')" "rep (close_frames (JObject ms) fs) s'"
      "allow_exceptions s' = allow"
    using dom_end_rep(2) [OF b(1)] b(3) by auto
  have "dom_between allow st s'"
    using b(4) by (intro between_close [OF s'(2) b(2) s'(3)]) (simp_all add: members_ok_def)
  then show ?thesis using s' by blast
qed

lemma dom_end_array_law:
  assumes "dom_between allow (True # st) s"
  shows "\<exists>s'. dom_end is_array s = Inr (True, s') \<and> dom_between allow st s'"
proof -
  obtain xs fs where b: "rep (Arr xs fs) s" "st = map frame_array fs" "allow_exceptions s = allow"
    "builder_ok (Arr xs fs)"
    using assms kinds_array by (fastforce simp: dom_between_def)
  obtain s' where s': "dom_end is_array s = Inr (True, s')" "rep (close_frames (JArray xs) fs) s'"
      "allow_exceptions s' = allow"
    using dom_end_rep(1) [OF b(1)] b(3) by auto
  have "dom_between allow st s'"
    using b(4) by (intro between_close [OF s'(2) b(2) s'(3)]) simp_all
  then show ?thesis using s' by blast
qed

lemma dom_next_law: "dom_between allow (True # st) s \<Longrightarrow> dom_awaiting allow (True # st) s"
  unfolding dom_between_def dom_awaiting_def using kinds_array awaits_value.simps by metis

interpretation dom: sax_protocol dom_events "dom_awaiting allow" "dom_between allow"
  by unfold_locales
    (simp_all add: dom_events_def dom_value_law dom_start_law dom_key_law dom_end_object_law
      dom_end_array_law dom_next_law)

interpretation acceptor: sax_protocol acceptor_events "\<lambda>_ _. True" "\<lambda>_ _. True"
  by unfold_locales (simp_all add: accept_all_def)

subsection \<open>Outcomes\<close>

lemma new_ready: "ready (dom_awaiting allow) (dom_between allow) (parser_new input ignore (sax_dom_new allow))"
proof -
  have "rep (Finished JNull) (sax_dom_new allow)" by (simp add: sax_dom_new_def)
  then have "dom_awaiting allow [] (sax_dom_new allow)"
    unfolding dom_awaiting_def by (intro exI [of _ "Finished JNull"]) (simp add: sax_dom_new_def)
  then show ?thesis by (simp add: ready_def parser_new_def)
qed

lemma new_erase: "erase (parser_new input ignore s) = parser_new input ignore ()"
  by (simp add: parser_new_def erase_def)

lemma dom_parse_error [simp]:
  "on_parse_error dom_events p tok ex s =
     (if allow_exceptions s then Inl (Throw ex) else Inr (False, s\<lparr>errored := True\<rparr>))"
  by (simp add: dom_events_def dom_parse_error_def)

lemma dom_states:
  "dom_awaiting allow st s \<or> dom_between allow st s \<Longrightarrow> allow_exceptions s = allow"
  "dom_awaiting allow st s \<or> dom_between allow st s \<Longrightarrow> \<not> errored s"
proof -
  have "rep b s \<Longrightarrow> \<not> errored s" for b by (cases b) auto
  then show "dom_awaiting allow st s \<or> dom_between allow st s \<Longrightarrow> allow_exceptions s = allow"
    and "dom_awaiting allow st s \<or> dom_between allow st s \<Longrightarrow> \<not> errored s"
    by (auto simp: dom_awaiting_def dom_between_def)
qed

text \<open>The end check, for the acceptor and for the value.\<close>

lemma strict_end_acceptor:
  "strict_end acceptor_events b (r :: unit run) =
     Inr (if fst (scan (m_lexer r)) = T_end_of_input then b else False, get_token r)"
  by (simp add: strict_end_def Let_def)

lemma strict_end_dom:
  "fst (scan (m_lexer r)) = T_end_of_input \<Longrightarrow> strict_end dom_events b r = Inr (b, get_token r)"
  "fst (scan (m_lexer r)) \<noteq> T_end_of_input \<Longrightarrow> allow_exceptions (sax r) \<Longrightarrow>
     \<exists>ex. documented ex \<and> strict_end dom_events b r = Inl (Throw ex)"
  "\<not> allow_exceptions (sax r) \<Longrightarrow> errored (sax r) \<or> fst (scan (m_lexer r)) \<noteq> T_end_of_input \<Longrightarrow>
     \<exists>c r'. strict_end dom_events b r = Inr (c, r') \<and> errored (sax r')"
  by (auto simp: strict_end_def Let_def syntax_error_def report_def)

text \<open>A parse ends in one of two ways.\<close>

definition parse_result :: "bool \<Rightarrow> json outcome \<Rightarrow> bool \<Rightarrow> bool" where
  "parse_result allow out ok \<longleftrightarrow>
     (if ok then \<exists>j. out = Inr j \<and> json_ok j
      else if allow then \<exists>ex. out = Inl (Throw ex) \<and> documented ex
      else out = Inr JDiscarded)"

lemma parse_outcome: "\<exists>ok. json_accept input ignore = Inr ok \<and> parse_result allow (json_parse input allow ignore) ok"
proof -
  let ?r = "parser_new input ignore (sax_dom_new allow)" and ?a = "parser_new input ignore ()"
  from dom.agree_parse [OF new_ready [of allow input ignore], unfolded new_erase]
  consider (finished) r' where "sax_parse_internal dom_events ?r = Inr (True, r')" "dom_between allow [] (sax r')"
      "sax_parse_internal acceptor_events ?a = Inr (True, erase r')"
    | (error) st r' ex where "dom_awaiting allow st (sax r') \<or> dom_between allow st (sax r')" "documented ex"
      "sax_parse_internal acceptor_events ?a = Inr (False, erase r')"
      "sax_parse_internal dom_events ?r = fails_with dom_events ex r'"
    by blast
  then show ?thesis
  proof cases
    case (finished r')
    note p = finished(1) and b = finished(2) and a = finished(3)
    have fin: "json_ok (root (sax r'))" "\<not> errored (sax r')" "allow_exceptions (sax r') = allow"
      using b dom_states [of allow "[]" "sax r'"] unfolding dom_between_def
      by (auto elim!: open_kinds.elims)
    show ?thesis
    proof (cases "fst (scan (m_lexer r')) = T_end_of_input")
      case True
      then have "json_accept input ignore = Inr True" "json_parse input allow ignore = Inr (root (sax r'))"
        using a p fin strict_end_dom(1) [OF True, of True]
        by (simp_all add: json_accept_def sax_parse_def strict_end_acceptor json_parse_def parser_parse_def)
      then show ?thesis using fin by (auto simp: parse_result_def)
    next
      case False
      then have acc: "json_accept input ignore = Inr False"
        using a by (simp add: json_accept_def sax_parse_def strict_end_acceptor)
      show ?thesis
      proof (cases allow)
        case True
        then obtain ex where ex: "documented ex" "strict_end dom_events True r' = Inl (Throw ex)"
          using strict_end_dom(2) [OF False, of True] fin by auto
        then have "json_parse input allow ignore = Inl (Throw ex)" using p by (simp add: json_parse_def parser_parse_def)
        then show ?thesis using acc True ex by (auto simp: parse_result_def)
      next
        case na: False
        then have "json_parse input allow ignore = Inr JDiscarded"
          using strict_end_dom(3) [of r' True] False p fin by (auto simp: json_parse_def parser_parse_def)
        then show ?thesis using acc na by (auto simp: parse_result_def)
      qed
    qed
  next
    case (error st r' ex)
    note s = error(1,2) and a = error(3) and p = error(4)
    have acc: "json_accept input ignore = Inr False" using a by (simp add: json_accept_def sax_parse_def)
    note allow = dom_states(1) [OF s(1)]
    show ?thesis
    proof (cases allow)
      case True
      then have "json_parse input allow ignore = Inl (Throw ex)"
        using p allow by (simp add: json_parse_def parser_parse_def fails_with_def)
      then show ?thesis using acc True s(2) by (auto simp: parse_result_def)
    next
      case False
      then have "json_parse input allow ignore = Inr JDiscarded"
        using p allow strict_end_dom(3) [of "r'\<lparr>sax := (sax r')\<lparr>errored := True\<rparr>\<rparr>" False]
        by (fastforce simp: json_parse_def parser_parse_def fails_with_def)
      then show ?thesis using acc False by (auto simp: parse_result_def)
    qed
  qed
qed


text \<open>C27: \<^verbatim>\<open>accept\<close> never fails, and says yes exactly for the inputs \<^verbatim>\<open>parse\<close> returns a value for.\<close>

theorem accept_iff_parse:
  "\<exists>ok. json_accept input ignore = Inr ok \<and> (ok \<longleftrightarrow> (\<exists>j. json_parse input True ignore = Inr j))"
  using parse_outcome [of input ignore True] by (auto simp: parse_result_def split: if_splits)

text \<open>Without exceptions a parse always returns: the discarded value exactly for the inputs that are not
  accepted, and a well-formed value for the others.\<close>

theorem parse_without_exceptions:
  "\<exists>j. json_parse input False ignore = Inr j
     \<and> (if json_accept input ignore = Inr True then json_ok j else j = JDiscarded)"
  using parse_outcome [of input ignore False] by (auto simp: parse_result_def split: if_splits)

end
