(* ===== verification/Grisu.thy ===== *)
theory Grisu
  imports Conversions
begin

text \<open>
  How the JSON library prints a double: the Grisu2 algorithm of \<^verbatim>\<open>detail::dtoa_impl\<close> and \<^verbatim>\<open>to_chars\<close>.
  A 64-bit unsigned integer is a natural number with the wrap-around written out (\<open>w64\<close>); \<^verbatim>\<open>int\<close> is
  \<open>int\<close>.  Failed assertions are \<open>Abort\<close>.  The digit buffer is the list of its digits.  The loop over
  the digits of the fraction has no bound in the code; here it has fuel, and running out of it would
  be \<open>Undefined\<close>.
\<close>

definition w64 :: "nat \<Rightarrow> nat" where
  "w64 n = n mod 2 ^ 64"

definition require :: "bool \<Rightarrow> 'a outcome \<Rightarrow> 'a outcome" where
  "require b m = (if b then m else Inl Abort)"

lemma require_True [simp]: "require True m = m"
  by (simp add: require_def)

text \<open>Signed division truncates.\<close>

definition cdiv :: "int \<Rightarrow> int \<Rightarrow> int" where
  "cdiv a b = sgn a * sgn b * (\<bar>a\<bar> div \<bar>b\<bar>)"

subsection \<open>Floating-point numbers with a 64-bit significand\<close>

record diyfp =
  df :: nat
  de :: int

definition diyfp_sub :: "diyfp \<Rightarrow> diyfp \<Rightarrow> diyfp outcome" where
  "diyfp_sub x y = require (de x = de y \<and> df y \<le> df x) (Inr \<lparr>df = df x - df y, de = de x\<rparr>)"

definition diyfp_mul :: "diyfp \<Rightarrow> diyfp \<Rightarrow> diyfp" where
  "diyfp_mul x y =
     (let u_lo = df x mod 2 ^ 32; u_hi = df x div 2 ^ 32;
          v_lo = df y mod 2 ^ 32; v_hi = df y div 2 ^ 32;
          p0 = w64 (u_lo * v_lo); p1 = w64 (u_lo * v_hi); p2 = w64 (u_hi * v_lo); p3 = w64 (u_hi * v_hi);
          p0_hi = p0 div 2 ^ 32;
          p1_lo = p1 mod 2 ^ 32; p1_hi = p1 div 2 ^ 32;
          p2_lo = p2 mod 2 ^ 32; p2_hi = p2 div 2 ^ 32;
          q = w64 (p0_hi + p1_lo + p2_lo);
          q' = w64 (q + 2 ^ 31);
          h = w64 (p3 + p2_hi + p1_hi + q' div 2 ^ 32)
      in \<lparr>df = h, de = de x + de y + 64\<rparr>)"

function normalize_loop :: "nat \<Rightarrow> int \<Rightarrow> diyfp" where
  "normalize_loop f e =
     (if 0 < f \<and> f div 2 ^ 63 = 0 then normalize_loop (w64 (f * 2)) (e - 1) else \<lparr>df = f, de = e\<rparr>)"
  by pat_completeness auto
termination
proof (relation "measure (\<lambda>(f, e). 2 ^ 64 - f)", simp)
  fix f :: nat and e :: int
  assume a: "0 < f \<and> f div 2 ^ 63 = 0"
  then have "f < 2 ^ 63" by (simp add: div_eq_0_iff)
  then show "((w64 (f * 2), e - 1), f, e) \<in> measure (\<lambda>(f, e). 2 ^ 64 - f)"
    using a by (simp add: w64_def)
qed

declare normalize_loop.simps [simp del]

definition normalize_fp :: "diyfp \<Rightarrow> diyfp outcome" where
  "normalize_fp x = require (df x \<noteq> 0) (Inr (normalize_loop (df x) (de x)))"

definition normalize_to :: "diyfp \<Rightarrow> int \<Rightarrow> diyfp outcome" where
  "normalize_to x target_exponent =
     (let delta = de x - target_exponent
      in require (0 \<le> delta)
           (require (w64 (df x * 2 ^ nat delta) div 2 ^ nat delta = df x)
             (Inr \<lparr>df = w64 (df x * 2 ^ nat delta), de = target_exponent\<rparr>)))"

subsection \<open>The boundaries of a double\<close>

text \<open>The bits of a positive finite double, sign included.\<close>

fun f64_bits :: "f64 \<Rightarrow> nat" where
  "f64_bits (Fin s m e) =
     (if s then 2 ^ 63 else 0) + (if m < 2 ^ 52 then m else nat (e + 1075) * 2 ^ 52 + (m - 2 ^ 52))"
| "f64_bits _ = 0"

record boundaries =
  bd_w :: diyfp
  bd_minus :: diyfp
  bd_plus :: diyfp

definition compute_boundaries :: "f64 \<Rightarrow> boundaries outcome" where
  "compute_boundaries value =
     require (is_finite value \<and> flt (f64_zero False) value)
       (let bts = f64_bits value;
            E = bts div 2 ^ 52; F = bts mod 2 ^ 52;
            v = (if E = 0 then \<lparr>df = F, de = - 1074\<rparr> else \<lparr>df = F + 2 ^ 52, de = int E - 1075\<rparr>);
            lower_boundary_is_closer = (F = 0 \<and> 1 < E);
            m_plus = \<lparr>df = 2 * df v + 1, de = de v - 1\<rparr>;
            m_minus = (if lower_boundary_is_closer then \<lparr>df = 4 * df v - 1, de = de v - 2\<rparr>
                       else \<lparr>df = 2 * df v - 1, de = de v - 1\<rparr>)
        in bindE (normalize_fp m_plus) (\<lambda>w_plus.
           bindE (normalize_to m_minus (de w_plus)) (\<lambda>w_minus.
           bindE (normalize_fp v) (\<lambda>w.
             Inr \<lparr>bd_w = w, bd_minus = w_minus, bd_plus = w_plus\<rparr>))))"

subsection \<open>Cached powers of ten\<close>

text \<open>Significand, binary exponent and decimal exponent: \<open>f * 2 powi e\<close> is \<open>10 powi k\<close>, rounded.\<close>

definition cached_powers :: "(nat \<times> int \<times> int) list" where
  "cached_powers =
     [(0xAB70FE17C79AC6CA, - 1060, - 300), (0xFF77B1FCBEBCDC4F, - 1034, - 292), (0xBE5691EF416BD60C, - 1007, - 284),
      (0x8DD01FAD907FFC3C, - 980, - 276), (0xD3515C2831559A83, - 954, - 268), (0x9D71AC8FADA6C9B5, - 927, - 260),
      (0xEA9C227723EE8BCB, - 901, - 252), (0xAECC49914078536D, - 874, - 244), (0x823C12795DB6CE57, - 847, - 236),
      (0xC21094364DFB5637, - 821, - 228), (0x9096EA6F3848984F, - 794, - 220), (0xD77485CB25823AC7, - 768, - 212),
      (0xA086CFCD97BF97F4, - 741, - 204), (0xEF340A98172AACE5, - 715, - 196), (0xB23867FB2A35B28E, - 688, - 188),
      (0x84C8D4DFD2C63F3B, - 661, - 180), (0xC5DD44271AD3CDBA, - 635, - 172), (0x936B9FCEBB25C996, - 608, - 164),
      (0xDBAC6C247D62A584, - 582, - 156), (0xA3AB66580D5FDAF6, - 555, - 148), (0xF3E2F893DEC3F126, - 529, - 140),
      (0xB5B5ADA8AAFF80B8, - 502, - 132), (0x87625F056C7C4A8B, - 475, - 124), (0xC9BCFF6034C13053, - 449, - 116),
      (0x964E858C91BA2655, - 422, - 108), (0xDFF9772470297EBD, - 396, - 100), (0xA6DFBD9FB8E5B88F, - 369, - 92),
      (0xF8A95FCF88747D94, - 343, - 84), (0xB94470938FA89BCF, - 316, - 76), (0x8A08F0F8BF0F156B, - 289, - 68),
      (0xCDB02555653131B6, - 263, - 60), (0x993FE2C6D07B7FAC, - 236, - 52), (0xE45C10C42A2B3B06, - 210, - 44),
      (0xAA242499697392D3, - 183, - 36), (0xFD87B5F28300CA0E, - 157, - 28), (0xBCE5086492111AEB, - 130, - 20),
      (0x8CBCCC096F5088CC, - 103, - 12), (0xD1B71758E219652C, - 77, - 4), (0x9C40000000000000, - 50, 4),
      (0xE8D4A51000000000, - 24, 12), (0xAD78EBC5AC620000, 3, 20), (0x813F3978F8940984, 30, 28),
      (0xC097CE7BC90715B3, 56, 36), (0x8F7E32CE7BEA5C70, 83, 44), (0xD5D238A4ABE98068, 109, 52),
      (0x9F4F2726179A2245, 136, 60), (0xED63A231D4C4FB27, 162, 68), (0xB0DE65388CC8ADA8, 189, 76),
      (0x83C7088E1AAB65DB, 216, 84), (0xC45D1DF942711D9A, 242, 92), (0x924D692CA61BE758, 269, 100),
      (0xDA01EE641A708DEA, 295, 108), (0xA26DA3999AEF774A, 322, 116), (0xF209787BB47D6B85, 348, 124),
      (0xB454E4A179DD1877, 375, 132), (0x865B86925B9BC5C2, 402, 140), (0xC83553C5C8965D3D, 428, 148),
      (0x952AB45CFA97A0B3, 455, 156), (0xDE469FBD99A05FE3, 481, 164), (0xA59BC234DB398C25, 508, 172),
      (0xF6C69A72A3989F5C, 534, 180), (0xB7DCBF5354E9BECE, 561, 188), (0x88FCF317F22241E2, 588, 196),
      (0xCC20CE9BD35C78A5, 614, 204), (0x98165AF37B2153DF, 641, 212), (0xE2A0B5DC971F303A, 667, 220),
      (0xA8D9D1535CE3B396, 694, 228), (0xFB9B7CD9A4A7443C, 720, 236), (0xBB764C4CA7A44410, 747, 244),
      (0x8BAB8EEFB6409C1A, 774, 252), (0xD01FEF10A657842C, 800, 260), (0x9B10A4E5E9913129, 827, 268),
      (0xE7109BFBA19C0C9D, 853, 276), (0xAC2820D9623BF429, 880, 284), (0x80444B5E7AA7CF85, 907, 292),
      (0xBF21E44003ACDD2D, 933, 300), (0x8E679C2F5E44FF8F, 960, 308), (0xD433179D9C8CB841, 986, 316),
      (0x9E19DB92B4E31BA9, 1013, 324)]"

definition get_cached_power :: "int \<Rightarrow> (nat \<times> int \<times> int) outcome" where
  "get_cached_power e =
     require (- 1500 \<le> e \<and> e \<le> 1500)
       (let f = - 60 - e - 1;
            k = cdiv (f * 78913) (2 ^ 18) + (if 0 < f then 1 else 0);
            index = cdiv (300 + k + 7) 8
        in require (0 \<le> index \<and> index < 79)
             (let cached = cached_powers ! nat index
              in require (- 60 \<le> fst (snd cached) + e + 64 \<and> fst (snd cached) + e + 64 \<le> - 32) (Inr cached)))"

subsection \<open>Digit generation\<close>

text \<open>The number of digits, and the power of ten of the first.\<close>

definition find_largest_pow10 :: "nat \<Rightarrow> nat \<times> nat" where
  "find_largest_pow10 n =
     (if 1000000000 \<le> n then (10, 1000000000)
      else if 100000000 \<le> n then (9, 100000000)
      else if 10000000 \<le> n then (8, 10000000)
      else if 1000000 \<le> n then (7, 1000000)
      else if 100000 \<le> n then (6, 100000)
      else if 10000 \<le> n then (5, 10000)
      else if 1000 \<le> n then (4, 1000)
      else if 100 \<le> n then (3, 100)
      else if 10 \<le> n then (2, 10)
      else (1, 1))"

text \<open>The last digit is decremented while that brings the value closer to \<open>w\<close>.\<close>

definition decrement_last :: "nat list \<Rightarrow> nat list" where
  "decrement_last buf = butlast buf @ [last buf - 1]"

function round_loop :: "nat \<Rightarrow> nat \<Rightarrow> nat \<Rightarrow> nat \<Rightarrow> nat list \<Rightarrow> nat list outcome" where
  "round_loop dst delta rest ten_k buf =
     (if rest < dst \<and> ten_k \<le> delta - rest
         \<and> (w64 (rest + ten_k) < dst \<or> w64 (w64 (rest + ten_k) + (2 ^ 64 - dst)) < dst - rest)
         \<and> 0 < ten_k
      then require (last buf \<noteq> 0) (round_loop dst delta (rest + ten_k) ten_k (decrement_last buf))
      else Inr buf)"
  by pat_completeness auto
termination
  by (relation "measure (\<lambda>(dst, delta, rest, ten_k, buf). dst - rest)") auto

declare round_loop.simps [simp del]

definition grisu2_round :: "nat list \<Rightarrow> nat \<Rightarrow> nat \<Rightarrow> nat \<Rightarrow> nat \<Rightarrow> nat list outcome" where
  "grisu2_round buf dst delta rest ten_k =
     require (1 \<le> length buf \<and> dst \<le> delta \<and> rest \<le> delta \<and> 0 < ten_k)
       (round_loop dst delta rest ten_k buf)"

text \<open>The digits of the integral part: \<open>Inl\<close> when digits are left for the fraction.\<close>

fun integral_loop ::
    "nat \<Rightarrow> nat \<Rightarrow> nat \<Rightarrow> nat \<Rightarrow> nat \<Rightarrow> nat \<Rightarrow> nat \<Rightarrow> nat list \<Rightarrow> (nat list + nat list \<times> int) outcome" where
  "integral_loop 0 p1 pow10 shift p2 dst delta buf = Inr (Inl buf)"
| "integral_loop (Suc n) p1 pow10 shift p2 dst delta buf =
     (let d = p1 div pow10; r = p1 mod pow10; rest = w64 (w64 (r * 2 ^ shift) + p2); buf' = buf @ [d]
      in require (d \<le> 9)
           (if rest \<le> delta
            then bindE (grisu2_round buf' dst delta rest (w64 (pow10 * 2 ^ shift)))
                   (\<lambda>b. Inr (Inr (b, int n)))
            else integral_loop n r (pow10 div 10) shift p2 dst delta buf'))"

text \<open>The digits of the fraction.\<close>

fun fraction_loop :: "nat \<Rightarrow> nat \<Rightarrow> nat \<Rightarrow> nat \<Rightarrow> nat \<Rightarrow> nat \<Rightarrow> nat list \<Rightarrow> (nat list \<times> int) outcome" where
  "fraction_loop 0 m shift p2 dst delta buf = Inl Undefined"
| "fraction_loop (Suc fuel) m shift p2 dst delta buf =
     require (p2 \<le> (2 ^ 64 - 1) div 10)
       (let p2' = w64 (p2 * 10); d = p2' div 2 ^ shift; r = p2' mod 2 ^ shift;
            delta' = w64 (delta * 10); dst' = w64 (dst * 10); buf' = buf @ [d]
        in require (d \<le> 9)
             (if r \<le> delta'
              then bindE (grisu2_round buf' dst' delta' r (2 ^ shift)) (\<lambda>b. Inr (b, - int (m + 1)))
              else fraction_loop fuel (m + 1) shift r dst' delta' buf'))"

definition digit_fuel :: nat where
  "digit_fuel = 20"

definition digit_gen :: "int \<Rightarrow> diyfp \<Rightarrow> diyfp \<Rightarrow> diyfp \<Rightarrow> (nat list \<times> int) outcome" where
  "digit_gen decimal_exponent M_minus w M_plus =
     require (- 60 \<le> de M_plus \<and> de M_plus \<le> - 32)
       (bindE (diyfp_sub M_plus M_minus) (\<lambda>dm.
        bindE (diyfp_sub M_plus w) (\<lambda>dw.
          let delta = df dm; dst = df dw; shift = nat (- de M_plus);
              p1 = df M_plus div 2 ^ shift mod 2 ^ 32; p2 = df M_plus mod 2 ^ shift
          in require (0 < p1)
               (let (k, pow10) = find_largest_pow10 p1
                in bindE (integral_loop k p1 pow10 shift p2 dst delta [])
                     (\<lambda>res. case res of
                        Inr (buf, n) \<Rightarrow> Inr (buf, decimal_exponent + n)
                      | Inl buf \<Rightarrow>
                          require (delta < p2)
                            (bindE (fraction_loop digit_fuel 0 shift p2 dst delta buf)
                              (\<lambda>(buf', n). Inr (buf', decimal_exponent + n))))))))"

definition grisu2_scaled :: "boundaries \<Rightarrow> (nat list \<times> int) outcome" where
  "grisu2_scaled b =
     require (de (bd_plus b) = de (bd_minus b) \<and> de (bd_plus b) = de (bd_w b))
       (bindE (get_cached_power (de (bd_plus b))) (\<lambda>(f, e, k).
          let c = \<lparr>df = f, de = e\<rparr>;
              w = diyfp_mul (bd_w b) c; w_minus = diyfp_mul (bd_minus b) c; w_plus = diyfp_mul (bd_plus b) c;
              M_minus = w_minus\<lparr>df := w64 (df w_minus + 1)\<rparr>; M_plus = w_plus\<lparr>df := w64 (df w_plus + (2 ^ 64 - 1))\<rparr>
          in digit_gen (- k) M_minus w M_plus))"

definition grisu2 :: "f64 \<Rightarrow> (nat list \<times> int) outcome" where
  "grisu2 value =
     require (is_finite value \<and> flt (f64_zero False) value) (bindE (compute_boundaries value) grisu2_scaled)"

subsection \<open>Layout\<close>

definition append_exponent :: "int \<Rightarrow> string outcome" where
  "append_exponent e =
     require (- 1000 < e \<and> e < 1000)
       (let k = nat \<bar>e\<bar>; sign = (if e < 0 then CHR ''-'' else CHR ''+'')
        in Inr (sign # (if k < 10 then [CHR ''0'', digit_char k]
                        else if k < 100 then [digit_char (k div 10), digit_char (k mod 10)]
                        else [digit_char (k div 100), digit_char (k mod 100 div 10), digit_char (k mod 100 mod 10)])))"

definition format_buffer :: "string \<Rightarrow> int \<Rightarrow> int \<Rightarrow> int \<Rightarrow> string outcome" where
  "format_buffer buf decimal_exponent min_exp max_exp =
     require (min_exp < 0 \<and> 0 < max_exp)
       (let k = int (length buf); n = k + decimal_exponent
        in if k \<le> n \<and> n \<le> max_exp then Inr (buf @ replicate (nat (n - k)) (CHR ''0'') @ ''.0'')
           else if 0 < n \<and> n \<le> max_exp then Inr (take (nat n) buf @ ''.'' @ drop (nat n) buf)
           else if min_exp < n \<and> n \<le> 0 then Inr (''0.'' @ replicate (nat (- n)) (CHR ''0'') @ buf)
           else bindE (append_exponent (n - 1))
                  (\<lambda>ex. Inr ((if k = 1 then buf else take 1 buf @ ''.'' @ drop 1 buf) @ ''e'' @ ex)))"

definition to_chars :: "f64 \<Rightarrow> string outcome" where
  "to_chars value =
     require (is_finite value)
       (let neg = (case value of Fin s m e \<Rightarrow> s | _ \<Rightarrow> False);
            sign = (if neg then ''-'' else []);
            v = (if neg then fneg value else value)
        in if feq v (f64_zero False) then Inr (sign @ ''0.0'')
           else bindE (grisu2 v) (\<lambda>(digits, dexp).
                require (length digits \<le> 17)
                  (bindE (format_buffer (map digit_char digits) dexp (- 4) 15) (\<lambda>t. Inr (sign @ t)))))"

end
