(* ===== verification/Grisu_Powers.thy ===== *)
theory Grisu_Powers
  imports Grisu
begin

text \<open>
  The table of cached powers of ten: every entry is normalized and is the correctly rounded power it
  stands for, and for every binary exponent a double can have the entry that is picked brings the
  product into the range the digit generation needs.  The powers of five are carried along the table,
  so that each is one multiplication.
\<close>

definition close_to :: "nat \<Rightarrow> nat \<Rightarrow> nat \<Rightarrow> bool" where
  "close_to x y d \<longleftrightarrow> x \<le> y + d \<and> y \<le> x + d"

fun negative_chain :: "nat \<Rightarrow> int \<Rightarrow> (nat \<times> int \<times> int) list \<Rightarrow> bool" where
  "negative_chain P k0 [] = True"
| "negative_chain P k0 ((f, e, k) # cs) =
     (k = k0 \<and> 2 ^ 63 \<le> f \<and> f < 2 ^ 64 \<and> e \<le> k \<and> close_to (2 * (f * P)) (2 * 2 ^ nat (k - e)) P
      \<and> negative_chain (P * 390625) (k0 - 8) cs)"

fun positive_chain :: "nat \<Rightarrow> int \<Rightarrow> (nat \<times> int \<times> int) list \<Rightarrow> bool" where
  "positive_chain P k0 [] = True"
| "positive_chain P k0 ((f, e, k) # cs) =
     (k = k0 \<and> 2 ^ 63 \<le> f \<and> f < 2 ^ 64
      \<and> close_to (2 * (f * 2 ^ nat (e - k))) (2 * (P * 2 ^ nat (k - e))) (2 ^ nat (e - k))
      \<and> positive_chain (P * 390625) (k0 + 8) cs)"

lemma negative_checked_1: "negative_chain (5 ^ 4) (- 4) (rev (take 20 (drop 18 cached_powers)))"
  by (simp add: cached_powers_def close_to_def)

lemma negative_checked_2: "negative_chain (5 ^ 164) (- 164) (rev (take 9 (drop 9 cached_powers)))"
  by (simp add: cached_powers_def close_to_def)

lemma negative_checked_3: "negative_chain (5 ^ 236) (- 236) (rev (take 9 cached_powers))"
  by (simp add: cached_powers_def close_to_def)

lemma positive_checked_1: "positive_chain (5 ^ 4) 4 (take 21 (drop 38 cached_powers))"
  by (simp add: cached_powers_def close_to_def)

lemma positive_checked_2: "positive_chain (5 ^ 172) 172 (take 10 (drop 59 cached_powers))"
  by (simp add: cached_powers_def close_to_def)

lemma positive_checked_3: "positive_chain (5 ^ 252) 252 (drop 69 cached_powers)"
  by (simp add: cached_powers_def close_to_def)

text \<open>What a table entry is worth.\<close>

definition power_entry :: "nat \<times> int \<times> int \<Rightarrow> bool" where
  "power_entry c \<longleftrightarrow>
     (case c of (f, e, k) \<Rightarrow>
        2 ^ 63 \<le> f \<and> f < 2 ^ 64 \<and> \<bar>real f * 2 powi e - 10 powi k\<bar> \<le> 2 powi e / 2)"

lemma ten_powi: "(10 :: real) powi k = 2 powi k * 5 powi k"
  by (simp flip: power_int_mult_distrib)

lemma power_entryI:
  assumes "2 ^ 63 \<le> f" "f < 2 ^ 64" "\<bar>2 * (real f * 2 powi e) - 2 * 10 powi k\<bar> \<le> 2 powi e"
  shows "power_entry (f, e, k)"
proof -
  have "\<bar>2 * x - 2 * y\<bar> \<le> d \<Longrightarrow> \<bar>x - y\<bar> \<le> d / 2" for x y d :: real by linarith
  then show ?thesis using assms unfolding power_entry_def by blast
qed

lemma close_to_real: "close_to x y d \<Longrightarrow> \<bar>real x - real y\<bar> \<le> real d"
  unfolding close_to_def by linarith

lemma negative_entries:
  "negative_chain P k0 cs \<Longrightarrow> k0 < 0 \<Longrightarrow> P = 5 ^ nat (- k0) \<Longrightarrow> \<forall>c \<in> set cs. power_entry c"
proof (induction P k0 cs rule: negative_chain.induct)
  case (2 P k0 f e k cs)
  have k: "k = k0" "2 ^ 63 \<le> f" "f < 2 ^ 64" "e \<le> k" "close_to (2 * (f * P)) (2 * 2 ^ nat (k - e)) P"
    "negative_chain (P * 390625) (k0 - 8) cs" using 2(2) by auto
  have P: "real P = 5 powi (- k)" using k(1) 2(3,4) by (simp add: power_int_def)
  have d: "(2::real) ^ nat (k - e) = 2 powi (k - e)" using k(4) by (simp add: power_int_def)
  have "\<bar>2 * (real f * real P) - 2 * 2 powi (k - e)\<bar> \<le> real P"
    using close_to_real [OF k(5)] d by simp
  then have "\<bar>2 * (real f * real P) - 2 * 2 powi (k - e)\<bar> * (2 powi e * 5 powi k) \<le> real P * (2 powi e * 5 powi k)"
    by (rule mult_right_mono) simp
  moreover have "\<bar>2 * (real f * real P) - 2 * 2 powi (k - e)\<bar> * (2 powi e * 5 powi k)
      = \<bar>2 * (real f * 2 powi e) - 2 * 10 powi k\<bar>"
  proof -
    have "\<bar>2 * (real f * real P) - 2 * 2 powi (k - e)\<bar> * (2 powi e * 5 powi k)
        = \<bar>(2 * (real f * real P) - 2 * 2 powi (k - e)) * (2 powi e * 5 powi k)\<bar>"
      by (simp add: abs_mult)
    also have "(2 * (real f * real P) - 2 * 2 powi (k - e)) * (2 powi e * 5 powi k)
        = 2 * (real f * 2 powi e) - 2 * 10 powi k"
      unfolding P ten_powi using powi_add [of e "k - e"] by (simp add: power_int_minus field_simps)
    finally show ?thesis .
  qed
  moreover have "real P * (2 powi e * 5 powi k) = 2 powi e" unfolding P by (simp add: power_int_minus)
  ultimately have "\<bar>2 * (real f * 2 powi e) - 2 * 10 powi k\<bar> \<le> 2 powi e" by (simp only:)
  then have "power_entry (f, e, k)" by (rule power_entryI [OF k(2,3)])
  moreover have "P * 390625 = 5 ^ nat (- (k0 - 8))"
  proof -
    have "nat (- (k0 - 8)) = nat (- k0) + 8" using 2(3) by simp
    then show ?thesis using 2(4) by (simp add: power_add)
  qed
  ultimately show ?case using 2(1) k(1-4) 2(3) k(5,6) by simp
qed simp

lemma positive_entries:
  "positive_chain P k0 cs \<Longrightarrow> 0 \<le> k0 \<Longrightarrow> P = 5 ^ nat k0 \<Longrightarrow> \<forall>c \<in> set cs. power_entry c"
proof (induction P k0 cs rule: positive_chain.induct)
  case (2 P k0 f e k cs)
  have k: "k = k0" "2 ^ 63 \<le> f" "f < 2 ^ 64"
    "close_to (2 * (f * 2 ^ nat (e - k))) (2 * (P * 2 ^ nat (k - e))) (2 ^ nat (e - k))"
    "positive_chain (P * 390625) (k0 + 8) cs" using 2(2) by auto
  have P: "real P = 5 powi k" using k(1) 2(3,4) by (simp add: power_int_def)
  let ?u = "2 powi e / 2 ^ nat (e - k) :: real"
  have u: "2 powi e = ?u * 2 ^ nat (e - k)" "2 powi k = ?u * 2 ^ nat (k - e)"
    using pow2_split [of "e - k"] powi_add [of k "e - k"] by (simp_all add: field_simps)
  have "\<bar>2 * (real f * 2 ^ nat (e - k)) - 2 * (real P * 2 ^ nat (k - e))\<bar> \<le> 2 ^ nat (e - k)"
    using close_to_real [OF k(4)] by simp
  then have "\<bar>2 * (real f * 2 ^ nat (e - k)) - 2 * (real P * 2 ^ nat (k - e))\<bar> * ?u \<le> 2 ^ nat (e - k) * ?u"
    by (rule mult_right_mono) simp
  then have "\<bar>(2 * (real f * 2 ^ nat (e - k)) - 2 * (real P * 2 ^ nat (k - e))) * ?u\<bar> \<le> 2 ^ nat (e - k) * ?u"
    unfolding abs_mult by simp
  moreover have "(2 * (real f * 2 ^ nat (e - k)) - 2 * (real P * 2 ^ nat (k - e))) * ?u
      = 2 * (real f * (?u * 2 ^ nat (e - k))) - 2 * ((?u * 2 ^ nat (k - e)) * real P)"
    by (simp only: algebra_simps)
  moreover have "2 ^ nat (e - k) * ?u = ?u * 2 ^ nat (e - k)" by (rule mult.commute)
  ultimately have "\<bar>2 * (real f * 2 powi e) - 2 * 10 powi k\<bar> \<le> 2 powi e"
    unfolding u(1,2) [symmetric] ten_powi P by (simp only:)
  then have "power_entry (f, e, k)" by (rule power_entryI [OF k(2,3)])
  moreover have "P * 390625 = 5 ^ nat (k0 + 8)"
  proof -
    have "nat (k0 + 8) = nat k0 + 8" using 2(3) by simp
    then show ?thesis using 2(4) by (simp add: power_add)
  qed
  ultimately show ?case using 2(1) k 2(3) by simp
qed simp

lemma cached_powers_length: "length cached_powers = 79"
  by (simp add: cached_powers_def)

lemma cached_powers_all: "\<forall>c \<in> set cached_powers. power_entry c"
proof -
  have join: "\<forall>c \<in> set (take n (drop m cs)). power_entry c \<Longrightarrow> \<forall>c \<in> set (drop (n + m) cs). power_entry c \<Longrightarrow>
      \<forall>c \<in> set (drop m cs). power_entry c" for n m cs
    by (metis Un_iff append_take_drop_id drop_drop set_append)
  have p: "\<forall>c \<in> set (take 21 (drop 38 cached_powers)). power_entry c"
    by (rule positive_entries [OF positive_checked_1]) simp_all
  have p': "\<forall>c \<in> set (take 10 (drop 59 cached_powers)). power_entry c"
    by (rule positive_entries [OF positive_checked_2]) simp_all
  have p'': "\<forall>c \<in> set (drop 69 cached_powers). power_entry c"
    by (rule positive_entries [OF positive_checked_3]) simp_all
  have n: "\<forall>c \<in> set (take 20 (drop 18 cached_powers)). power_entry c"
    using negative_entries [OF negative_checked_1] by simp
  have n': "\<forall>c \<in> set (take 9 (drop 9 cached_powers)). power_entry c"
    using negative_entries [OF negative_checked_2] by simp
  have n'': "\<forall>c \<in> set (take 9 cached_powers). power_entry c"
    using negative_entries [OF negative_checked_3] by simp
  have "\<forall>c \<in> set (drop 59 cached_powers). power_entry c"
    by (rule join [of 10 59, OF p']) (use p'' in simp)
  then have "\<forall>c \<in> set (drop (21 + 38) cached_powers). power_entry c" by simp
  then have "\<forall>c \<in> set (drop 38 cached_powers). power_entry c" by (rule join [OF p])
  then have "\<forall>c \<in> set (drop (20 + 18) cached_powers). power_entry c" by simp
  then have "\<forall>c \<in> set (drop 18 cached_powers). power_entry c" by (rule join [OF n])
  then have "\<forall>c \<in> set (drop (9 + 9) cached_powers). power_entry c" by simp
  then have "\<forall>c \<in> set (drop 9 cached_powers). power_entry c" by (rule join [OF n'])
  then have "\<forall>c \<in> set (drop (9 + 0) cached_powers). power_entry c" by simp
  then have "\<forall>c \<in> set (drop 0 cached_powers). power_entry c" by (rule join [rotated]) (use n'' in simp)
  then show ?thesis by simp
qed

text \<open>Every entry of the table has a significand of exactly 64 bits and is the power of ten it claims to
  be, to within half a unit of that significand: no entry of the table is mistyped, and each is
  rounded correctly.\<close>

theorem cached_powers_entries: "list_all power_entry cached_powers"
  using cached_powers_all by (simp only: list_all_iff)

end
