(* ===== verification/Grisu_Scale.thy ===== *)
theory Grisu_Scale
  imports Grisu_Powers F64_Real
begin

text \<open>
  The scaling step of Grisu2: the boundaries of a double in units of a common power of two, the
  rounded 64-bit product, and the choice of the cached power.  None of the assertions on the way fails,
  and the scaled boundaries, moved one unit inwards, lie strictly inside the exact ones.
\<close>

subsection \<open>The rounded product\<close>

lemma carry:
  fixes p0 p1 p2 p3 q :: nat
  assumes "p1 = h1 * 2 ^ 32 + l1" "p2 = h2 * 2 ^ 32 + l2" "p0 = h0 * 2 ^ 32 + l0" "q = qh * 2 ^ 32 + ql"
    "q = h0 + l1 + l2 + 2 ^ 31"
  shows "p0 + 2 ^ 32 * p1 + 2 ^ 32 * p2 + 2 ^ 64 * p3 + 2 ^ 63 = (p3 + h2 + h1 + qh) * 2 ^ 64 + (ql * 2 ^ 32 + l0)"
  using assms by simp

lemma mul_halves:
  fixes a0 a1 b0 b1 :: nat
  assumes "a0 < 2 ^ 32" "b0 < 2 ^ 32" "a1 < 2 ^ 32" "b1 < 2 ^ 32"
  defines "q' \<equiv> a0 * b0 div 2 ^ 32 + a0 * b1 mod 2 ^ 32 + a1 * b0 mod 2 ^ 32 + 2 ^ 31"
  shows "a1 * b1 + a1 * b0 div 2 ^ 32 + a0 * b1 div 2 ^ 32 + q' div 2 ^ 32
     = ((a0 + 2 ^ 32 * a1) * (b0 + 2 ^ 32 * b1) + 2 ^ 63) div 2 ^ 64"
proof -
  define h where "h = a1 * b1 + a1 * b0 div 2 ^ 32 + a0 * b1 div 2 ^ 32 + q' div 2 ^ 32"
  let ?r = "q' mod 2 ^ 32 * 2 ^ 32 + a0 * b0 mod 2 ^ 32"
  have "(a0 + 2 ^ 32 * a1) * (b0 + 2 ^ 32 * b1)
      = a0 * b0 + 2 ^ 32 * (a0 * b1) + 2 ^ 32 * (a1 * b0) + 2 ^ 64 * (a1 * b1)"
    by (simp add: algebra_simps)
  then have "(a0 + 2 ^ 32 * a1) * (b0 + 2 ^ 32 * b1) + 2 ^ 63 = h * 2 ^ 64 + ?r"
    using carry [OF div_mult_mod_eq [symmetric] div_mult_mod_eq [symmetric] div_mult_mod_eq [symmetric]
      div_mult_mod_eq [symmetric] q'_def [THEN meta_eq_to_obj_eq], of "a1 * b1"]
    unfolding h_def by simp
  moreover have "?r < 2 ^ 64"
  proof -
    have "q' mod 2 ^ 32 < 2 ^ 32" "a0 * b0 mod 2 ^ 32 < 2 ^ 32" by simp_all
    then show ?thesis by simp
  qed
  ultimately show ?thesis unfolding h_def [symmetric] by simp
qed

lemma diyfp_mul_value:
  assumes "df x < 2 ^ 64" "df y < 2 ^ 64"
  shows "diyfp_mul x y = \<lparr>df = (df x * df y + 2 ^ 63) div 2 ^ 64, de = de x + de y + 64\<rparr>"
proof -
  define a0 a1 b0 b1 where d: "a0 = df x mod 2 ^ 32" "a1 = df x div 2 ^ 32" "b0 = df y mod 2 ^ 32" "b1 = df y div 2 ^ 32"
  have s: "df x = a0 + 2 ^ 32 * a1" "df y = b0 + 2 ^ 32 * b1" by (simp_all add: d)
  have b: "a0 < 2 ^ 32" "b0 < 2 ^ 32" "a1 < 2 ^ 32" "b1 < 2 ^ 32"
    using assms by (simp_all add: d less_mult_imp_div_less)
  have p: "u * v < 2 ^ 64" if "u < 2 ^ 32" "v < 2 ^ 32" for u v :: nat
    using mult_strict_mono' [OF that] by simp
  have q: "a0 * b0 div 2 ^ 32 < 2 ^ 32" using p [OF b(1,2)] by (simp add: less_mult_imp_div_less)
  let ?q = "a0 * b0 div 2 ^ 32 + a0 * b1 mod 2 ^ 32 + a1 * b0 mod 2 ^ 32"
  have q': "?q < 3 * 2 ^ 32" using q mod_less_divisor [of "2 ^ 32" "a0 * b1"] mod_less_divisor [of "2 ^ 32" "a1 * b0"] by simp
  let ?h = "a1 * b1 + a1 * b0 div 2 ^ 32 + a0 * b1 div 2 ^ 32 + (?q + 2 ^ 31) div 2 ^ 32"
  have h: "?h = (df x * df y + 2 ^ 63) div 2 ^ 64" unfolding s by (rule mul_halves [OF b])
  have "df x * df y \<le> (2 ^ 64 - 1) * (2 ^ 64 - 1)" using assms by (intro mult_mono) simp_all
  then have hb: "?h < 2 ^ 64" unfolding h by (simp add: less_mult_imp_div_less)
  have "w64 ?q = ?q" "w64 (?q + 2 ^ 31) = ?q + 2 ^ 31" "w64 ?h = ?h"
    using q' hb by (simp_all add: w64_def)
  moreover have "w64 (a0 * b0) = a0 * b0" "w64 (a0 * b1) = a0 * b1" "w64 (a1 * b0) = a1 * b0" "w64 (a1 * b1) = a1 * b1"
    using p b by (simp_all add: w64_def)
  ultimately show ?thesis
    unfolding diyfp_mul_def Let_def d [symmetric] h [symmetric] by simp
qed

text \<open>Against the exact product.\<close>

definition scaled :: "nat \<Rightarrow> nat \<Rightarrow> nat" where
  "scaled c x = (x * c + 2 ^ 63) div 2 ^ 64"

lemma scaled_bounds:
  "real x * real c \<le> 2 ^ 64 * (real (scaled c x) + 1 / 2)"
  "2 ^ 64 * (real (scaled c x) - 1 / 2) \<le> real x * real c"
proof -
  let ?n = "x * c + 2 ^ 63"
  have "?n = scaled c x * 2 ^ 64 + ?n mod 2 ^ 64" unfolding scaled_def by simp
  moreover have "?n mod 2 ^ 64 < 2 ^ 64" by simp
  ultimately have "scaled c x * 2 ^ 64 \<le> ?n" "?n < scaled c x * 2 ^ 64 + 2 ^ 64" by linarith+
  then have "real (scaled c x * 2 ^ 64) \<le> real ?n" "real ?n \<le> real (scaled c x * 2 ^ 64 + 2 ^ 64)"
    by (simp_all only: of_nat_le_iff less_imp_le)
  then show "real x * real c \<le> 2 ^ 64 * (real (scaled c x) + 1 / 2)"
    "2 ^ 64 * (real (scaled c x) - 1 / 2) \<le> real x * real c"
    by simp_all
qed

subsection \<open>Normalization\<close>

lemma normalize_loop_value:
  "0 < f \<Longrightarrow> f < 2 ^ 64 \<Longrightarrow>
     \<exists>s. normalize_loop f e = \<lparr>df = f * 2 ^ s, de = e - int s\<rparr> \<and> 2 ^ 63 \<le> f * 2 ^ s \<and> f * 2 ^ s < 2 ^ 64"
proof (induction f e rule: normalize_loop.induct)
  case (1 f e)
  show ?case
  proof (cases "f < 2 ^ 63")
    case True
    then have c: "0 < f \<and> f div 2 ^ 63 = 0" using 1(2) by simp
    have w: "w64 (f * 2) = f * 2" using True by (simp add: w64_def)
    have "f * 2 < 2 ^ 64" using True by simp
    then obtain s where "normalize_loop (f * 2) (e - 1) = \<lparr>df = f * 2 * 2 ^ s, de = e - 1 - int s\<rparr>"
        "2 ^ 63 \<le> f * 2 * 2 ^ s" "f * 2 * 2 ^ s < 2 ^ 64"
      using 1(1) [OF c] 1(2) unfolding w by auto
    then show ?thesis
      by (intro exI [of _ "Suc s"]) (use c w in \<open>simp add: normalize_loop.simps [of f e] mult.assoc\<close>)
  next
    case False
    then have "f div 2 ^ 63 \<noteq> 0" by (simp add: div_eq_0_iff)
    then show ?thesis
      using False 1(3) by (intro exI [of _ 0]) (simp add: normalize_loop.simps [of f e])
  qed
qed

lemma shift_unique:
  fixes f :: nat
  assumes "2 ^ 63 \<le> f * 2 ^ s" "f * 2 ^ s < 2 ^ 64" "2 ^ 63 \<le> f * 2 ^ t" "f * 2 ^ t < 2 ^ 64"
  shows "s = t"
proof -
  have no: False if "i < j" "2 ^ 63 \<le> f * 2 ^ i" "f * 2 ^ j < 2 ^ 64" for i j :: nat
  proof -
    have "(2 :: nat) ^ Suc i \<le> 2 ^ j" using that(1) by (intro power_increasing) auto
    then have "f * 2 ^ Suc i \<le> f * 2 ^ j" by simp
    moreover have "f * 2 ^ Suc i = 2 * (f * 2 ^ i)" by simp
    moreover have "2 * 2 ^ 63 = (2 :: nat) ^ 64" by simp
    ultimately show False using that(2,3) by linarith
  qed
  show ?thesis using no [of s t] no [of t s] assms by (cases s t rule: linorder_cases) auto
qed

lemma normalize_to_value:
  assumes "df x * 2 ^ n < 2 ^ 64" "de x = E + int n"
  shows "normalize_to x E = Inr \<lparr>df = df x * 2 ^ n, de = E\<rparr>"
  using assms by (simp add: normalize_to_def w64_def)

subsection \<open>Boundaries\<close>

lemma f64_bits_split:
  assumes "f64_ok (Fin False m e)"
  defines "bts \<equiv> f64_bits (Fin False m e)"
  shows "(if bts div 2 ^ 52 = 0 then \<lparr>df = bts mod 2 ^ 52, de = - 1074\<rparr>
          else \<lparr>df = bts mod 2 ^ 52 + 2 ^ 52, de = int (bts div 2 ^ 52) - 1075\<rparr>) = \<lparr>df = m, de = e\<rparr>"
    "bts mod 2 ^ 52 = 0 \<and> 1 < bts div 2 ^ 52 \<longleftrightarrow> m = 2 ^ 52 \<and> - 1074 < e \<or> m = 0 \<and> 1 < bts div 2 ^ 52"
proof -
  have m: "m < 2 ^ 53" "e = - 1074 \<or> 2 ^ 52 \<le> m" "- 1074 \<le> e" using assms(1) by auto
  have "bts div 2 ^ 52 = (if m < 2 ^ 52 then 0 else nat (e + 1075))" "bts mod 2 ^ 52 = (if m < 2 ^ 52 then m else m - 2 ^ 52)"
  proof -
    have "bts div 2 ^ 52 = nat (e + 1075) \<and> bts mod 2 ^ 52 = m - 2 ^ 52" if big: "2 ^ 52 \<le> m"
    proof -
      obtain r where r: "m = 2 ^ 52 + r" using big by (auto simp: le_iff_add)
      then have "bts = r + nat (e + 1075) * 2 ^ 52" by (simp add: bts_def)
      moreover have "r < 2 ^ 52" using m(1) r by simp
      ultimately show ?thesis using r by simp
    qed
    then show "bts div 2 ^ 52 = (if m < 2 ^ 52 then 0 else nat (e + 1075))"
      "bts mod 2 ^ 52 = (if m < 2 ^ 52 then m else m - 2 ^ 52)"
      using m(1) by (auto simp: bts_def)
  qed
  then show "(if bts div 2 ^ 52 = 0 then \<lparr>df = bts mod 2 ^ 52, de = - 1074\<rparr>
          else \<lparr>df = bts mod 2 ^ 52 + 2 ^ 52, de = int (bts div 2 ^ 52) - 1075\<rparr>) = \<lparr>df = m, de = e\<rparr>"
    "bts mod 2 ^ 52 = 0 \<and> 1 < bts div 2 ^ 52 \<longleftrightarrow> m = 2 ^ 52 \<and> - 1074 < e \<or> m = 0 \<and> 1 < bts div 2 ^ 52"
    using m(2,3) by auto
qed

text \<open>In units of \<open>2 powi (e - 1 - s)\<close>: the distance of the lower boundary.\<close>

definition lower_gap :: "nat \<Rightarrow> int \<Rightarrow> nat \<Rightarrow> nat" where
  "lower_gap m e s = (if m = 2 ^ 52 \<and> - 1074 < e then 2 ^ (s - 1) else 2 ^ s)"

lemma shift_bounds:
  assumes "f64_ok (Fin False m e)" "0 < m" "2 ^ 63 \<le> (2 * m + 1) * 2 ^ s" "(2 * m + 1) * 2 ^ s < (2 :: nat) ^ 64"
  shows "10 \<le> s" "- 1137 \<le> e - 1 - int s" "e - 1 - int s \<le> 960" "2 ^ 52 \<le> m \<Longrightarrow> s = 10"
proof -
  have m: "m < 2 ^ 53" "e = - 1074 \<or> 2 ^ 52 \<le> m" "- 1074 \<le> e" "e \<le> 971" using assms(1) by auto
  show s: "10 \<le> s"
  proof (rule ccontr)
    assume "\<not> 10 \<le> s"
    then have "(2 :: nat) ^ s \<le> 2 ^ 9" by (intro power_increasing) auto
    then have "(2 * m + 1) * 2 ^ s \<le> (2 ^ 54 - 1) * 2 ^ 9" using m(1) by (intro mult_mono) auto
    then show False using assms(3) by simp
  qed
  show n: "s = 10" if "2 ^ 52 \<le> m"
    using shift_unique [of "2 * m + 1" s 10] assms(3,4) that m(1) by simp
  have "s \<le> 62"
  proof (rule ccontr)
    assume "\<not> s \<le> 62"
    then have "(2 :: nat) ^ 63 \<le> 2 ^ s" by (intro power_increasing) auto
    then have "2 * (2 :: nat) ^ 63 \<le> (2 * m + 1) * 2 ^ s" using assms(2) by (intro mult_mono) auto
    then show False using assms(4) by simp
  qed
  then show "- 1137 \<le> e - 1 - int s" "e - 1 - int s \<le> 960" using m s n by (auto intro: ccontr)
qed

lemma compute_boundaries_value:
  assumes "f64_ok (Fin False m e)" "0 < m"
  shows "\<exists>s. 2 ^ 63 \<le> (2 * m + 1) * 2 ^ s \<and> (2 * m + 1) * 2 ^ s < (2 :: nat) ^ 64 \<and>
     compute_boundaries (Fin False m e) =
       Inr \<lparr>bd_w = \<lparr>df = 2 * m * 2 ^ s, de = e - 1 - int s\<rparr>,
            bd_minus = \<lparr>df = 2 * m * 2 ^ s - lower_gap m e s, de = e - 1 - int s\<rparr>,
            bd_plus = \<lparr>df = (2 * m + 1) * 2 ^ s, de = e - 1 - int s\<rparr>\<rparr>"
proof -
  have m: "m < 2 ^ 53" using assms(1) by simp
  then have p: "0 < 2 * m + 1" "2 * m + 1 < 2 ^ 64" by simp_all
  obtain s where s: "normalize_loop (2 * m + 1) (e - 1) = \<lparr>df = (2 * m + 1) * 2 ^ s, de = e - 1 - int s\<rparr>"
      "2 ^ 63 \<le> (2 * m + 1) * 2 ^ s" "(2 * m + 1) * 2 ^ s < 2 ^ 64"
    using normalize_loop_value [OF p, of "e - 1"] by auto
  note b = shift_bounds [OF assms s(2,3)]
  obtain t where t: "normalize_loop m e = \<lparr>df = m * 2 ^ t, de = e - int t\<rparr>" "2 ^ 63 \<le> m * 2 ^ t" "m * 2 ^ t < 2 ^ 64"
    using normalize_loop_value [of m e] assms(2) m by auto
  have "2 ^ 63 \<le> m * 2 ^ Suc s" "m * 2 ^ Suc s < 2 ^ 64"
  proof -
    show "m * 2 ^ Suc s < 2 ^ 64" using s(3) by (simp add: algebra_simps)
    have "s \<le> 62"
    proof (rule ccontr)
      assume "\<not> s \<le> 62"
      then have "(2 :: nat) ^ 63 \<le> 2 ^ s" by (intro power_increasing) auto
      then have "2 * (2 :: nat) ^ 63 \<le> (2 * m + 1) * 2 ^ s" using assms(2) by (intro mult_mono) auto
      then show False using s(3) by simp
    qed
    then obtain k where k: "63 = s + Suc k" using less_imp_Suc_add [of s 63] by auto
    have "2 ^ s * (2 * 2 ^ k) \<le> (2 ^ s :: nat) * (2 * m + 1)"
      using s(2) unfolding k by (simp add: power_add mult_ac)
    then have "2 * 2 ^ k \<le> 2 * m + 1" by (subst (asm) nat_mult_le_cancel1) simp_all
    then have "2 ^ k \<le> m" by presburger
    then have "2 ^ s * (2 * 2 ^ k) \<le> 2 ^ s * (2 * m)" by simp
    then show "2 ^ 63 \<le> m * 2 ^ Suc s" unfolding k by (simp add: power_add mult_ac)
  qed
  then have ts: "t = Suc s" using shift_unique [OF t(2,3)] by blast
  have minus: "normalize_to (if m = 2 ^ 52 \<and> - 1074 < e then \<lparr>df = 4 * m - 1, de = e - 2\<rparr>
      else \<lparr>df = 2 * m - 1, de = e - 1\<rparr>) (e - 1 - int s) =
      Inr \<lparr>df = 2 * m * 2 ^ s - lower_gap m e s, de = e - 1 - int s\<rparr>"
  proof (cases "m = 2 ^ 52 \<and> - 1074 < e")
    case True
    then have "s = 10" using b(4) by simp
    then show ?thesis using True normalize_to_value [of "\<lparr>df = 4 * m - 1, de = e - 2\<rparr>" 9 "e - 1 - int s"]
      by (simp add: lower_gap_def)
  next
    case False
    have e: "(2 * m - 1) * 2 ^ s = 2 * m * 2 ^ s - 2 ^ s" by (simp add: diff_mult_distrib)
    have "2 * m * 2 ^ s - 2 ^ s < 2 ^ 64" using s(3) by (simp add: algebra_simps)
    moreover have "lower_gap m e s = 2 ^ s" using False by (auto simp: lower_gap_def)
    ultimately show ?thesis
      using normalize_to_value [of "\<lparr>df = 2 * m - 1, de = e - 1\<rparr>" s "e - 1 - int s"] e
      unfolding if_not_P [OF False] by simp
  qed
  have plus: "normalize_fp \<lparr>df = 2 * m + 1, de = e - 1\<rparr> = Inr \<lparr>df = (2 * m + 1) * 2 ^ s, de = e - 1 - int s\<rparr>"
    unfolding normalize_fp_def using s(1) by simp
  have val: "normalize_fp \<lparr>df = m, de = e\<rparr> = Inr \<lparr>df = 2 * m * 2 ^ s, de = e - 1 - int s\<rparr>"
    unfolding normalize_fp_def using t(1) ts assms(2) by simp
  have pos: "flt (f64_zero False) (Fin False m e)" using assms(2) by (simp add: f64_zero_def signed_mant_def)
  note v = f64_bits_split [OF assms(1)]
  have "compute_boundaries (Fin False m e) =
      bindE (normalize_fp \<lparr>df = 2 * m + 1, de = e - 1\<rparr>) (\<lambda>w_plus.
      bindE (normalize_to (if m = 2 ^ 52 \<and> - 1074 < e then \<lparr>df = 4 * m - 1, de = e - 2\<rparr>
             else \<lparr>df = 2 * m - 1, de = e - 1\<rparr>) (de w_plus)) (\<lambda>w_minus.
      bindE (normalize_fp \<lparr>df = m, de = e\<rparr>) (\<lambda>w. Inr \<lparr>bd_w = w, bd_minus = w_minus, bd_plus = w_plus\<rparr>)))"
    using pos assms(2) unfolding compute_boundaries_def Let_def v by simp
  then have "compute_boundaries (Fin False m e) =
       Inr \<lparr>bd_w = \<lparr>df = 2 * m * 2 ^ s, de = e - 1 - int s\<rparr>,
            bd_minus = \<lparr>df = 2 * m * 2 ^ s - lower_gap m e s, de = e - 1 - int s\<rparr>,
            bd_plus = \<lparr>df = (2 * m + 1) * 2 ^ s, de = e - 1 - int s\<rparr>\<rparr>"
    by (simp only: plus val minus bindE.simps diyfp.simps)
  then show ?thesis using s(2,3) by blast
qed

subsection \<open>The cached power\<close>

lemma cdiv_pos: "0 < b \<Longrightarrow> cdiv a b = (if 0 \<le> a then a div b else - (- a div b))"
  by (auto simp: cdiv_def sgn_if)

lemma cdiv_mono: "0 < b \<Longrightarrow> a \<le> a' \<Longrightarrow> cdiv a b \<le> cdiv a' b"
  using zdiv_mono1 [of a a' b] zdiv_mono1 [of "- a'" "- a" b] pos_imp_zdiv_nonneg_iff [of b "- a"]
    pos_imp_zdiv_nonneg_iff [of b a']
  by (auto simp: cdiv_pos)

definition power_index :: "int \<Rightarrow> int" where
  "power_index e =
     (let f = - 60 - e - 1;
          k = cdiv (f * 78913) (2 ^ 18) + (if 0 < f then 1 else 0)
      in cdiv (300 + k + 7) 8)"

lemma power_index_mono: "e \<le> e' \<Longrightarrow> power_index e' \<le> power_index e"
  unfolding power_index_def Let_def
  by (intro cdiv_mono add_mono) auto

fun entries_fit :: "int \<Rightarrow> (nat \<times> int \<times> int) list \<Rightarrow> bool" where
  "entries_fit i [] = True"
| "entries_fit i ((f, e, k) # cs) =
     ((960 < - 32 - 64 - e + 1 \<or> power_index (- 32 - 64 - e + 1) < i)
      \<and> (- 60 - 64 - e - 1 < - 1137 \<or> i < power_index (- 60 - 64 - e - 1)) \<and> entries_fit (i + 1) cs)"

lemma entries_fit_nth:
  "entries_fit i cs \<Longrightarrow> j < length cs \<Longrightarrow> cs ! j = (f, ec, k) \<Longrightarrow> power_index e = i + int j \<Longrightarrow>
     - 1137 \<le> e \<Longrightarrow> e \<le> 960 \<Longrightarrow> - 60 \<le> ec + e + 64 \<and> ec + e + 64 \<le> - 32"
proof (induction i cs arbitrary: j rule: entries_fit.induct)
  case (2 i f' e' k' cs)
  show ?case
  proof (cases j)
    case 0
    then have "960 < - 32 - 64 - ec + 1 \<or> power_index (- 32 - 64 - ec + 1) < power_index e"
      "- 60 - 64 - ec - 1 < - 1137 \<or> power_index e < power_index (- 60 - 64 - ec - 1)"
      using 2(2-5) by auto
    then show ?thesis
      using 2(6,7) power_index_mono [of "- 32 - 64 - ec + 1" e] power_index_mono [of e "- 60 - 64 - ec - 1"] by linarith
  next
    case (Suc j')
    then show ?thesis using 2(1) [of j'] 2(2-7) by auto
  qed
qed simp

lemma entries_checked: "entries_fit 0 cached_powers"
  by (simp add: cached_powers_def power_index_def cdiv_pos)

lemma cached_power_found:
  assumes "- 1137 \<le> e" "e \<le> 960"
  shows "\<exists>f ec k. get_cached_power e = Inr (f, ec, k) \<and> (f, ec, k) \<in> set cached_powers
     \<and> - 60 \<le> ec + e + 64 \<and> ec + e + 64 \<le> - 32"
proof -
  have "power_index 960 = 0" "power_index (- 1137) = 78" by (simp_all add: power_index_def cdiv_pos)
  then have i: "0 \<le> power_index e" "power_index e < 79"
    using power_index_mono [OF assms(1)] power_index_mono [OF assms(2)] by linarith+
  then have j: "nat (power_index e) < length cached_powers" by (simp add: cached_powers_length)
  obtain f ec k where c: "cached_powers ! nat (power_index e) = (f, ec, k)" by (cases "cached_powers ! nat (power_index e)")
  have fit: "- 60 \<le> ec + e + 64 \<and> ec + e + 64 \<le> - 32"
    using entries_fit_nth [OF entries_checked j c _ assms] i by simp
  have "get_cached_power e =
      require (- 1500 \<le> e \<and> e \<le> 1500)
       (require (0 \<le> power_index e \<and> power_index e < 79)
         (let cached = cached_powers ! nat (power_index e)
          in require (- 60 \<le> fst (snd cached) + e + 64 \<and> fst (snd cached) + e + 64 \<le> - 32) (Inr cached)))"
    unfolding get_cached_power_def power_index_def Let_def ..
  then have "get_cached_power e = Inr (f, ec, k)" using assms i fit c by simp
  moreover have "(f, ec, k) \<in> set cached_powers" using nth_mem [OF j] c by simp
  ultimately show ?thesis using fit by blast
qed

subsection \<open>The scaled boundaries\<close>

lemma scaled_less: "x < 2 ^ 64 \<Longrightarrow> c < 2 ^ 64 \<Longrightarrow> scaled c x < 2 ^ 64"
proof -
  assume "x < 2 ^ 64" "c < 2 ^ 64"
  then have "x * c \<le> (2 ^ 64 - 1) * (2 ^ 64 - 1)" by (intro mult_mono) simp_all
  then show ?thesis unfolding scaled_def by (simp add: less_mult_imp_div_less)
qed

text \<open>Two scaled numbers are apart by their distance times \<open>c\<close>, up to one.\<close>

lemma scaled_apart: "real d * real c \<le> 2 ^ 64 * (real (scaled c (x + d)) - real (scaled c x) + 1)"
  using scaled_bounds(1) [of "x + d" c] scaled_bounds(2) [of c x] by (simp add: algebra_simps)

lemma scaled_apart_nat:
  assumes "2 ^ 63 \<le> c" "2 * n + 2 \<le> d"
  shows "scaled c x + n \<le> scaled c (x + d)"
proof -
  have "2 ^ 64 * (real n + 1) = real (2 * n + 2) * 2 ^ 63" by simp
  also have "\<dots> \<le> real d * real c"
  proof (rule mult_mono)
    show "(2 :: real) ^ 63 \<le> real c" using assms(1) by (metis of_nat_le_iff of_nat_numeral of_nat_power)
  qed (use assms(2) in simp_all)
  also have "\<dots> \<le> 2 ^ 64 * (real (scaled c (x + d)) - real (scaled c x) + 1)" by (rule scaled_apart)
  finally have "real n + 1 \<le> real (scaled c (x + d)) - real (scaled c x) + 1"
    by (subst (asm) mult_le_cancel_left_pos) simp_all
  then show ?thesis by linarith
qed

lemma scaled_inside:
  assumes "x < 2 ^ 64" "\<bar>real c - l\<bar> \<le> 1 / 2"
  shows "real x * l < 2 ^ 64 * (real (scaled c x) + 1)" "2 ^ 64 * (real (scaled c x) - 1) < real x * l"
proof -
  have x: "real x < 2 ^ 64" using assms(1) by (metis of_nat_less_iff of_nat_numeral of_nat_power)
  have "\<bar>real x * real c - real x * l\<bar> = real x * \<bar>real c - l\<bar>"
    by (simp add: abs_mult flip: right_diff_distrib)
  also have "\<dots> \<le> real x * (1 / 2)" using assms(2) by (intro mult_left_mono) simp_all
  also have "\<dots> < 2 ^ 63" using x by simp
  finally have "\<bar>real x * real c - real x * l\<bar> < 2 ^ 63" .
  then show "real x * l < 2 ^ 64 * (real (scaled c x) + 1)" "2 ^ 64 * (real (scaled c x) - 1) < real x * l"
    using scaled_bounds(1) [of x c] scaled_bounds(2) [of c x] by (simp_all add: algebra_simps)
qed

text \<open>The width of the scaled interval relative to its upper end bounds the number of digits.\<close>

lemma scaled_width:
  assumes c: "2 ^ 63 \<le> c" and m: "m < 2 ^ 53" "0 < m" and s: "10 \<le> s"
    and gap: "m = 2 ^ 52 \<and> 2 * g = 2 ^ s \<or> g = 2 ^ s"
  defines "W \<equiv> 2 * m * 2 ^ s"
  shows "scaled c (W + 2 ^ s) - 1 < 10 ^ 16 * (scaled c (W + 2 ^ s) - 1 - (scaled c (W - g) + 1))"
proof -
  let ?P = "scaled c (W + 2 ^ s)" and ?Q = "scaled c (W - g)"
  have u: "(1024 :: nat) \<le> 2 ^ s" using power_increasing [OF s, of "2 :: nat"] by simp
  have g: "512 \<le> g" "g \<le> 2 ^ s" using gap u by auto
  then have gW: "g \<le> W" using m(2) unfolding W_def by (simp add: trans_le_add1 order_trans [of g "2 ^ s"])
  have e: "W + 2 ^ s = (W - g) + (2 ^ s + g)" using gW by simp
  have far: "?Q + 700 \<le> ?P" unfolding e by (rule scaled_apart_nat [OF c]) (use g u in simp)
  have cr: "(2 :: real) ^ 63 \<le> real c" using c by (metis of_nat_le_iff of_nat_numeral of_nat_power)
  have ur: "1024 \<le> (2 :: real) ^ s" using power_increasing [OF s, of "2 :: real"] by simp
  have "real (W + 2 ^ s) \<le> 10 ^ 16 * (2 ^ s + real g - 6)"
  proof -
    have w: "real (W + 2 ^ s) = (2 * real m + 1) * 2 ^ s" by (simp add: W_def algebra_simps)
    show ?thesis
    proof (cases "g = 2 ^ s")
      case True
      have "2 * real m + 1 \<le> 2 ^ 54" using m(1) by simp
      then have "(2 * real m + 1) * 2 ^ s \<le> 2 ^ 54 * 2 ^ s" by (intro mult_right_mono) simp_all
      also have "\<dots> \<le> 10 ^ 16 * (2 ^ s + real g - 6)" unfolding True using ur by simp
      finally show ?thesis unfolding w .
    next
      case False
      then have "m = 2 ^ 52" "2 * g = 2 ^ s" using gap by simp_all
      moreover from this(2) have "real (2 * g) = real (2 ^ s)" by (simp only:)
      then have "real g = 2 ^ s / 2" by simp
      ultimately show ?thesis unfolding w using ur by (simp add: field_simps)
    qed
  qed
  then have "real (W + 2 ^ s) * real c \<le> 10 ^ 16 * (2 ^ s + real g - 6) * real c" by (rule mult_right_mono) simp
  moreover have "2 ^ 64 * (real ?P - 1 / 2) \<le> real (W + 2 ^ s) * real c" by (rule scaled_bounds)
  moreover have "(2 ^ s + real g) * real c \<le> 2 ^ 64 * (real ?P - real ?Q + 1)"
    using scaled_apart [of "2 ^ s + g" c "W - g"] unfolding e by simp
  ultimately have "2 ^ 64 * (real ?P - 1 / 2) \<le> 10 ^ 16 * (2 ^ 64 * (real ?P - real ?Q - 2))"
    using cr by (simp add: algebra_simps)
  then have "real ?P - 1 < 10 ^ 16 * (real ?P - real ?Q - 2)" by simp
  moreover have "real (?P - 1) = real ?P - 1" "real (?P - 1 - (?Q + 1)) = real ?P - real ?Q - 2"
    using far by (simp_all add: of_nat_diff)
  ultimately have "real (?P - 1) < 10 ^ 16 * real (?P - 1 - (?Q + 1))" by (simp only:)
  then have "real (?P - 1) < real (10 ^ 16 * (?P - 1 - (?Q + 1)))" by simp
  then show ?thesis by (simp only: of_nat_less_iff)
qed

end
