(* ===== verification/Grisu_Digits.thy ===== *)
theory Grisu_Digits
  imports Grisu
begin

text \<open>
  Digit generation: the digits produced are those of a decimal number inside the scaled interval, the
  last one is never decremented below one, no assertion fails, the loop over the fraction ends within its
  fuel, and at most 17 digits are produced when the interval is wide enough.
\<close>

definition dval :: "nat list \<Rightarrow> nat" where
  "dval ds = foldl (\<lambda>n d. n * 10 + d) 0 ds"

lemma dval_simps [simp]: "dval [] = 0" "dval [d] = d" "dval (ds @ [d]) = dval ds * 10 + d"
  by (simp_all add: dval_def)

definition leading :: "nat list \<Rightarrow> bool" where
  "leading ds \<longleftrightarrow> list_all (\<lambda>d. d \<le> 9) ds \<and> (ds \<noteq> [] \<longrightarrow> hd ds \<noteq> 0)"

definition decimal_digits :: "nat list \<Rightarrow> bool" where
  "decimal_digits ds \<longleftrightarrow> leading ds \<and> ds \<noteq> [] \<and> last ds \<noteq> 0"

lemma leading_snoc:
  "leading ds \<Longrightarrow> d \<le> 9 \<Longrightarrow> ds = [] \<longrightarrow> d \<noteq> 0 \<Longrightarrow> leading (ds @ [d])"
  by (cases ds) (auto simp: leading_def)

lemma dval_lower: "leading ds \<Longrightarrow> ds \<noteq> [] \<Longrightarrow> 10 ^ (length ds - 1) \<le> dval ds"
proof (induction ds rule: rev_induct)
  case (snoc d ds)
  show ?case
  proof (cases "ds = []")
    case False
    then have "leading ds" using snoc.prems by (auto simp: leading_def)
    then have "10 ^ (length ds - 1) \<le> dval ds" using snoc.IH False by simp
    moreover have "(10 :: nat) ^ length ds = 10 * 10 ^ (length ds - 1)" using False by (cases ds) simp_all
    ultimately show ?thesis by simp
  qed (use snoc.prems in \<open>simp add: leading_def\<close>)
qed simp

subsection \<open>Rounding\<close>

lemma decrement_last_snoc [simp]: "decrement_last (ds @ [d]) = ds @ [d - 1]"
  by (simp add: decrement_last_def)

lemma round_loop_result:
  "rest \<le> delta \<Longrightarrow> delta < rest + d * ten_k \<Longrightarrow>
     \<exists>j. round_loop dst delta rest ten_k (ds @ [d]) = Inr (ds @ [d - j]) \<and> j < d \<and> rest + j * ten_k \<le> delta"
proof (induction dst delta rest ten_k "ds @ [d]" arbitrary: d rule: round_loop.induct)
  case (1 dst delta rest ten_k)
  have d: "0 < d" using 1(2,3) by (cases d) simp_all
  show ?case
  proof (cases "rest < dst \<and> ten_k \<le> delta - rest
         \<and> (w64 (rest + ten_k) < dst \<or> w64 (w64 (rest + ten_k) + (2 ^ 64 - dst)) < dst - rest)
         \<and> 0 < ten_k")
    case True
    have "rest + ten_k \<le> delta" "delta < rest + ten_k + (d - 1) * ten_k"
      using True 1(2,3) d by (auto simp: diff_mult_distrib)
    from 1(1) [OF True decrement_last_snoc this]
    obtain j where j: "round_loop dst delta (rest + ten_k) ten_k (ds @ [d - 1]) = Inr (ds @ [d - 1 - j])"
        "j < d - 1" "rest + ten_k + j * ten_k \<le> delta" by auto
    have "round_loop dst delta rest ten_k (ds @ [d]) = round_loop dst delta (rest + ten_k) ten_k (ds @ [d - 1])"
      using True d by (subst round_loop.simps) simp
    then show ?thesis using j by (intro exI [of _ "Suc j"]) simp
  next
    case False
    then have "round_loop dst delta rest ten_k (ds @ [d]) = Inr (ds @ [d])"
      by (subst round_loop.simps) (simp only: if_False)
    then show ?thesis using d 1(2) by (intro exI [of _ 0]) simp
  qed
qed

text \<open>The digits after rounding, and how far they are below the upper end.\<close>

lemma grisu2_round_result:
  assumes "leading (ds @ [d])" "dst \<le> delta" "rest \<le> delta" "delta < rest + d * ten_k"
  shows "\<exists>ds'. grisu2_round (ds @ [d]) dst delta rest ten_k = Inr ds' \<and> decimal_digits ds'
     \<and> length ds' = Suc (length ds)
     \<and> (\<exists>rest'. dval ds' * ten_k + rest' = dval (ds @ [d]) * ten_k + rest \<and> rest' \<le> delta)"
proof -
  obtain j where j: "round_loop dst delta rest ten_k (ds @ [d]) = Inr (ds @ [d - j])" "j < d" "rest + j * ten_k \<le> delta"
    using round_loop_result [OF assms(3,4)] by blast
  have "0 < ten_k" using assms(3,4) by (cases ten_k) simp_all
  then have "grisu2_round (ds @ [d]) dst delta rest ten_k = Inr (ds @ [d - j])"
    using assms j(1) by (simp add: grisu2_round_def)
  moreover have "decimal_digits (ds @ [d - j])"
    using assms(1) j(2) by (cases ds) (auto simp: decimal_digits_def leading_def)
  moreover have "dval (ds @ [d - j]) * ten_k + (rest + j * ten_k) = dval (ds @ [d]) * ten_k + rest"
  proof -
    obtain i where "d = j + i" using less_imp_add_positive [OF j(2)] by blast
    then show ?thesis by (simp add: algebra_simps)
  qed
  moreover have "length (ds @ [d - j]) = Suc (length ds)" by simp
  ultimately show ?thesis using j(3) by blast
qed

text \<open>The bound on the number of digits: before the last digit the digits already make up most of \<open>M\<close>.\<close>

lemma digit_count:
  assumes "leading ds" "dval ds * unit \<le> M" "delta < unit" "M < 10 ^ 16 * delta"
  shows "length ds \<le> 16"
proof (rule ccontr)
  assume a: "\<not> length ds \<le> 16"
  then have "10 ^ (length ds - 1) \<le> dval ds" using dval_lower [OF assms(1)] by fastforce
  moreover have "(10 :: nat) ^ 16 \<le> 10 ^ (length ds - 1)" using a by (intro power_increasing) auto
  ultimately have "10 ^ 16 \<le> dval ds" by linarith
  then have "10 ^ 16 * delta \<le> dval ds * unit" using assms(3) by (intro mult_mono) auto
  then show False using assms(2,4) by linarith
qed

subsection \<open>The integral part\<close>

lemma integral_loop_result:
  fixes M :: nat
  assumes "M < 2 ^ 64" "p2 < 2 ^ shift" "dst \<le> delta" "M < 10 ^ 16 * delta"
  shows "leading buf \<Longrightarrow> M = (dval buf * 10 ^ n + p1) * 2 ^ shift + p2 \<Longrightarrow> delta < p1 * 2 ^ shift + p2 \<Longrightarrow>
     p1 < 10 ^ n \<Longrightarrow> 0 < n \<longrightarrow> pow10 = 10 ^ (n - 1) \<Longrightarrow> buf = [] \<longrightarrow> 0 < n \<and> pow10 \<le> p1 \<Longrightarrow>
     (\<exists>ds. integral_loop n p1 pow10 shift p2 dst delta buf = Inr (Inl ds) \<and> leading ds \<and> ds \<noteq> []
        \<and> M = dval ds * 2 ^ shift + p2 \<and> delta < p2)
     \<or> (\<exists>ds N rest. integral_loop n p1 pow10 shift p2 dst delta buf = Inr (Inr (ds, int N)) \<and> decimal_digits ds
        \<and> length ds \<le> 17 \<and> M = dval ds * 10 ^ N * 2 ^ shift + rest \<and> rest \<le> delta)"
proof (induction n arbitrary: p1 pow10 buf)
  case (Suc n)
  define d r where dr: "d = p1 div pow10" "r = p1 mod pow10"
  have pow: "pow10 = 10 ^ n" "0 < pow10" using Suc.prems(5) by simp_all
  have "p1 = d * pow10 + r" unfolding dr by (rule div_mult_mod_eq [symmetric])
  then have p1: "p1 = d * 10 ^ n + r" "r < 10 ^ n" using pow by (simp_all add: dr(2))
  have d9: "d \<le> 9" using Suc.prems(4) pow(1) by (simp add: dr less_mult_imp_div_less flip: less_Suc_eq_le)
  have lead: "leading (buf @ [d])"
    using Suc.prems(1,6) d9 pow(2) by (intro leading_snoc) (auto simp: dr div_greater_zero_iff)
  have M: "M = (dval (buf @ [d]) * 10 ^ n + r) * 2 ^ shift + p2"
    using Suc.prems(2) p1(1) by (simp add: algebra_simps)
  have le: "r * 2 ^ shift + p2 \<le> M" "10 ^ n * 2 ^ shift \<le> M"
  proof -
    show "r * 2 ^ shift + p2 \<le> M" unfolding M by simp
    have "0 < dval (buf @ [d])" using dval_lower [OF lead] by (auto simp del: dval_simps intro: ccontr)
    then have "10 ^ n \<le> dval (buf @ [d]) * 10 ^ n" by (simp del: dval_simps)
    then have "10 ^ n * 2 ^ shift \<le> dval (buf @ [d]) * 10 ^ n * 2 ^ shift" by (rule mult_right_mono) simp
    then show "10 ^ n * 2 ^ shift \<le> M" unfolding M by (simp add: algebra_simps)
  qed
  have w: "w64 (w64 (r * 2 ^ shift) + p2) = r * 2 ^ shift + p2" "w64 (pow10 * 2 ^ shift) = pow10 * 2 ^ shift"
    using le assms(1) pow by (simp_all add: w64_def)
  show ?case
  proof (cases "r * 2 ^ shift + p2 \<le> delta")
    case True
    have "delta < r * 2 ^ shift + p2 + d * (pow10 * 2 ^ shift)"
      using Suc.prems(3) p1(1) pow by (simp add: algebra_simps)
    then obtain ds rest where ds: "grisu2_round (buf @ [d]) dst delta (r * 2 ^ shift + p2) (pow10 * 2 ^ shift) = Inr ds"
        "decimal_digits ds" "length ds = Suc (length buf)" "rest \<le> delta"
        "dval ds * (pow10 * 2 ^ shift) + rest = dval (buf @ [d]) * (pow10 * 2 ^ shift) + (r * 2 ^ shift + p2)"
      using grisu2_round_result [OF lead assms(3) True] by blast
    have "integral_loop (Suc n) p1 pow10 shift p2 dst delta buf = Inr (Inr (ds, int n))"
      using ds(1) True d9 by (simp add: Let_def w dr [symmetric])
    moreover have "length buf \<le> 16"
    proof (rule digit_count [OF Suc.prems(1) _ _ assms(4)])
      show "dval buf * (10 ^ Suc n * 2 ^ shift) \<le> M" unfolding Suc.prems(2) by (simp add: algebra_simps)
      have "p1 * 2 ^ shift + p2 < (p1 + 1) * 2 ^ shift" using assms(2) by simp
      also have "\<dots> \<le> 10 ^ Suc n * 2 ^ shift" using Suc.prems(4) by (intro mult_right_mono) simp_all
      finally show "delta < 10 ^ Suc n * 2 ^ shift" using Suc.prems(3) by linarith
    qed
    moreover have "M = dval ds * 10 ^ n * 2 ^ shift + rest"
      using ds(5) M pow by (simp add: algebra_simps)
    ultimately show ?thesis using ds(2-4) by auto
  next
    case False
    then have lt: "delta < r * 2 ^ shift + p2" by simp
    have pow': "0 < n \<longrightarrow> pow10 div 10 = 10 ^ (n - 1)" unfolding pow(1) by (cases n) simp_all
    have "integral_loop (Suc n) p1 pow10 shift p2 dst delta buf
        = integral_loop n r (pow10 div 10) shift p2 dst delta (buf @ [d])"
      using False d9 by (simp add: Let_def w dr [symmetric])
    then show ?thesis by (simp only:) (rule Suc.IH [OF lead M lt p1(2) pow'], simp)
  qed
qed auto

subsection \<open>The fraction\<close>

lemma fraction_loop_result:
  fixes M delta0 :: nat
  assumes "shift \<le> 60" "0 < delta0" "M < 10 ^ 16 * delta0"
  shows "leading buf \<Longrightarrow> buf \<noteq> [] \<Longrightarrow> M * 10 ^ m = dval buf * 2 ^ shift + p2 \<Longrightarrow> p2 < 2 ^ shift \<Longrightarrow>
     delta = delta0 * 10 ^ m \<Longrightarrow> dst \<le> delta \<Longrightarrow> delta < p2 \<Longrightarrow> fuel + m = digit_fuel \<Longrightarrow>
     \<exists>ds N rest. fraction_loop fuel m shift p2 dst delta buf = Inr (ds, - int N) \<and> decimal_digits ds
        \<and> length ds \<le> 17 \<and> M * 10 ^ N = dval ds * 2 ^ shift + rest \<and> rest \<le> delta0 * 10 ^ N"
proof (induction fuel arbitrary: m p2 dst delta buf)
  case 0
  have s: "(2 :: nat) ^ shift \<le> 2 ^ 60" using assms(1) by (intro power_increasing) auto
  have "10 ^ 20 \<le> delta0 * 10 ^ 20" using assms(2) by simp
  also have "\<dots> < 2 ^ 60" using 0(4,5,7,8) s by (simp add: digit_fuel_def)
  finally show ?case by simp
next
  case (Suc fuel)
  have s: "(2 :: nat) ^ shift \<le> 2 ^ 60" using assms(1) by (intro power_increasing) auto
  then have p2: "p2 < 2 ^ 60" using Suc.prems(4) by linarith
  define d r where dr: "d = p2 * 10 div 2 ^ shift" "r = p2 * 10 mod 2 ^ shift"
  have p10: "p2 * 10 = d * 2 ^ shift + r" unfolding dr by (rule div_mult_mod_eq [symmetric])
  have r: "r < 2 ^ shift" by (simp add: dr)
  have d9: "d \<le> 9" using Suc.prems(4) by (simp add: dr less_mult_imp_div_less flip: less_Suc_eq_le)
  have w: "w64 (p2 * 10) = p2 * 10" "w64 (delta * 10) = delta * 10" "w64 (dst * 10) = dst * 10"
    using p2 Suc.prems(6,7) by (simp_all add: w64_def)
  have lead: "leading (buf @ [d])" using Suc.prems(1,2) d9 by (simp add: leading_snoc)
  have M: "M * 10 ^ Suc m = dval (buf @ [d]) * 2 ^ shift + r"
    using Suc.prems(3) p10 by (simp add: algebra_simps)
  have delta: "delta * 10 = delta0 * 10 ^ Suc m" using Suc.prems(5) by simp
  have dst: "dst * 10 \<le> delta * 10" using Suc.prems(6) by simp
  show ?case
  proof (cases "r \<le> delta * 10")
    case True
    have "delta * 10 < r + d * 2 ^ shift" using Suc.prems(7) p10 by simp
    then obtain ds rest where ds: "grisu2_round (buf @ [d]) (dst * 10) (delta * 10) r (2 ^ shift) = Inr ds"
        "decimal_digits ds" "length ds = Suc (length buf)" "rest \<le> delta * 10"
        "dval ds * 2 ^ shift + rest = dval (buf @ [d]) * 2 ^ shift + r"
      using grisu2_round_result [OF lead dst True] by blast
    have "fraction_loop (Suc fuel) m shift p2 dst delta buf = Inr (ds, - int (Suc m))"
      using ds(1) True d9 p2 by (simp add: Let_def w dr [symmetric])
    moreover have "length buf \<le> 16"
    proof (rule digit_count [OF Suc.prems(1)])
      show "dval buf * 2 ^ shift \<le> M * 10 ^ m" unfolding Suc.prems(3) by simp
      show "delta < 2 ^ shift" using Suc.prems(4,7) by linarith
      show "M * 10 ^ m < 10 ^ 16 * delta" unfolding Suc.prems(5) using assms(3) by simp
    qed
    then have "length ds \<le> 17" using ds(3) by simp
    moreover have "M * 10 ^ Suc m = dval ds * 2 ^ shift + rest" using ds(5) M by simp
    moreover have "rest \<le> delta0 * 10 ^ Suc m" using ds(4) unfolding delta .
    ultimately show ?thesis using ds(2) by blast
  next
    case False
    then have lt: "delta * 10 < r" by simp
    have "fraction_loop (Suc fuel) m shift p2 dst delta buf
        = fraction_loop fuel (Suc m) shift r (dst * 10) (delta * 10) (buf @ [d])"
      using False d9 p2 by (simp add: Let_def w dr [symmetric])
    moreover have "fuel + Suc m = digit_fuel" using Suc.prems(8) by simp
    then have "\<exists>ds N rest. fraction_loop fuel (Suc m) shift r (dst * 10) (delta * 10) (buf @ [d]) = Inr (ds, - int N)
        \<and> decimal_digits ds \<and> length ds \<le> 17 \<and> M * 10 ^ N = dval ds * 2 ^ shift + rest \<and> rest \<le> delta0 * 10 ^ N"
      by (intro Suc.IH [OF lead _ M r delta dst lt]) simp
    ultimately show ?thesis by (simp only:)
  qed
qed

subsection \<open>All digits\<close>

lemma find_largest_pow10_result:
  assumes "0 < n" "n < 2 ^ 32"
  shows "\<exists>k. find_largest_pow10 n = (Suc k, 10 ^ k) \<and> 10 ^ k \<le> n \<and> n < 10 ^ Suc k"
  using assms by (auto simp: find_largest_pow10_def)

text \<open>The digits stand for a number in the interval: \<open>N\<close> is the exponent of the last digit.\<close>

lemma digit_gen_result:
  fixes M Mm w :: nat
  assumes "M < 2 ^ 64" "2 ^ shift \<le> M" "32 \<le> shift" "shift \<le> 60" "Mm \<le> w" "w \<le> M" "0 < Mm" "M < 10 ^ 16 * (M - Mm)"
  defines "u \<equiv> - int shift"
  shows "\<exists>ds N. digit_gen K \<lparr>df = Mm, de = u\<rparr> \<lparr>df = w, de = u\<rparr> \<lparr>df = M, de = u\<rparr> = Inr (ds, K + N)
     \<and> decimal_digits ds \<and> length ds \<le> 17
     \<and> real Mm \<le> real (dval ds) * 10 powi N * 2 ^ shift \<and> real (dval ds) * 10 powi N * 2 ^ shift \<le> real M"
proof -
  let ?delta = "M - Mm" and ?dst = "M - w" and ?p1 = "M div 2 ^ shift" and ?p2 = "M mod 2 ^ shift"
  have "(2 :: nat) ^ 32 \<le> 2 ^ shift" using assms(3) by (intro power_increasing) auto
  then have "M div 2 ^ shift \<le> M div 2 ^ 32" by (intro div_le_mono2) auto
  also have "\<dots> < 2 ^ 32" using assms(1) by (simp add: less_mult_imp_div_less)
  finally have p1: "?p1 < 2 ^ 32" "0 < ?p1" using assms(2) by (simp_all add: div_greater_zero_iff)
  then have p1m: "?p1 mod 4294967296 = ?p1" by simp
  obtain k where k: "find_largest_pow10 ?p1 = (Suc k, 10 ^ k)" "10 ^ k \<le> ?p1" "?p1 < 10 ^ Suc k"
    using find_largest_pow10_result [OF p1(2,1)] by blast
  have M: "M = (dval [] * 10 ^ Suc k + ?p1) * 2 ^ shift + ?p2"
    by (simp only: dval_simps mult_zero_left add_0 div_mult_mod_eq)
  have delta: "?delta < ?p1 * 2 ^ shift + ?p2" unfolding div_mult_mod_eq using assms(5-7) by linarith
  have dst: "?dst \<le> ?delta" using assms(5) by simp
  have gen: "digit_gen K \<lparr>df = Mm, de = u\<rparr> \<lparr>df = w, de = u\<rparr> \<lparr>df = M, de = u\<rparr> =
      bindE (integral_loop (Suc k) ?p1 (10 ^ k) shift ?p2 ?dst ?delta [])
        (\<lambda>res. case res of
           Inr (buf, n) \<Rightarrow> Inr (buf, K + n)
         | Inl buf \<Rightarrow>
             require (?delta < ?p2)
               (bindE (fraction_loop digit_fuel 0 shift ?p2 ?dst ?delta buf) (\<lambda>(buf', n). Inr (buf', K + n))))"
    using assms(3-6) p1(2) k(1)
    by (simp add: digit_gen_def u_def diyfp_sub_def Let_def p1m del: integral_loop.simps fraction_loop.simps)
  have "leading []" by (simp add: leading_def)
  from integral_loop_result [OF assms(1) _ dst assms(8) this M delta k(3)] k(2)
  consider (frac) ds where "integral_loop (Suc k) ?p1 (10 ^ k) shift ?p2 ?dst ?delta [] = Inr (Inl ds)"
      "leading ds" "ds \<noteq> []" "M = dval ds * 2 ^ shift + ?p2" "?delta < ?p2"
    | (whole) ds N rest where "integral_loop (Suc k) ?p1 (10 ^ k) shift ?p2 ?dst ?delta [] = Inr (Inr (ds, int N))"
      "decimal_digits ds" "length ds \<le> 17" "M = dval ds * 10 ^ N * 2 ^ shift + rest" "rest \<le> ?delta"
    by (auto simp del: integral_loop.simps)
  then show ?thesis
  proof cases
    case frac
    have d0: "0 < ?delta" using assms(8) by (intro Nat.gr0I) simp
    obtain ds' N rest where f: "fraction_loop digit_fuel 0 shift ?p2 ?dst ?delta ds = Inr (ds', - int N)"
        "decimal_digits ds'" "length ds' \<le> 17" "M * 10 ^ N = dval ds' * 2 ^ shift + rest" "rest \<le> ?delta * 10 ^ N"
      using fraction_loop_result [OF assms(4) d0 assms(8) frac(2,3), of 0 ?p2 ?delta ?dst digit_fuel] frac(4,5) dst by auto
    have "digit_gen K \<lparr>df = Mm, de = u\<rparr> \<lparr>df = w, de = u\<rparr> \<lparr>df = M, de = u\<rparr> = Inr (ds', K + - int N)"
      unfolding gen frac(1) using f(1) frac(5) by simp
    moreover have "Mm * 10 ^ N \<le> M * 10 ^ N" using assms(5,6) by (intro mult_right_mono) simp_all
    then have "Mm * 10 ^ N \<le> dval ds' * 2 ^ shift" "dval ds' * 2 ^ shift \<le> M * 10 ^ N"
      using f(4,5) unfolding diff_mult_distrib by linarith+
    then have "real (Mm * 10 ^ N) \<le> real (dval ds' * 2 ^ shift)" "real (dval ds' * 2 ^ shift) \<le> real (M * 10 ^ N)"
      by (simp_all only: of_nat_le_iff)
    then have "real Mm \<le> real (dval ds') * 10 powi (- int N) * 2 ^ shift"
      "real (dval ds') * 10 powi (- int N) * 2 ^ shift \<le> real M"
      by (simp_all add: power_int_minus field_simps)
    ultimately show ?thesis using f(2,3) by blast
  next
    case whole
    have "digit_gen K \<lparr>df = Mm, de = u\<rparr> \<lparr>df = w, de = u\<rparr> \<lparr>df = M, de = u\<rparr> = Inr (ds, K + int N)"
      unfolding gen whole(1) by simp
    moreover have "Mm \<le> dval ds * 10 ^ N * 2 ^ shift" "dval ds * 10 ^ N * 2 ^ shift \<le> M"
      using whole(4,5) assms(5,6) by linarith+
    then have "real Mm \<le> real (dval ds * 10 ^ N * 2 ^ shift)" "real (dval ds * 10 ^ N * 2 ^ shift) \<le> real M"
      by (simp_all only: of_nat_le_iff)
    then have "real Mm \<le> real (dval ds) * 10 powi int N * 2 ^ shift" "real (dval ds) * 10 powi int N * 2 ^ shift \<le> real M"
      by simp_all
    ultimately show ?thesis using whole(2,3) by blast
  qed
qed

end
