(* ===== verification/Grisu_Correct.thy ===== *)
theory Grisu_Correct
  imports Grisu_Scale Grisu_Digits
begin

text \<open>
  Grisu2 as a whole: on every positive finite double no assertion fails, and the decimal number it
  produces has at most 17 digits and rounds back to the double.
\<close>

subsection \<open>The interval of numbers that round to a double\<close>

lemma rint_near: "of_int k - 1 / 2 < x \<Longrightarrow> x < of_int k + 1 / 2 \<Longrightarrow> rint x = k"
  using rint_error [of x] by linarith

definition lower_part :: "nat \<Rightarrow> int \<Rightarrow> real" where
  "lower_part m e = (if m = 2 ^ 52 \<and> - 1074 < e then 1 / 4 else 1 / 2)"

lemma rnd_between:
  assumes "f64_ok (Fin False m e)" "0 < m"
    "(real m - lower_part m e) * 2 powi e < x" "x < (real m + 1 / 2) * 2 powi e"
  shows "rnd x = real m * 2 powi e"
proof -
  have m: "m < 2 ^ 53" "- 1074 \<le> e" "e = - 1074 \<or> 2 ^ 52 \<le> m" using assms(1) by auto
  have "0 \<le> (real m - lower_part m e) * 2 powi e" using assms(2) by (simp add: lower_part_def)
  then have x: "0 < x" using assms(3) by linarith
  then have rnd: "rnd x = of_int (rint (x / 2 powi rexp x)) * 2 powi rexp x" by (simp add: rnd_def rndp_def)
  have up: "x < 2 powi (e + 53)"
  proof -
    have "real m + 1 / 2 \<le> 2 ^ 53" using m(1) by simp
    then have "(real m + 1 / 2) * 2 powi e \<le> 2 ^ 53 * 2 powi e" by (rule mult_right_mono) simp
    moreover have "(2 :: real) powi (e + 53) = 2 ^ 53 * 2 powi e" by (simp add: powi_add)
    ultimately show ?thesis using assms(4) by linarith
  qed
  have near: ?thesis if "rexp x = e"
  proof -
    have "real m - 1 / 2 < x / 2 powi e" "x / 2 powi e < real m + 1 / 2"
      using assms(3,4) by (auto simp: field_simps lower_part_def split: if_splits intro: less_le_trans)
    then have "rint (x / 2 powi e) = int m" by (intro rint_near) simp_all
    then show ?thesis unfolding rnd that by simp
  qed
  show ?thesis
  proof (cases "2 powi (e + 52) \<le> x")
    case True
    have "\<lfloor>log 2 x\<rfloor> = e + 52" by (rule floor_log2_eq) (use True up in \<open>simp_all add: add.assoc\<close>)
    then show ?thesis using near m(2) by (simp add: rexp_def)
  next
    case False
    show ?thesis
    proof (cases "e = - 1074")
      case True
      have "2 powi \<lfloor>log 2 x\<rfloor> < (2 :: real) powi (e + 52)" using floor_log2_bounds(1) [OF x] False by linarith
      then have "\<lfloor>log 2 x\<rfloor> < e + 52" using powi_mono [of "e + 52" "\<lfloor>log 2 x\<rfloor>"] by (meson not_le order_less_irrefl order_less_le_trans)
      then have "\<lfloor>log 2 x\<rfloor> - 52 \<le> - 1074" using True by linarith
      then have "rexp x = e" unfolding rexp_def True by (rule max_absorb2)
      then show ?thesis by (rule near)
    next
      case e: False
      have p: "(2 :: real) powi (e + 52) = 2 ^ 52 * 2 powi e" by (simp add: powi_add)
      have mm: "m = 2 ^ 52"
      proof (rule ccontr)
        assume "m \<noteq> 2 ^ 52"
        then have "2 ^ 52 + 1 \<le> m" using m(3) e by simp
        then have "(2 ^ 52 :: real) \<le> real m - lower_part m e" by (simp add: lower_part_def)
        then have "2 ^ 52 * 2 powi e \<le> (real m - lower_part m e) * 2 powi e" by (rule mult_right_mono) simp
        then show False using False assms(3) unfolding p by linarith
      qed
      then have l: "(2 ^ 52 - 1 / 4) * 2 powi e < x" using assms(3) e m(2) by (simp add: lower_part_def)
      have h: "(2 :: real) powi e = 2 * 2 powi (e - 1)" using powi_add [of "e - 1" 1] by simp
      have fl: "\<lfloor>log 2 x\<rfloor> = e + 51"
      proof (rule floor_log2_eq)
        have "(2 :: real) powi (e + 51) = 2 ^ 51 * 2 powi e" by (simp add: powi_add)
        also have "\<dots> \<le> (2 ^ 52 - 1 / 4) * 2 powi e" by (rule mult_right_mono) simp_all
        finally show "2 powi (e + 51) \<le> x" using l by linarith
        show "x < 2 powi (e + 51 + 1)" using False by (simp add: add.assoc)
      qed
      then have re: "rexp x = e - 1" using e m(2) by (simp add: rexp_def)
      have "of_int (2 ^ 53) - 1 / 2 < x / 2 powi (e - 1)" using l unfolding h by (simp add: field_simps)
      moreover have "x / 2 powi (e - 1) < of_int (2 ^ 53)" using False unfolding p h by (simp add: field_simps)
      then have "x / 2 powi (e - 1) < of_int (2 ^ 53) + 1 / 2" by linarith
      ultimately have "rint (x / 2 powi (e - 1)) = 2 ^ 53" by (rule rint_near)
      then show ?thesis unfolding rnd re mm h by simp
    qed
  qed
qed

subsection \<open>The digits of a double\<close>

text \<open>What the digits are worth against the exact boundaries: the errors of the cached power and of the
  product are made up for by moving each end inwards by one unit.\<close>

lemma unscale:
  assumes "\<bar>real c * 2 powi ec - 10 powi k\<bar> \<le> 2 powi ec / 2" "lo < 2 ^ 64" "hi < 2 ^ 64"
    "real (scaled c lo + 1) \<le> V * 2 ^ shift" "V * 2 ^ shift \<le> real (scaled c hi - 1)" "1 \<le> scaled c hi"
    "q + ec + 64 = - int shift"
  shows "real lo * 2 powi q < V * 10 powi (- k)" "V * 10 powi (- k) < real hi * 2 powi q"
proof -
  define l where "l = (10 :: real) powi k / 2 powi ec"
  have "(real c - l) * 2 powi ec = real c * 2 powi ec - 10 powi k" by (simp add: l_def left_diff_distrib)
  moreover have "\<bar>real c - l\<bar> * 2 powi ec = \<bar>(real c - l) * 2 powi ec\<bar>" by (simp add: abs_mult)
  ultimately have "\<bar>real c - l\<bar> * 2 powi ec = \<bar>real c * 2 powi ec - 10 powi k\<bar>" by (simp only:)
  then have "\<bar>real c - l\<bar> * 2 powi ec \<le> 1 / 2 * 2 powi ec" using assms(1) by simp
  then have l: "\<bar>real c - l\<bar> \<le> 1 / 2" by (rule mult_right_le_imp_le) simp
  have sh: "(2 :: real) ^ 64 * 2 ^ shift * (2 powi q * 2 powi ec) = 1"
  proof -
    have "(2 :: real) ^ 64 * 2 ^ shift * (2 powi q * 2 powi ec) = 2 powi (64 + int shift + (q + ec))"
      by (simp add: powi_add)
    also have "\<dots> = 2 powi 0" using assms(7) by (intro arg_cong [where f = "(powi) 2"]) simp
    finally show ?thesis by simp
  qed
  define u where "u = (2 :: real) powi q * 2 powi ec * 10 powi (- k)"
  have u: "0 < u" by (simp add: u_def)
  have cancel: "x * l * u = x * 2 powi q" "2 ^ 64 * (V * 2 ^ shift) * u = V * 10 powi (- k)" for x
  proof -
    show "x * l * u = x * 2 powi q" by (simp add: l_def u_def power_int_minus)
    have "2 ^ 64 * (V * 2 ^ shift) * u = V * 10 powi (- k) * (2 ^ 64 * 2 ^ shift * (2 powi q * 2 powi ec))"
      by (simp add: u_def mult_ac)
    then show "2 ^ 64 * (V * 2 ^ shift) * u = V * 10 powi (- k)" unfolding sh by simp
  qed
  have "real lo * l < 2 ^ 64 * (V * 2 ^ shift)"
    using scaled_inside(1) [OF assms(2) l] assms(4) by (simp add: algebra_simps)
  then have "real lo * l * u < 2 ^ 64 * (V * 2 ^ shift) * u" using u by (rule mult_strict_right_mono)
  then show "real lo * 2 powi q < V * 10 powi (- k)" unfolding cancel .
  have "2 ^ 64 * (V * 2 ^ shift) < real hi * l"
    using scaled_inside(2) [OF assms(3) l] assms(5,6) by (simp add: of_nat_diff)
  then have "2 ^ 64 * (V * 2 ^ shift) * u < real hi * l * u" using u by (rule mult_strict_right_mono)
  then show "V * 10 powi (- k) < real hi * 2 powi q" unfolding cancel .
qed

lemma lower_gap_cases:
  assumes "10 \<le> s"
  shows "m = 2 ^ 52 \<and> 2 * lower_gap m e s = 2 ^ s \<or> lower_gap m e s = 2 ^ s" "512 \<le> lower_gap m e s"
    "real (lower_gap m e s) = 2 * lower_part m e * 2 ^ s"
proof -
  obtain t where t: "s = Suc t" "9 \<le> t" using assms by (cases s) auto
  have "(2 :: nat) ^ 9 \<le> 2 ^ t" using t(2) by (intro power_increasing) auto
  then show "m = 2 ^ 52 \<and> 2 * lower_gap m e s = 2 ^ s \<or> lower_gap m e s = 2 ^ s" "512 \<le> lower_gap m e s"
    "real (lower_gap m e s) = 2 * lower_part m e * 2 ^ s"
    unfolding t by (auto simp: lower_gap_def lower_part_def)
qed

lemma scaled_digits:
  assumes "f64_ok (Fin False m e)" "0 < m" "2 ^ 63 \<le> (2 * m + 1) * 2 ^ s" "(2 * m + 1) * 2 ^ s < (2 :: nat) ^ 64"
  defines "q \<equiv> e - 1 - int s"
  shows "\<exists>ds dexp. grisu2_scaled \<lparr>bd_w = \<lparr>df = 2 * m * 2 ^ s, de = q\<rparr>,
            bd_minus = \<lparr>df = 2 * m * 2 ^ s - lower_gap m e s, de = q\<rparr>,
            bd_plus = \<lparr>df = (2 * m + 1) * 2 ^ s, de = q\<rparr>\<rparr> = Inr (ds, dexp)
     \<and> decimal_digits ds \<and> length ds \<le> 17
     \<and> real (2 * m * 2 ^ s - lower_gap m e s) * 2 powi q < real (dval ds) * 10 powi dexp
     \<and> real (dval ds) * 10 powi dexp < real ((2 * m + 1) * 2 ^ s) * 2 powi q"
proof -
  note b = shift_bounds [OF assms(1-4)]
  have m53: "m < 2 ^ 53" using assms(1) by simp
  let ?W = "2 * m * 2 ^ s" and ?g = "lower_gap m e s"
  have Wp: "(2 * m + 1) * 2 ^ s = ?W + 2 ^ s" by (simp add: algebra_simps)
  note g = lower_gap_cases [OF b(1), of m e]
  have gs: "?g \<le> 2 ^ s" by (simp add: lower_gap_def)
  have s2: "(1024 :: nat) \<le> 2 ^ s" using power_increasing [OF b(1), of "2 :: nat"] by simp
  have gW: "?g \<le> ?W" using gs assms(2) by (simp add: trans_le_add1 order_trans [OF gs])
  obtain c ec k where c: "get_cached_power q = Inr (c, ec, k)" "(c, ec, k) \<in> set cached_powers"
      "- 60 \<le> ec + q + 64" "ec + q + 64 \<le> - 32"
    using cached_power_found [of q] b(2,3) unfolding q_def by blast
  have entry: "2 ^ 63 \<le> c" "c < 2 ^ 64" "\<bar>real c * 2 powi ec - 10 powi k\<bar> \<le> 2 powi ec / 2"
    using cached_powers_all c(2) by (auto simp: power_entry_def)
  define shift where "shift = nat (- (q + ec + 64))"
  have shift: "q + ec + 64 = - int shift" "32 \<le> shift" "shift \<le> 60" using c(3,4) by (simp_all add: shift_def)
  let ?P = "scaled c (?W + 2 ^ s)" and ?Q = "scaled c (?W - ?g)" and ?R = "scaled c ?W"
  have big: "2 ^ 63 \<le> ?W + 2 ^ s" "?W + 2 ^ s < 2 ^ 64" using assms(3,4) unfolding Wp by simp_all
  then have lt: "?W < 2 ^ 64" "?W - ?g < 2 ^ 64" by linarith+
  have P: "?P < 2 ^ 64" using scaled_less [OF big(2) entry(2)] .
  have far: "?R + 255 \<le> ?P" "?Q + 255 \<le> ?R"
  proof -
    show "?R + 255 \<le> ?P" by (rule scaled_apart_nat [OF entry(1)]) (use s2 in simp)
    have "?Q + 255 \<le> scaled c (?W - ?g + ?g)" by (rule scaled_apart_nat [OF entry(1)]) (use g(2) in simp)
    then show "?Q + 255 \<le> ?R" using gW by simp
  qed
  have low: "2 ^ 61 \<le> ?P - 1"
  proof -
    have "2 ^ 126 \<le> (?W + 2 ^ s) * c"
      using mult_le_mono [OF big(1) entry(1)] by simp
    then have "(2 ^ 126 + 2 ^ 63) div 2 ^ 64 \<le> ?P" unfolding scaled_def by (intro div_le_mono) simp
    then show ?thesis by simp
  qed
  have mul: "diyfp_mul \<lparr>df = x, de = q\<rparr> \<lparr>df = c, de = ec\<rparr> = \<lparr>df = scaled c x, de = - int shift\<rparr>" if "x < 2 ^ 64" for x
    using diyfp_mul_value [of "\<lparr>df = x, de = q\<rparr>" "\<lparr>df = c, de = ec\<rparr>"] that entry(2) shift(1) by (simp add: scaled_def)
  have w: "w64 (?Q + 1) = ?Q + 1" "w64 (?P + (2 ^ 64 - 1)) = ?P - 1"
  proof -
    show "w64 (?Q + 1) = ?Q + 1" using far P by (simp add: w64_def)
    obtain p where p: "?P = Suc p" using far(1) by (cases ?P) simp_all
    have "Suc p + (2 ^ 64 - 1) = p + 2 ^ 64" by simp
    moreover have "p < 2 ^ 64" using P p by simp
    ultimately show "w64 (?P + (2 ^ 64 - 1)) = ?P - 1" unfolding p w64_def by (simp only: mod_add_self2 mod_less diff_Suc_1)
  qed
  then have w': "w64 (?P + 18446744073709551615) = ?P - 1" by simp
  have gen: "grisu2_scaled \<lparr>bd_w = \<lparr>df = ?W, de = q\<rparr>, bd_minus = \<lparr>df = ?W - ?g, de = q\<rparr>,
            bd_plus = \<lparr>df = (2 * m + 1) * 2 ^ s, de = q\<rparr>\<rparr>
      = digit_gen (- k) \<lparr>df = ?Q + 1, de = - int shift\<rparr> \<lparr>df = ?R, de = - int shift\<rparr> \<lparr>df = ?P - 1, de = - int shift\<rparr>"
    unfolding Wp by (simp add: grisu2_scaled_def c(1) Let_def mul [OF lt(1)] mul [OF lt(2)] mul [OF big(2)] w(1) w' del: One_nat_def)
  have "(2 :: nat) ^ shift \<le> 2 ^ 60" using shift(3) by (intro power_increasing) auto
  then have top: "2 ^ shift \<le> ?P - 1" using low by simp
  have width: "?P - 1 < 10 ^ 16 * (?P - 1 - (?Q + 1))" by (rule scaled_width [OF entry(1) m53 assms(2) b(1) g(1)])
  have inside: "?P - 1 < 2 ^ 64" "?Q + 1 \<le> ?R" "?R \<le> ?P - 1" "0 < ?Q + 1" using P far by simp_all
  obtain ds N where d: "digit_gen (- k) \<lparr>df = ?Q + 1, de = - int shift\<rparr> \<lparr>df = ?R, de = - int shift\<rparr>
        \<lparr>df = ?P - 1, de = - int shift\<rparr> = Inr (ds, - k + N)" "decimal_digits ds" "length ds \<le> 17"
      "real (?Q + 1) \<le> real (dval ds) * 10 powi N * 2 ^ shift" "real (dval ds) * 10 powi N * 2 ^ shift \<le> real (?P - 1)"
    using digit_gen_result [OF inside(1) top shift(2,3) inside(2-4) width, of "- k"] by blast
  have P1: "1 \<le> ?P" using far by simp
  have pw: "real (dval ds) * 10 powi N * 10 powi (- k) = real (dval ds) * 10 powi (- k + N)"
    using power_int_add [of "10 :: real" "- k" N] by (simp add: mult_ac)
  note un = unscale [OF entry(3) lt(2) big(2) d(4,5) P1 shift(1), unfolded pw]
  show ?thesis unfolding gen using d(1-3) un unfolding Wp by blast
qed

lemma grisu2_result:
  assumes "f64_ok (Fin False m e)" "0 < m"
  shows "\<exists>ds dexp. grisu2 (Fin False m e) = Inr (ds, dexp) \<and> decimal_digits ds \<and> length ds \<le> 17
     \<and> (real m - lower_part m e) * 2 powi e < real (dval ds) * 10 powi dexp
     \<and> real (dval ds) * 10 powi dexp < (real m + 1 / 2) * 2 powi e"
proof -
  obtain s where s: "2 ^ 63 \<le> (2 * m + 1) * 2 ^ s" "(2 * m + 1) * 2 ^ s < (2 :: nat) ^ 64"
      "compute_boundaries (Fin False m e) =
       Inr \<lparr>bd_w = \<lparr>df = 2 * m * 2 ^ s, de = e - 1 - int s\<rparr>,
            bd_minus = \<lparr>df = 2 * m * 2 ^ s - lower_gap m e s, de = e - 1 - int s\<rparr>,
            bd_plus = \<lparr>df = (2 * m + 1) * 2 ^ s, de = e - 1 - int s\<rparr>\<rparr>"
    using compute_boundaries_value [OF assms] by blast
  note b = shift_bounds [OF assms s(1,2)]
  have pos: "flt (f64_zero False) (Fin False m e)" using assms(2) by (simp add: f64_zero_def signed_mant_def)
  have gW: "lower_gap m e s \<le> 2 * m * 2 ^ s"
    using assms(2) by (auto simp: lower_gap_def intro: order_trans [of _ "2 ^ s"] power_increasing)
  have e: "(2 :: real) ^ s * 2 powi (e - 1 - int s) = 2 powi e / 2"
    using powi_add [of "int s" "e - 1 - int s"] powi_add [of "e - 1" 1] by (simp add: add.commute)
  have "real (2 * m * 2 ^ s - lower_gap m e s) * 2 powi (e - 1 - int s)
      = (2 * real m - 2 * lower_part m e) * (2 ^ s * 2 powi (e - 1 - int s))"
    using gW lower_gap_cases(3) [OF b(1), of m e] by (simp add: of_nat_diff algebra_simps)
  also have "\<dots> = (real m - lower_part m e) * 2 powi e" unfolding e by (simp add: algebra_simps)
  finally have lo: "real (2 * m * 2 ^ s - lower_gap m e s) * 2 powi (e - 1 - int s) = (real m - lower_part m e) * 2 powi e" .
  have "real ((2 * m + 1) * 2 ^ s) * 2 powi (e - 1 - int s) = (2 * real m + 1) * (2 ^ s * 2 powi (e - 1 - int s))"
    by (simp add: algebra_simps)
  also have "\<dots> = (real m + 1 / 2) * 2 powi e" unfolding e by (simp add: algebra_simps)
  finally have hi: "real ((2 * m + 1) * 2 ^ s) * 2 powi (e - 1 - int s) = (real m + 1 / 2) * 2 powi e" .
  have "grisu2 (Fin False m e) = grisu2_scaled
       \<lparr>bd_w = \<lparr>df = 2 * m * 2 ^ s, de = e - 1 - int s\<rparr>,
        bd_minus = \<lparr>df = 2 * m * 2 ^ s - lower_gap m e s, de = e - 1 - int s\<rparr>,
        bd_plus = \<lparr>df = (2 * m + 1) * 2 ^ s, de = e - 1 - int s\<rparr>\<rparr>"
    unfolding grisu2_def s(3) using pos by simp
  then show ?thesis using scaled_digits [OF assms s(1,2)] unfolding lo hi by metis
qed

end
