(* ===== verification/Number_Text.thy ===== *)
theory Number_Text
  imports Conversions F64_Real
begin

text \<open>
  The texts of JSON numbers and what \<^verbatim>\<open>strtod\<close> makes of them: an optional minus, an integral part without
  superfluous zeros, an optional fraction, an optional exponent.  An absent fraction is the empty string.
\<close>

definition exponent_ok :: "string \<Rightarrow> bool" where
  "exponent_ok ext \<longleftrightarrow>
     ext = [] \<or> (\<exists>m sg ds. ext = m # sg @ ds \<and> (m = CHR ''e'' \<or> m = CHR ''E'') \<and> sg \<in> {[], ''+'', ''-''}
       \<and> ds \<noteq> [] \<and> list_all c_digit ds)"

definition number_ok :: "string \<Rightarrow> string \<Rightarrow> string \<Rightarrow> bool" where
  "number_ok ip fp ext \<longleftrightarrow>
     ip \<noteq> [] \<and> list_all c_digit ip \<and> (hd ip = CHR ''0'' \<longrightarrow> length ip = 1) \<and> list_all c_digit fp \<and> exponent_ok ext"

definition number_text :: "bool \<Rightarrow> string \<Rightarrow> string \<Rightarrow> string \<Rightarrow> string" where
  "number_text neg ip fp ext =
     (if neg then ''-'' else []) @ ip @ (if fp = [] then [] else CHR ''.'' # fp) @ ext"

lemma digit_not_mark: "c_digit c \<Longrightarrow> c \<noteq> CHR ''e'' \<and> c \<noteq> CHR ''E'' \<and> c \<noteq> CHR ''.'' \<and> c \<noteq> CHR ''x'' \<and> c \<noteq> CHR ''X''"
  by (auto simp: c_digit_def)

lemma lower_marks:
  "c_tolower (CHR ''.'') \<noteq> CHR ''x''" "c_tolower (CHR ''e'') = CHR ''e''" "c_tolower (CHR ''E'') = CHR ''e''"
  by code_simp+

lemma exponent_ok_start:
  "exponent_ok ext \<Longrightarrow> ext = [] \<or> (\<exists>r. ext = CHR ''e'' # r \<or> ext = CHR ''E'' # r)"
  by (auto simp: exponent_ok_def)

lemma digits_not_nul: "list_all c_digit ds \<Longrightarrow> CHR 0x00 \<notin> set ds"
  using c_digit_not(4) by (auto simp: list_all_iff)

lemma exponent_not_nul: "exponent_ok ext \<Longrightarrow> CHR 0x00 \<notin> set ext"
  using digits_not_nul by (auto simp: exponent_ok_def)

lemma takeWhile_digits:
  assumes "list_all c_digit ds" "r = [] \<or> \<not> c_digit (hd r)"
  shows "takeWhile c_digit (ds @ r) = ds" "dropWhile c_digit (ds @ r) = r"
  using assms by (induction ds) (cases r, auto)+

lemma mantissa_number:
  assumes "number_ok ip fp ext"
  shows "mantissa_part c_digit (ip @ (if fp = [] then [] else CHR ''.'' # fp) @ ext) = (ip, fp, ext)"
proof -
  have d: "list_all c_digit ip" "list_all c_digit fp" using assms by (simp_all add: number_ok_def)
  have e: "ext = [] \<or> \<not> c_digit (hd ext)" "\<And>c r. ext = c # r \<Longrightarrow> c \<noteq> CHR ''.''"
    using exponent_ok_start [of ext] assms by (auto simp: number_ok_def c_digit_def)
  show ?thesis
  proof (cases "fp = []")
    case True
    then show ?thesis
      using takeWhile_digits [OF d(1) e(1)] exponent_ok_start [of ext] assms
      by (auto simp: mantissa_part_def number_ok_def)
  next
    case False
    have "takeWhile c_digit (ip @ CHR ''.'' # fp @ ext) = ip" "dropWhile c_digit (ip @ CHR ''.'' # fp @ ext) = CHR ''.'' # fp @ ext"
      using takeWhile_digits [OF d(1), of "CHR ''.'' # fp @ ext"] by (simp_all add: c_digit_def)
    then show ?thesis using False takeWhile_digits [OF d(2) e(1)] by (simp add: mantissa_part_def Let_def)
  qed
qed

text \<open>The exact value of a number text, as a fraction.\<close>

definition number_frac :: "string \<Rightarrow> string \<Rightarrow> string \<Rightarrow> nat \<times> nat" where
  "number_frac ip fp ext =
     (let x = exponent_part (CHR ''e'') ext - int (length fp)
      in (digits_value 10 digit_val (ip @ fp) * 10 ^ nat x, 10 ^ nat (- x)))"

lemma strtod_number:
  assumes "number_ok ip fp ext"
  shows "strtod (number_text neg ip fp ext) = Some (case number_frac ip fp ext of (n, d) \<Rightarrow> convert_frac neg n d)"
proof -
  let ?r = "ip @ (if fp = [] then [] else CHR ''.'' # fp) @ ext"
  obtain c cs where ip: "ip = c # cs" "c_digit c" "list_all c_digit cs"
    using assms by (cases ip) (auto simp: number_ok_def)
  have fp: "list_all c_digit fp" using assms by (simp add: number_ok_def)
  have "CHR 0x00 \<notin> set (number_text neg ip fp ext)"
    using digits_not_nul [OF fp] digits_not_nul [OF ip(3)] c_digit_not(4) [OF ip(2)] exponent_not_nul [of ext] assms ip(1)
    by (auto simp: number_text_def number_ok_def)
  then have cs: "c_string (number_text neg ip fp ext) = number_text neg ip fp ext"
    unfolding c_string_def by (auto simp: takeWhile_eq_all_conv)
  have sp: "dropWhile c_space (number_text neg ip fp ext) = number_text neg ip fp ext"
    using ip(1) c_digit_not(1) [OF ip(2)] by (simp add: number_text_def c_space_def)
  have sg: "take_sign (number_text neg ip fp ext) = (neg, ?r)"
  proof (cases neg)
    case False
    then show ?thesis using take_sign_digit [of ?r] ip by (simp add: number_text_def)
  qed (simp add: number_text_def take_sign_def)
  let ?w = "map c_tolower (take 3 ?r)"
  have w: "?w \<noteq> ''inf''" "?w \<noteq> ''nan''"
    using c_digit_not [OF ip(2)] ip(1) by auto
  have "take 2 ?w \<noteq> ''0x''"
  proof -
    have "c_tolower y \<noteq> CHR ''x''" if "?r = c # y # ys" for y ys
    proof -
      have "y \<in> set cs \<or> y = CHR ''.'' \<or> y = CHR ''e'' \<or> y = CHR ''E''"
        using that ip(1) exponent_ok_start [of ext] assms
        by (cases cs) (auto simp: number_ok_def split: if_splits)
      then show ?thesis
        using ip(3) c_digit_not(5,8) [of y] lower_marks by (auto simp: list_all_iff)
    qed
    then show ?thesis unfolding ip(1) by (cases "cs @ (if fp = [] then [] else CHR ''.'' # fp) @ ext") auto
  qed
  moreover have "ip \<noteq> []" using ip(1) by simp
  ultimately show ?thesis
    using w mantissa_number [OF assms]
    by (simp add: strtod_def cs sp sg Let_def decimal_number_def number_frac_def)
qed

text \<open>Read back, the double nearest to the exact value; its sign is that of the text.\<close>

lemma number_frac_value:
  assumes "number_frac ip fp ext = (n, d)"
  shows "real n / real d =
      real (digits_value 10 digit_val (ip @ fp)) * 10 powi (exponent_part (CHR ''e'') ext - int (length fp))" "0 < d"
proof -
  let ?x = "exponent_part (CHR ''e'') ext - int (length fp)"
  have p: "(10 :: real) ^ nat ?x / 10 ^ nat (- ?x) = 10 powi ?x"
    by (cases "0 \<le> ?x") (auto simp: power_int_def field_simps)
  show "real n / real d = real (digits_value 10 digit_val (ip @ fp)) * 10 powi ?x" "0 < d"
    unfolding p [symmetric] using assms by (auto simp: number_frac_def Let_def)
qed

lemma strtod_rounds:
  assumes "number_ok ip fp ext" "number_frac ip fp ext = (n, d)" "0 < n"
  shows "\<exists>x er. strtod (number_text neg ip fp ext) = Some (x, er) \<and> rounds_to (sgnr neg * (real n / real d)) x"
proof -
  have "rounds_to (sgnr neg * (real n / real d)) (f64_of_frac neg n d)"
    using of_frac_rounds [OF number_frac_value(2) [OF assms(2)]] assms(3) by blast
  then show ?thesis unfolding strtod_number [OF assms(1)] by (simp add: assms(2) convert_frac_def Let_def)
qed

text \<open>Digit sequences.\<close>

lemma digits_value_append:
  "digits_value 10 digit_val (s @ t) = digits_value 10 digit_val s * 10 ^ length t + digits_value 10 digit_val t"
proof (induction t rule: rev_induct)
  case (snoc c t)
  then show ?case
    by (simp add: digits_value_def algebra_simps flip: append_assoc)
qed (simp add: digits_value_def)

lemma digits_value_zeros [simp]: "digits_value 10 digit_val (replicate n (CHR ''0'')) = 0"
  by (induction n) (simp_all add: digits_value_def digit_val_def)

end
