(* ===== verification/Grisu_Text.thy ===== *)
theory Grisu_Text
  imports Grisu_Correct Number_Text
begin

text \<open>
  The text \<open>to_chars\<close> makes of the digits is the text of a number with the same value, in each of the four
  layouts; read with \<^verbatim>\<open>strtod\<close> it gives the printed double.
\<close>

subsection \<open>Digits as characters\<close>

definition digit_text :: "nat list \<Rightarrow> string" where
  "digit_text ds = map digit_char ds"

lemma digit_text_simps [simp]:
  "digit_text [] = []" "length (digit_text ds) = length ds" "digit_text ds = [] \<longleftrightarrow> ds = []"
  "take n (digit_text ds) = digit_text (take n ds)" "drop n (digit_text ds) = digit_text (drop n ds)"
  "digit_text (ds @ es) = digit_text ds @ digit_text es"
  by (simp_all add: digit_text_def take_map drop_map)

lemma digit_text_digits: "list_all (\<lambda>d. d \<le> 9) ds \<Longrightarrow> list_all c_digit (digit_text ds)"
  using digit_char_val(1) by (auto simp: list_all_iff digit_text_def)

lemma digit_text_value: "list_all (\<lambda>d. d \<le> 9) ds \<Longrightarrow> digits_value 10 digit_val (digit_text ds) = dval ds"
proof (induction ds rule: rev_induct)
  case (snoc d ds)
  then show ?case using digit_char_val(2) [of d] by (simp add: digits_value_def digit_text_def)
qed (simp add: digits_value_def)

lemma digit_char_nonzero: "d \<le> 9 \<Longrightarrow> d \<noteq> 0 \<Longrightarrow> digit_char d \<noteq> CHR ''0''"
  using digit_char_val(2) [of d] by (auto simp: digit_val_def)

subsection \<open>The exponent\<close>

lemma append_exponent_text:
  assumes "- 1000 < x" "x < 1000"
  shows "\<exists>t. append_exponent x = Inr t \<and> exponent_ok (CHR ''e'' # t) \<and> exponent_part (CHR ''e'') (CHR ''e'' # t) = x"
proof -
  define k where "k = nat \<bar>x\<bar>"
  define sg where "sg = (if x < 0 then ''-'' else ''+'')"
  define ds where "ds = (if k < 10 then [0, k] else if k < 100 then [k div 10, k mod 10]
    else [k div 100, k mod 100 div 10, k mod 100 mod 10])"
  have k: "k < 1000" using assms by (simp add: k_def)
  have d9: "list_all (\<lambda>d. d \<le> 9) ds" using k by (auto simp: ds_def)
  have v: "dval ds = k"
  proof (cases "k < 100")
    case False
    have join: "k = a * 100 + b \<Longrightarrow> b = c * 10 + r \<Longrightarrow> (a * 10 + c) * 10 + r = k" for a b c r :: nat by simp
    have "(k div 100 * 10 + k mod 100 div 10) * 10 + k mod 100 mod 10 = k"
      by (rule join [OF div_mult_mod_eq [symmetric] div_mult_mod_eq [symmetric]])
    moreover have "\<not> k < 10" using False by simp
    ultimately show ?thesis using False by (simp only: ds_def dval_def if_False foldl.simps mult_zero_left add_0)
  qed (auto simp: ds_def dval_def)
  have ap: "append_exponent x = Inr (sg @ digit_text ds)"
    using assms by (simp add: append_exponent_def Let_def k_def [symmetric] sg_def ds_def digit_text_def digit_char_def)
  have ok: "exponent_ok (CHR ''e'' # sg @ digit_text ds)"
    unfolding exponent_ok_def using digit_text_digits [OF d9]
    by (intro disjI2 exI [of _ "CHR ''e''"] exI [of _ sg] exI [of _ "digit_text ds"]) (simp add: sg_def, simp add: ds_def)
  have tw: "takeWhile c_digit (digit_text ds) = digit_text ds"
    using takeWhile_digits [OF digit_text_digits [OF d9], of "[]"] by simp
  have "take_sign (sg @ digit_text ds) = (x < 0, digit_text ds)" by (simp add: sg_def take_sign_def)
  moreover have "ds \<noteq> []" by (simp add: ds_def)
  ultimately have "exponent_part (CHR ''e'') (CHR ''e'' # sg @ digit_text ds) = x"
    using lower_marks(2) by (simp add: exponent_part_def Let_def tw digit_text_value [OF d9] v k_def)
  then show ?thesis using ap ok by blast
qed

subsection \<open>The four layouts\<close>

lemma format_buffer_number:
  assumes ds: "decimal_digits ds" and x: "- 1000 < int (length ds) + dexp - 1" "int (length ds) + dexp - 1 < 1000"
  shows "\<exists>ip fp ext. format_buffer (digit_text ds) dexp (- 4) 15 = Inr (number_text False ip fp ext)
     \<and> number_ok ip fp ext \<and> (fp \<noteq> [] \<or> ext \<noteq> [])
     \<and> real (digits_value 10 digit_val (ip @ fp)) * 10 powi (exponent_part (CHR ''e'') ext - int (length fp))
       = real (dval ds) * 10 powi dexp"
proof -
  let ?k = "int (length ds)"
  let ?n = "?k + dexp"
  have d9: "list_all (\<lambda>d. d \<le> 9) ds" and ne: "ds \<noteq> []" using ds by (auto simp: decimal_digits_def leading_def)
  have part9: "list_all (\<lambda>d. d \<le> 9) (take i ds)" "list_all (\<lambda>d. d \<le> 9) (drop i ds)" for i
    using d9 set_take_subset [of i ds] set_drop_subset [of i ds] by (auto simp: list_all_iff)
  obtain d es where ds': "ds = d # es" "d \<le> 9" "d \<noteq> 0"
    using ds by (cases ds) (auto simp: decimal_digits_def leading_def)
  have hd: "hd (digit_text (take i ds)) \<noteq> CHR ''0''" if "0 < i" for i
    using that ds' digit_char_nonzero [of d] by (cases i) (auto simp: digit_text_def)
  have zeros: "list_all c_digit (replicate i (CHR ''0''))" for i by (simp add: list_all_iff c_digit_def)
  have noexp: "exponent_ok []" "exponent_part (CHR ''e'') [] = 0" by (simp_all add: exponent_ok_def exponent_part_def)
  consider (int) "?k \<le> ?n" "?n \<le> 15" | (mid) "0 < ?n" "?n \<le> 15" "?n < ?k" | (small) "- 4 < ?n" "?n \<le> 0"
    | (exp) "\<not> (?k \<le> ?n \<and> ?n \<le> 15)" "\<not> (0 < ?n \<and> ?n \<le> 15)" "\<not> (- 4 < ?n \<and> ?n \<le> 0)" by linarith
  then show ?thesis
  proof cases
    case int
    let ?ip = "digit_text ds @ replicate (nat dexp) (CHR ''0'')"
    have "format_buffer (digit_text ds) dexp (- 4) 15 = Inr (number_text False ?ip ''0'' [])"
      using int by (simp add: format_buffer_def number_text_def Let_def)
    moreover have "number_ok ?ip ''0'' []"
      using hd [of "length ds"] ne digit_text_digits [OF d9] zeros noexp by (simp add: number_ok_def c_digit_def)
    moreover have "real (digits_value 10 digit_val (?ip @ ''0'')) * 10 powi (exponent_part (CHR ''e'') [] - int (length ''0''))
        = real (dval ds) * 10 powi dexp"
    proof -
      have "digits_value 10 digit_val (?ip @ ''0'') = dval ds * 10 ^ nat dexp * 10"
        using digit_text_value [OF d9] digits_value_zeros [of 1] by (simp add: digits_value_append)
      moreover have "(10 :: real) ^ nat dexp = 10 powi dexp" using int by (simp add: power_int_def)
      ultimately show ?thesis by (simp add: noexp power_int_minus)
    qed
    ultimately show ?thesis by blast
  next
    case mid
    let ?ip = "digit_text (take (nat ?n) ds)" and ?fp = "digit_text (drop (nat ?n) ds)"
    have fp: "drop (nat ?n) ds \<noteq> []" "take (nat ?n) ds \<noteq> []" using mid ne by auto
    have "format_buffer (digit_text ds) dexp (- 4) 15 = Inr (number_text False ?ip ?fp [])"
      using mid fp by (simp add: format_buffer_def number_text_def Let_def)
    moreover have "number_ok ?ip ?fp []"
      using hd [of "nat ?n"] mid(1) fp digit_text_digits [OF part9(1)] digit_text_digits [OF part9(2)] noexp
      by (simp add: number_ok_def)
    moreover have "real (digits_value 10 digit_val (?ip @ ?fp)) * 10 powi (exponent_part (CHR ''e'') [] - int (length ?fp))
        = real (dval ds) * 10 powi dexp"
    proof -
      have "digits_value 10 digit_val (?ip @ ?fp) = dval ds"
        using digit_text_value [OF d9] by (simp flip: digit_text_simps(6))
      moreover have "0 - int (length ?fp) = dexp" using mid by simp
      ultimately show ?thesis unfolding noexp by (simp only:)
    qed
    ultimately show ?thesis using fp by (metis digit_text_simps(3))
  next
    case small
    let ?fp = "replicate (nat (- ?n)) (CHR ''0'') @ digit_text ds"
    have "dexp < 0" using small ne by (cases ds) simp_all
    note small = small this
    have "format_buffer (digit_text ds) dexp (- 4) 15 = Inr (number_text False ''0'' ?fp [])"
      using small ne by (simp add: format_buffer_def number_text_def Let_def)
    moreover have "number_ok ''0'' ?fp []"
      using digit_text_digits [OF d9] zeros noexp by (simp add: number_ok_def c_digit_def)
    moreover have "real (digits_value 10 digit_val (''0'' @ ?fp)) * 10 powi (exponent_part (CHR ''e'') [] - int (length ?fp))
        = real (dval ds) * 10 powi dexp"
    proof -
      have "digits_value 10 digit_val ''0'' = 0" using digits_value_zeros [of 1] by simp
      then have "digits_value 10 digit_val (''0'' @ ?fp) = dval ds"
        using digit_text_value [OF d9] by (simp add: digits_value_append del: append_Cons append_Nil)
      moreover have "- int (length ?fp) = dexp" using small by simp
      ultimately show ?thesis by (simp add: noexp)
    qed
    ultimately show ?thesis using ne by (metis append_is_Nil_conv digit_text_simps(3))
  next
    case exp
    obtain t where t: "append_exponent (?n - 1) = Inr t" "exponent_ok (CHR ''e'' # t)"
        "exponent_part (CHR ''e'') (CHR ''e'' # t) = ?n - 1"
      using append_exponent_text [OF x] by blast
    let ?ip = "digit_text (take 1 ds)" and ?fp = "digit_text (drop 1 ds)"
    have one: "length ds = 1 \<longleftrightarrow> drop 1 ds = []" using ne by (cases ds) auto
    have "format_buffer (digit_text ds) dexp (- 4) 15 =
        Inr ((if ?k = 1 then digit_text ds else take 1 (digit_text ds) @ ''.'' @ drop 1 (digit_text ds)) @ ''e'' @ t)"
      by (simp only: format_buffer_def Let_def digit_text_simps(2) exp t(1) if_False) simp
    also have "\<dots> = Inr (number_text False ?ip ?fp (CHR ''e'' # t))"
      using one by (cases ds) (auto simp: number_text_def)
    finally have "format_buffer (digit_text ds) dexp (- 4) 15 = Inr (number_text False ?ip ?fp (CHR ''e'' # t))" .
    moreover have "number_ok ?ip ?fp (CHR ''e'' # t)"
      using hd [of 1] ne digit_text_digits [OF part9(1)] digit_text_digits [OF part9(2)] t(2)
      by (simp add: number_ok_def)
    moreover have "real (digits_value 10 digit_val (?ip @ ?fp)) * 10 powi (exponent_part (CHR ''e'') (CHR ''e'' # t) - int (length ?fp))
        = real (dval ds) * 10 powi dexp"
    proof -
      have "digits_value 10 digit_val (?ip @ ?fp) = dval ds"
        using digit_text_value [OF d9] by (simp flip: digit_text_simps(6) del: append_take_drop_id) (simp)
      moreover have "?n - 1 - int (length ?fp) = dexp" using ne by (cases ds) simp_all
      ultimately show ?thesis unfolding t(3) by simp
    qed
    ultimately show ?thesis by blast
  qed
qed

subsection \<open>Reading the printed number\<close>

lemma decimal_digits_range:
  assumes "decimal_digits ds"
  shows "10 ^ (length ds - 1) \<le> dval ds" "dval ds < 10 ^ length ds"
proof -
  have lt: "list_all (\<lambda>d. d \<le> 9) es \<Longrightarrow> dval es < 10 ^ length es" for es
    by (induction es rule: rev_induct) (auto simp: dval_def)
  then show "dval ds < 10 ^ length ds" using assms by (simp add: decimal_digits_def leading_def)
  show "10 ^ (length ds - 1) \<le> dval ds" using assms dval_lower by (simp add: decimal_digits_def)
qed

lemma ten_power: "k < 3 * n \<Longrightarrow> (2 :: real) ^ k < 10 ^ n"
proof -
  assume "k < 3 * n"
  then have "(2 :: real) ^ k < 2 ^ (3 * n)" by (rule power_strict_increasing) simp
  also have "\<dots> = (2 ^ 3) ^ n" by (rule power_mult)
  also have "\<dots> \<le> 10 ^ n" by (rule power_mono) simp_all
  finally show ?thesis .
qed

lemma powi_small: "(10 :: real) powi (- 999) < 2 powi (- 1076)"
proof -
  have "(2 :: real) ^ 1076 < 10 ^ 999" by (rule ten_power) simp
  from less_imp_inverse_less [OF this zero_less_power [OF zero_less_numeral]]
  have "inverse ((10 :: real) ^ 999) < inverse (2 ^ 1076)" .
  then show ?thesis by (simp only: power_int_minus power_int_numeral)
qed

lemma powi_large: "(2 :: real) powi 1025 < 10 powi 1000"
proof -
  have "(2 :: real) ^ 1025 < 10 ^ 1000" by (rule ten_power) simp
  then show ?thesis by (simp only: power_int_numeral)
qed

lemma least_positive:
  assumes "(1 / 2) * 2 powi (- 1074) \<le> y"
  shows "2 powi (- 1076) < (y :: real)"
proof -
  have quarter: "(2 :: real) powi (- 2) = 1 / 4" by (simp add: power_int_minus)
  have "(2 :: real) powi (- 1076) = 2 powi (- 1074) * 2 powi (- 2)"
    unfolding powi_add [symmetric] by (rule arg_cong [where f = "(powi) 2"]) simp
  then have e: "(2 :: real) powi (- 1076) = 2 powi (- 1074) * (1 / 4)" unfolding quarter .
  have "b * (1 / 4) < (1 / 2) * b" if "0 < b" for b :: real using that by linarith
  from this [OF powi_pos] show ?thesis using assms unfolding e by (rule less_le_trans)
qed

lemma decimal_exponent_range:
  assumes "decimal_digits ds" "2 powi (- 1076) < real (dval ds) * 10 powi x" "real (dval ds) * 10 powi x < 2 powi 1025"
  shows "- 1000 < int (length ds) + x - 1" "int (length ds) + x - 1 < 1000"
proof -
  let ?n = "int (length ds) + x"
  have ne: "1 \<le> length ds" using assms(1) by (cases ds) (auto simp: decimal_digits_def leading_def)
  have "real (dval ds) < 10 powi int (length ds)" "10 powi (int (length ds) - 1) \<le> real (dval ds)"
    using decimal_digits_range [OF assms(1)] assms(1) ne
    by (simp_all add: power_int_def of_nat_diff nat_diff_distrib' decimal_digits_def numeral_power_less_of_nat_cancel_iff
        of_nat_less_numeral_power_cancel_iff numeral_power_le_of_nat_cancel_iff)
  then have "real (dval ds) * 10 powi x < 10 powi int (length ds) * 10 powi x"
      "10 powi (int (length ds) - 1) * 10 powi x \<le> real (dval ds) * 10 powi x" by simp_all
  moreover have "10 powi ?n = (10 :: real) powi int (length ds) * 10 powi x" by (simp add: power_int_add)
  moreover have "10 powi (?n - 1) = (10 :: real) powi (int (length ds) - 1) * 10 powi x"
    by (simp flip: power_int_add) (simp add: algebra_simps)
  ultimately have up: "real (dval ds) * 10 powi x < 10 powi ?n" and lo: "10 powi (?n - 1) \<le> real (dval ds) * 10 powi x"
    by (simp_all only:)
  show "- 1000 < ?n - 1"
  proof (rule ccontr)
    assume "\<not> - 1000 < ?n - 1"
    then have "(10 :: real) powi ?n \<le> 10 powi (- 999)" by (intro power_int_increasing) auto
    then show False using up assms(2) powi_small by (meson less_le_trans less_irrefl less_trans)
  qed
  show "?n - 1 < 1000"
  proof (rule ccontr)
    assume "\<not> ?n - 1 < 1000"
    then have "(10 :: real) powi 1000 \<le> 10 powi (?n - 1)" by (intro power_int_increasing) auto
    then show False using lo assms(3) powi_large by (meson less_le_trans less_irrefl less_trans order_trans)
  qed
qed

lemma number_text_minus: "number_text True ip fp ext = ''-'' @ number_text False ip fp ext"
  by (simp add: number_text_def)

text \<open>The double a positive value between the two midpoints is read as.\<close>

lemma between_reads:
  assumes ok: "f64_ok (Fin False m e)" "0 < m" and num: "number_ok ip fp ext"
    and v: "real (digits_value 10 digit_val (ip @ fp)) * 10 powi (exponent_part (CHR ''e'') ext - int (length fp)) = V"
    and V: "(real m - lower_part m e) * 2 powi e < V" "V < (real m + 1 / 2) * 2 powi e"
  shows "\<exists>er. strtod (number_text s ip fp ext) = Some (Fin s m e, er)"
proof -
  obtain n d where nd: "number_frac ip fp ext = (n, d)" by fastforce
  have val: "real n / real d = V" "0 < d" using number_frac_value [OF nd] v by simp_all
  have half: "1 / 2 \<le> real m - lower_part m e" using ok(2) by (simp add: lower_part_def)
  then have "0 < V" using V(1) by (meson half_gt_zero less_trans mult_pos_pos order_less_le_trans powi_pos zero_less_one)
  then have n: "0 < n" using val by (cases n) auto
  obtain y er where y: "strtod (number_text s ip fp ext) = Some (y, er)" "rounds_to (sgnr s * V) y"
    using strtod_rounds [OF num nd n, of s] val by auto
  have r: "rnd V = real m * 2 powi e" using rnd_between [OF ok V] .
  have "\<bar>fval (Fin s m e)\<bar> < f64_limit" by (rule fval_less_limit) (use ok in simp)
  moreover have fv: "rnd (sgnr s * V) = fval (Fin s m e)" using r by (cases s) simp_all
  ultimately have "is_finite y" "fval y = fval (Fin s m e)" "f64_ok y" using y(2) by (simp_all add: rounds_to_def)
  then have "y = Fin s m e"
    using ok by (intro f64_eqI) simp_all
  then show ?thesis using y(1) by blast
qed

lemma to_chars_number:
  assumes "f64_ok x" "is_finite x"
  shows "\<exists>neg ip fp ext er. to_chars x = Inr (number_text neg ip fp ext) \<and> number_ok ip fp ext \<and> (fp \<noteq> [] \<or> ext \<noteq> [])
     \<and> strtod (number_text neg ip fp ext) = Some (x, er)"
proof -
  obtain s m e where x: "x = Fin s m e" using assms(2) by (cases x) auto
  have v: "(if s then fneg x else x) = Fin False m e" using x by simp
  have neg: "(case x of Fin s m e \<Rightarrow> s | _ \<Rightarrow> False) = s" using x by simp
  show ?thesis
  proof (cases "m = 0")
    case True
    then have x0: "x = f64_zero s" using assms(1) x by (simp add: f64_zero_def)
    have num: "number_ok ''0'' ''0'' []" by (simp add: number_ok_def c_digit_def exponent_ok_def)
    have "to_chars x = Inr (number_text s ''0'' ''0'' [])"
      unfolding to_chars_def neg v Let_def using True assms(2) by (simp add: f64_zero_def number_text_def signed_mant_def)
    moreover have "strtod (number_text s ''0'' ''0'' []) = Some (x, False)"
      unfolding strtod_number [OF num] x0
      by (simp add: number_frac_def digits_value_def digit_val_def convert_frac_def f64_of_frac_0 f64_zero_def frac_exact_def)
    ultimately show ?thesis using num by blast
  next
    case False
    have ok: "f64_ok (Fin False m e)" "0 < m" using False assms(1) x by simp_all
    obtain ds dexp where g: "grisu2 (Fin False m e) = Inr (ds, dexp)" "decimal_digits ds" "length ds \<le> 17"
        "(real m - lower_part m e) * 2 powi e < real (dval ds) * 10 powi dexp"
        "real (dval ds) * 10 powi dexp < (real m + 1 / 2) * 2 powi e"
      using grisu2_result [OF ok] by blast
    have lo: "2 powi (- 1076) < real (dval ds) * 10 powi dexp"
    proof -
      have "(1 / 2) * 2 powi (- 1074) \<le> (real m - lower_part m e) * 2 powi e"
        using ok by (intro mult_mono powi_mono) (auto simp: lower_part_def)
      from less_trans [OF least_positive [OF this] g(4)] show ?thesis .
    qed
    have hi: "real (dval ds) * 10 powi dexp < 2 powi 1025"
    proof -
      have "real m < 9007199254740992" using ok(1) by simp
      then have "real m + 1 / 2 \<le> 2 ^ 54" by simp
      then have "(real m + 1 / 2) * 2 powi e \<le> 2 ^ 54 * 2 powi 971"
        using ok by (intro mult_mono powi_mono) auto
      also have "\<dots> = 2 powi 54 * 2 powi 971" unfolding power_int_numeral by (rule refl)
      also have "\<dots> = 2 powi 1025"
        unfolding powi_add [symmetric] by (rule arg_cong [where f = "(powi) 2"]) simp
      finally show ?thesis using g(5) by (rule less_le_trans [rotated])
    qed
    obtain ip fp ext where f: "format_buffer (digit_text ds) dexp (- 4) 15 = Inr (number_text False ip fp ext)"
        "number_ok ip fp ext" "fp \<noteq> [] \<or> ext \<noteq> []"
        "real (digits_value 10 digit_val (ip @ fp)) * 10 powi (exponent_part (CHR ''e'') ext - int (length fp))
           = real (dval ds) * 10 powi dexp"
      using format_buffer_number [OF g(2) decimal_exponent_range [OF g(2) lo hi]] by blast
    have "\<not> feq (Fin False m e) (f64_zero False)" using ok(2) by (simp add: f64_zero_def feq_val del: feq.simps(1))
    then have "to_chars x = Inr (number_text s ip fp ext)"
      unfolding to_chars_def neg v Let_def using assms(2) g(1,3) f(1)
      by (cases s) (simp_all add: digit_text_def number_text_minus)
    then show ?thesis using between_reads [OF ok f(2,4) g(4,5), of s] f(2,3) x by blast
  qed
qed

text \<open>C10: Every finite double is printed as the text of a JSON number with a fraction or an exponent (so it is never
  read back as an integer), no assertion of the printing code fails, and \<^verbatim>\<open>strtod\<close> reads the text back as exactly
  the same double, the sign of zero included.
\<close>

theorem to_chars_round_trip:
  assumes "f64_ok x" "is_finite x"
  shows "\<exists>neg ip fp ext er. to_chars x = Inr (number_text neg ip fp ext) \<and> number_ok ip fp ext \<and> (fp \<noteq> [] \<or> ext \<noteq> [])
     \<and> strtod (number_text neg ip fp ext) = Some (x, er)"
  using to_chars_number [OF assms] .

theorem to_chars_round_trip_witness:
  "\<exists>neg ip fp ext er. to_chars (Fin True 7205759403792794 (- 56)) = Inr (number_text neg ip fp ext) \<and> number_ok ip fp ext
     \<and> (fp \<noteq> [] \<or> ext \<noteq> []) \<and> strtod (number_text neg ip fp ext) = Some (Fin True 7205759403792794 (- 56), er)"
  by (rule to_chars_round_trip) simp_all

text \<open>C25: The digits Grisu2 produces for a positive double are at most 17, start and end with a nonzero digit, and
  with their exponent denote a number strictly between the midpoints to the two neighbouring doubles.
\<close>

theorem grisu2_shortest_interval:
  assumes "f64_ok (Fin False m e)" "0 < m"
  shows "\<exists>ds dexp. grisu2 (Fin False m e) = Inr (ds, dexp) \<and> length ds \<le> 17 \<and> decimal_digits ds
     \<and> (real m - lower_part m e) * 2 powi e < real (dval ds) * 10 powi dexp
     \<and> real (dval ds) * 10 powi dexp < (real m + 1 / 2) * 2 powi e"
  using grisu2_result [OF assms] by blast

theorem grisu2_shortest_interval_witness:
  "\<exists>ds dexp. grisu2 (Fin False 4503599627370496 (- 52)) = Inr (ds, dexp) \<and> length ds \<le> 17 \<and> decimal_digits ds
     \<and> (real 4503599627370496 - lower_part 4503599627370496 (- 52)) * 2 powi (- 52) < real (dval ds) * 10 powi dexp
     \<and> real (dval ds) * 10 powi dexp < (real 4503599627370496 + 1 / 2) * 2 powi (- 52)"
  by (rule grisu2_shortest_interval) simp_all

end
