(* ===== verification/Json_Scan.thy ===== *)
theory Json_Scan
  imports Json_Lexer
begin

text \<open>
  What the lexer does on given text.  \<open>feeds l s acc\<close>: the lexer \<open>l\<close> has still to read \<open>s\<close> and the token
  collected so far is \<open>acc\<close>; \<open>moved l l'\<close>: reading on from \<open>l\<close> leads to a state like \<open>l'\<close>.
\<close>

definition feeds :: "lexer \<Rightarrow> string \<Rightarrow> string \<Rightarrow> bool" where
  "feeds l s acc \<longleftrightarrow> \<not> next_unget l \<and> lx_input l = s \<and> token_buffer l = acc"

definition moved :: "lexer \<Rightarrow> lexer \<Rightarrow> bool" where
  "moved l l' \<longleftrightarrow>
     ignore_comments l' = ignore_comments l
     \<and> chars_read_total (lx_position l) \<le> chars_read_total (lx_position l')"

lemma moved_refl [simp]: "moved l l"
  by (simp add: moved_def)

lemma moved_trans [trans]: "moved l l' \<Longrightarrow> moved l' l'' \<Longrightarrow> moved l l''"
  by (simp add: moved_def)

lemma moved_get [simp]: "moved l (get l)"
  by (simp add: moved_def get_def advance_def Let_def split: list.split)

lemma moved_unget_get [simp]: "moved l (unget (get l))"
  by (simp add: moved_def get_def unget_def retreat_def advance_def Let_def split: list.split)

lemma moved_frame [simp]:
  "moved l (l'\<lparr>token_string := s\<rparr>) = moved l l'" "moved l (l'\<lparr>token_buffer := s\<rparr>) = moved l l'"
  "moved l (l'\<lparr>error_message := s\<rparr>) = moved l l'" "moved l (l'\<lparr>value_integer := w\<rparr>) = moved l l'"
  "moved l (l'\<lparr>value_unsigned := w\<rparr>) = moved l l'" "moved l (l'\<lparr>value_float := x\<rparr>) = moved l l'"
  "moved l (add_char c l') = moved l l'" "moved l (add_current l') = moved l l'" "moved l (reset_token l') = moved l l'"
  "moved l (add_codepoint cp l') = moved l l'"
  "moved (reset_token l) l' = moved l l'" "moved (add_current l) l' = moved l l'"
  by (simp_all add: moved_def add_char_def add_current_def reset_token_def add_codepoint_def split: option.split)

lemma get_feeds:
  assumes "feeds l (c # cs) acc"
  shows "feeds (get l) cs acc" "lx_current (get l) = Some c"
  using assms by (simp_all add: feeds_def get_def Let_def)

lemma add_feeds: "feeds l s acc \<Longrightarrow> feeds (add_char c l) s (acc @ [c])"
  by (simp add: feeds_def add_char_def)

lemma add_current_feeds: "feeds l s acc \<Longrightarrow> lx_current l = Some c \<Longrightarrow> feeds (add_current l) s (acc @ [c])"
  by (simp add: add_current_def add_feeds)

lemma add_codepoint_feeds: "feeds l s acc \<Longrightarrow> feeds (add_codepoint c l) s (acc @ utf8_bytes c)"
  by (simp add: feeds_def add_codepoint_def)

lemma reset_feeds: "feeds l s acc \<Longrightarrow> feeds (reset_token l) s []"
  by (simp add: feeds_def reset_token_def)

subsection \<open>Strings\<close>

text \<open>One step of the string loop over the text of one character.\<close>

definition steps_over :: "string \<Rightarrow> string \<Rightarrow> bool" where
  "steps_over text bytes \<longleftrightarrow>
     (\<forall>l rest acc. feeds l (text @ rest) acc \<longrightarrow>
        (\<exists>l'. string_step l = (None, l') \<and> feeds l' rest (acc @ bytes) \<and> moved l l'))"

lemma steps_overI:
  "(\<And>l rest acc. feeds l (text @ rest) acc \<Longrightarrow>
     \<exists>l'. string_step l = (None, l') \<and> feeds l' rest (acc @ bytes) \<and> moved l l') \<Longrightarrow> steps_over text bytes"
  by (simp add: steps_over_def)

lemma steps_over_plain:
  assumes "plain_byte (of_char c)"
  shows "steps_over [c] [c]"
proof (rule steps_overI)
  fix l rest acc assume "feeds l ([c] @ rest) acc"
  then have g: "feeds (get l) rest acc" "lx_current (get l) = Some c" by (simp_all add: get_feeds)
  have "c \<noteq> dquote" "c \<noteq> backslash" "\<not> of_char c < (0x20 :: nat)" using assms by (auto simp: plain_byte_def)
  then have "string_step l = (None, add_current (get l))"
    using g assms by (simp add: string_step_def Let_def)
  then show "\<exists>l'. string_step l = (None, l') \<and> feeds l' rest (acc @ [c]) \<and> moved l l'"
    using add_current_feeds [OF g] by simp
qed

lemma steps_over_simple:
  assumes "simple_escape c = Some e" "c \<noteq> CHR ''u''"
  shows "steps_over [backslash, c] [e]"
proof (rule steps_overI)
  fix l rest acc assume "feeds l ([backslash, c] @ rest) acc"
  then have g: "feeds (get l) (c # rest) acc" "lx_current (get l) = Some backslash" by (simp_all add: get_feeds)
  then have h: "feeds (get (get l)) rest acc" "lx_current (get (get l)) = Some c" by (simp_all add: get_feeds)
  have "string_step l = (None, add_char e (get (get l)))"
    using g h assms by (simp add: string_step_def escape_step_def Let_def)
  then show "\<exists>l'. string_step l = (None, l') \<and> feeds l' rest (acc @ [e]) \<and> moved l l'"
    using add_feeds [OF h(1)] moved_trans [OF moved_get moved_get] by simp
qed

lemma next_bytes_feeds:
  "list_all2 (\<lambda>(lo, hi) b. lo \<le> of_char b \<and> of_char b \<le> (hi :: nat)) rs cs \<Longrightarrow> feeds l (cs @ rest) acc \<Longrightarrow>
   \<exists>l'. next_bytes rs l = (True, l') \<and> feeds l' rest (acc @ cs) \<and> moved l l'"
proof (induction rs arbitrary: cs l acc)
  case (Cons r rs)
  obtain lo hi where r: "r = (lo, hi)" by (cases r)
  obtain c ds where cs: "cs = c # ds" "lo \<le> of_char c" "of_char c \<le> hi"
      "list_all2 (\<lambda>(lo, hi) b. lo \<le> of_char b \<and> of_char b \<le> hi) rs ds"
    using Cons.prems(1) r by (auto simp: list_all2_Cons1)
  have g: "feeds (get l) (ds @ rest) acc" "lx_current (get l) = Some c"
    using Cons.prems(2) cs(1) by (simp_all add: get_feeds)
  then obtain l' where "next_bytes rs (add_current (get l)) = (True, l')" "feeds l' rest ((acc @ [c]) @ ds)"
      "moved (add_current (get l)) l'"
    using Cons.IH [OF cs(4) add_current_feeds [OF g]] by auto
  then show ?case using r cs g moved_trans [OF moved_get [of l], of l'] by (auto simp: in_range_def Let_def)
qed simp

lemma steps_over_multibyte:
  assumes "utf8_ranges (of_char c) = Some rs"
    and "list_all2 (\<lambda>(lo, hi) b. lo \<le> of_char b \<and> of_char b \<le> (hi :: nat)) rs cs"
  shows "steps_over (c # cs) (c # cs)"
proof (rule steps_overI)
  fix l rest acc assume "feeds l ((c # cs) @ rest) acc"
  then have g: "feeds (get l) (cs @ rest) acc" "lx_current (get l) = Some c" by (simp_all add: get_feeds)
  have big: "(0x80 :: nat) \<le> of_char c" using assms(1) by (auto simp: utf8_ranges_def split: if_splits)
  then have "c \<noteq> dquote" "c \<noteq> backslash" by auto
  moreover obtain l' where "next_bytes rs (add_current (get l)) = (True, l')" "feeds l' rest ((acc @ [c]) @ cs)"
      "moved (add_current (get l)) l'"
    using next_bytes_feeds [OF assms(2) add_current_feeds [OF g]] by auto
  ultimately show "\<exists>l'. string_step l = (None, l') \<and> feeds l' rest (acc @ c # cs) \<and> moved l l'"
    using g assms(1) big moved_trans [OF moved_get [of l], of l']
    by (auto simp: string_step_def multibyte_step_def next_byte_in_range_def plain_byte_def Let_def)
qed

lemma char_units: "map of_char (utf8_bytes c) = utf8_units c" if "scalar c"
proof -
  have m: "(x :: nat) mod 64 < 128" for x by (rule less_trans [OF mod_less_divisor]) simp_all
  have "b \<in> set (utf8_units c) \<Longrightarrow> b < 256" for b
    using that m by (auto simp: utf8_units_def scalar_def split: if_splits)
  then show ?thesis by (simp add: utf8_bytes_def map_idI)
qed

lemma steps_over_scalar:
  assumes "scalar c" "0x20 \<le> c" "c \<noteq> 0x22" "c \<noteq> 0x5C"
  shows "steps_over (utf8_bytes c) (utf8_bytes c)"
proof (cases "c < 0x80")
  case True
  then have "utf8_bytes c = [char_of c]" "plain_byte (of_char (char_of c :: char))"
    using assms by (auto simp: utf8_bytes_def units_small plain_byte_def)
  then show ?thesis using steps_over_plain [of "char_of c"] by simp
next
  case False
  obtain b rs cs where u: "utf8_units c = b # cs" "utf8_ranges b = Some rs" "in_ranges rs cs"
    using units_ranges [OF assms(1)] False by auto
  then obtain ch chs where chs: "utf8_bytes c = ch # chs" "of_char ch = b" "map of_char chs = cs"
    using char_units [OF assms(1)] by (cases "utf8_bytes c") auto
  have "list_all2 (\<lambda>(lo, hi) b. lo \<le> of_char b \<and> of_char b \<le> hi) rs chs"
    using u(3) unfolding in_ranges_def chs(3) [symmetric] by (simp add: list_all2_map2 case_prod_unfold)
  then show ?thesis using steps_over_multibyte [of ch rs chs] u chs by simp
qed

text \<open>A unicode escape: four hexadecimal digits, in either case.\<close>

definition hex_word :: "string \<Rightarrow> nat \<Rightarrow> bool" where
  "hex_word ds n \<longleftrightarrow> length ds = 4 \<and> list_all c_xdigit ds \<and> digits_value 16 xdigit_val ds = n"

lemma codepoint_xdigit:
  assumes "feeds l (d # cs) acc" "c_xdigit d"
  shows "codepoint_loop (f # fs) n l = codepoint_loop fs (n + xdigit_val d * 2 ^ f) (get l)" "feeds (get l) cs acc"
  using get_feeds [OF assms(1)] assms(2)
  by (auto simp: Let_def in_range_def byte_of_def c_xdigit_def c_digit_def xdigit_val_def digit_val_def)

lemma get_codepoint_hex:
  assumes "hex_word ds n" "feeds l (ds @ cs) acc"
  shows "\<exists>l'. get_codepoint l = (Some n, l') \<and> feeds l' cs acc \<and> moved l l'"
proof -
  obtain d1 d2 d3 d4 where ds: "ds = [d1, d2, d3, d4]" and x: "c_xdigit d1" "c_xdigit d2" "c_xdigit d3" "c_xdigit d4"
    using assms(1) by (auto simp: hex_word_def length_Suc_conv numeral_eq_Suc)
  have f: "feeds l (d1 # d2 # d3 # d4 # cs) acc" using assms(2) ds by simp
  note c1 = codepoint_xdigit [OF f x(1)]
  note c2 = codepoint_xdigit [OF c1(2) x(2)]
  note c3 = codepoint_xdigit [OF c2(2) x(3)]
  note c4 = codepoint_xdigit [OF c3(2) x(4)]
  have "get_codepoint l = (Some n, get (get (get (get l))))"
    using assms(1)
    by (simp add: get_codepoint_def c1(1) c2(1) c3(1) c4(1) hex_word_def digits_value_def ds del: codepoint_loop.simps(2))
  moreover have "moved l (get (get (get (get l))))" by (meson moved_get moved_trans)
  ultimately show ?thesis using c4(2) by simp
qed

text \<open>After the two characters that announce it.\<close>

lemma escape_mark:
  assumes "feeds l (backslash # CHR ''u'' # ds @ rest) acc"
  shows "lx_current (get l) = Some backslash" "lx_current (get (get l)) = Some (CHR ''u'')"
    "feeds (get (get l)) (ds @ rest) acc" "moved l (get (get l))"
  using get_feeds [OF assms] get_feeds [OF get_feeds(1) [OF assms]] moved_trans [OF moved_get moved_get] by simp_all

lemma steps_over_hex:
  assumes "hex_word ds n" "n < 0xD800 \<or> 0xDFFF < n"
  shows "steps_over (backslash # CHR ''u'' # ds) (utf8_bytes n)"
proof (rule steps_overI)
  fix l rest acc assume "feeds l ((backslash # CHR ''u'' # ds) @ rest) acc"
  then have f: "feeds l (backslash # CHR ''u'' # ds @ rest) acc" by simp
  note m = escape_mark [OF f]
  obtain l' where l': "get_codepoint (get (get l)) = (Some n, l')" "feeds l' rest acc" "moved (get (get l)) l'"
    using get_codepoint_hex [OF assms(1) m(3)] by blast
  have "string_step l = (None, add_codepoint n l')"
    using m(1,2) l' assms(2) by (auto simp: string_step_def escape_step_def unicode_escape_def Let_def)
  then show "\<exists>l'. string_step l = (None, l') \<and> feeds l' rest (acc @ utf8_bytes n) \<and> moved l l'"
    using add_codepoint_feeds [OF l'(2)] moved_trans [OF m(4) l'(3)] by simp
qed

lemma steps_over_pair:
  assumes "hex_word ds hi" "hex_word es lo" "0xD800 \<le> hi" "hi \<le> 0xDBFF" "0xDC00 \<le> lo" "lo \<le> 0xDFFF"
  shows "steps_over ((backslash # CHR ''u'' # ds) @ (backslash # CHR ''u'' # es))
           (utf8_bytes (0x10000 + (hi - 0xD800) * 2 ^ 10 + (lo - 0xDC00)))"
proof (rule steps_overI)
  define c where "c = 0x10000 + (hi - 0xD800) * 2 ^ 10 + (lo - 0xDC00)"
  have c: "hi * 2 ^ 10 + lo - 0x35FDC00 = c" using assms by (simp add: c_def algebra_simps)
  fix l rest acc
  assume "feeds l (((backslash # CHR ''u'' # ds) @ (backslash # CHR ''u'' # es)) @ rest) acc"
  then have f: "feeds l (backslash # CHR ''u'' # ds @ (backslash # CHR ''u'' # es @ rest)) acc" by simp
  note m = escape_mark [OF f]
  obtain l1 where l1: "get_codepoint (get (get l)) = (Some hi, l1)" "feeds l1 (backslash # CHR ''u'' # es @ rest) acc"
      "moved (get (get l)) l1"
    using get_codepoint_hex [OF assms(1) m(3)] by blast
  note m1 = escape_mark [OF l1(2)]
  obtain l2 where l2: "get_codepoint (get (get l1)) = (Some lo, l2)" "feeds l2 rest acc" "moved (get (get l1)) l2"
    using get_codepoint_hex [OF assms(2) m1(3)] by blast
  have "string_step l = (None, add_codepoint c l2)"
    using m(1,2) l1 m1(1,2) l2 assms(3-) c
    by (simp add: string_step_def escape_step_def unicode_escape_def surrogate_pair_def Let_def)
  moreover have "moved l l2" using m(4) l1(3) m1(4) l2(3) by (meson moved_trans)
  ultimately show "\<exists>l'. string_step l = (None, l') \<and> feeds l' rest (acc @ utf8_bytes c) \<and> moved l l'"
    using add_codepoint_feeds [OF l2(2)] by simp
qed

text \<open>A string made of such pieces, up to the closing quote.\<close>

lemma scan_pieces:
  "list_all (\<lambda>(text, bytes). steps_over text bytes) ps \<Longrightarrow> feeds l (concat (map fst ps) @ dquote # rest) acc \<Longrightarrow>
   \<exists>l'. scan_loop l = (T_value_string, l') \<and> feeds l' rest (acc @ concat (map snd ps)) \<and> moved l l'"
proof (induction ps arbitrary: l acc)
  case Nil
  then have "feeds (get l) rest acc" "lx_current (get l) = Some dquote" using get_feeds [of l dquote rest] by auto
  moreover from this have "scan_loop l = (T_value_string, get l)"
    by (subst scan_loop.simps) (simp add: string_step_def Let_def)
  ultimately show ?case by simp
next
  case (Cons p ps)
  obtain l1 where l1: "string_step l = (None, l1)" "moved l l1" "feeds l1 (concat (map fst ps) @ dquote # rest) (acc @ snd p)"
    using Cons.prems by (cases p) (fastforce simp: steps_over_def)
  then obtain l2 where "scan_loop l1 = (T_value_string, l2)" "feeds l2 rest ((acc @ snd p) @ concat (map snd ps))" "moved l1 l2"
    using Cons.IH [OF _ l1(3)] Cons.prems by auto
  then show ?case using l1 moved_trans by (subst scan_loop.simps) auto
qed

end
