(* ===== verification/Json_Grammar.thy ===== *)
theory Json_Grammar
  imports Json_Scan Number_Text
begin

text \<open>
  An abstract specification of JSON (RFC 8259): which texts denote which values.  It mentions no state of the
  lexer or the parser.  A string is a sequence of code points written plainly or escaped, a number is a
  64-bit integer when it has neither fraction nor exponent and fits, and the nearest double otherwise, and the
  members of an object are entered one after the other, so that the last of several with the same key counts.
\<close>

definition ws :: "string \<Rightarrow> bool" where
  "ws w \<longleftrightarrow> list_all json_space w"

subsection \<open>Strings\<close>

definition plain_codepoint :: "nat \<Rightarrow> bool" where
  "plain_codepoint c \<longleftrightarrow> scalar c \<and> 0x20 \<le> c \<and> c \<noteq> 0x22 \<and> c \<noteq> 0x5C"

inductive char_text :: "nat \<Rightarrow> string \<Rightarrow> bool" where
  plain: "plain_codepoint c \<Longrightarrow> char_text c (utf8_bytes c)"
| simple: "simple_escape m = Some e \<Longrightarrow> char_text (of_char e) [backslash, m]"
| hex: "hex_word ds c \<Longrightarrow> c < 0xD800 \<or> 0xDFFF < c \<Longrightarrow> char_text c (backslash # CHR ''u'' # ds)"
| pair: "hex_word ds hi \<Longrightarrow> hex_word es lo \<Longrightarrow> 0xD800 \<le> hi \<Longrightarrow> hi \<le> 0xDBFF \<Longrightarrow> 0xDC00 \<le> lo \<Longrightarrow> lo \<le> 0xDFFF \<Longrightarrow>
    char_text (0x10000 + (hi - 0xD800) * 2 ^ 10 + (lo - 0xDC00)) ((backslash # CHR ''u'' # ds) @ (backslash # CHR ''u'' # es))"

inductive string_text :: "string \<Rightarrow> string \<Rightarrow> bool" where
  "list_all2 char_text cs ts \<Longrightarrow> string_text (concat (map utf8_bytes cs)) (dquote # concat ts @ [dquote])"

subsection \<open>Numbers\<close>

definition number_value :: "bool \<Rightarrow> string \<Rightarrow> string \<Rightarrow> string \<Rightarrow> json" where
  "number_value neg ip fp ext =
     (let n = digits_value 10 digit_val ip
      in if fp = [] \<and> ext = [] \<and> \<not> neg \<and> n < 2 ^ 64 then JUnsigned (word_of_nat n)
         else if fp = [] \<and> ext = [] \<and> neg \<and> n \<le> 2 ^ 63 then JInteger (- word_of_nat n)
         else case number_frac ip fp ext of (a, b) \<Rightarrow> JFloat (f64_of_frac neg a b))"

fun finite_number :: "json \<Rightarrow> bool" where
  "finite_number (JFloat x) = is_finite x"
| "finite_number j = True"

subsection \<open>Values\<close>

definition object_of :: "(string \<times> json) list \<Rightarrow> json" where
  "object_of kvs = JObject (foldl (\<lambda>ms (k, v). obj_set k v ms) [] kvs)"

inductive json_text :: "json \<Rightarrow> string \<Rightarrow> bool"
  and elements_text :: "json list \<Rightarrow> string \<Rightarrow> bool"
  and members_text :: "(string \<times> json) list \<Rightarrow> string \<Rightarrow> bool" where
  null: "json_text JNull ''null''"
| true: "json_text (JBoolean True) ''true''"
| false: "json_text (JBoolean False) ''false''"
| str: "string_text s t \<Longrightarrow> json_text (JString s) t"
| number: "number_ok ip fp ext \<Longrightarrow> number_value neg ip fp ext = j \<Longrightarrow> finite_number j \<Longrightarrow>
    json_text j (number_text neg ip fp ext)"
| empty_array: "ws w \<Longrightarrow> json_text (JArray []) (''['' @ w @ '']'')"
| array: "elements_text xs t \<Longrightarrow> json_text (JArray xs) (''['' @ t @ '']'')"
| empty_object: "ws w \<Longrightarrow> json_text (JObject []) (''{'' @ w @ ''}'')"
| object: "members_text kvs t \<Longrightarrow> json_text (object_of kvs) (''{'' @ t @ ''}'')"
| element: "ws a \<Longrightarrow> json_text j t \<Longrightarrow> ws b \<Longrightarrow> elements_text [j] (a @ t @ b)"
| elements: "ws a \<Longrightarrow> json_text j t \<Longrightarrow> ws b \<Longrightarrow> elements_text xs u \<Longrightarrow> elements_text (j # xs) (a @ t @ b @ '','' @ u)"
| member: "ws a \<Longrightarrow> string_text k kt \<Longrightarrow> ws b \<Longrightarrow> ws c \<Longrightarrow> json_text j t \<Longrightarrow> ws d \<Longrightarrow>
    members_text [(k, j)] (a @ kt @ b @ '':'' @ c @ t @ d)"
| members: "ws a \<Longrightarrow> string_text k kt \<Longrightarrow> ws b \<Longrightarrow> ws c \<Longrightarrow> json_text j t \<Longrightarrow> ws d \<Longrightarrow> members_text kvs u \<Longrightarrow>
    members_text ((k, j) # kvs) (a @ kt @ b @ '':'' @ c @ t @ d @ '','' @ u)"

text \<open>A document: an optional byte order mark, white space around one value.\<close>

definition byte_order_mark :: string where
  "byte_order_mark = [CHR 0xEF, CHR 0xBB, CHR 0xBF]"

inductive document_text :: "json \<Rightarrow> string \<Rightarrow> bool" where
  "bom = [] \<or> bom = byte_order_mark \<Longrightarrow> ws a \<Longrightarrow> json_text j t \<Longrightarrow> ws b \<Longrightarrow> document_text j (bom @ a @ t @ b)"

end
