(* ===== verification/Json_Tokens.thy ===== *)
theory Json_Tokens
  imports Json_Grammar
begin

text \<open>
  What the lexer makes of the texts of the tokens.  \<open>reading l s\<close>: the lexer has still to read \<open>s\<close>, the byte
  given back by \<open>unget\<close> included; \<open>ready l s\<close>: and it is between tokens.
\<close>

definition reading :: "lexer \<Rightarrow> string \<Rightarrow> bool" where
  "reading l s \<longleftrightarrow>
     (if next_unget l
      then (case lx_current l of Some c \<Rightarrow> s = c # lx_input l | None \<Rightarrow> s = [] \<and> lx_input l = [])
      else lx_input l = s)"

definition ready :: "lexer \<Rightarrow> string \<Rightarrow> bool" where
  "ready l s \<longleftrightarrow> reading l s \<and> (chars_read_total (lx_position l) = 0 \<longrightarrow> take 1 s \<noteq> [CHR 0xEF])"

definition started :: "lexer \<Rightarrow> bool" where
  "started l \<longleftrightarrow> 0 < chars_read_total (lx_position l)"

lemma get_reading:
  assumes "reading l s"
  shows "reading (get l) (tl s)" "lx_current (get l) = (case s of [] \<Rightarrow> None | c # _ \<Rightarrow> Some c)"
    "\<not> next_unget (get l)" "started (get l)" "lx_input (get l) = tl s"
  using assms
  by (auto simp: reading_def get_def Let_def started_def advance_def split: list.splits option.splits if_splits)

lemma unget_reading:
  assumes "\<not> next_unget l" "reading l s" "lx_current l = None \<longrightarrow> s = []"
  shows "reading (unget l) (case lx_current l of None \<Rightarrow> [] | Some c \<Rightarrow> c # s)"
  using assms by (auto simp: reading_def unget_def split: option.split)

lemma reading_frame [simp]:
  "reading (l\<lparr>token_string := a\<rparr>) s = reading l s" "reading (l\<lparr>token_buffer := a\<rparr>) s = reading l s"
  "reading (l\<lparr>error_message := a\<rparr>) s = reading l s" "reading (l\<lparr>value_integer := w\<rparr>) s = reading l s"
  "reading (l\<lparr>value_unsigned := w\<rparr>) s = reading l s" "reading (l\<lparr>value_float := x\<rparr>) s = reading l s"
  "reading (add_char c l) s = reading l s" "reading (add_current l) s = reading l s" "reading (reset_token l) s = reading l s"
  by (simp_all add: reading_def add_char_def add_current_def reset_token_def split: option.split)

lemma reading_feeds: "\<not> next_unget l \<Longrightarrow> reading l s \<Longrightarrow> feeds l s (token_buffer l)"
  by (simp add: reading_def feeds_def)

lemma feeds_reading: "feeds l s acc \<Longrightarrow> reading l s"
  by (simp add: reading_def feeds_def)

lemma moved_started: "started l \<Longrightarrow> moved l l' \<Longrightarrow> started l'"
  by (simp add: started_def moved_def)

lemma started_ready: "started l \<Longrightarrow> reading l s \<Longrightarrow> ready l s"
  by (simp add: ready_def started_def)

subsection \<open>White space and the start of a token\<close>

text \<open>The state in which a token is scanned: its first byte is the current one.\<close>

definition at_token :: "lexer \<Rightarrow> char \<Rightarrow> string \<Rightarrow> bool" where
  "at_token l c s \<longleftrightarrow> started l \<and> \<not> next_unget l \<and> lx_current l = Some c \<and> lx_input l = s"

lemma at_token_reading: "at_token l c s \<Longrightarrow> reading l s"
  by (simp add: at_token_def reading_def)

lemma skip_whitespace_over:
  "ws w \<Longrightarrow> reading l (w @ s) \<Longrightarrow> s = [] \<or> \<not> json_space (hd s) \<Longrightarrow>
   reading (skip_whitespace l) (tl s) \<and> lx_current (skip_whitespace l) = (case s of [] \<Rightarrow> None | c # _ \<Rightarrow> Some c)
   \<and> \<not> next_unget (skip_whitespace l) \<and> started (skip_whitespace l)
   \<and> lx_input (skip_whitespace l) = tl s"
proof (induction w arbitrary: l)
  case Nil
  then have "skip_whitespace l = get l"
    using get_reading(2) [of l s] by (subst skip_whitespace.simps) (auto simp: Let_def split: list.splits)
  then show ?case using Nil get_reading [of l s] by simp
next
  case (Cons c w)
  have g: "reading (get l) (w @ s)" "lx_current (get l) = Some c" using get_reading [OF Cons.prems(2)] by simp_all
  then have "skip_whitespace l = skip_whitespace (get l)"
    using Cons.prems(1) by (subst skip_whitespace.simps) (simp add: ws_def Let_def)
  then show ?case using Cons.IH [OF _ g(1) Cons.prems(3)] Cons.prems(1) by (simp add: ws_def)
qed

lemma skip_bom_none:
  assumes "reading l s" "take 1 s \<noteq> [CHR 0xEF]"
  shows "\<exists>l'. skip_bom l = (True, l') \<and> reading l' s"
proof -
  have "lx_current (get l) \<noteq> Some (CHR 0xEF)" using get_reading(2) [OF assms(1)] assms(2) by (cases s) auto
  moreover have "reading (unget (get l)) s"
    using unget_reading [OF get_reading(3) [OF assms(1)] get_reading(1) [OF assms(1)]] get_reading(2) [OF assms(1)]
    by (cases s) auto
  ultimately show ?thesis by (simp add: skip_bom_def Let_def)
qed

text \<open>The token starts with \<open>c\<close>, which is not the slash of a comment.\<close>

lemma scan_reaches:
  assumes "ready l (w @ s)" "ws w" "s = [] \<or> \<not> json_space (hd s) \<and> hd s \<noteq> CHR ''/''"
  shows "\<exists>l'. scan l = scan_token l' \<and> started l' \<and> \<not> next_unget l' \<and> lx_input l' = tl s
    \<and> lx_current l' = (case s of [] \<Rightarrow> None | c # _ \<Rightarrow> Some c)"
proof -
  obtain l1 where l1: "(if chars_read_total (lx_position l) = 0 then skip_bom l else (True, l)) = (True, l1)"
      "reading l1 (w @ s)"
    using assms(1) skip_bom_none [of l "w @ s"] by (cases "chars_read_total (lx_position l) = 0") (auto simp: ready_def)
  let ?l2 = "skip_whitespace l1"
  note w = skip_whitespace_over [OF assms(2) l1(2)]
  have "lx_current ?l2 \<noteq> Some (CHR ''/'')" using w assms(3) by (auto split: list.splits)
  then have "skip_comments ?l2 = (True, ?l2)" by (subst skip_comments.simps) simp
  then have "scan l = scan_token ?l2" using l1(1) by (simp add: scan_def)
  then show ?thesis using w assms(3) by blast
qed

lemma scan_at:
  assumes "ready l (w @ c # s)" "ws w" "\<not> json_space c" "c \<noteq> CHR ''/''"
  shows "\<exists>l'. scan l = scan_token l' \<and> at_token l' c s"
  using scan_reaches [OF assms(1,2)] assms(3,4) by (auto simp: at_token_def)

lemma scan_end:
  assumes "ready l w" "ws w"
  shows "fst (scan l) = T_end_of_input"
  using scan_reaches [of l w "[]"] assms by (auto simp: scan_token_def)

subsection \<open>Literals and strings\<close>

lemma literal_rest_over:
  "reading l (t @ s) \<Longrightarrow> started l \<Longrightarrow> \<exists>l'. literal_rest t l = (True, l') \<and> reading l' s \<and> started l'"
proof (induction t arbitrary: l)
  case (Cons c t)
  have "reading (get l) (t @ s)" "lx_current (get l) = Some c" "started (get l)"
    using get_reading [OF Cons.prems(1)] by simp_all
  then show ?case using Cons.IH by (simp add: Let_def)
qed simp

lemma literal_token:
  assumes "at_token l c (t @ s)" "(c # t, ty) \<in> {(''true'', T_literal_true), (''false'', T_literal_false), (''null'', T_literal_null)}"
  shows "\<exists>l'. scan_token l = (ty, l') \<and> reading l' s \<and> started l'"
proof -
  have r: "reading l (t @ s)" "started l" "lx_current l = Some c"
    using assms(1) by (simp_all add: at_token_reading) (simp_all add: at_token_def)
  obtain l' where "literal_rest t l = (True, l')" "reading l' s" "started l'" using literal_rest_over [OF r(1,2)] by blast
  moreover have "c = CHR ''t'' \<and> t = ''rue'' \<and> ty = T_literal_true \<or> c = CHR ''f'' \<and> t = ''alse'' \<and> ty = T_literal_false
      \<or> c = CHR ''n'' \<and> t = ''ull'' \<and> ty = T_literal_null"
    using assms(2) by auto
  ultimately show ?thesis using r(3) by (elim disjE conjE) (simp_all add: scan_token_def scan_literal_def)
qed

lemma escape_ascii: "simple_escape m = Some e \<Longrightarrow> m \<noteq> CHR ''u'' \<and> utf8_bytes (of_char e) = [e]"
  by (auto simp: simple_escape_def utf8_bytes_def utf8_units_def split: if_splits)

lemma steps_over_char_text: "char_text c t \<Longrightarrow> steps_over t (utf8_bytes c)"
proof (induction rule: char_text.induct)
  case (simple m e)
  then show ?case using steps_over_simple [of m e] escape_ascii by metis
next
  case (plain c)
  then show ?case using steps_over_scalar by (simp add: plain_codepoint_def)
qed (rule steps_over_hex steps_over_pair, assumption+)+

lemma string_token:
  assumes "string_text str t" "at_token l c s" "c # s = t @ rest"
  shows "\<exists>l'. scan_token l = (T_value_string, l') \<and> token_buffer l' = str \<and> reading l' rest \<and> started l'"
proof -
  obtain cs ts where t: "list_all2 char_text cs ts" "str = concat (map utf8_bytes cs)" "t = dquote # concat ts @ [dquote]"
    using assms(1) by (auto elim: string_text.cases)
  let ?ps = "map2 (\<lambda>c t. (t, utf8_bytes c)) cs ts"
  have len: "length cs = length ts" using t(1) by (rule list_all2_lengthD)
  have ps: "map fst ?ps = ts" "map snd ?ps = map utf8_bytes cs"
  proof -
    have "map snd ?ps = map utf8_bytes (map fst (zip cs ts))" "map fst ?ps = map snd (zip cs ts)"
      by (simp_all add: case_prod_unfold)
    then show "map fst ?ps = ts" "map snd ?ps = map utf8_bytes cs" using len by simp_all
  qed
  have "list_all (\<lambda>(text, bytes). steps_over text bytes) ?ps"
    using t(1) steps_over_char_text by (auto simp: list_all_iff list_all2_iff)
  moreover have "feeds (reset_token l) (concat (map fst ?ps) @ dquote # rest) []"
    using assms(2,3) unfolding ps by (auto simp: t(3) at_token_def reset_token_def feeds_def)
  ultimately obtain l' where l': "scan_loop (reset_token l) = (T_value_string, l')" "feeds l' rest str" "moved l l'"
    using scan_pieces [of ?ps "reset_token l" rest "[]"] unfolding ps t(2) by auto
  then have "scan_token l = (T_value_string, l')"
    using assms(2,3) t(3) by (auto simp: scan_token_def scan_string_def at_token_def)
  then show ?thesis using l' feeds_reading moved_started [of l l'] assms(2) by (auto simp: at_token_def feeds_def)
qed

subsection \<open>Numbers\<close>

text \<open>What may follow a number without being taken as a part of it.\<close>

definition stops :: "string \<Rightarrow> bool" where
  "stops s \<longleftrightarrow> s = [] \<or> \<not> c_digit (hd s) \<and> hd s \<noteq> CHR ''.'' \<and> hd s \<noteq> CHR ''e'' \<and> hd s \<noteq> CHR ''E''"

lemma digit0_iff [simp]: "digit0 (Some c) \<longleftrightarrow> c_digit c" "\<not> digit0 None"
  by (simp_all add: digit0_def in_range_def c_digit_def)

lemma digit1_iff: "digit1 (Some c) \<longleftrightarrow> c_digit c \<and> c \<noteq> CHR ''0''"
proof -
  have "of_char c = (48 :: nat) \<longleftrightarrow> c = CHR ''0''"
    using of_char_eq_iff [of c "CHR ''0''", where 'a = nat] by simp
  then show ?thesis by (auto simp: digit1_def in_range_def c_digit_def)
qed

lemma get_end:
  assumes "feeds l s acc"
  shows "lx_current (get l) = (case s of [] \<Rightarrow> None | c # _ \<Rightarrow> Some c)" "token_buffer (get l) = acc"
    "reading (unget (get l)) s" "token_buffer (unget (get l)) = acc"
  using assms get_reading(2) [OF feeds_reading [OF assms]]
    unget_reading [OF get_reading(3,1) [OF feeds_reading [OF assms]]]
  by (cases s; simp add: get_def unget_def Let_def feeds_def split: list.split)+

lemma number_stop:
  assumes "feeds l s acc" "stops s" "st \<in> {N_zero, N_any1, N_decimal2, N_any2}"
  shows "number_loop st ty l = (Some ty, get l)"
proof -
  have "\<not> digit0 (lx_current (get l)) \<and> lx_current (get l) \<noteq> Some (CHR ''.'') \<and> \<not> exp_mark (lx_current (get l))"
    using get_end(1) [OF assms(1)] assms(2) by (cases s) (auto simp: stops_def exp_mark_def)
  then show ?thesis using assms(3) by (subst number_loop.simps) (auto simp: number_defs Let_def)
qed

lemma number_digits:
  "list_all c_digit ds \<Longrightarrow> feeds l (ds @ s) acc \<Longrightarrow> st \<in> {N_any1, N_decimal2, N_any2} \<Longrightarrow>
   \<exists>l'. number_loop st ty l = number_loop st ty l' \<and> feeds l' s (acc @ ds) \<and> moved l l'"
proof (induction ds arbitrary: l acc)
  case (Cons d ds)
  have g: "feeds (get l) (ds @ s) acc" "lx_current (get l) = Some d" using Cons.prems(2) by (simp_all add: get_feeds)
  have "number_loop st ty l = number_loop st ty (add_current (get l))"
    using Cons.prems(1,3) g by (subst number_loop.simps) (auto simp: number_defs Let_def)
  moreover obtain l' where "number_loop st ty (add_current (get l)) = number_loop st ty l'"
      "feeds l' s ((acc @ [d]) @ ds)" "moved (add_current (get l)) l'"
    using Cons.IH [OF _ add_current_feeds [OF g] Cons.prems(3)] Cons.prems(1) by auto
  ultimately show ?case using moved_trans [OF moved_get [of l], of l'] by auto
qed (auto)

lemma number_go:
  assumes "feeds l (c # s) acc" "number_step st ty l = go st' ty' (get l)"
  shows "number_loop st ty l = number_loop st' ty' (add_current (get l))" "feeds (add_current (get l)) s (acc @ [c])"
    "moved l (add_current (get l))"
proof -
  show "number_loop st ty l = number_loop st' ty' (add_current (get l))"
    using assms(2) by (subst number_loop.simps) (simp add: go_def)
qed (use add_current_feeds [OF get_feeds [OF assms(1)]] in simp_all)

lemma number_exponent_part:
  assumes "exponent_ok ext" "feeds l (ext @ s) acc" "stops s" "st \<in> {N_zero, N_any1, N_decimal2}"
  shows "\<exists>l'. number_loop st ty l = (Some (if ext = [] then ty else T_value_float), get l')
    \<and> feeds l' s (acc @ ext) \<and> moved l l'"
proof (cases "ext = []")
  case True
  then show ?thesis using assms number_stop [of l s acc st ty] by auto
next
  case False
  then obtain m sg ds where e: "ext = m # sg @ ds" "m = CHR ''e'' \<or> m = CHR ''E''" "sg \<in> {[], ''+'', ''-''}" "ds \<noteq> []"
      "list_all c_digit ds"
    using assms(1) unfolding exponent_ok_def by blast
  obtain d es where ds: "ds = d # es" "c_digit d" "list_all c_digit es" using e(4,5) by (cases ds) auto
  have f: "feeds l (m # (sg @ ds @ s)) acc" using assms(2) e(1) by simp
  have "exp_mark (lx_current (get l))" "\<not> digit0 (lx_current (get l))" "lx_current (get l) \<noteq> Some (CHR ''.'')"
    using get_feeds(2) [OF f] e(2) by (auto simp: exp_mark_def c_digit_def)
  then have "number_step st ty l = go N_exponent ty (get l)" using assms(4) by (auto simp: number_defs Let_def)
  note m = number_go [OF f this]
  let ?l1 = "add_current (get l)"
  have "\<exists>l2 st2. number_loop N_exponent ty ?l1 = number_loop st2 T_value_float l2 \<and> st2 = N_any2
    \<and> feeds l2 (es @ s) (acc @ m # sg @ [d]) \<and> moved ?l1 l2"
  proof (cases "sg = []")
    case True
    then have f1: "feeds ?l1 (d # (es @ s)) (acc @ [m])" using m(2) ds(1) by simp
    have "number_step N_exponent ty ?l1 = go N_any2 T_value_float (get ?l1)"
      using get_feeds(2) [OF f1] ds(2) c_digit_not(2,3) [of d] by (auto simp: number_defs Let_def)
    note g = number_go [OF f1 this]
    show ?thesis using g True by (intro exI [of _ "add_current (get ?l1)"]) simp
  next
    case False
    then obtain p where p: "sg = [p]" "p = CHR ''+'' \<or> p = CHR ''-''" using e(3) by auto
    have f1: "feeds ?l1 (p # (d # es @ s)) (acc @ [m])" using m(2) ds(1) p(1) by simp
    have "number_step N_exponent ty ?l1 = go N_sign T_value_float (get ?l1)"
      using get_feeds(2) [OF f1] p(2) by (auto simp: number_defs Let_def)
    note g = number_go [OF f1 this]
    have f2: "feeds (add_current (get ?l1)) (d # (es @ s)) ((acc @ [m]) @ [p])" using g(2) by simp
    have "number_step N_sign T_value_float (add_current (get ?l1)) = go N_any2 T_value_float (get (add_current (get ?l1)))"
      using get_feeds(2) [OF f2] ds(2) by (simp add: number_defs Let_def)
    note h = number_go [OF f2 this]
    show ?thesis using g h p(1) moved_trans [OF g(3) h(3)]
      by (intro exI [of _ "add_current (get (add_current (get ?l1)))"]) simp
  qed
  then obtain l2 where l2: "number_loop N_exponent ty ?l1 = number_loop N_any2 T_value_float l2"
      "feeds l2 (es @ s) (acc @ m # sg @ [d])" "moved ?l1 l2" by blast
  obtain l3 where l3: "number_loop N_any2 T_value_float l2 = number_loop N_any2 T_value_float l3"
      "feeds l3 s ((acc @ m # sg @ [d]) @ es)" "moved l2 l3"
    using number_digits [OF ds(3) l2(2), of N_any2 T_value_float] by auto
  have "number_loop st ty l = (Some T_value_float, get l3)"
    using m(1) l2(1) l3(1) number_stop [OF l3(2) assms(3), of N_any2 T_value_float] by simp
  moreover have "moved l l3" using m(3) l2(3) l3(3) by (meson moved_trans)
  ultimately show ?thesis using l3(2) False e(1) ds(1) by auto
qed

lemma number_fraction_part:
  assumes "exponent_ok ext" "list_all c_digit fp" "stops s" "st \<in> {N_zero, N_any1}"
    and "feeds l ((if fp = [] then [] else CHR ''.'' # fp) @ ext @ s) acc"
  shows "\<exists>l'. number_loop st ty l = (Some (if fp = [] \<and> ext = [] then ty else T_value_float), get l')
    \<and> feeds l' s (acc @ (if fp = [] then [] else CHR ''.'' # fp) @ ext) \<and> moved l l'"
proof (cases "fp = []")
  case True
  then show ?thesis using number_exponent_part [OF assms(1), of l s acc st ty] assms by auto
next
  case False
  then obtain d ds where fp: "fp = d # ds" "c_digit d" "list_all c_digit ds" using assms(2) by (cases fp) auto
  have f: "feeds l (CHR ''.'' # (d # ds @ ext @ s)) acc" using assms(5) fp(1) by simp
  have "number_step st ty l = go N_decimal1 ty (get l)"
    using get_feeds(2) [OF f] assms(4) by (auto simp: number_defs Let_def c_digit_def)
  note g = number_go [OF f this]
  let ?l1 = "add_current (get l)"
  have "number_step N_decimal1 ty ?l1 = go N_decimal2 T_value_float (get ?l1)"
    using get_feeds(2) [OF g(2)] fp(2) by (simp add: number_defs Let_def)
  note h = number_go [OF g(2) this]
  obtain l2 where l2: "number_loop N_decimal2 T_value_float (add_current (get ?l1)) = number_loop N_decimal2 T_value_float l2"
      "feeds l2 (ext @ s) (((acc @ [CHR ''.'']) @ [d]) @ ds)" "moved (add_current (get ?l1)) l2"
    using number_digits [OF fp(3) h(2), of N_decimal2 T_value_float] by auto
  obtain l3 where l3: "number_loop N_decimal2 T_value_float l2 = (Some T_value_float, get l3)"
      "feeds l3 s ((((acc @ [CHR ''.'']) @ [d]) @ ds) @ ext)" "moved l2 l3"
    using number_exponent_part [OF assms(1) l2(2) assms(3), of N_decimal2 T_value_float] by (auto split: if_splits)
  have "moved l l3" using g(3) h(3) l2(3) l3(3) by (meson moved_trans)
  then show ?thesis using g(1) h(1) l2(1) l3(1,2) False fp(1) by auto
qed

text \<open>The integral part, from its first digit.\<close>

lemma number_integral_part:
  assumes ok: "number_ok ip fp ext" and s: "stops s"
    and f: "feeds l (tl ip @ (if fp = [] then [] else CHR ''.'' # fp) @ ext @ s) acc"
  shows "\<exists>l'. number_loop (if hd ip = CHR ''0'' then N_zero else N_any1) ty l
      = (Some (if fp = [] \<and> ext = [] then ty else T_value_float), get l')
    \<and> feeds l' s (acc @ tl ip @ (if fp = [] then [] else CHR ''.'' # fp) @ ext) \<and> moved l l'"
proof (cases "hd ip = CHR ''0''")
  case True
  then have "tl ip = []" using ok by (cases ip) (auto simp: number_ok_def)
  then show ?thesis using True number_fraction_part [of ext fp s N_zero l acc ty] ok f s by (auto simp: number_ok_def)
next
  case False
  have "list_all c_digit (tl ip)" using ok by (cases ip) (auto simp: number_ok_def)
  then obtain l1 where l1: "number_loop N_any1 ty l = number_loop N_any1 ty l1"
      "feeds l1 ((if fp = [] then [] else CHR ''.'' # fp) @ ext @ s) (acc @ tl ip)" "moved l l1"
    using number_digits [OF _ f, of N_any1 ty] by auto
  then obtain l2 where "number_loop N_any1 ty l1 = (Some (if fp = [] \<and> ext = [] then ty else T_value_float), get l2)"
      "feeds l2 s ((acc @ tl ip) @ (if fp = [] then [] else CHR ''.'' # fp) @ ext)" "moved l1 l2"
    using number_fraction_part [of ext fp s N_any1 l1 "acc @ tl ip" ty] ok s by (auto simp: number_ok_def)
  then show ?thesis using False l1 moved_trans by auto
qed

text \<open>The whole token: its text is in the buffer and the lexer stops behind it.\<close>

lemma scan_number_over:
  assumes ok: "number_ok ip fp ext" and s: "stops rest" and a: "at_token l c s" "c # s = number_text neg ip fp ext @ rest"
  shows "\<exists>l'. scan_token l = number_done (if fp = [] \<and> ext = [] then if neg then T_value_integer else T_value_unsigned
        else T_value_float) (get l')
    \<and> feeds l' rest (number_text neg ip fp ext) \<and> moved l l'"
proof -
  let ?l0 = "add_current (reset_token l)" and ?rest = "(if fp = [] then [] else CHR ''.'' # fp) @ ext @ rest"
  obtain d ds where ip: "ip = d # ds" "c_digit d" using ok by (cases ip) (auto simp: number_ok_def)
  have f0: "feeds ?l0 s [c]"
    using a(1) by (simp add: at_token_def feeds_def add_current_def reset_token_def add_char_def)
  have cur: "lx_current l = Some c" "lx_current (reset_token l) = Some c" using a(1) by (simp_all add: at_token_def reset_token_def)
  have start: "c = CHR ''-'' \<or> c_digit c" using a(2) ip by (cases neg) (auto simp: number_text_def)
  then have tok: "scan_token l = scan_number l"
  proof -
    have "c \<noteq> CHR ''['' \<and> c \<noteq> CHR '']'' \<and> c \<noteq> CHR ''{'' \<and> c \<noteq> CHR ''}'' \<and> c \<noteq> CHR '':'' \<and> c \<noteq> CHR '',''
        \<and> c \<noteq> CHR ''t'' \<and> c \<noteq> CHR ''f'' \<and> c \<noteq> CHR ''n'' \<and> c \<noteq> dquote"
      using start by (elim disjE) (auto simp: c_digit_def)
    moreover have "c = CHR ''-'' \<or> in_range 0x30 0x39 (Some c)" using start by (simp add: in_range_def c_digit_def)
    ultimately show ?thesis using cur(1) by (simp add: scan_token_def)
  qed
  show ?thesis
  proof (cases neg)
    case True
    then have c: "c = CHR ''-''" "s = d # (ds @ ?rest)" using a(2) ip(1) by (auto simp: number_text_def)
    have f1: "feeds ?l0 (d # (ds @ ?rest)) [c]" using f0 c(2) by simp
    define st where "st = (if hd ip = CHR ''0'' then N_zero else N_any1)"
    have "number_step N_minus T_value_unsigned ?l0 = go st T_value_integer (get ?l0)"
      using get_feeds(2) [OF f1] ip by (simp add: number_defs Let_def digit1_iff st_def)
    note g = number_go [OF f1 this]
    have f2: "feeds (add_current (get ?l0)) (tl ip @ ?rest) ([c] @ [d])" using g(2) ip(1) by simp
    obtain l' where l': "number_loop st T_value_integer (add_current (get ?l0))
        = (Some (if fp = [] \<and> ext = [] then T_value_integer else T_value_float), get l')"
        "feeds l' rest (([c] @ [d]) @ tl ip @ (if fp = [] then [] else CHR ''.'' # fp) @ ext)" "moved (add_current (get ?l0)) l'"
      using number_integral_part [OF ok s f2, of T_value_integer] unfolding st_def by blast
    have "moved l l'" using g(3) l'(3) moved_trans by (metis moved_frame(9,11,12))
    then show ?thesis
      using tok cur(2) c(1) g(1) l'(1,2) True ip(1) by (auto simp: scan_number_def Let_def number_text_def)
  next
    case False
    then have c: "c = d" "s = tl ip @ ?rest" using a(2) ip(1) by (auto simp: number_text_def)
    have f1: "feeds ?l0 (tl ip @ ?rest) [c]" using f0 c(2) by simp
    obtain l' where l': "number_loop (if hd ip = CHR ''0'' then N_zero else N_any1) T_value_unsigned ?l0
        = (Some (if fp = [] \<and> ext = [] then T_value_unsigned else T_value_float), get l')"
        "feeds l' rest ([c] @ tl ip @ (if fp = [] then [] else CHR ''.'' # fp) @ ext)" "moved ?l0 l'"
      using number_integral_part [OF ok s f1, of T_value_unsigned] by blast
    have "moved l l'" using l'(3) by simp
    moreover have "c \<noteq> CHR ''-''" using ip(2) c(1) c_digit_not(2) by simp
    ultimately show ?thesis
      using tok cur(2) c(1) l'(1,2) False ip(1) by (auto simp: scan_number_def Let_def number_text_def)
  qed
qed

text \<open>The token and the value the lexer holds for a number.\<close>

fun holds_number :: "json \<Rightarrow> token_type \<Rightarrow> lexer \<Rightarrow> bool" where
  "holds_number (JUnsigned w) ty l \<longleftrightarrow> ty = T_value_unsigned \<and> value_unsigned l = w"
| "holds_number (JInteger w) ty l \<longleftrightarrow> ty = T_value_integer \<and> value_integer l = w"
| "holds_number (JFloat x) ty l \<longleftrightarrow> ty = T_value_float \<and> value_float l = x"
| "holds_number _ ty l \<longleftrightarrow> False"

lemma integer_text:
  assumes "number_ok ip [] []"
  defines "n \<equiv> digits_value 10 digit_val ip"
  shows "strtoull (number_text False ip [] []) = Some (if 2 ^ 64 \<le> n then (- 1, True) else (word_of_nat n, False))"
    "strtoll (number_text True ip [] []) = Some (if 2 ^ 63 < n then (2 ^ 63, True) else (- word_of_nat n, False))"
proof -
  obtain d ds where ip: "ip = d # ds" "c_digit d" using assms(1) by (cases ip) (auto simp: number_ok_def)
  have all: "list_all c_digit ip" using assms(1) by (simp add: number_ok_def)
  have cs: "c_string (number_text neg ip [] []) = number_text neg ip [] []" for neg
    using digits_not_nul [OF all] by (auto simp: c_string_def number_text_def takeWhile_eq_all_conv)
  have sp: "dropWhile c_space (number_text neg ip [] []) = number_text neg ip [] []" for neg
    using c_digit_not(1) [OF ip(2)] ip(1) by (simp add: number_text_def c_space_def)
  have sg: "take_sign (number_text neg ip [] []) = (neg, ip)" for neg
    using take_sign_digit [of ip] ip by (cases neg) (simp_all add: number_text_def take_sign_def)
  have ne: "ip \<noteq> []" using ip(1) by simp
  have tw: "takeWhile c_digit ip = ip" using takeWhile_digits(1) [OF all, of "[]"] by simp
  show "strtoull (number_text False ip [] []) = Some (if 2 ^ 64 \<le> n then (- 1, True) else (word_of_nat n, False))"
    "strtoll (number_text True ip [] []) = Some (if 2 ^ 63 < n then (2 ^ 63, True) else (- word_of_nat n, False))"
    unfolding strtoull_def strtoll_def cs sp sg prod.case Let_def tw n_def [symmetric] using ne by (simp_all only: if_False if_True simp_thms split: if_split) blast+
qed

lemma number_done_value:
  assumes ok: "number_ok ip fp ext" and b: "token_buffer (unget l) = number_text neg ip fp ext"
  shows "\<exists>ty l'. number_done (if fp = [] \<and> ext = [] then if neg then T_value_integer else T_value_unsigned else T_value_float) l
      = (ty, l') \<and> holds_number (number_value neg ip fp ext) ty l' \<and> (\<forall>s. reading (unget l) s \<longrightarrow> reading l' s) \<and> moved (unget l) l'"
proof -
  obtain a d where nd: "number_frac ip fp ext = (a, d)" by fastforce
  have fl: "\<exists>l'. float_result (unget l) = (T_value_float, l') \<and> holds_number (JFloat (f64_of_frac neg a d)) T_value_float l'
      \<and> (\<forall>s. reading (unget l) s \<longrightarrow> reading l' s) \<and> moved (unget l) l'"
    using strtod_number [OF ok, of neg] b nd by (simp add: float_result_def convert_frac_def Let_def)
  show ?thesis
  proof (cases "fp = [] \<and> ext = []")
    case True
    then have int: "number_ok ip [] []" and b': "token_buffer (unget l) = number_text neg ip [] []" using ok b by simp_all
    note r = integer_text [OF int]
    show ?thesis
    proof (cases neg)
      case n: True
      show ?thesis
        using True n r(2) b' fl nd by (cases "digits_value 10 digit_val ip \<le> 2 ^ 63") (simp_all add: number_done_def number_value_def Let_def)
    next
      case n: False
      show ?thesis
        using True n r(1) b' fl nd by (cases "digits_value 10 digit_val ip < 2 ^ 64") (simp_all add: number_done_def number_value_def Let_def)
    qed
  next
    case False
    have "number_value neg ip fp ext = JFloat (f64_of_frac neg a d)"
      using False nd by (auto simp: number_value_def Let_def)
    then show ?thesis unfolding if_not_P [OF False] using fl by (simp add: number_done_def)
  qed
qed

lemma number_token:
  assumes "number_ok ip fp ext" "stops rest" "at_token l c s" "c # s = number_text neg ip fp ext @ rest"
  shows "\<exists>ty l'. scan_token l = (ty, l') \<and> holds_number (number_value neg ip fp ext) ty l' \<and> reading l' rest \<and> started l'"
proof -
  obtain l1 where l1: "scan_token l = number_done (if fp = [] \<and> ext = [] then if neg then T_value_integer else T_value_unsigned
        else T_value_float) (get l1)" "feeds l1 rest (number_text neg ip fp ext)" "moved l l1"
    using scan_number_over [OF assms] by blast
  note e = get_end [OF l1(2)]
  obtain ty l' where "scan_token l = (ty, l')" "holds_number (number_value neg ip fp ext) ty l'" "reading l' rest"
      "moved (unget (get l1)) l'"
    using number_done_value [OF assms(1) e(4)] e(3) l1(1) by metis
  moreover have "started l'"
    using moved_started [of l l'] assms(3) l1(3) calculation(4) moved_trans moved_unget_get by (meson at_token_def)
  ultimately show ?thesis by blast
qed

end
