(* ===== verification/Json_Read.thy ===== *)
theory Json_Read
  imports Json_Tokens Json_Builder
begin

text \<open>
  The parser implements the grammar: a text of \<open>Json_Grammar\<close> that denotes a value is parsed to that value.
  \<open>resume\<close> is what is left of a parse when a value has just been handed to the handler.
\<close>

abbreviation resume :: "sax_dom run \<Rightarrow> (bool \<times> sax_dom run) outcome" where
  "resume r \<equiv> sax_parse_internal dom_events (r\<lparr>skip_to_state_evaluation := True\<rparr>)"

text \<open>A run between tokens: what is still to be read, which containers are open, what has been built.\<close>

definition stands :: "sax_dom run \<Rightarrow> string \<Rightarrow> bool list \<Rightarrow> builder \<Rightarrow> bool" where
  "stands r s st b \<longleftrightarrow>
     ready (m_lexer r) s \<and> states r = st \<and> \<not> skip_to_state_evaluation r \<and> rep b (sax r)"

lemma get_token_fields [simp]:
  "last_token (get_token r) = fst (scan (m_lexer r))" "m_lexer (get_token r) = snd (scan (m_lexer r))"
  "states (get_token r) = states r" "skip_to_state_evaluation (get_token r) = skip_to_state_evaluation r"
  "sax (get_token r) = sax r"
  by (simp_all add: get_token_def split: prod.split)

lemma get_token_states: "(get_token r)\<lparr>states := st\<rparr> = get_token (r\<lparr>states := st\<rparr>)"
  by (simp add: get_token_def split: prod.split)

lemma parse_continue: "sax_iteration ev r = Inr (Continue r') \<Longrightarrow> sax_parse_internal ev r = sax_parse_internal ev r'"
  by (subst sax_parse_internal.simps) simp

lemma parse_evaluated:
  assumes "value_step ev r = Inr (Evaluate r')" "\<not> skip_to_state_evaluation r" "\<not> skip_to_state_evaluation r'"
  shows "sax_parse_internal ev r = sax_parse_internal ev (r'\<lparr>skip_to_state_evaluation := True\<rparr>)"
proof -
  have "r'\<lparr>skip_to_state_evaluation := False\<rparr> = r'" using assms(3) by simp
  then have "sax_iteration ev r = sax_iteration ev (r'\<lparr>skip_to_state_evaluation := True\<rparr>)"
    using assms(1,2) by (simp add: sax_iteration_def)
  then show ?thesis by (subst (1 2) sax_parse_internal.simps) simp
qed

lemma parse_value_continue:
  "value_step ev r = Inr (Continue r') \<Longrightarrow> \<not> skip_to_state_evaluation r \<Longrightarrow> sax_parse_internal ev r = sax_parse_internal ev r'"
  by (rule parse_continue) (simp add: sax_iteration_def)

lemma resume_evaluates:
  "\<not> skip_to_state_evaluation r \<Longrightarrow> evaluate_step dom_events r = Inr (Continue r') \<Longrightarrow>
   resume r = sax_parse_internal dom_events r'"
proof (rule parse_continue)
  assume a: "\<not> skip_to_state_evaluation r" "evaluate_step dom_events r = Inr (Continue r')"
  then have "r\<lparr>skip_to_state_evaluation := False\<rparr> = r" by simp
  then show "sax_iteration dom_events (r\<lparr>skip_to_state_evaluation := True\<rparr>) = Inr (Continue r')"
    using a(2) by (simp add: sax_iteration_def)
qed

subsection \<open>Single tokens\<close>

text \<open>The outcome of one value: the parse goes on behind it with the value added.\<close>

definition value_read :: "sax_dom run \<Rightarrow> json \<Rightarrow> string \<Rightarrow> bool list \<Rightarrow> builder \<Rightarrow> bool" where
  "value_read r j rest st b \<longleftrightarrow>
     last_token (get_token r) \<noteq> T_end_array
     \<and> (\<exists>r'. sax_parse_internal dom_events (get_token r) = resume r' \<and> stands r' rest st (add_value j b))"

text \<open>A token scanned by \<open>get_token\<close>: the run stands behind it.\<close>

lemma stands_token:
  assumes "stands r s st b" "scan (m_lexer r) = (ty, l)" "reading l rest" "started l"
  shows "stands (get_token r) rest st b" "last_token (get_token r) = ty" "m_lexer (get_token r) = l"
  using assms by (auto simp: stands_def started_ready)

lemma handled_value:
  assumes "stands r rest st b" "awaits_value b" "value_step dom_events r = notify (dom_value j) then_evaluate r"
  shows "\<exists>r'. sax_parse_internal dom_events r = resume r' \<and> stands r' rest st (add_value j b)"
proof -
  obtain s' where s': "dom_value j (sax r) = Inr (True, s')" "rep (add_value j b) s'"
    using dom_value_rep [of b "sax r" j] assms(1,2) by (auto simp: stands_def)
  have "value_step dom_events r = Inr (Evaluate (r\<lparr>sax := s'\<rparr>))"
    using assms(3) s'(1) by (simp add: notify_def then_evaluate_def)
  then have "sax_parse_internal dom_events r = resume (r\<lparr>sax := s'\<rparr>)"
    using assms(1) by (intro parse_evaluated) (simp_all add: stands_def)
  moreover have "stands (r\<lparr>sax := s'\<rparr>) rest st (add_value j b)" using assms(1) s'(2) by (simp add: stands_def)
  ultimately show ?thesis by blast
qed

lemma scalar_read:
  assumes "stands r s st b" "awaits_value b" "scan (m_lexer r) = (ty, l)" "reading l rest" "started l"
    and "value_step dom_events (get_token r) = notify (dom_value j) then_evaluate (get_token r)" "ty \<noteq> T_end_array"
  shows "value_read r j rest st b"
  using stands_token [OF assms(1,3-5)] handled_value [of "get_token r" rest st b j] assms(2,6,7)
  by (simp add: value_read_def)

lemma dom_handlers:
  "on_null dom_events = dom_value JNull" "on_boolean dom_events x = dom_value (JBoolean x)"
  "on_integer dom_events w = dom_value (JInteger w)" "on_unsigned dom_events w = dom_value (JUnsigned w)"
  "on_float dom_events f tok = dom_value (JFloat f)" "on_string dom_events s = dom_value (JString s)"
  "on_start_object dom_events = dom_start (JObject [])" "on_key dom_events k = dom_key k"
  "on_end_object dom_events = dom_end is_object" "on_start_array dom_events = dom_start (JArray [])"
  "on_end_array dom_events = dom_end is_array"
  by (simp_all add: dom_events_def)

lemma literal_read:
  assumes "stands r (w @ t @ rest) st b" "ws w" "awaits_value b"
    and "(t, j) \<in> {(''null'', JNull), (''true'', JBoolean True), (''false'', JBoolean False)}"
  shows "value_read r j rest st b"
proof -
  have rd: "ready (m_lexer r) (w @ t @ rest)" using assms(1) by (simp add: stands_def)
  obtain c u where t: "t = c # u" "\<not> json_space c" "c \<noteq> CHR ''/''" using assms(4) by (auto simp: json_space_def)
  obtain l where l: "scan (m_lexer r) = scan_token l" "at_token l c (u @ rest)"
    using scan_at [of "m_lexer r" w c "u @ rest"] rd t assms(2) by auto
  have "\<exists>ty l'. scan_token l = (ty, l') \<and> reading l' rest \<and> started l'
      \<and> (ty, j) \<in> {(T_literal_null, JNull), (T_literal_true, JBoolean True), (T_literal_false, JBoolean False)}"
    using literal_token [OF l(2), of T_literal_null] literal_token [OF l(2), of T_literal_true]
      literal_token [OF l(2), of T_literal_false] assms(4) t(1) by auto
  then obtain ty l' where y: "scan (m_lexer r) = (ty, l')" "reading l' rest" "started l'"
      "(ty, j) \<in> {(T_literal_null, JNull), (T_literal_true, JBoolean True), (T_literal_false, JBoolean False)}"
    using l(1) by auto
  show ?thesis
    by (rule scalar_read [OF assms(1,3) y(1-3)]) (use y(1,4) in \<open>auto simp: value_step_def dom_handlers\<close>)
qed

lemma string_text_start: "string_text s t \<Longrightarrow> \<exists>u. t = dquote # u"
  by (auto elim: string_text.cases)

lemma string_scanned:
  assumes "ready l (w @ t @ rest)" "ws w" "string_text s t"
  shows "\<exists>l'. scan l = (T_value_string, l') \<and> token_buffer l' = s \<and> reading l' rest \<and> started l'"
proof -
  obtain u where u: "t = dquote # u" using string_text_start [OF assms(3)] by blast
  obtain l1 where l1: "scan l = scan_token l1" "at_token l1 dquote (u @ rest)"
    using scan_at [of l w dquote "u @ rest"] assms(1,2) u by (auto simp: json_space_def)
  show ?thesis using string_token [OF assms(3) l1(2)] u l1(1) by simp
qed

lemma string_read:
  assumes "stands r (w @ t @ rest) st b" "ws w" "awaits_value b" "string_text s t"
  shows "value_read r (JString s) rest st b"
proof -
  obtain l where l: "scan (m_lexer r) = (T_value_string, l)" "token_buffer l = s" "reading l rest" "started l"
    using string_scanned [of "m_lexer r" w t rest s] assms(1,2,4) by (auto simp: stands_def)
  show ?thesis
    by (rule scalar_read [OF assms(1,3) l(1,3,4)]) (simp_all add: value_step_def l dom_handlers)
qed

lemma number_text_start:
  assumes "number_ok ip fp ext"
  shows "\<exists>c u. number_text neg ip fp ext = c # u \<and> \<not> json_space c \<and> c \<noteq> CHR ''/''"
proof -
  obtain d ds where "ip = d # ds" "c_digit d" using assms by (cases ip) (auto simp: number_ok_def)
  then show ?thesis by (cases neg) (auto simp: number_text_def json_space_def c_digit_def)
qed

lemma number_read:
  assumes "stands r (w @ number_text neg ip fp ext @ rest) st b" "ws w" "awaits_value b"
    and "number_ok ip fp ext" "stops rest" "finite_number (number_value neg ip fp ext)"
  shows "value_read r (number_value neg ip fp ext) rest st b"
proof -
  let ?j = "number_value neg ip fp ext"
  obtain c u where c: "number_text neg ip fp ext = c # u" "\<not> json_space c" "c \<noteq> CHR ''/''"
    using number_text_start [OF assms(4)] by blast
  obtain l where l: "scan (m_lexer r) = scan_token l" "at_token l c (u @ rest)"
    using scan_at [of "m_lexer r" w c "u @ rest"] assms(1,2) c by (auto simp: stands_def)
  obtain ty l' where y: "scan (m_lexer r) = (ty, l')" "holds_number ?j ty l'" "reading l' rest" "started l'"
    using number_token [OF assms(4,5) l(2), of neg] c(1) l(1) by auto
  have "value_step dom_events (get_token r) = notify (dom_value ?j) then_evaluate (get_token r) \<and> ty \<noteq> T_end_array"
    using y(1,2) assms(6)
    by (cases ?j) (auto simp: value_step_def dom_handlers float_value_def Let_def)
  then show ?thesis by (intro scalar_read [OF assms(1,3) y(1,3,4)]) auto
qed

text \<open>Punctuation.\<close>

lemma mark_scanned:
  assumes "ready l (w @ c # rest)" "ws w"
    and "(c, ty) \<in> {(CHR ''['', T_begin_array), (CHR '']'', T_end_array), (CHR ''{'', T_begin_object), (CHR ''}'', T_end_object),
      (CHR '':'', T_name_separator), (CHR '','', T_value_separator)}"
  shows "\<exists>l'. scan l = (ty, l') \<and> reading l' rest \<and> started l'"
proof -
  have "\<not> json_space c" "c \<noteq> CHR ''/''" using assms(3) by (auto simp: json_space_def)
  then obtain l' where l': "scan l = scan_token l'" "at_token l' c rest" using scan_at [OF assms(1,2)] by blast
  have "scan_token l' = (ty, l')" 
    using assms(3) l'(2) unfolding insert_iff empty_iff prod.inject at_token_def
    by (elim disjE conjE FalseE) (simp_all add: scan_token_def)
  then show ?thesis using l' at_token_reading by (auto simp: at_token_def)
qed

lemma mark_token:
  assumes "stands r (w @ c # rest) st b" "ws w"
    and "(c, ty) \<in> {(CHR ''['', T_begin_array), (CHR '']'', T_end_array), (CHR ''{'', T_begin_object), (CHR ''}'', T_end_object),
      (CHR '':'', T_name_separator), (CHR '','', T_value_separator)}"
  shows "stands (get_token r) rest st b \<and> last_token (get_token r) = ty"
proof -
  obtain l' where "scan (m_lexer r) = (ty, l')" "reading l' rest" "started l'"
    using mark_scanned [of "m_lexer r" w c rest ty] assms by (auto simp: stands_def)
  then show ?thesis using stands_token [OF assms(1)] by blast
qed

lemma stops_space: "ws w \<Longrightarrow> stops s \<Longrightarrow> stops (w @ s)"
  by (cases w) (auto simp: stops_def ws_def json_space_def c_digit_def)

lemma stops_mark [simp]: "stops (CHR '','' # s)" "stops (CHR '']'' # s)" "stops (CHR ''}'' # s)" "stops []"
  by (simp_all add: stops_def c_digit_def)

subsection \<open>Arrays\<close>

lemma stands_sax: "stands r s st b \<Longrightarrow> rep b' s' \<Longrightarrow> stands (r\<lparr>sax := s'\<rparr>) s st b'"
  by (simp add: stands_def)

lemma stands_states: "stands r s st b \<Longrightarrow> stands (r\<lparr>states := st'\<rparr>) s st' b"
  by (simp add: stands_def)

lemma array_started:
  assumes "stands r (w @ CHR ''['' # rest) st b" "ws w" "awaits_value b"
  shows "\<exists>r2. stands r2 rest st (Arr [] (parents b)) \<and> last_token (get_token r) = T_begin_array
    \<and> value_step dom_events (get_token r) =
        (if last_token (get_token r2) = T_end_array then notify (dom_end is_array) then_evaluate (get_token r2)
         else Inr (Continue (get_token (r2\<lparr>states := True # st\<rparr>))))"
proof -
  have m: "stands (get_token r) rest st b" "last_token (get_token r) = T_begin_array"
    using mark_token [OF assms(1,2), of T_begin_array] by simp_all
  obtain s' where s': "dom_start (JArray []) (sax (get_token r)) = Inr (True, s')" "rep (Arr [] (parents b)) s'"
    using dom_start_rep(1) [of b "sax (get_token r)"] m(1) assms(3) by (auto simp: stands_def)
  define r2 where "r2 = (get_token r)\<lparr>sax := s'\<rparr>"
  have lex: "m_lexer r2 = snd (scan (m_lexer r))" by (simp add: r2_def)
  have r2: "stands r2 rest st (Arr [] (parents b))" unfolding r2_def using stands_sax [OF m(1) s'(2)] .
  then have "states r2 = st" by (simp add: stands_def)
  then have "value_step dom_events (get_token r) =
      (if last_token (get_token r2) = T_end_array then notify (dom_end is_array) then_evaluate (get_token r2)
       else Inr (Continue (get_token (r2\<lparr>states := True # st\<rparr>))))"
    using m(2) s'(1) lex
    by (simp add: value_step_def begin_array_def dom_handlers notify_def Let_def flip: r2_def get_token_states)
  then show ?thesis using r2 m(2) by blast
qed

text \<open>Closing an empty container, inside the evaluation of the value.\<close>

lemma closed_at_once:
  assumes "stands r rest st b'" "b' = Arr xs fs \<and> e = is_array \<and> j = JArray xs \<or> b' = Obj ms fs \<and> e = is_object \<and> j = JObject ms"
    and "value_step dom_events q = notify (dom_end e) then_evaluate r" "\<not> skip_to_state_evaluation q"
  shows "\<exists>r'. sax_parse_internal dom_events q = resume r' \<and> stands r' rest st (close_frames j fs)"
proof -
  obtain s' where s': "dom_end e (sax r) = Inr (True, s')" "rep (close_frames j fs) s'"
    using dom_end_rep(1) [of xs fs "sax r"] dom_end_rep(2) [of ms fs "sax r"] assms(1,2) by (auto simp: stands_def)
  have "value_step dom_events q = Inr (Evaluate (r\<lparr>sax := s'\<rparr>))"
    using assms(3) s'(1) by (simp add: notify_def then_evaluate_def)
  then have "sax_parse_internal dom_events q = resume (r\<lparr>sax := s'\<rparr>)"
    using assms(1,4) by (intro parse_evaluated) (simp_all add: stands_def)
  then show ?thesis using stands_sax [OF assms(1) s'(2)] by blast
qed

lemma empty_array_read:
  assumes "stands r (w @ (''['' @ v @ '']'') @ rest) st b" "ws w" "ws v" "awaits_value b"
  shows "value_read r (JArray []) rest st b"
proof -
  obtain r2 where r2: "stands r2 (v @ CHR '']'' # rest) st (Arr [] (parents b))" "last_token (get_token r) = T_begin_array"
      "value_step dom_events (get_token r) =
        (if last_token (get_token r2) = T_end_array then notify (dom_end is_array) then_evaluate (get_token r2)
         else Inr (Continue (get_token (r2\<lparr>states := True # st\<rparr>))))"
    using array_started [of r w "v @ CHR '']'' # rest" st b] assms by auto
  have e: "stands (get_token r2) rest st (Arr [] (parents b))" "last_token (get_token r2) = T_end_array"
    using mark_token [OF r2(1) assms(3), of T_end_array] by simp_all
  have "\<not> skip_to_state_evaluation (get_token r)" using assms(1) by (simp add: stands_def)
  then show ?thesis
    using closed_at_once [OF e(1), of "[]" "parents b" is_array "JArray []" "[]" "get_token r"] r2(2,3) e(2)
      close_parents [OF assms(4)]
    by (simp add: value_read_def)
qed

lemma close_array:
  assumes "stands r (w @ CHR '']'' # rest) (True # st) (Arr xs fs)" "ws w"
  shows "\<exists>r'. resume r = resume r' \<and> stands r' rest st (close_frames (JArray xs) fs)"
proof -
  let ?r1 = "get_token r"
  have m: "stands ?r1 rest (True # st) (Arr xs fs)" "last_token ?r1 = T_end_array"
    using mark_token [OF assms, of T_end_array] by simp_all
  obtain s' where s': "dom_end is_array (sax ?r1) = Inr (True, s')" "rep (close_frames (JArray xs) fs) s'"
    using dom_end_rep(1) [of xs fs "sax ?r1"] m(1) by (auto simp: stands_def)
  define r' where "r' = ?r1\<lparr>sax := s', states := st\<rparr>"
  have "stands r' rest st (close_frames (JArray xs) fs)"
    using stands_states [OF stands_sax [OF m(1) s'(2)], of st] by (simp add: r'_def)
  moreover have st: "states r = True # st" "\<not> skip_to_state_evaluation r" using assms(1) by (simp_all add: stands_def)
  have "evaluate_step dom_events r = Inr (Continue (r'\<lparr>skip_to_state_evaluation := True\<rparr>))"
    using m(2) s'(1) st(1)
    by (simp add: evaluate_step_def evaluate_array_def dom_handlers notify_def close_container_def r'_def Let_def)
  ultimately show ?thesis using resume_evaluates [OF st(2)] by blast
qed

lemma next_element:
  assumes "stands r (w @ CHR '','' # rest) (True # st) (Arr xs fs)" "ws w"
  shows "\<exists>r'. resume r = sax_parse_internal dom_events (get_token r') \<and> stands r' rest (True # st) (Arr xs fs)"
proof -
  have m: "stands (get_token r) rest (True # st) (Arr xs fs)" "last_token (get_token r) = T_value_separator"
    using mark_token [OF assms, of T_value_separator] by simp_all
  have st: "states r = True # st" "\<not> skip_to_state_evaluation r" using assms(1) by (simp_all add: stands_def)
  have "evaluate_step dom_events r = Inr (Continue (get_token (get_token r)))"
    using m(2) st(1) by (simp add: evaluate_step_def evaluate_array_def Let_def)
  then show ?thesis using resume_evaluates [OF st(2)] m(1) by blast
qed

subsection \<open>Objects\<close>

lemma object_started:
  assumes "stands r (w @ CHR ''{'' # rest) st b" "ws w" "awaits_value b"
  shows "\<exists>r2. stands r2 rest st (Obj [] (parents b)) \<and> last_token (get_token r) = T_begin_object
    \<and> value_step dom_events (get_token r) =
        (if last_token (get_token r2) = T_end_object then notify (dom_end is_object) then_evaluate (get_token r2)
         else after_key dom_events (\<lambda>r. r\<lparr>states := False # states r\<rparr>) (get_token r2))"
proof -
  have m: "stands (get_token r) rest st b" "last_token (get_token r) = T_begin_object"
    using mark_token [OF assms(1,2), of T_begin_object] by simp_all
  obtain s' where s': "dom_start (JObject []) (sax (get_token r)) = Inr (True, s')" "rep (Obj [] (parents b)) s'"
    using dom_start_rep(2) [of b "sax (get_token r)"] m(1) assms(3) by (auto simp: stands_def)
  define r2 where "r2 = (get_token r)\<lparr>sax := s'\<rparr>"
  have lex: "m_lexer r2 = snd (scan (m_lexer r))" by (simp add: r2_def)
  have r2: "stands r2 rest st (Obj [] (parents b))" unfolding r2_def using stands_sax [OF m(1) s'(2)] .
  have "value_step dom_events (get_token r) =
      (if last_token (get_token r2) = T_end_object then notify (dom_end is_object) then_evaluate (get_token r2)
       else after_key dom_events (\<lambda>r. r\<lparr>states := False # states r\<rparr>) (get_token r2))"
    using m(2) s'(1) lex
    by (simp add: value_step_def begin_object_def dom_handlers notify_def Let_def flip: r2_def)
  then show ?thesis using r2 m(2) by blast
qed

lemma empty_object_read:
  assumes "stands r (w @ (''{'' @ v @ ''}'') @ rest) st b" "ws w" "ws v" "awaits_value b"
  shows "value_read r (JObject []) rest st b"
proof -
  obtain r2 where r2: "stands r2 (v @ CHR ''}'' # rest) st (Obj [] (parents b))" "last_token (get_token r) = T_begin_object"
      "value_step dom_events (get_token r) =
        (if last_token (get_token r2) = T_end_object then notify (dom_end is_object) then_evaluate (get_token r2)
         else after_key dom_events (\<lambda>r. r\<lparr>states := False # states r\<rparr>) (get_token r2))"
    using object_started [of r w "v @ CHR ''}'' # rest" st b] assms by auto
  have e: "stands (get_token r2) rest st (Obj [] (parents b))" "last_token (get_token r2) = T_end_object"
    using mark_token [OF r2(1) assms(3), of T_end_object] by simp_all
  have "\<not> skip_to_state_evaluation (get_token r)" using assms(1) by (simp add: stands_def)
  then show ?thesis
    using closed_at_once [OF e(1), of "[]" "parents b" is_object "JObject []" "[]" "get_token r"] r2(2,3) e(2)
      close_parents [OF assms(4)]
    by (simp add: value_read_def)
qed

text \<open>A key and its colon; the code puts the object on the stack only for the first.\<close>

definition pushes :: "(sax_dom run \<Rightarrow> sax_dom run) \<Rightarrow> bool list \<Rightarrow> bool list \<Rightarrow> bool" where
  "pushes push st0 st \<longleftrightarrow>
     push = (\<lambda>r. r) \<and> st0 = False # st \<or> push = (\<lambda>r. r\<lparr>states := False # states r\<rparr>) \<and> st0 = st"

lemma key_read:
  assumes "stands r (w @ kt @ v @ CHR '':'' # rest) st0 (Obj ms fs)" "ws w" "ws v" "string_text k kt" "pushes push st0 st"
  shows "\<exists>r2. after_key dom_events push (get_token r) = Inr (Continue (get_token r2))
    \<and> stands r2 rest (False # st) (ObjKey ms k fs) \<and> last_token (get_token r) = T_value_string"
proof -
  obtain l where l: "scan (m_lexer r) = (T_value_string, l)" "token_buffer l = k" "reading l (v @ CHR '':'' # rest)" "started l"
    using string_scanned [of "m_lexer r" w kt "v @ CHR '':'' # rest" k] assms(1,2,4) by (auto simp: stands_def)
  note t = stands_token [OF assms(1) l(1,3,4)]
  obtain s' where s': "dom_key k (sax (get_token r)) = Inr (True, s')" "rep (ObjKey ms k fs) s'"
    using dom_key_rep [of ms fs "sax (get_token r)" k] t(1) by (auto simp: stands_def)
  define r1 where "r1 = (get_token r)\<lparr>sax := s'\<rparr>"
  have lex: "m_lexer r1 = snd (scan (m_lexer r))" by (simp add: r1_def)
  have "stands r1 (v @ CHR '':'' # rest) st0 (ObjKey ms k fs)" unfolding r1_def using stands_sax [OF t(1) s'(2)] .
  then have m: "stands (get_token r1) rest st0 (ObjKey ms k fs)" "last_token (get_token r1) = T_name_separator"
    using mark_token [of r1 v "CHR '':''" rest st0 "ObjKey ms k fs" T_name_separator] assms(3) by simp_all
  have "after_key dom_events push (get_token r) = Inr (Continue (get_token (push (get_token r1))))"
    using t l(2) s'(1) m(2) lex by (simp add: after_key_def dom_handlers notify_def Let_def flip: r1_def)
  moreover have "stands (push (get_token r1)) rest (False # st) (ObjKey ms k fs)"
    using m(1) assms(5) by (auto simp: pushes_def stands_def)
  ultimately show ?thesis using t(2) by blast
qed

lemma close_object:
  assumes "stands r (w @ CHR ''}'' # rest) (False # st) (Obj ms fs)" "ws w"
  shows "\<exists>r'. resume r = resume r' \<and> stands r' rest st (close_frames (JObject ms) fs)"
proof -
  let ?r1 = "get_token r"
  have m: "stands ?r1 rest (False # st) (Obj ms fs)" "last_token ?r1 = T_end_object"
    using mark_token [OF assms, of T_end_object] by simp_all
  obtain s' where s': "dom_end is_object (sax ?r1) = Inr (True, s')" "rep (close_frames (JObject ms) fs) s'"
    using dom_end_rep(2) [of ms fs "sax ?r1"] m(1) by (auto simp: stands_def)
  define r' where "r' = ?r1\<lparr>sax := s', states := st\<rparr>"
  have "stands r' rest st (close_frames (JObject ms) fs)"
    using stands_states [OF stands_sax [OF m(1) s'(2)], of st] by (simp add: r'_def)
  moreover have st: "states r = False # st" "\<not> skip_to_state_evaluation r" using assms(1) by (simp_all add: stands_def)
  have "evaluate_step dom_events r = Inr (Continue (r'\<lparr>skip_to_state_evaluation := True\<rparr>))"
    using m(2) s'(1) st(1)
    by (simp add: evaluate_step_def evaluate_object_def dom_handlers notify_def close_container_def r'_def Let_def)
  ultimately show ?thesis using resume_evaluates [OF st(2)] by blast
qed

lemma next_member:
  assumes "stands r (w @ CHR '','' # rest) (False # st) (Obj ms fs)" "ws w"
  shows "\<exists>r'. (\<forall>q. after_key dom_events (\<lambda>r. r) (get_token r') = Inr (Continue q) \<longrightarrow>
      resume r = sax_parse_internal dom_events q) \<and> stands r' rest (False # st) (Obj ms fs)"
proof -
  have m: "stands (get_token r) rest (False # st) (Obj ms fs)" "last_token (get_token r) = T_value_separator"
    using mark_token [OF assms, of T_value_separator] by simp_all
  have st: "states r = False # st" "\<not> skip_to_state_evaluation r" using assms(1) by (simp_all add: stands_def)
  have "evaluate_step dom_events r = after_key dom_events (\<lambda>r. r) (get_token (get_token r))"
    using m(2) st(1) by (simp add: evaluate_step_def evaluate_object_def Let_def)
  then show ?thesis using resume_evaluates [OF st(2)] m(1) by (intro exI [of _ "get_token r"]) auto
qed

subsection \<open>Every text is read\<close>

definition reads_value :: "json \<Rightarrow> string \<Rightarrow> bool" where
  "reads_value j t \<longleftrightarrow>
     (\<forall>r w rest st b. stands r (w @ t @ rest) st b \<longrightarrow> ws w \<longrightarrow> awaits_value b \<longrightarrow> stops rest \<longrightarrow> value_read r j rest st b)"

definition reads_elements :: "json list \<Rightarrow> string \<Rightarrow> bool" where
  "reads_elements xs t \<longleftrightarrow>
     (\<forall>r rest st ys fs. stands r (t @ CHR '']'' # rest) (True # st) (Arr ys fs) \<longrightarrow>
        last_token (get_token r) \<noteq> T_end_array
        \<and> (\<exists>r'. sax_parse_internal dom_events (get_token r) = resume r'
             \<and> stands r' rest st (close_frames (JArray (ys @ xs)) fs)))"

definition reads_members :: "(string \<times> json) list \<Rightarrow> string \<Rightarrow> bool" where
  "reads_members kvs t \<longleftrightarrow>
     (\<forall>r rest st0 st ms fs push. stands r (t @ CHR ''}'' # rest) st0 (Obj ms fs) \<longrightarrow> pushes push st0 st \<longrightarrow>
        last_token (get_token r) \<noteq> T_end_object
        \<and> (\<exists>q r'. after_key dom_events push (get_token r) = Inr (Continue q)
             \<and> sax_parse_internal dom_events q = resume r'
             \<and> stands r' rest st (close_frames (JObject (foldl (\<lambda>ms (k, v). obj_set k v ms) ms kvs)) fs)))"

lemma array_read:
  assumes "reads_elements xs t"
  shows "reads_value (JArray xs) (''['' @ t @ '']'')"
  unfolding reads_value_def
proof (intro allI impI)
  fix r w rest st b
  assume a: "stands r (w @ (''['' @ t @ '']'') @ rest) st b" "ws w" "awaits_value b" "stops rest"
  obtain r2 where r2: "stands r2 (t @ CHR '']'' # rest) st (Arr [] (parents b))" "last_token (get_token r) = T_begin_array"
      "value_step dom_events (get_token r) =
        (if last_token (get_token r2) = T_end_array then notify (dom_end is_array) then_evaluate (get_token r2)
         else Inr (Continue (get_token (r2\<lparr>states := True # st\<rparr>))))"
    using array_started [of r w "t @ CHR '']'' # rest" st b] a by auto
  obtain r' where r': "last_token (get_token (r2\<lparr>states := True # st\<rparr>)) \<noteq> T_end_array"
      "sax_parse_internal dom_events (get_token (r2\<lparr>states := True # st\<rparr>)) = resume r'"
      "stands r' rest st (close_frames (JArray xs) (parents b))"
    using assms stands_states [OF r2(1), of "True # st"] unfolding reads_elements_def by fastforce
  have "\<not> skip_to_state_evaluation (get_token r)" using a(1) by (simp add: stands_def)
  then have "sax_parse_internal dom_events (get_token r) = resume r'"
    using parse_value_continue [of dom_events "get_token r"] r2(3) r'(1,2) by simp
  then show "value_read r (JArray xs) rest st b"
    using r2(2) r'(3) close_parents [OF a(3)] unfolding value_read_def by auto
qed

lemma object_read:
  assumes "reads_members kvs t"
  shows "reads_value (object_of kvs) (''{'' @ t @ ''}'')"
  unfolding reads_value_def
proof (intro allI impI)
  fix r w rest st b
  assume a: "stands r (w @ (''{'' @ t @ ''}'') @ rest) st b" "ws w" "awaits_value b" "stops rest"
  obtain r2 where r2: "stands r2 (t @ CHR ''}'' # rest) st (Obj [] (parents b))" "last_token (get_token r) = T_begin_object"
      "value_step dom_events (get_token r) =
        (if last_token (get_token r2) = T_end_object then notify (dom_end is_object) then_evaluate (get_token r2)
         else after_key dom_events (\<lambda>r. r\<lparr>states := False # states r\<rparr>) (get_token r2))"
    using object_started [of r w "t @ CHR ''}'' # rest" st b] a by auto
  have "pushes (\<lambda>r. r\<lparr>states := False # states r\<rparr>) st st" by (simp add: pushes_def)
  then obtain q r' where r': "last_token (get_token r2) \<noteq> T_end_object"
      "after_key dom_events (\<lambda>r. r\<lparr>states := False # states r\<rparr>) (get_token r2) = Inr (Continue q)"
      "sax_parse_internal dom_events q = resume r'" "stands r' rest st (close_frames (object_of kvs) (parents b))"
    using assms r2(1) unfolding reads_members_def object_of_def by blast
  have "\<not> skip_to_state_evaluation (get_token r)" using a(1) by (simp add: stands_def)
  then have "sax_parse_internal dom_events (get_token r) = resume r'"
    using parse_value_continue [of dom_events "get_token r" q] r2(3) r'(1-3) by simp
  then show "value_read r (object_of kvs) rest st b"
    using r2(2) r'(4) close_parents [OF a(3)] unfolding value_read_def by auto
qed

lemma element_read:
  assumes "ws a" "reads_value j t" "ws b" "stops (b @ rest)" "stands r (a @ t @ b @ rest) (True # st) (Arr ys fs)"
  shows "last_token (get_token r) \<noteq> T_end_array
    \<and> (\<exists>r'. sax_parse_internal dom_events (get_token r) = resume r' \<and> stands r' (b @ rest) (True # st) (Arr (ys @ [j]) fs))"
proof -
  have "value_read r j (b @ rest) (True # st) (Arr ys fs)"
    using assms unfolding reads_value_def by (metis awaits_value.simps(3))
  then show ?thesis by (simp add: value_read_def)
qed

lemma member_read:
  assumes "ws a" "string_text k kt" "ws v" "ws c" "reads_value j t" "stops rest" "pushes push st0 st"
    and "stands r (a @ kt @ v @ '':'' @ c @ t @ rest) st0 (Obj ms fs)"
  shows "last_token (get_token r) \<noteq> T_end_object
    \<and> (\<exists>q r'. after_key dom_events push (get_token r) = Inr (Continue q) \<and> sax_parse_internal dom_events q = resume r'
         \<and> stands r' rest (False # st) (Obj (obj_set k j ms) fs))"
proof -
  have s: "stands r (a @ kt @ v @ CHR '':'' # (c @ t @ rest)) st0 (Obj ms fs)" using assms(8) by simp
  obtain r2 where r2: "after_key dom_events push (get_token r) = Inr (Continue (get_token r2))"
      "stands r2 (c @ t @ rest) (False # st) (ObjKey ms k fs)" "last_token (get_token r) = T_value_string"
    using key_read [OF s assms(1,3,2,7)] by blast
  have "value_read r2 j rest (False # st) (ObjKey ms k fs)"
    using assms(4-6) r2(2) unfolding reads_value_def by (metis awaits_value.simps(4))
  then show ?thesis using r2(1,3) unfolding value_read_def by auto
qed

lemma grammar_read:
  "json_text j t \<Longrightarrow> reads_value j t"
  "elements_text xs t \<Longrightarrow> reads_elements xs t"
  "members_text kvs t \<Longrightarrow> reads_members kvs t"
proof (induction rule: json_text_elements_text_members_text.inducts)
  case (str s t)
  then show ?case unfolding reads_value_def using string_read by blast
next
  case (number ip fp ext neg j)
  then show ?case unfolding reads_value_def using number_read by blast
next
  case (empty_array w)
  then show ?case unfolding reads_value_def using empty_array_read by blast
next
  case (empty_object w)
  then show ?case unfolding reads_value_def using empty_object_read by blast
next
  case (array xs t)
  from this(2) show ?case by (rule array_read)
next
  case (object kvs t)
  from this(2) show ?case by (rule object_read)
next
  case (element a j t b)
  show ?case unfolding reads_elements_def
  proof (intro allI impI)
    fix r rest st ys fs assume "stands r ((a @ t @ b) @ CHR '']'' # rest) (True # st) (Arr ys fs)"
    then obtain r1 where r1: "last_token (get_token r) \<noteq> T_end_array" "sax_parse_internal dom_events (get_token r) = resume r1"
        "stands r1 (b @ CHR '']'' # rest) (True # st) (Arr (ys @ [j]) fs)"
      using element_read [OF element(1,4,3) stops_space [OF element(3)], of "CHR '']'' # rest" r st ys fs] by auto
    then show "last_token (get_token r) \<noteq> T_end_array \<and> (\<exists>r'. sax_parse_internal dom_events (get_token r) = resume r'
        \<and> stands r' rest st (close_frames (JArray (ys @ [j])) fs))"
      using close_array [OF r1(3) element(3)] by auto
  qed
next
  case (elements a j t b xs u)
  show ?case unfolding reads_elements_def
  proof (intro allI impI)
    fix r rest st ys fs assume "stands r ((a @ t @ b @ '','' @ u) @ CHR '']'' # rest) (True # st) (Arr ys fs)"
    then obtain r1 where r1: "last_token (get_token r) \<noteq> T_end_array" "sax_parse_internal dom_events (get_token r) = resume r1"
        "stands r1 (b @ CHR '','' # u @ CHR '']'' # rest) (True # st) (Arr (ys @ [j]) fs)"
      using element_read [OF elements(1,5,3) stops_space [OF elements(3)], of "CHR '','' # u @ CHR '']'' # rest" r st ys fs] by auto
    obtain r2 where r2: "resume r1 = sax_parse_internal dom_events (get_token r2)"
        "stands r2 (u @ CHR '']'' # rest) (True # st) (Arr (ys @ [j]) fs)"
      using next_element [OF r1(3) elements(3)] by blast
    then obtain r' where "sax_parse_internal dom_events (get_token r2) = resume r'"
        "stands r' rest st (close_frames (JArray ((ys @ [j]) @ xs)) fs)"
      using elements(6) unfolding reads_elements_def by blast
    then show "last_token (get_token r) \<noteq> T_end_array \<and> (\<exists>r'. sax_parse_internal dom_events (get_token r) = resume r'
        \<and> stands r' rest st (close_frames (JArray (ys @ j # xs)) fs))"
      using r1(1,2) r2(1) by auto
  qed
next
  case (member a k kt b c j t d)
  show ?case unfolding reads_members_def
  proof (intro allI impI)
    fix r rest st0 st ms fs push
    assume "stands r ((a @ kt @ b @ '':'' @ c @ t @ d) @ CHR ''}'' # rest) st0 (Obj ms fs)" and p: "pushes push st0 st"
    then obtain q r1 where r1: "last_token (get_token r) \<noteq> T_end_object" "after_key dom_events push (get_token r) = Inr (Continue q)"
        "sax_parse_internal dom_events q = resume r1" "stands r1 (d @ CHR ''}'' # rest) (False # st) (Obj (obj_set k j ms) fs)"
      using member_read [OF member(1-4,7) stops_space [OF member(6)] p, of "CHR ''}'' # rest" r ms fs] by auto
    then show "last_token (get_token r) \<noteq> T_end_object
        \<and> (\<exists>q r'. after_key dom_events push (get_token r) = Inr (Continue q) \<and> sax_parse_internal dom_events q = resume r'
          \<and> stands r' rest st (close_frames (JObject (foldl (\<lambda>ms (k, v). obj_set k v ms) ms [(k, j)])) fs))"
      using close_object [OF r1(4) member(6)] by auto
  qed
next
  case (members a k kt b c j t d kvs u)
  show ?case unfolding reads_members_def
  proof (intro allI impI)
    fix r rest st0 st ms fs push
    assume "stands r ((a @ kt @ b @ '':'' @ c @ t @ d @ '','' @ u) @ CHR ''}'' # rest) st0 (Obj ms fs)" and p: "pushes push st0 st"
    then obtain q r1 where r1: "last_token (get_token r) \<noteq> T_end_object" "after_key dom_events push (get_token r) = Inr (Continue q)"
        "sax_parse_internal dom_events q = resume r1"
        "stands r1 (d @ CHR '','' # u @ CHR ''}'' # rest) (False # st) (Obj (obj_set k j ms) fs)"
      using member_read [OF members(1-4,8) stops_space [OF members(6)] p, of "CHR '','' # u @ CHR ''}'' # rest" r ms fs] by auto
    obtain r2 where r2: "\<And>q. after_key dom_events (\<lambda>r. r) (get_token r2) = Inr (Continue q) \<Longrightarrow>
        resume r1 = sax_parse_internal dom_events q" "stands r2 (u @ CHR ''}'' # rest) (False # st) (Obj (obj_set k j ms) fs)"
      using next_member [OF r1(4) members(6)] by blast
    have "pushes (\<lambda>r. r) (False # st) st" by (simp add: pushes_def)
    then obtain q' r' where "after_key dom_events (\<lambda>r. r) (get_token r2) = Inr (Continue q')"
        "sax_parse_internal dom_events q' = resume r'"
        "stands r' rest st (close_frames (JObject (foldl (\<lambda>ms (k, v). obj_set k v ms) (obj_set k j ms) kvs)) fs)"
      using members(9) r2(2) unfolding reads_members_def by blast
    then show "last_token (get_token r) \<noteq> T_end_object
        \<and> (\<exists>q r'. after_key dom_events push (get_token r) = Inr (Continue q) \<and> sax_parse_internal dom_events q = resume r'
          \<and> stands r' rest st (close_frames (JObject (foldl (\<lambda>ms (k, v). obj_set k v ms) ms ((k, j) # kvs))) fs))"
      using r1(1-3) r2(1) by auto
  qed
qed (unfold reads_value_def, (blast intro: literal_read)+)

subsection \<open>Documents\<close>

lemma bom_scanned:
  assumes "lx_input l = byte_order_mark @ s" "\<not> next_unget l" "chars_read_total (lx_position l) = 0"
  shows "\<exists>l'. scan l = scan l' \<and> ready l' s"
proof -
  have f: "feeds l (CHR 0xEF # CHR 0xBB # CHR 0xBF # s) (token_buffer l)"
    using assms by (simp add: feeds_def byte_order_mark_def)
  let ?l3 = "get (get (get l))"
  note g1 = get_feeds [OF f] and g2 = get_feeds [OF get_feeds(1) [OF f]]
  note g = g1(2) g2(2) get_feeds(2) [OF g2(1)] get_feeds(1) [OF g2(1)]
  have "reading (get (get l)) (CHR 0xBF # s)" using g2(1) by (rule feeds_reading)
  from get_reading(4) [OF this] have st: "started ?l3" .
  have "skip_bom l = (True, ?l3)" using g by (simp add: skip_bom_def Let_def)
  then have "scan l = scan ?l3" using assms(3) st by (simp add: scan_def started_def)
  then show ?thesis using started_ready [OF st feeds_reading [OF g(4)]] by blast
qed

lemma json_text_start:
  assumes "json_text j t"
  shows "\<exists>c u. t = c # u \<and> c \<noteq> CHR 0xEF"
  using assms
proof (cases rule: json_text.cases)
  case (str s)
  then show ?thesis using string_text_start by fastforce
next
  case (number ip fp ext neg)
  obtain d ds where "ip = d # ds" "c_digit d" using number(2) by (cases ip) (auto simp: number_ok_def)
  then show ?thesis using number(1) by (cases neg) (auto simp: number_text_def c_digit_def)
qed auto

lemma value_parsed:
  assumes "json_text j t" "ws a" "ws b" "stands r (a @ t @ b) [] (Finished v)"
  shows "parser_parse True (get_token r) = Inr j"
proof -
  have "stops b" using stops_space [OF assms(3), of "[]"] by simp
  then obtain r' where r': "sax_parse_internal dom_events (get_token r) = resume r'" "stands r' b [] (Finished j)"
    using grammar_read(1) [OF assms(1)] assms(2,4) unfolding reads_value_def value_read_def
    by (metis add_value.simps(1) awaits_value.simps(2))
  have st: "states r' = []" "\<not> skip_to_state_evaluation r'" using r'(2) by (simp_all add: stands_def)
  then have "r'\<lparr>skip_to_state_evaluation := False\<rparr> = r'" by simp
  then have "resume r' = Inr (True, r')"
    using st(1) by (subst sax_parse_internal.simps) (simp add: sax_iteration_def evaluate_step_def)
  moreover have "fst (scan (m_lexer r')) = T_end_of_input" using scan_end r'(2) assms(3) by (auto simp: stands_def)
  ultimately show ?thesis
    using r' by (simp add: parser_parse_def strict_end_def Let_def stands_def)
qed

lemma document_parsed:
  assumes "document_text j t"
  shows "json_parse t allow ignore = Inr j"
proof -
  obtain bom a u b where t: "t = bom @ a @ u @ b" "bom = [] \<or> bom = byte_order_mark" "ws a" "json_text j u" "ws b"
    using assms unfolding document_text.simps by blast
  define r where "r = \<lparr>last_token = T_uninitialized, m_lexer = lexer_new t ignore, states = [],
       skip_to_state_evaluation = False, sax = sax_dom_new allow\<rparr>"
  have p: "json_parse t allow ignore = parser_parse True (get_token r)" by (simp add: json_parse_def parser_new_def r_def)
  have rd: "ready (lexer_new t ignore) t" if "take 1 t \<noteq> [CHR 0xEF]"
    using that by (simp add: ready_def reading_def lexer_new_def)
  have "\<exists>l'. scan (m_lexer r) = scan l' \<and> ready l' (a @ u @ b)"
  proof (cases "bom = []")
    case True
    obtain c v where "u = c # v" "c \<noteq> CHR 0xEF" using json_text_start [OF t(4)] by blast
    then have "take 1 t \<noteq> [CHR 0xEF]"
      using t(1,3) True by (cases a) (auto simp: ws_def json_space_def)
    then show ?thesis using rd t(1) True by (auto simp: r_def)
  next
    case False
    then show ?thesis using bom_scanned [of "lexer_new t ignore" "a @ u @ b"] t(1,2) by (auto simp: r_def lexer_new_def)
  qed
  then obtain l' where l': "scan (m_lexer r) = scan l'" "ready l' (a @ u @ b)" by blast
  have "get_token r = get_token (r\<lparr>m_lexer := l'\<rparr>)" using l'(1) by (simp add: get_token_def)
  moreover have "stands (r\<lparr>m_lexer := l'\<rparr>) (a @ u @ b) [] (Finished JNull)"
    using l'(2) by (simp add: stands_def r_def sax_dom_new_def)
  ultimately show ?thesis using value_parsed [OF t(4,3,5)] p by metis
qed


lemma sample_text:
  "document_text (JObject [(''k'', JArray [JUnsigned 1, JNull])])
     (''{'' @ ([] @ (dquote # ''k'' @ [dquote]) @ [] @ '':'' @ '' '' @ (''['' @ ([] @ ''1'' @ [] @ '','' @ ('' '' @ ''null'' @ [])) @ '']'') @ [])
      @ ''}'')"
proof -
  have w: "ws []" "ws '' ''" by (simp_all add: ws_def json_space_def)
  have "number_ok ''1'' [] []" by (simp add: number_ok_def exponent_ok_def c_digit_def)
  moreover have "number_value False ''1'' [] [] = JUnsigned 1"
    by (simp add: number_value_def digits_value_def digit_val_def)
  ultimately have "json_text (JUnsigned 1) ''1''"
    using number [of "''1''" "[]" "[]" False "JUnsigned 1"] by (simp add: number_text_def)
  then have "elements_text [JUnsigned 1, JNull] ([] @ ''1'' @ [] @ '','' @ ('' '' @ ''null'' @ []))"
    by (intro elements element null w)
  note a = array [OF this]
  have "utf8_bytes 107 = ''k''" by code_simp
  then have "list_all2 char_text [107] [''k'']" using char_text.plain [of 107] by (simp add: plain_codepoint_def scalar_def)
  from string_text.intros [OF this] have "string_text ''k'' (dquote # ''k'' @ [dquote])"
    using \<open>utf8_bytes 107 = ''k''\<close> by simp
  note member [OF w(1) this w(1,2) a w(1)]
  from object [OF this] have "json_text (JObject [(''k'', JArray [JUnsigned 1, JNull])])
     (''{'' @ ([] @ (dquote # ''k'' @ [dquote]) @ [] @ '':'' @ '' '' @ (''['' @ ([] @ ''1'' @ [] @ '','' @ ('' '' @ ''null'' @ [])) @ '']'') @ [])
      @ ''}'')" by (simp add: object_of_def)
  from document_text.intros [OF disjI1 [OF refl] w(1) this w(1)] show ?thesis by (simp only: append_Nil append_Nil2)
qed


end
