(* ===== verification/Utf8_Automaton.thy ===== *)
theory Utf8_Automaton
  imports Utf8
begin

text \<open>
  What the decoding automaton accepts: from any state but the rejecting one, the byte sequences that complete
  the sequence it is in and go on with UTF-8.
\<close>

lemma expected_nonempty: "2 \<le> s \<Longrightarrow> s < 9 \<Longrightarrow> expected_ranges s \<noteq> []"
  by (simp add: expected_ranges_def)

lemma expected_short: "length (expected_ranges s) \<le> 3"
  by (simp add: expected_ranges_def)

text \<open>Where a byte takes the automaton.\<close>

lemma decode_cases:
  assumes "s < 9" "s \<noteq> 1" "b < 256"
  obtains "fst (decode s cp b) = 0" | "fst (decode s cp b) = 1"
  | "2 \<le> fst (decode s cp b)" "fst (decode s cp b) < 9"
    "s \<noteq> 0 \<longrightarrow> Suc (length (expected_ranges (fst (decode s cp b)))) = length (expected_ranges s)"
proof (cases "s = 0")
  case True
  then show ?thesis
    using that decode_ascii [of b cp] decode_lead [where b = b and cp = cp] assms
    by (cases "b < 0x80"; cases "utf8_ranges b") auto
next
  case False
  then have s: "2 \<le> s" using assms by simp
  obtain lo hi rs where e: "expected_ranges s = (lo, hi) # rs"
    using expected_nonempty [OF s assms(1)] by (cases "expected_ranges s") auto
  then show ?thesis
    using that decode_continue [OF s assms(1,3) e, of cp] by (cases "lo \<le> b \<and> b \<le> hi") force+
qed

lemma utf8_text_lead:
  assumes "b < 256" "b < 0x80 \<or> utf8_ranges b = Some rs" "if b < 0x80 then ws = [] else in_ranges rs ws" "utf8_text vs"
  shows "utf8_text (b # ws @ vs)"
proof -
  obtain c where "scalar c" "utf8_units c = b # ws"
  proof (cases "b < 0x80")
    case True
    then show ?thesis using that [of b] assms(3) units_small by (simp add: scalar_def)
  next
    case False
    then show ?thesis using that ranges_units [of b rs ws] assms(2,3) by auto
  qed
  then show ?thesis using utf8_text_append [OF utf8_text_units assms(4)] by fastforce
qed

definition completes :: "nat \<Rightarrow> nat list \<Rightarrow> bool" where
  "completes st bs \<longleftrightarrow> (\<exists>ws vs. bs = ws @ vs \<and> in_ranges (expected_ranges st) ws \<and> utf8_text vs)"

lemma decode_below: "s < 9 \<Longrightarrow> s \<noteq> 1 \<Longrightarrow> b < 256 \<Longrightarrow> fst (decode s cp b) < 9"
  using decode_cases [of s b cp] by force

lemma text_head:
  assumes "utf8_text (b # bs)"
  shows "\<exists>ws vs. bs = ws @ vs \<and> utf8_text vs \<and>
    (if b < 0x80 then ws = [] else \<exists>rs. utf8_ranges b = Some rs \<and> in_ranges rs ws)"
proof -
  obtain cs where cs: "list_all scalar cs" "b # bs = concat (map utf8_units cs)"
    using assms by (auto simp: utf8_text_def)
  then obtain c cs' where c: "cs = c # cs'" by (cases cs) auto
  have vs: "utf8_text (concat (map utf8_units cs'))" using cs c unfolding utf8_text_def by auto
  show ?thesis
  proof (cases "c < 0x80")
    case True
    then show ?thesis using cs c vs by (auto simp: units_small)
  next
    case False
    then obtain b' rs ws where u: "utf8_units c = b' # ws" "utf8_ranges b' = Some rs" "in_ranges rs ws"
      using units_ranges [of c] cs c by auto
    then have "b' = b" "bs = ws @ concat (map utf8_units cs')" using cs c by auto
    moreover from u have "\<not> b' < 0x80" by (auto simp: utf8_ranges_def split: if_splits)
    ultimately show ?thesis using u vs by auto
  qed
qed

lemma completes_step:
  assumes "s < 9" "s \<noteq> 1" "b < 256"
  shows "completes s (b # bs) \<longleftrightarrow> fst (decode s cp b) \<noteq> 1 \<and> completes (fst (decode s cp b)) bs"
proof (cases "s = 0")
  case s0: True
  show ?thesis
  proof (cases "b < 0x80")
    case True
    then have "fst (decode s cp b) = 0" using s0 decode_ascii by simp
    moreover have "utf8_text (b # bs) \<longleftrightarrow> utf8_text bs"
      using text_head [of b bs] utf8_text_lead [of b _ "[]" bs] assms(3) True by auto
    ultimately show ?thesis using s0 by (simp add: completes_def expected_simps)
  next
    case False
    show ?thesis
    proof (cases "utf8_ranges b")
      case None
      then show ?thesis
        using False s0 decode_lead(1) [of b cp] text_head [of b bs] assms(3) by (auto simp: completes_def expected_simps)
    next
      case (Some rs)
      then have "fst (decode s cp b) \<noteq> 1" "expected_ranges (fst (decode s cp b)) = rs"
        using False s0 decode_lead(2) [of b rs cp] assms(3) by auto
      moreover have "utf8_text (b # bs) \<longleftrightarrow> (\<exists>ws vs. bs = ws @ vs \<and> in_ranges rs ws \<and> utf8_text vs)"
        using text_head [of b bs] utf8_text_lead [OF assms(3), of rs] False Some by auto
      ultimately show ?thesis using s0 by (simp add: completes_def expected_simps)
    qed
  qed
next
  case False
  then have s: "2 \<le> s" using assms by simp
  obtain lo hi rs where e: "expected_ranges s = (lo, hi) # rs"
    using expected_nonempty [OF s assms(1)] by (cases "expected_ranges s") auto
  show ?thesis
  proof (cases "lo \<le> b \<and> b \<le> hi")
    case True
    then have "fst (decode s cp b) \<noteq> 1" "expected_ranges (fst (decode s cp b)) = rs"
      using decode_continue(1) [OF s assms(1,3) e True, of cp] by auto
    moreover have "completes s (b # bs) \<longleftrightarrow> (\<exists>ws vs. bs = ws @ vs \<and> in_ranges rs ws \<and> utf8_text vs)"
    proof
      assume "\<exists>ws vs. bs = ws @ vs \<and> in_ranges rs ws \<and> utf8_text vs"
      then obtain ws vs where "bs = ws @ vs" "in_ranges rs ws" "utf8_text vs" by blast
      then have "b # bs = (b # ws) @ vs \<and> in_ranges (expected_ranges s) (b # ws) \<and> utf8_text vs" using True e by simp
      then show "completes s (b # bs)" unfolding completes_def by blast
    next
      assume "completes s (b # bs)"
      then obtain ws vs where "b # bs = ws @ vs" "in_ranges (expected_ranges s) ws" "utf8_text vs"
        unfolding completes_def by blast
      then obtain cs where "bs = cs @ vs" "in_ranges rs cs" by (auto simp: e)
      with \<open>utf8_text vs\<close> show "\<exists>ws vs. bs = ws @ vs \<and> in_ranges rs ws \<and> utf8_text vs" by blast
    qed
    ultimately show ?thesis by (simp add: completes_def)
  next
    case out: False
    then have "fst (decode s cp b) = 1" using decode_continue(2) [OF s assms(1,3) e out, of cp] by simp
    moreover have "\<not> completes s (b # bs)" using out e by (auto simp: completes_def)
    ultimately show ?thesis by simp
  qed
qed

end
