(* ===== verification/Json_Escape.thy ===== *)
theory Json_Escape
  imports Utf8_Automaton Json_Scan
begin

text \<open>
  How \<^verbatim>\<open>serializer::dump_escaped\<close> writes a string: bytes go through the decoding automaton of \<open>Utf8\<close>
  into a buffer of 512 bytes that is flushed to the output when fewer than 13 are left.  Writing past
  the end of the buffer would be undefined behaviour, and the model says so; it is shown not to happen.
\<close>

datatype error_handler = EH_strict | EH_replace | EH_ignore

text \<open>The text that stands for a code point; \<open>c\<close> is the byte that completed it.\<close>

definition low_digit :: "nat \<Rightarrow> char" where
  "low_digit d = ''0123456789abcdef'' ! d"

definition unicode_text :: "nat \<Rightarrow> string" where
  "unicode_text n =
     [backslash, CHR ''u'', low_digit (n div 4096 mod 16), low_digit (n div 256 mod 16),
      low_digit (n div 16 mod 16), low_digit (n mod 16)]"

definition short_text :: "nat \<Rightarrow> string option" where
  "short_text codepoint =
     (if codepoint = 0x08 then Some [backslash, CHR ''b'']
      else if codepoint = 0x09 then Some [backslash, CHR ''t'']
      else if codepoint = 0x0A then Some [backslash, CHR ''n'']
      else if codepoint = 0x0C then Some [backslash, CHR ''f'']
      else if codepoint = 0x0D then Some [backslash, CHR ''r'']
      else if codepoint = 0x22 then Some [backslash, dquote]
      else if codepoint = 0x5C then Some [backslash, backslash]
      else None)"

definition must_escape :: "bool \<Rightarrow> nat \<Rightarrow> bool" where
  "must_escape ensure_ascii codepoint \<longleftrightarrow> codepoint \<le> 0x1F \<or> ensure_ascii \<and> 0x7F \<le> codepoint"

definition escaped_text :: "nat \<Rightarrow> string" where
  "escaped_text codepoint =
     (if codepoint \<le> 0xFFFF then unicode_text codepoint
      else unicode_text (0xD7C0 + codepoint div 2 ^ 10) @ unicode_text (0xDC00 + codepoint mod 2 ^ 10))"

record dumper =
  written :: string
  string_buffer :: string
  after_last_accept :: nat
  undumped_chars :: nat
  decoder_state :: nat
  decoder_codepoint :: nat

definition dumper_new :: dumper where
  "dumper_new =
     \<lparr>written = [], string_buffer = [], after_last_accept = 0, undumped_chars = 0, decoder_state = 0,
      decoder_codepoint = 0\<rparr>"

text \<open>\<open>nul\<close>: the terminator \<^verbatim>\<open>snprintf\<close> writes behind the text needs room as well.\<close>

definition buffer_put :: "bool \<Rightarrow> string \<Rightarrow> dumper \<Rightarrow> dumper outcome" where
  "buffer_put nul s d =
     (if length (string_buffer d) + length s + (if nul then 1 else 0) \<le> 512
      then Inr (d\<lparr>string_buffer := string_buffer d @ s\<rparr>) else Inl Undefined)"

definition flush_buffer :: "dumper \<Rightarrow> dumper" where
  "flush_buffer d =
     (if 512 - length (string_buffer d) < 13
      then d\<lparr>written := written d @ string_buffer d, string_buffer := []\<rparr> else d)"

definition put_codepoint :: "bool \<Rightarrow> char \<Rightarrow> dumper \<Rightarrow> dumper outcome" where
  "put_codepoint ensure_ascii c d =
     (case short_text (decoder_codepoint d) of
        Some s \<Rightarrow> buffer_put False s d
      | None \<Rightarrow>
          if must_escape ensure_ascii (decoder_codepoint d)
          then buffer_put True (escaped_text (decoder_codepoint d)) d
          else buffer_put False [c] d)"

definition on_accept :: "bool \<Rightarrow> char \<Rightarrow> dumper \<Rightarrow> dumper outcome" where
  "on_accept ensure_ascii c d =
     bindE (put_codepoint ensure_ascii c d)
       (\<lambda>d1. let d2 = flush_buffer d1
             in Inr (d2\<lparr>after_last_accept := length (string_buffer d2), undumped_chars := 0\<rparr>))"

definition hex_bytes :: "nat \<Rightarrow> string" where
  "hex_bytes b = [hex_digit (b div 16), hex_digit (b mod 16)]"

definition replacement :: "bool \<Rightarrow> string" where
  "replacement ensure_ascii =
     (if ensure_ascii then [backslash, CHR ''u'', CHR ''f'', CHR ''f'', CHR ''f'', CHR ''d'']
      else [CHR 0xEF, CHR 0xBF, CHR 0xBD])"

definition on_reject :: "error_handler \<Rightarrow> bool \<Rightarrow> dumper \<Rightarrow> dumper outcome" where
  "on_reject eh ensure_ascii d =
     (let d1 = d\<lparr>string_buffer := take (after_last_accept d) (string_buffer d)\<rparr>
      in bindE
           (if eh = EH_replace
            then bindE (buffer_put False (replacement ensure_ascii) d1)
                   (\<lambda>d2. let d3 = flush_buffer d2 in Inr (d3\<lparr>after_last_accept := length (string_buffer d3)\<rparr>))
            else Inr d1)
           (\<lambda>d4. Inr (d4\<lparr>undumped_chars := 0, decoder_state := 0\<rparr>)))"

definition on_incomplete :: "bool \<Rightarrow> char \<Rightarrow> dumper \<Rightarrow> dumper outcome" where
  "on_incomplete ensure_ascii c d =
     bindE (if ensure_ascii then Inr d else buffer_put False [c] d)
       (\<lambda>d1. Inr (d1\<lparr>undumped_chars := undumped_chars d1 + 1\<rparr>))"

text \<open>One byte: whether to read it again, and the state after it.\<close>

definition dump_byte :: "error_handler \<Rightarrow> bool \<Rightarrow> nat \<Rightarrow> char \<Rightarrow> dumper \<Rightarrow> (bool \<times> dumper) outcome" where
  "dump_byte eh ensure_ascii i c d =
     (case decode (decoder_state d) (decoder_codepoint d) (of_char c) of
        (st, cp) \<Rightarrow>
          (let d1 = d\<lparr>decoder_state := st, decoder_codepoint := cp\<rparr>
           in if st = 0 then bindE (on_accept ensure_ascii c d1) (\<lambda>d2. Inr (False, d2))
              else if st = 1
              then (if eh = EH_strict
                    then type_error ''316'' (''invalid UTF-8 byte at index '' @ nat_str i @ '': 0x'' @ hex_bytes (of_char c))
                    else bindE (on_reject eh ensure_ascii d1) (\<lambda>d2. Inr (0 < undumped_chars d1, d2)))
              else bindE (on_incomplete ensure_ascii c d1) (\<lambda>d2. Inr (False, d2))))"

lemma reread_resets:
  assumes "dump_byte eh e i c d = Inr (True, d')"
  shows "undumped_chars d' = 0 \<and> 0 < undumped_chars d"
  using assms
  by (auto simp: dump_byte_def on_reject_def on_accept_def on_incomplete_def type_error_def Let_def bindE_eq_Inr
      split: prod.splits if_splits)

function dump_loop :: "error_handler \<Rightarrow> bool \<Rightarrow> nat \<Rightarrow> string \<Rightarrow> dumper \<Rightarrow> dumper outcome" where
  "dump_loop eh ensure_ascii i [] d = Inr d"
| "dump_loop eh ensure_ascii i (c # cs) d =
     (case dump_byte eh ensure_ascii i c d of
        Inl f \<Rightarrow> Inl f
      | Inr (again, d') \<Rightarrow>
          if again then dump_loop eh ensure_ascii i (c # cs) d' else dump_loop eh ensure_ascii (i + 1) cs d')"
  by pat_completeness auto
termination
  by (relation "measure (\<lambda>(eh, e, i, s, d). 2 * length s + (if 0 < undumped_chars d then 1 else 0))")
    (auto dest: reread_resets)

declare dump_loop.simps(2) [simp del]

definition dump_end :: "error_handler \<Rightarrow> bool \<Rightarrow> string \<Rightarrow> dumper \<Rightarrow> string outcome" where
  "dump_end eh ensure_ascii s d =
     (if decoder_state d = 0 then Inr (written d @ string_buffer d)
      else case eh of
             EH_strict \<Rightarrow> type_error ''316'' (''incomplete UTF-8 string; last byte: 0x'' @ hex_bytes (of_char (last s)))
           | EH_ignore \<Rightarrow> Inr (written d @ take (after_last_accept d) (string_buffer d))
           | EH_replace \<Rightarrow> Inr (written d @ take (after_last_accept d) (string_buffer d) @ replacement ensure_ascii))"

definition dump_escaped :: "error_handler \<Rightarrow> bool \<Rightarrow> string \<Rightarrow> string outcome" where
  "dump_escaped eh ensure_ascii s =
     bindE (dump_loop eh ensure_ascii 0 s dumper_new) (dump_end eh ensure_ascii s)"

subsection \<open>The buffer never overflows\<close>

definition dumper_ok :: "bool \<Rightarrow> dumper \<Rightarrow> bool" where
  "dumper_ok e d \<longleftrightarrow>
     decoder_state d < 9 \<and> decoder_state d \<noteq> 1 \<and> after_last_accept d \<le> 499
     \<and> (if decoder_state d = 0 then undumped_chars d = 0
        else undumped_chars d + length (expected_ranges (decoder_state d)) \<le> 4)
     \<and> length (string_buffer d) \<le> after_last_accept d + (if e then 0 else undumped_chars d)"

lemma dumper_ok_new: "dumper_ok e dumper_new"
  by (simp add: dumper_ok_def dumper_new_def)

lemma unicode_text_length [simp]: "length (unicode_text n) = 6"
  by (simp add: unicode_text_def)

lemma put_codepoint_room:
  assumes "length (string_buffer d) \<le> 499 + (if e then 0 else 3)"
  shows "\<exists>s. length s \<le> 12 \<and> put_codepoint e c d = Inr (d\<lparr>string_buffer := string_buffer d @ s\<rparr>)"
proof (cases "short_text (decoder_codepoint d)")
  case None
  have "length (escaped_text (decoder_codepoint d)) \<le> (if e then 12 else if must_escape e (decoder_codepoint d) then 6 else 12)"
    by (auto simp: escaped_text_def must_escape_def)
  then show ?thesis
    using None assms
    by (cases e; cases "must_escape e (decoder_codepoint d)")
      (auto simp: put_codepoint_def buffer_put_def intro: exI [of _ "escaped_text (decoder_codepoint d)"] exI [of _ "[c]"])
next
  case (Some s)
  then have "length s = 2" by (auto simp: short_text_def split: if_splits)
  then show ?thesis using Some assms
    by (cases e) (auto simp: put_codepoint_def buffer_put_def intro: exI [of _ s])
qed

lemma flush_room: "length (string_buffer (flush_buffer d)) \<le> 499"
  by (auto simp: flush_buffer_def)

lemma on_accept_room:
  assumes "length (string_buffer d) \<le> 499 + (if e then 0 else 3)" "decoder_state d = 0"
  shows "\<exists>d'. on_accept e c d = Inr d' \<and> dumper_ok e d'"
proof -
  obtain s where "put_codepoint e c d = Inr (d\<lparr>string_buffer := string_buffer d @ s\<rparr>)"
    using put_codepoint_room [OF assms(1)] by blast
  then show ?thesis
    using flush_room [of "d\<lparr>string_buffer := string_buffer d @ s\<rparr>"] assms(2)
    by (auto simp: on_accept_def dumper_ok_def Let_def flush_buffer_def)
qed

lemma on_reject_room:
  assumes "after_last_accept d \<le> 499"
  shows "\<exists>d'. on_reject eh e d = Inr d' \<and> dumper_ok e d'"
proof -
  have r: "length (replacement e) \<le> 6" by (simp add: replacement_def)
  let ?d = "d\<lparr>string_buffer := take (after_last_accept d) (string_buffer d)\<rparr>"
  let ?d2 = "?d\<lparr>string_buffer := string_buffer ?d @ replacement e\<rparr>"
  have "buffer_put False (replacement e) ?d = Inr ?d2"
    using assms r by (simp add: buffer_put_def min_def)
  then show ?thesis
    using assms flush_room [of ?d2] by (auto simp: on_reject_def dumper_ok_def Let_def flush_buffer_def)
qed

lemma on_incomplete_room:
  "length (string_buffer d) \<le> 499 + (if e then 0 else 3) \<Longrightarrow>
   on_incomplete e c d = Inr (d\<lparr>string_buffer := string_buffer d @ (if e then [] else [c]),
     undumped_chars := undumped_chars d + 1\<rparr>)"
  by (cases e) (simp_all add: on_incomplete_def buffer_put_def)

lemma dump_byte_room:
  assumes "dumper_ok e d"
  shows "(\<exists>b d'. dump_byte eh e i c d = Inr (b, d') \<and> dumper_ok e d') \<or> (\<exists>what. dump_byte eh e i c d = Inl (Throw what))"
proof -
  obtain st cp where d: "decode (decoder_state d) (decoder_codepoint d) (of_char c) = (st, cp)"
    by (cases "decode (decoder_state d) (decoder_codepoint d) (of_char c)")
  let ?d = "d\<lparr>decoder_state := st, decoder_codepoint := cp\<rparr>"
  have inner: "decoder_state d \<noteq> 0 \<Longrightarrow> 1 \<le> length (expected_ranges (decoder_state d))"
    using assms expected_nonempty [of "decoder_state d"] by (simp add: dumper_ok_def Suc_le_eq)
  have u: "undumped_chars d \<le> 3" using assms inner by (fastforce simp: dumper_ok_def split: if_splits)
  then have buf: "length (string_buffer d) \<le> 499 + (if e then 0 else 3)"
    using assms by (auto simp: dumper_ok_def split: if_splits)
  have ok: "decoder_state d < 9" "decoder_state d \<noteq> 1" using assms by (simp_all add: dumper_ok_def)
  show ?thesis
  proof (rule decode_cases [OF ok nat_of_char_less_256, of "decoder_codepoint d" c, unfolded d fst_conv])
    assume "st = 0"
    then obtain d' where "on_accept e c ?d = Inr d'" "dumper_ok e d'" using on_accept_room [of ?d e c] buf by auto
    then show ?thesis using d \<open>st = 0\<close> by (auto simp: dump_byte_def)
  next
    assume "st = 1"
    moreover obtain d' where "on_reject eh e ?d = Inr d'" "dumper_ok e d'"
      using on_reject_room [of ?d eh e] assms by (auto simp: dumper_ok_def)
    ultimately show ?thesis using d by (cases "eh = EH_strict") (simp_all add: dump_byte_def type_error_def)
  next
    assume st: "2 \<le> st" "st < 9"
      "decoder_state d \<noteq> 0 \<longrightarrow> Suc (length (expected_ranges st)) = length (expected_ranges (decoder_state d))"
    then have "undumped_chars d + 1 + length (expected_ranges st) \<le> 4"
      using assms expected_short [of st] by (auto simp: dumper_ok_def split: if_splits)
    moreover obtain d' where d': "on_incomplete e c ?d = Inr d'" "decoder_state d' = st"
        "undumped_chars d' = undumped_chars d + 1" "after_last_accept d' = after_last_accept d"
        "length (string_buffer d') \<le> length (string_buffer d) + (if e then 0 else 1)"
      using on_incomplete_room [of ?d e c] buf by simp
    ultimately have "dumper_ok e d'" using st assms by (auto simp: dumper_ok_def split: if_splits)
    then show ?thesis using d d' st by (auto simp: dump_byte_def)
  qed
qed

lemma dump_loop_room:
  "dumper_ok e d \<Longrightarrow>
   (\<exists>d'. dump_loop eh e i s d = Inr d' \<and> dumper_ok e d') \<or> (\<exists>what. dump_loop eh e i s d = Inl (Throw what))"
proof (induction eh e i s d rule: dump_loop.induct)
  case (2 eh e i c cs d)
  from dump_byte_room [OF 2(3), of eh i c] show ?case
  proof (elim disjE exE conjE)
    fix b d' assume "dump_byte eh e i c d = Inr (b, d')" "dumper_ok e d'"
    then show ?case using 2(1) [of "(b, d')" b d'] 2(2) [of "(b, d')" b d']
      by (cases b) (auto simp: dump_loop.simps(2) [of eh e i c])
  qed (auto simp: dump_loop.simps(2))
qed simp

lemma dump_escaped_outcome:
  "(\<exists>t. dump_escaped eh e s = Inr t) \<or> (\<exists>what. dump_escaped eh e s = Inl (Throw what))"
proof -
  have "(\<exists>t. dump_end eh e s d = Inr t) \<or> (\<exists>what. dump_end eh e s d = Inl (Throw what))" for d
    by (cases eh) (simp_all add: dump_end_def type_error_def)
  then show ?thesis using dump_loop_room [OF dumper_ok_new [of e], of eh 0 s] by (fastforce simp: dump_escaped_def)
qed

text \<open>C29: Escaping a string never writes outside the 512-byte buffer: it returns a text or throws, whatever
  the string and the error handler are.\<close>

theorem dump_escaped_in_bounds:
  "(\<exists>t. dump_escaped eh e s = Inr t) \<or> (\<exists>what. dump_escaped eh e s = Inl (Throw what))"
  by (rule dump_escaped_outcome)

subsection \<open>Strict mode\<close>

text \<open>The text of one code point.\<close>

definition codepoint_text :: "bool \<Rightarrow> nat \<Rightarrow> string" where
  "codepoint_text e c =
     (case short_text c of
        Some t \<Rightarrow> t
      | None \<Rightarrow> if must_escape e c then escaped_text c else utf8_bytes c)"

definition at_rest :: "bool \<Rightarrow> string \<Rightarrow> dumper \<Rightarrow> bool" where
  "at_rest e out d \<longleftrightarrow>
     dumper_ok e d \<and> decoder_state d = 0 \<and> length (string_buffer d) = after_last_accept d
     \<and> written d @ string_buffer d = out"

lemma accept_at_rest:
  assumes "decoder_state d = 0" "length (string_buffer d) \<le> 499 + (if e then 0 else 3)"
    and "put_codepoint e c d = Inr (d\<lparr>string_buffer := string_buffer d @ t\<rparr>)"
    and "written d @ string_buffer d @ t = out"
  shows "\<exists>d'. on_accept e c d = Inr d' \<and> at_rest e out d'"
proof -
  let ?d = "flush_buffer (d\<lparr>string_buffer := string_buffer d @ t\<rparr>)"
  have "written ?d @ string_buffer ?d = out" using assms(4) by (simp add: flush_buffer_def)
  moreover have "decoder_state ?d = 0" using assms(1) by (simp add: flush_buffer_def)
  ultimately show ?thesis
    using assms(3) flush_room [of "d\<lparr>string_buffer := string_buffer d @ t\<rparr>"]
    by (auto simp: on_accept_def at_rest_def dumper_ok_def Let_def)
qed

definition put_chars :: "bool \<Rightarrow> nat \<Rightarrow> char \<Rightarrow> string" where
  "put_chars e cp c =
     (case short_text cp of Some t \<Rightarrow> t | None \<Rightarrow> if must_escape e cp then escaped_text cp else [c])"

lemma put_text:
  assumes "length (string_buffer d) \<le> 499 + (if e then 0 else 3)"
  shows "put_codepoint e c d = Inr (d\<lparr>string_buffer := string_buffer d @ put_chars e (decoder_codepoint d) c\<rparr>)"
  using put_codepoint_room [OF assms, of c]
  by (auto simp: put_codepoint_def buffer_put_def put_chars_def split: option.splits if_splits)

lemma put_chars_ascii: "c < 0x80 \<Longrightarrow> put_chars e c (char_of c) = codepoint_text e c"
  by (simp add: put_chars_def codepoint_text_def utf8_bytes_def units_small split: option.split)

lemma put_chars_big: "0x80 \<le> c \<Longrightarrow> put_chars e c b = (if e then escaped_text c else [b])"
  by (simp add: put_chars_def short_text_def must_escape_def)

text \<open>The bytes that continue a multi-byte sequence.\<close>

lemma dump_continuation:
  "in_ranges (expected_ranges (decoder_state d)) (map of_char cs) \<Longrightarrow> 2 \<le> decoder_state d \<Longrightarrow> dumper_ok e d \<Longrightarrow>
   foldl add_six (decoder_codepoint d) (map of_char cs) = c \<Longrightarrow> 0x80 \<le> c \<Longrightarrow>
   written d @ string_buffer d @ (if e then escaped_text c else cs) = out \<Longrightarrow>
   \<exists>d'. dump_loop EH_strict e i (cs @ rest) d = dump_loop EH_strict e (i + length cs) rest d' \<and> at_rest e out d'"
proof (induction cs arbitrary: d i)
  case Nil
  then show ?case
    using expected_nonempty [of "decoder_state d"]
    by (cases "expected_ranges (decoder_state d)") (auto simp: dumper_ok_def)
next
  case (Cons b bs)
  have s: "decoder_state d < 9" "decoder_state d \<noteq> 1" using Cons.prems(3) by (simp_all add: dumper_ok_def)
  obtain lo hi rs where r: "expected_ranges (decoder_state d) = (lo, hi) # rs" "lo \<le> of_char b \<and> of_char b \<le> hi"
      "in_ranges rs (map of_char bs)"
    using Cons.prems(1) by (cases "expected_ranges (decoder_state d)") auto
  obtain st cp where dc: "decode (decoder_state d) (decoder_codepoint d) (of_char b) = (st, cp)"
    by (cases "decode (decoder_state d) (decoder_codepoint d) (of_char b)")
  have n: "st < 9" "st \<noteq> 1" "st = 0 \<longleftrightarrow> rs = []" "expected_ranges st = rs"
    using decode_continue(1) [OF Cons.prems(2) s(1) nat_of_char_less_256 r(1,2), of "decoder_codepoint d"] dc by auto
  have cp: "cp = add_six (decoder_codepoint d) (of_char b)"
    using decode_value [of "decoder_state d" "decoder_codepoint d" "of_char b"] dc Cons.prems(2) by simp
  let ?d = "d\<lparr>decoder_state := st, decoder_codepoint := cp\<rparr>"
  have u: "undumped_chars d \<le> 3"
    using Cons.prems(2,3) r(1) by (auto simp: dumper_ok_def split: if_splits)
  then have buf: "length (string_buffer d) \<le> 499 + (if e then 0 else 3)"
    using Cons.prems(3) by (auto simp: dumper_ok_def split: if_splits)
  show ?case
  proof (cases "rs = []")
    case True
    then have e: "st = 0" "bs = []" "cp = c" using n r Cons.prems(4) cp by auto
    have "put_codepoint e b ?d = Inr (?d\<lparr>string_buffer := string_buffer ?d @ (if e then escaped_text c else [b])\<rparr>)"
      using put_text [of ?d e b] buf e put_chars_big [OF Cons.prems(5), of e b] by simp
    then obtain d' where "on_accept e b ?d = Inr d'" "at_rest e out d'"
      using accept_at_rest [of ?d e b _ out] buf e Cons.prems(6) by auto
    then show ?thesis using dc e by (auto simp: dump_loop.simps(2) dump_byte_def)
  next
    case False
    define d' where "d' = ?d\<lparr>string_buffer := string_buffer d @ (if e then [] else [b]), undumped_chars := undumped_chars d + 1\<rparr>"
    have d': "on_incomplete e b ?d = Inr d'" "decoder_state d' = st" "decoder_codepoint d' = cp"
        "undumped_chars d' = undumped_chars d + 1" "after_last_accept d' = after_last_accept d" "written d' = written d"
        "string_buffer d' = string_buffer d @ (if e then [] else [b])"
      using on_incomplete_room [of ?d e b] buf by (simp_all add: d'_def)
    have st: "2 \<le> st" using n False by auto
    have "dumper_ok e d'" using d' Cons.prems(2,3) n r(1) st by (auto simp: dumper_ok_def split: if_splits)
    moreover have "dump_loop EH_strict e i ((b # bs) @ rest) d = dump_loop EH_strict e (i + 1) (bs @ rest) d'"
      using dc d' st n by (simp add: dump_loop.simps(2) dump_byte_def)
    ultimately show ?thesis
      using Cons.IH [of d' "i + 1"] d' st n r cp Cons.prems by (auto split: if_splits)
  qed
qed

lemma dump_one:
  assumes "scalar c" "at_rest e out d"
  shows "\<exists>d'. dump_loop EH_strict e i (utf8_bytes c @ rest) d = dump_loop EH_strict e (i + length (utf8_bytes c)) rest d'
    \<and> at_rest e (out @ codepoint_text e c) d'"
proof (cases "c < 0x80")
  case True
  then have b: "utf8_bytes c = [char_of c]" "(of_char (char_of c :: char) :: nat) = c"
    by (simp_all add: utf8_bytes_def units_small)
  have dc: "decode (decoder_state d) (decoder_codepoint d) (of_char (char_of c :: char)) = (0, c)"
    using decode_ascii [OF True] assms(2) b by (simp add: at_rest_def)
  let ?d = "d\<lparr>decoder_state := 0, decoder_codepoint := c\<rparr>"
  have buf: "length (string_buffer d) \<le> 499" using assms(2) by (simp add: at_rest_def dumper_ok_def)
  have "put_codepoint e (char_of c) ?d = Inr (?d\<lparr>string_buffer := string_buffer ?d @ codepoint_text e c\<rparr>)"
    using put_text [of ?d e "char_of c"] buf put_chars_ascii [OF True, of e] by simp
  then obtain d' where "on_accept e (char_of c) ?d = Inr d'" "at_rest e (out @ codepoint_text e c) d'"
    using accept_at_rest [of ?d e "char_of c" "codepoint_text e c" "out @ codepoint_text e c"] buf assms(2)
    by (auto simp: at_rest_def)
  then show ?thesis using dc b by (auto simp: dump_loop.simps(2) dump_byte_def)
next
  case False
  then obtain b rs cs where u: "utf8_units c = b # cs" "utf8_ranges b = Some rs" "in_ranges rs cs"
    using units_ranges [OF assms(1)] by auto
  then obtain ch chs where chs: "utf8_bytes c = ch # chs" "of_char ch = b" "map of_char chs = cs"
    using char_units [OF assms(1)] by (cases "utf8_bytes c") auto
  have big: "0x80 \<le> b" "b < 256" using u(2) chs(2) by (auto simp: utf8_ranges_def split: if_splits)
  obtain st cp where dc: "decode 0 (decoder_codepoint d) b = (st, cp)" by (cases "decode 0 (decoder_codepoint d) b")
  have st: "2 \<le> st" "st < 9" "expected_ranges st = rs"
    using decode_lead(2) [OF big u(2), of "decoder_codepoint d"] dc by auto
  have val: "foldl add_six cp cs = c" using units_value [OF assms(1) u(1), of "decoder_codepoint d"] False dc by simp
  let ?d = "d\<lparr>decoder_state := st, decoder_codepoint := cp\<rparr>"
  have rest: "decoder_state d = 0" "undumped_chars d = 0" "length (string_buffer d) = after_last_accept d"
      "after_last_accept d \<le> 499" "written d @ string_buffer d = out"
    using assms(2) by (auto simp: at_rest_def dumper_ok_def)
  define d1 where "d1 = ?d\<lparr>string_buffer := string_buffer d @ (if e then [] else [ch]), undumped_chars := 1\<rparr>"
  have d1: "on_incomplete e ch ?d = Inr d1" "decoder_state d1 = st" "decoder_codepoint d1 = cp"
      "undumped_chars d1 = 1" "after_last_accept d1 = after_last_accept d" "written d1 = written d"
      "string_buffer d1 = string_buffer d @ (if e then [] else [ch])"
    using on_incomplete_room [of ?d e ch] rest by (simp_all add: d1_def)
  have te: "codepoint_text e c = (if e then escaped_text c else ch # chs)"
    using False chs by (auto simp: codepoint_text_def short_text_def must_escape_def)
  have "dumper_ok e d1" using d1 st rest expected_short [of st] by (auto simp: dumper_ok_def)
  then have "\<exists>d'. dump_loop EH_strict e (i + 1) (chs @ rest') d1 = dump_loop EH_strict e (i + 1 + length chs) rest' d'
      \<and> at_rest e (out @ codepoint_text e c) d'" for rest'
    using d1 st u(3) chs val False rest(5) te
    by (intro dump_continuation [where c = c]) auto
  moreover have "dump_loop EH_strict e i (utf8_bytes c @ rest) d = dump_loop EH_strict e (i + 1) (chs @ rest) d1"
    using dc chs d1 st rest by (simp add: dump_loop.simps(2) dump_byte_def)
  ultimately show ?thesis using chs by simp
qed

definition utf8_string :: "string \<Rightarrow> bool" where
  "utf8_string s \<longleftrightarrow> utf8_text (map of_char s)"

lemma of_char_inject: "map of_char s = (map of_char t :: nat list) \<Longrightarrow> s = t"
  by (rule map_injective) (auto simp: inj_def)

lemma utf8_string_iff: "utf8_string s \<longleftrightarrow> (\<exists>cs. list_all scalar cs \<and> s = concat (map utf8_bytes cs))"
proof -
  have "map of_char (concat (map utf8_bytes cs)) = concat (map utf8_units cs)" if "list_all scalar cs" for cs
    using that by (induction cs) (simp_all add: char_units)
  then show ?thesis unfolding utf8_string_def utf8_text_def by (metis of_char_inject)
qed

lemma ascii_utf8: "list_all (\<lambda>c. of_char c < (0x80 :: nat)) s \<Longrightarrow> utf8_string s"
proof -
  assume "list_all (\<lambda>c. of_char c < (0x80 :: nat)) s"
  then have "list_all scalar (map of_char s) \<and> s = concat (map utf8_bytes (map of_char s))"
    by (induction s) (auto simp: scalar_def utf8_bytes_def units_small)
  then show "utf8_string s" unfolding utf8_string_iff by blast
qed

lemma at_rest_new: "at_rest e [] dumper_new"
  using dumper_ok_new [of e] by (simp add: at_rest_def dumper_new_def)

lemma dump_valid:
  "list_all scalar cs \<Longrightarrow> at_rest e out d \<Longrightarrow>
   \<exists>d'. dump_loop EH_strict e i (concat (map utf8_bytes cs)) d = Inr d'
     \<and> at_rest e (out @ concat (map (codepoint_text e) cs)) d'"
proof (induction cs arbitrary: out d i)
  case (Cons c cs)
  then obtain d1 where
    "dump_loop EH_strict e i (utf8_bytes c @ concat (map utf8_bytes cs)) d =
       dump_loop EH_strict e (i + length (utf8_bytes c)) (concat (map utf8_bytes cs)) d1"
    "at_rest e (out @ codepoint_text e c) d1"
    using dump_one [of c e out d i "concat (map utf8_bytes cs)"] by auto
  then show ?case using Cons.IH [of "out @ codepoint_text e c" d1] Cons.prems by simp
qed simp

lemma dump_escaped_valid:
  assumes "list_all scalar cs"
  shows "dump_escaped EH_strict e (concat (map utf8_bytes cs)) = Inr (concat (map (codepoint_text e) cs))"
  using dump_valid [OF assms at_rest_new, of e 0]
  by (auto simp: dump_escaped_def dump_end_def at_rest_def)

text \<open>What strict mode has accepted is valid.\<close>

lemma strict_success:
  "dump_loop EH_strict e i s d = Inr d' \<Longrightarrow> dumper_ok e d \<Longrightarrow> decoder_state d' = 0 \<Longrightarrow>
   completes (decoder_state d) (map of_char s)"
proof (induction s arbitrary: i d)
  case Nil
  then show ?case by (auto simp: completes_def expected_simps)
next
  case (Cons c cs)
  let ?s = "decoder_state d" and ?b = "of_char c :: nat"
  obtain st cp where dc: "decode ?s (decoder_codepoint d) ?b = (st, cp)" by (cases "decode ?s (decoder_codepoint d) ?b")
  obtain again d1 where b: "dump_byte EH_strict e i c d = Inr (again, d1)"
    using Cons.prems(1) by (cases "dump_byte EH_strict e i c d") (auto simp: dump_loop.simps(2))
  have ok1: "dumper_ok e d1" using dump_byte_room [OF Cons.prems(2), of EH_strict i c] b by auto
  have st: "st \<noteq> 1" "\<not> again" "decoder_state d1 = st"
    using b dc
    by (auto simp: dump_byte_def on_accept_def on_incomplete_def put_codepoint_def buffer_put_def flush_buffer_def
        type_error_def Let_def bindE_eq_Inr split: if_splits option.splits)
  then have "completes st (map of_char cs)"
    using Cons.IH [of "i + 1" d1] Cons.prems b ok1 by (simp add: dump_loop.simps(2))
  then show ?case
    using completes_step [where s = ?s and b = ?b and cp = "decoder_codepoint d"] Cons.prems(2) dc st(1) nat_of_char_less_256 [of c]
    by (simp add: dumper_ok_def)
qed

lemma strict_iff_utf8: "(\<exists>t. dump_escaped EH_strict e s = Inr t) \<longleftrightarrow> utf8_string s"
proof
  assume "\<exists>t. dump_escaped EH_strict e s = Inr t"
  then obtain d where d: "dump_loop EH_strict e 0 s dumper_new = Inr d" "decoder_state d = 0"
    by (auto simp: dump_escaped_def dump_end_def bindE_eq_Inr type_error_def split: if_splits)
  have "completes 0 (map of_char s)"
    using strict_success [OF d(1) dumper_ok_new d(2)] by (simp add: dumper_new_def)
  then show "utf8_string s" by (auto simp: completes_def utf8_string_def expected_simps)
next
  assume "utf8_string s"
  then show "\<exists>t. dump_escaped EH_strict e s = Inr t"
    unfolding utf8_string_iff using dump_escaped_valid by blast
qed

lemma strict_codepoints:
  "dump_escaped EH_strict e s = Inr t \<longleftrightarrow>
     (\<exists>cs. list_all scalar cs \<and> s = concat (map utf8_bytes cs) \<and> t = concat (map (codepoint_text e) cs))"
  using strict_iff_utf8 [of e s] dump_escaped_valid by (fastforce simp: utf8_string_iff)

text \<open>C24: In strict mode a string can be escaped exactly when it is the UTF-8 encoding of some Unicode scalar
  values, and the result is the text of these one after the other, however often the buffer was
  flushed on the way.\<close>

theorem dump_escaped_strict:
  "dump_escaped EH_strict e s = Inr t \<longleftrightarrow>
     (\<exists>cs. list_all scalar cs \<and> s = concat (map utf8_bytes cs) \<and> t = concat (map (codepoint_text e) cs))"
  by (rule strict_codepoints)

subsection \<open>Reading an escaped string back\<close>

lemma low_digit_codes:
  "list_all (\<lambda>d. of_char (low_digit d) = (if d < 10 then 48 + d else 87 + d :: nat)) [0 ..< 16]"
  by code_simp

lemma low_digit_code: "d < 16 \<Longrightarrow> of_char (low_digit d) = (if d < 10 then 48 + d else 87 + d :: nat)"
proof -
  assume "d < 16"
  then have "d \<in> set [0 ..< 16]" unfolding set_upt by simp
  then show ?thesis using low_digit_codes unfolding list_all_iff by blast
qed

lemma low_digit_val: "d < 16 \<Longrightarrow> c_xdigit (low_digit d) \<and> xdigit_val (low_digit d) = d"
  using low_digit_code [of d] by (auto simp: c_xdigit_def c_digit_def xdigit_val_def digit_val_def split: if_splits)

lemma unicode_text_hex:
  assumes "n < 2 ^ 16"
  shows "\<exists>ds. unicode_text n = backslash # CHR ''u'' # ds \<and> hex_word ds n"
proof -
  have n: "((n div 4096 mod 16 * 16 + n div 256 mod 16) * 16 + n div 16 mod 16) * 16 + n mod 16 = n"
  proof -
    have join: "c + 16 * p = n \<Longrightarrow> b + 16 * q = p \<Longrightarrow> a + 16 * r = q \<Longrightarrow> x = r \<Longrightarrow> ((x * 16 + a) * 16 + b) * 16 + c = n"
      for a b c x p q r :: nat by simp
    show ?thesis
      by (rule join [where p = "n div 16" and q = "n div 256" and r = "n div 4096"])
        (use assms mod_mult_div_eq [of "n div 16" 16] mod_mult_div_eq [of "n div 256" 16] in
          \<open>simp_all flip: div_mult2_eq\<close>)
  qed
  have lt: "x mod 16 < (16 :: nat)" for x by simp
  have "digits_value 16 xdigit_val (tl (tl (unicode_text n))) = n"
    by (simp only: unicode_text_def list.sel digits_value_def foldl.simps low_digit_val [OF lt] mult_zero_left add_0 n)
  then have "hex_word (tl (tl (unicode_text n))) n"
    unfolding hex_word_def by (simp add: unicode_text_def low_digit_val)
  then show ?thesis by (simp add: unicode_text_def)
qed

lemma steps_over_unicode:
  assumes "n < 0xD800 \<or> 0xDFFF < n \<and> n \<le> 0xFFFF"
  shows "steps_over (unicode_text n) (utf8_bytes n)"
proof -
  have "n < 2 ^ 16" "n < 0xD800 \<or> 0xDFFF < n" using assms by auto
  then show ?thesis using unicode_text_hex [of n] steps_over_hex by auto
qed

lemma steps_over_surrogates:
  assumes "0xFFFF < c" "c \<le> 0x10FFFF"
  shows "steps_over (escaped_text c) (utf8_bytes c)"
proof -
  define hi lo where "hi = 0xD7C0 + c div 2 ^ 10" and "lo = 0xDC00 + c mod 2 ^ 10"
  have hl: "0xD800 \<le> hi" "hi \<le> 0xDBFF" "0xDC00 \<le> lo" "lo \<le> 0xDFFF" using assms by (auto simp: hi_def lo_def)
  obtain ds es where u: "unicode_text hi = backslash # CHR ''u'' # ds" "hex_word ds hi"
      "unicode_text lo = backslash # CHR ''u'' # es" "hex_word es lo"
    using unicode_text_hex [of hi] unicode_text_hex [of lo] hl by auto
  have "0x10000 + (hi - 0xD800) * 2 ^ 10 + (lo - 0xDC00) = c" using assms by (simp add: hi_def lo_def algebra_simps)
  then show ?thesis
    using steps_over_pair [OF u(2,4) hl] u assms by (simp add: escaped_text_def hi_def lo_def)
qed

lemma short_bytes:
  "utf8_bytes 8 = [CHR 0x08]" "utf8_bytes 9 = [CHR 0x09]" "utf8_bytes 10 = [CHR 0x0A]" "utf8_bytes 12 = [CHR 0x0C]"
  "utf8_bytes 13 = [CHR 0x0D]" "utf8_bytes 34 = [dquote]" "utf8_bytes 92 = [backslash]"
  by code_simp+

lemma short_texts: "short_text c = Some t \<Longrightarrow> steps_over t (utf8_bytes c)"
  by (auto simp: short_text_def short_bytes simple_escape_def intro!: steps_over_simple split: if_splits)

lemma steps_over_codepoint:
  assumes "scalar c"
  shows "steps_over (codepoint_text e c) (utf8_bytes c)"
proof (cases "short_text c")
  case (Some t)
  then show ?thesis using short_texts by (simp add: codepoint_text_def)
next
  case None
  show ?thesis
  proof (cases "must_escape e c")
    case True
    then show ?thesis
      using None assms steps_over_unicode [of c] steps_over_surrogates [of c]
      by (cases "c \<le> 0xFFFF") (auto simp: codepoint_text_def escaped_text_def scalar_def)
  next
    case False
    then show ?thesis using None assms steps_over_scalar [of c] by (auto simp: codepoint_text_def must_escape_def short_text_def split: if_splits)
  qed
qed

lemma scan_loop_over:
  assumes "list_all scalar cs" "feeds l (concat (map (codepoint_text e) cs) @ dquote # rest) acc"
  shows "\<exists>l'. scan_loop l = (T_value_string, l') \<and> feeds l' rest (acc @ concat (map utf8_bytes cs)) \<and> moved l l'"
  using scan_pieces [of "map (\<lambda>c. (codepoint_text e c, utf8_bytes c)) cs" l rest acc] assms steps_over_codepoint
  by (simp add: list_all_iff comp_def)

lemma scan_escaped_string:
  assumes "dump_escaped EH_strict e s = Inr t" "feeds l (t @ dquote # rest) acc"
  shows "\<exists>l'. scan_string l = (T_value_string, l') \<and> feeds l' rest s \<and> moved l l'"
proof -
  obtain cs where cs: "list_all scalar cs" "s = concat (map utf8_bytes cs)" "t = concat (map (codepoint_text e) cs)"
    using assms(1) unfolding strict_codepoints by blast
  then obtain l' where "scan_string l = (T_value_string, l')" "feeds l' rest ([] @ s)" "moved (reset_token l) l'"
    using scan_loop_over [OF cs(1), of "reset_token l" e rest "[]"] reset_feeds [OF assms(2)] cs(2)
    by (auto simp: scan_string_def)
  then show ?thesis by (auto simp: moved_def reset_token_def)
qed

text \<open>A string written by the serializer and closed by a quote is read back by the lexer as it was: the
  token is a string and its buffer is the string, with or without the escaping of non-ASCII characters,
  and the lexer stops behind the quote.\<close>

theorem scan_escaped:
  assumes "dump_escaped EH_strict e s = Inr t" "feeds l (t @ dquote # rest) acc"
  shows "\<exists>l'. scan_string l = (T_value_string, l') \<and> token_buffer l' = s \<and> lx_input l' = rest"
  using scan_escaped_string [OF assms] by (auto simp: feeds_def)

lemma sample_escape:
  "dump_escaped EH_strict True (concat (map utf8_bytes [0x61, 0x22, 0x394])) =
     Inr (concat (map (codepoint_text True) [0x61, 0x22, 0x394]))"
  by (rule dump_escaped_valid) (simp add: scalar_def)

theorem scan_escaped_witness:
  "\<exists>l'. scan_string (lexer_new (concat (map (codepoint_text True) [0x61, 0x22, 0x394]) @ dquote # '','') False)
       = (T_value_string, l')
     \<and> token_buffer l' = concat (map utf8_bytes [0x61, 0x22, 0x394]) \<and> lx_input l' = '',''"
  by (rule scan_escaped [OF sample_escape, where acc = "[]"]) (simp add: feeds_def lexer_new_def)

end
