(* ===== verification/Json_Dump.thy ===== *)
theory Json_Dump
  imports Json_Escape Grisu
begin

text \<open>
  The rest of the class \<^verbatim>\<open>serializer\<close>: writing integers, doubles and whole values, indented or compact, and
  \<^verbatim>\<open>basic_json::dump\<close>.  The output and the string of indentation characters are the state of the object
  that matters (\<open>dumping\<close>); exhaustion of memory is not modelled.  The buffer for numbers keeps characters of
  earlier numbers; as the text of a number does not depend on them it is taken to be fresh each time.
\<close>

subsection \<open>Integers\<close>

fun count_digits :: "nat \<Rightarrow> nat" where
  "count_digits x =
     (if x < 10 then 1
      else if x < 100 then 2
      else if x < 1000 then 3
      else if x < 10000 then 4
      else count_digits (x div 10000) + 4)"

declare count_digits.simps [simp del]

text \<open>The absolute value of a negative number.\<close>

definition remove_sign :: "u64 \<Rightarrow> u64" where
  "remove_sign x = - (x + 1) + 1"

text \<open>\<^verbatim>\<open>*(--buffer_ptr) = c\<close>; a write in front of the buffer would be undefined.\<close>

definition push_back :: "char \<Rightarrow> nat \<times> string \<Rightarrow> (nat \<times> string) outcome" where
  "push_back c cur =
     (case cur of (p, buf) \<Rightarrow> if p = 0 then Inl Undefined else Inr (p - 1, buf[p - 1 := c]))"

definition push_pair :: "nat \<Rightarrow> nat \<times> string \<Rightarrow> (nat \<times> string) outcome" where
  "push_pair k cur = bindE (push_back (digit_char (k mod 10)) cur) (push_back (digit_char (k div 10)))"

fun write_digits :: "nat \<Rightarrow> nat \<times> string \<Rightarrow> (nat \<times> string) outcome" where
  "write_digits x cur =
     (if 100 \<le> x then bindE (push_pair (x mod 100) cur) (write_digits (x div 100))
      else if 10 \<le> x then push_pair x cur
      else push_back (digit_char x) cur)"

declare write_digits.simps [simp del]

definition write_number :: "bool \<Rightarrow> nat \<Rightarrow> string \<Rightarrow> string outcome" where
  "write_number negative abs_value buf =
     (let buf1 = (if negative then buf[0 := CHR ''-''] else buf);
          n_chars = (if negative then 1 + count_digits abs_value else count_digits abs_value)
      in require (n_chars < 63)
           (bindE (write_digits abs_value (n_chars, buf1)) (\<lambda>(p, buf2). Inr (take n_chars buf2))))"

definition dump_integer :: "bool \<Rightarrow> u64 \<Rightarrow> string \<Rightarrow> string outcome" where
  "dump_integer has_sign x buf =
     (if x = 0 then Inr ''0''
      else if has_sign \<and> sint x < 0 then write_number True (unat (remove_sign x)) buf
      else write_number False (unat x) buf)"

definition number_buffer :: string where
  "number_buffer = replicate 64 (CHR 0x00)"

subsection \<open>Doubles\<close>

definition dump_float :: "f64 \<Rightarrow> string outcome" where
  "dump_float x = (if is_finite x then to_chars x else Inr ''null'')"

subsection \<open>Values\<close>

record dump_options =
  pretty_print :: bool
  ensure_ascii :: bool
  on_bad_utf8 :: error_handler
  indent_step :: nat

record dumping =
  dumped :: string
  indent_string :: string

definition emit :: "string \<Rightarrow> dumping \<Rightarrow> dumping" where
  "emit s d = d\<lparr>dumped := dumped d @ s\<rparr>"

definition emit_text :: "string outcome \<Rightarrow> dumping \<Rightarrow> dumping outcome" where
  "emit_text m d = bindE m (\<lambda>s. Inr (emit s d))"

text \<open>
  \<^verbatim>\<open>write_characters(indent_string.c_str(), n)\<close>: one character more than the length is the terminating
  zero, anything beyond is outside the string.
\<close>

definition write_indent :: "nat \<Rightarrow> dumping \<Rightarrow> dumping outcome" where
  "write_indent n d =
     (if n \<le> length (indent_string d) + 1 then Inr (emit (take n (indent_string d @ [CHR 0x00])) d)
      else Inl Undefined)"

definition grow_indent :: "nat \<Rightarrow> dumping \<Rightarrow> dumping" where
  "grow_indent n d =
     (if length (indent_string d) < n
      then d\<lparr>indent_string := indent_string d @ replicate (length (indent_string d)) (CHR '' '')\<rparr> else d)"

abbreviation newline :: string where "newline \<equiv> [CHR 0x0A]"

definition inner_indent :: "dump_options \<Rightarrow> nat \<Rightarrow> nat" where
  "inner_indent p cur = (if pretty_print p then (cur + indent_step p) mod 2 ^ 32 else cur)"

definition open_container :: "dump_options \<Rightarrow> string \<Rightarrow> nat \<Rightarrow> dumping \<Rightarrow> dumping" where
  "open_container p s cur d =
     (if pretty_print p then grow_indent (inner_indent p cur) (emit (s @ newline) d) else emit s d)"

definition close_container_text :: "dump_options \<Rightarrow> string \<Rightarrow> nat \<Rightarrow> dumping \<Rightarrow> dumping outcome" where
  "close_container_text p s cur d =
     (if pretty_print p then bindE (write_indent cur (emit newline d)) (\<lambda>d1. Inr (emit s d1)) else Inr (emit s d))"

definition lead_in :: "dump_options \<Rightarrow> nat \<Rightarrow> dumping \<Rightarrow> dumping outcome" where
  "lead_in p n d = (if pretty_print p then write_indent n d else Inr d)"

definition element_separator :: "dump_options \<Rightarrow> string" where
  "element_separator p = (if pretty_print p then '','' @ newline else '','')"

definition key_text :: "dump_options \<Rightarrow> string \<Rightarrow> string outcome" where
  "key_text p k =
     bindE (dump_escaped (on_bad_utf8 p) (ensure_ascii p) k)
       (\<lambda>t. Inr (dquote # t @ dquote # (if pretty_print p then '': '' else '':'')))"

definition string_value_text :: "dump_options \<Rightarrow> string \<Rightarrow> string outcome" where
  "string_value_text p s =
     bindE (dump_escaped (on_bad_utf8 p) (ensure_ascii p) s) (\<lambda>t. Inr (dquote # t @ [dquote]))"

text \<open>A binary value is shown as an object with its bytes and its subtype.\<close>

fun dump_bytes :: "string \<Rightarrow> 8 word list \<Rightarrow> string outcome" where
  "dump_bytes sep [] = Inr []"
| "dump_bytes sep [b] = dump_integer False (ucast b) number_buffer"
| "dump_bytes sep (b # c # bs) =
     bindE (dump_integer False (ucast b) number_buffer) (\<lambda>t. bindE (dump_bytes sep (c # bs)) (\<lambda>u. Inr (t @ sep @ u)))"

definition subtype_text :: "u64 option \<Rightarrow> string outcome" where
  "subtype_text st = (case st of Some w \<Rightarrow> dump_integer False w number_buffer | None \<Rightarrow> Inr ''null'')"

definition quoted_key :: "string \<Rightarrow> string" where
  "quoted_key k = dquote # k @ [dquote]"

definition dump_binary :: "dump_options \<Rightarrow> 8 word list \<Rightarrow> u64 option \<Rightarrow> nat \<Rightarrow> dumping \<Rightarrow> dumping outcome" where
  "dump_binary p bs st cur d =
     (if pretty_print p
      then (let new = inner_indent p cur
            in bindE (write_indent new (open_container p ''{'' cur d)) (\<lambda>d1.
               bindE (emit_text (dump_bytes '', '' bs) (emit (quoted_key ''bytes'' @ '': ['') d1)) (\<lambda>d2.
               bindE (write_indent new (emit ('']'' @ '','' @ newline) d2)) (\<lambda>d3.
               bindE (emit_text (subtype_text st) (emit (quoted_key ''subtype'' @ '': '') d3))
                 (close_container_text p ''}'' cur)))))
      else bindE (emit_text (dump_bytes '','' bs) (emit (''{'' @ quoted_key ''bytes'' @ '':['') d)) (\<lambda>d1.
           bindE (emit_text (subtype_text st) (emit ('']'' @ '','' @ quoted_key ''subtype'' @ '':'') d1))
             (\<lambda>d2. Inr (emit ''}'' d2))))"

fun dump_value :: "dump_options \<Rightarrow> json \<Rightarrow> nat \<Rightarrow> dumping \<Rightarrow> dumping outcome"
  and dump_elements :: "dump_options \<Rightarrow> json list \<Rightarrow> nat \<Rightarrow> dumping \<Rightarrow> dumping outcome"
  and dump_members :: "dump_options \<Rightarrow> (string \<times> json) list \<Rightarrow> nat \<Rightarrow> dumping \<Rightarrow> dumping outcome" where
  "dump_value p (JObject ms) cur d =
     (if ms = [] then Inr (emit ''{}'' d)
      else bindE (dump_members p ms (inner_indent p cur) (open_container p ''{'' cur d)) (close_container_text p ''}'' cur))"
| "dump_value p (JArray xs) cur d =
     (if xs = [] then Inr (emit ''[]'' d)
      else bindE (dump_elements p xs (inner_indent p cur) (open_container p ''['' cur d)) (close_container_text p '']'' cur))"
| "dump_value p (JString s) cur d = emit_text (string_value_text p s) d"
| "dump_value p (JBinary bs st) cur d = dump_binary p bs st cur d"
| "dump_value p (JBoolean b) cur d = Inr (emit (if b then ''true'' else ''false'') d)"
| "dump_value p (JInteger w) cur d = emit_text (dump_integer True w number_buffer) d"
| "dump_value p (JUnsigned w) cur d = emit_text (dump_integer False w number_buffer) d"
| "dump_value p (JFloat x) cur d = emit_text (dump_float x) d"
| "dump_value p JDiscarded cur d = Inr (emit ''<discarded>'' d)"
| "dump_value p JNull cur d = Inr (emit ''null'' d)"
| "dump_elements p [] n d = Inr d"
| "dump_elements p (x # xs) n d =
     bindE (lead_in p n d) (\<lambda>d1. bindE (dump_value p x n d1)
       (\<lambda>d2. if xs = [] then Inr d2 else dump_elements p xs n (emit (element_separator p) d2)))"
| "dump_members p [] n d = Inr d"
| "dump_members p ((k, v) # ms) n d =
     bindE (lead_in p n d) (\<lambda>d1. bindE (emit_text (key_text p k) d1) (\<lambda>d2. bindE (dump_value p v n d2)
       (\<lambda>d3. if ms = [] then Inr d3 else dump_members p ms n (emit (element_separator p) d3))))"

text \<open>\<^verbatim>\<open>dump(indent, indent_char, ensure_ascii, error_handler)\<close>; a negative indent asks for the compact form.\<close>

definition dumping_new :: "char \<Rightarrow> dumping" where
  "dumping_new indent_char = \<lparr>dumped = [], indent_string = replicate 512 indent_char\<rparr>"

definition options_of :: "int \<Rightarrow> bool \<Rightarrow> error_handler \<Rightarrow> dump_options" where
  "options_of indent ascii eh =
     \<lparr>pretty_print = (0 \<le> indent), ensure_ascii = ascii, on_bad_utf8 = eh,
      indent_step = (if 0 \<le> indent then nat indent else 0)\<rparr>"

definition json_dump :: "json \<Rightarrow> int \<Rightarrow> char \<Rightarrow> bool \<Rightarrow> error_handler \<Rightarrow> string outcome" where
  "json_dump j indent indent_char ascii eh =
     bindE (dump_value (options_of indent ascii eh) j 0 (dumping_new indent_char)) (\<lambda>d. Inr (dumped d))"

end
