(* ===== verification/Json_Dump_Text.thy ===== *)
theory Json_Dump_Text
  imports Json_Dump Json_Read Grisu_Text
begin

text \<open>
  What the serializer writes: integers in decimal, every value as a text of the grammar that denotes it, so
  that parsing what was dumped gives the value back.
\<close>

subsection \<open>Integers are written in decimal\<close>

lemma nat_str_pair:
  "100 \<le> x \<Longrightarrow> nat_str x = nat_str (x div 100) @ [digit_char (x mod 100 div 10), digit_char (x mod 100 mod 10)]"
proof -
  assume "100 \<le> x"
  then have "\<not> x < 10" "\<not> x div 10 < 10" by auto
  then have "nat_str x = (nat_str (x div 10 div 10) @ [digit_char (x div 10 mod 10)]) @ [digit_char (x mod 10)]"
    by (simp add: nat_str.simps [of x] nat_str.simps [of "x div 10"])
  moreover have "x div 10 mod 10 = x mod 100 div 10" "x mod 100 mod 10 = x mod 10" "x div 10 div 10 = x div 100"
    using mod_mult2_eq [of x 10 10] mod_mod_cancel [of 10 100 x] by (simp_all flip: div_mult2_eq)
  ultimately show ?thesis by simp
qed

lemma nat_str_two: "10 \<le> x \<Longrightarrow> x < 100 \<Longrightarrow> nat_str x = [digit_char (x div 10), digit_char (x mod 10)]"
  by (simp add: nat_str.simps [of x] nat_str.simps [of "x div 10"])

lemma nat_str_one: "x < 10 \<Longrightarrow> nat_str x = [digit_char x]"
  by (simp add: nat_str.simps [of x])

lemma count_digits_length: "count_digits x = length (nat_str x)"
proof (induction x rule: count_digits.induct)
  case (1 x)
  consider "x < 100" | "100 \<le> x" "x < 10000" | "10000 \<le> x" by linarith
  then show ?case
  proof cases
    case 1
    then show ?thesis by (cases "x < 10") (simp_all add: count_digits.simps [of x] nat_str_one nat_str_two)
  next
    case 2
    then show ?thesis
      using nat_str_pair [of x]
      by (cases "x < 1000") (simp_all add: count_digits.simps [of x] nat_str_one nat_str_two)
  next
    case 3
    then have "100 \<le> x div 100" by auto
    moreover have "x div 100 div 100 = x div 10000" by (simp flip: div_mult2_eq)
    ultimately have "length (nat_str x) = length (nat_str (x div 10000)) + 4"
      using nat_str_pair [of x] nat_str_pair [of "x div 100"] 3 by simp
    then show ?thesis using 1 3 by (simp add: count_digits.simps [of x])
  qed
qed

lemma nat_str_length: "x < 10 ^ Suc k \<Longrightarrow> length (nat_str x) \<le> Suc k"
proof (induction k arbitrary: x)
  case 0
  then show ?case by (simp add: nat_str_one)
next
  case (Suc k)
  show ?case
  proof (cases "x < 10")
    case False
    have "x div 10 < 10 ^ Suc k" using Suc.prems by (simp add: less_mult_imp_div_less)
    then have "length (nat_str (x div 10)) \<le> Suc k" by (rule Suc.IH)
    then show ?thesis using False by (simp add: nat_str.simps [of x])
  qed (simp add: nat_str_one)
qed

lemma push_back_step:
  "p < length buf \<Longrightarrow> push_back c (Suc p, buf) = Inr (p, take p buf @ c # drop (Suc p) buf)"
  by (simp add: push_back_def upd_conv_take_nth_drop)

lemma push_pair_step:
  assumes "Suc p < length buf"
  shows "push_pair k (Suc (Suc p), buf) = Inr (p, take p buf @ [digit_char (k div 10), digit_char (k mod 10)] @ drop (Suc (Suc p)) buf)"
proof -
  let ?b = "take (Suc p) buf @ digit_char (k mod 10) # drop (Suc (Suc p)) buf"
  have "push_pair k (Suc (Suc p), buf) = push_back (digit_char (k div 10)) (Suc p, ?b)"
    using push_back_step [OF assms] by (simp add: push_pair_def)
  also have "\<dots> = Inr (p, take p ?b @ digit_char (k div 10) # drop (Suc p) ?b)"
    using assms by (intro push_back_step) simp
  also have "\<dots> = Inr (p, take p buf @ [digit_char (k div 10), digit_char (k mod 10)] @ drop (Suc (Suc p)) buf)"
    using assms by (simp add: min_def)
  finally show ?thesis .
qed

lemma write_digits_text:
  "n = length (nat_str x) \<Longrightarrow> p + n \<le> length buf \<Longrightarrow>
   write_digits x (p + n, buf) = Inr (p, take p buf @ nat_str x @ drop (p + n) buf)"
proof (induction x "(p + n, buf)" arbitrary: n buf rule: write_digits.induct)
  case (1 x n buf)
  consider "x < 10" | "10 \<le> x" "x < 100" | "100 \<le> x" by linarith
  then show ?case
  proof cases
    case 1
    then show ?thesis using \<open>p + n \<le> length buf\<close> \<open>n = length (nat_str x)\<close> push_back_step [of p buf "digit_char x"]
      by (subst write_digits.simps) (simp add: nat_str_one)
  next
    case 2
    then show ?thesis using \<open>p + n \<le> length buf\<close> \<open>n = length (nat_str x)\<close> push_pair_step [of p buf x]
      by (subst write_digits.simps) (simp add: nat_str_two)
  next
    case 3
    define m where "m = length (nat_str (x div 100))"
    let ?pair = "[digit_char (x mod 100 div 10), digit_char (x mod 100 mod 10)]"
    have n: "n = m + 2" using 3 \<open>n = length (nat_str x)\<close> nat_str_pair [of x] by (simp add: m_def)
    let ?b = "take (p + m) buf @ ?pair @ drop (Suc (Suc (p + m))) buf"
    have pp: "push_pair (x mod 100) (p + n, buf) = Inr (p + m, ?b)"
      using push_pair_step [of "p + m" buf "x mod 100"] \<open>p + n \<le> length buf\<close> n by simp
    have len: "p + m \<le> length ?b" using \<open>p + n \<le> length buf\<close> n by simp
    have "write_digits (x div 100) (p + m, ?b) = Inr (p, take p ?b @ nat_str (x div 100) @ drop (p + m) ?b)"
      by (rule 1(1) [OF 3 m_def len])
    moreover have "take p ?b = take p buf" "drop (p + m) ?b = ?pair @ drop (p + n) buf"
      using \<open>p + n \<le> length buf\<close> n by (simp_all add: min_def)
    ultimately show ?thesis
      using pp 3 nat_str_pair [OF 3] by (subst write_digits.simps) simp
  qed
qed

lemma write_number_text:
  assumes "length buf = 64" "x < 2 ^ 64"
  shows "write_number neg x buf = Inr ((if neg then ''-'' else []) @ nat_str x)"
proof -
  have "x < 10 ^ Suc 19" using assms(2) by simp
  then have l: "length (nat_str x) \<le> 20" using nat_str_length [of x 19] by simp
  show ?thesis
  proof (cases neg)
    case True
    let ?b = "buf[0 := CHR ''-'']"
    have "take 1 ?b = ''-''" using assms(1) by (cases buf) simp_all
    moreover have "write_digits x (1 + length (nat_str x), ?b) = Inr (1, take 1 ?b @ nat_str x @ drop (1 + length (nat_str x)) ?b)"
      using l assms(1) by (intro write_digits_text) simp_all
    ultimately show ?thesis using True l by (simp add: write_number_def count_digits_length Let_def)
  next
    case False
    have "write_digits x (0 + length (nat_str x), buf) = Inr (0, take 0 buf @ nat_str x @ drop (0 + length (nat_str x)) buf)"
      using l assms(1) by (intro write_digits_text) simp_all
    then show ?thesis using False l by (simp add: write_number_def count_digits_length Let_def)
  qed
qed

lemma remove_sign_value:
  assumes "sint w < 0"
  shows "unat (remove_sign w) = nat (- sint w)"
proof -
  have "remove_sign w = - w" by (simp add: remove_sign_def)
  moreover have "uint (- w) = - sint w"
  proof -
    have b: "- (2 ^ 63) \<le> sint w" using sint_greater_eq [of w] by simp
    have "uint (- w) = - sint w mod 2 ^ 64"
      using uint_word_of_int [where 'a = 64, of "- sint w"] by simp
    also have "\<dots> = - sint w" using assms b by (intro mod_pos_pos_trivial) simp_all
    finally show ?thesis .
  qed
  ultimately show ?thesis by (metis unat_eq_nat_uint)
qed

lemma dump_integer_text:
  assumes "length buf = 64"
  shows "dump_integer has_sign w buf = Inr (int_str (if has_sign then sint w else uint w))"
proof -
  have u: "unat w < 2 ^ 64" "unat (remove_sign w) < 2 ^ 64"
    using unsigned_less [of w, where 'a = nat] unsigned_less [of "remove_sign w", where 'a = nat] by simp_all
  show ?thesis
  proof (cases "has_sign \<and> sint w < 0")
    case True
    then have "w \<noteq> 0" by auto
    then show ?thesis
      using True write_number_text [OF assms u(2)] by (simp add: dump_integer_def int_str_def remove_sign_value)
  next
    case False
    have e: "(if has_sign then sint w else uint w) = uint w"
    proof (cases has_sign)
      case True
      then have "0 \<le> sint w" using False by simp
      moreover have "sint w < 2 ^ 64" using sint_less [of w] by simp
      ultimately have "sint w mod 2 ^ 64 = sint w" by (intro mod_pos_pos_trivial)
      then show ?thesis using True uint_word_of_int [where 'a = 64, of "sint w"] by simp
    qed simp
    have i: "int_str (uint w) = nat_str (unat w)" 
    proof -
      have nn: "\<not> uint w < 0" by simp
      show ?thesis unfolding int_str_def if_not_P [OF nn] unat_eq_nat_uint by (rule refl)
    qed
    have "dump_integer has_sign w buf = (if w = 0 then Inr ''0'' else write_number False (unat w) buf)"
      using False unfolding dump_integer_def by (simp only: if_False)
    then have "dump_integer has_sign w buf = Inr (nat_str (unat w))"
      using write_number_text [OF assms u(1), of False] nat_str_numeral(1) by (cases "w = 0") simp_all
    then show ?thesis unfolding e i .
  qed
qed

lemma length_number_buffer [simp]: "length number_buffer = 64"
  by (simp add: number_buffer_def)

subsection \<open>Scalars are texts of the grammar\<close>

lemma char_text_codepoint:
  assumes "scalar c"
  shows "char_text c (codepoint_text e c)"
proof (cases "short_text c")
  case (Some t)
  have s: "char_text 8 [backslash, CHR ''b'']" "char_text 9 [backslash, CHR ''t'']" "char_text 10 [backslash, CHR ''n'']"
    "char_text 12 [backslash, CHR ''f'']" "char_text 13 [backslash, CHR ''r'']" "char_text 34 [backslash, dquote]"
    "char_text 92 [backslash, backslash]"
    using char_text.simple [of "CHR ''b''" "CHR 0x08"] char_text.simple [of "CHR ''t''" "CHR 0x09"]
      char_text.simple [of "CHR ''n''" "CHR 0x0A"] char_text.simple [of "CHR ''f''" "CHR 0x0C"]
      char_text.simple [of "CHR ''r''" "CHR 0x0D"] char_text.simple [of dquote dquote]
      char_text.simple [of backslash backslash] by (simp_all add: simple_escape_def)
  show ?thesis using Some s by (auto simp: codepoint_text_def short_text_def split: if_splits)
next
  case None
  have sc: "c < 0xD800 \<or> 0xDFFF < c" "c \<le> 0x10FFFF" using assms by (auto simp: scalar_def)
  consider (plain) "\<not> must_escape e c" | (hex) "must_escape e c" "c \<le> 0xFFFF" | (pair) "must_escape e c" "0xFFFF < c" by linarith
  then show ?thesis
  proof cases
    case plain
    then have "plain_codepoint c"
      using None assms by (auto simp: plain_codepoint_def must_escape_def short_text_def split: if_splits)
    then show ?thesis using plain None by (simp add: codepoint_text_def char_text.plain)
  next
    case hex
    then obtain ds where "unicode_text c = backslash # CHR ''u'' # ds" "hex_word ds c"
      using unicode_text_hex [of c] by auto
    then show ?thesis using hex None sc char_text.hex [of ds c] by (simp add: codepoint_text_def escaped_text_def)
  next
    case pair
    have "c div 1024 < 10304" "c mod 1024 < 9216" using sc by (auto intro: less_trans [OF mod_less_divisor])
    then obtain ds es where u: "escaped_text c = (backslash # CHR ''u'' # ds) @ (backslash # CHR ''u'' # es)"
        "hex_word ds (0xD7C0 + c div 2 ^ 10)" "hex_word es (0xDC00 + c mod 2 ^ 10)"
      using unicode_text_hex [of "0xD7C0 + c div 2 ^ 10"] unicode_text_hex [of "0xDC00 + c mod 2 ^ 10"] pair sc
      by (auto simp: escaped_text_def)
    have "0x10000 + (0xD7C0 + c div 2 ^ 10 - 0xD800) * 2 ^ 10 + (0xDC00 + c mod 2 ^ 10 - 0xDC00) = c"
      using pair sc by (simp add: algebra_simps)
    then show ?thesis
      using char_text.pair [OF u(2,3)] pair sc u(1) None by (simp add: codepoint_text_def)
  qed
qed

lemma escaped_string_text:
  assumes "dump_escaped EH_strict e s = Inr t"
  shows "string_text s (dquote # t @ [dquote])"
proof -
  obtain cs where cs: "list_all scalar cs" "s = concat (map utf8_bytes cs)" "t = concat (map (codepoint_text e) cs)"
    using assms unfolding strict_codepoints by blast
  have "list_all2 char_text cs (map (codepoint_text e) cs)"
    using cs(1) char_text_codepoint by (simp add: list_all2_conv_all_nth list_all_length)
  then show ?thesis using cs(2,3) string_text.intros by metis
qed

lemma nat_str_number: "number_ok (nat_str n) [] []"
proof -
  have "hd (nat_str n) = CHR ''0'' \<longrightarrow> length (nat_str n) = 1"
  proof (induction n rule: nat_str.induct)
    case (1 n)
    show ?case
    proof (cases "n < 10")
      case False
      have "hd (nat_str (n div 10)) \<noteq> CHR ''0''"
      proof
        assume h: "hd (nat_str (n div 10)) = CHR ''0''"
        then have "length (nat_str (n div 10)) = 1" using 1 False by simp
        then have "nat_str (n div 10) = ''0''" using h by (cases "nat_str (n div 10)") auto
        then have "n div 10 = 0" using nat_str_value [of "n div 10"] by (simp add: digits_value_def digit_val_def)
        then show False using False by simp
      qed
      then show ?thesis using False by (simp add: nat_str.simps [of n] hd_append)
    qed (simp add: nat_str_one)
  qed
  then show ?thesis using nat_str_digits [of n] by (auto simp: number_ok_def exponent_ok_def list_all_iff)
qed

lemma unsigned_text: "json_text (JUnsigned w) (int_str (uint w))"
proof -
  have nn: "\<not> uint w < 0" by simp
  have t: "int_str (uint w) = number_text False (nat_str (unat w)) [] []"
    unfolding int_str_def if_not_P [OF nn] unat_eq_nat_uint by (simp add: number_text_def)
  have "unat w < 2 ^ 64" using unsigned_less [of w, where 'a = nat] by simp
  then have "number_value False (nat_str (unat w)) [] [] = JUnsigned w" by (simp add: number_value_def nat_str_value)
  then show ?thesis unfolding t by (intro number nat_str_number) simp_all
qed

lemma negative_text:
  assumes "sint w < 0"
  shows "json_text (JInteger w) (int_str (sint w))"
proof -
  define n where "n = nat (- sint w)"
  have t: "int_str (sint w) = number_text True (nat_str n) [] []"
    using assms by (simp add: int_str_def number_text_def n_def)
  have "- (2 ^ 63) \<le> sint w" using sint_greater_eq [of w] by simp
  then have "n \<le> 2 ^ 63" by (simp add: n_def)
  moreover have "- word_of_nat n = w"
  proof -
    have "(word_of_nat n :: u64) = word_of_int (- sint w)" using assms by (simp add: n_def word_of_int_nat)
    then show ?thesis by simp
  qed
  ultimately have "number_value True (nat_str n) [] [] = JInteger w" by (simp add: number_value_def nat_str_value)
  then show ?thesis unfolding t by (intro number nat_str_number) simp_all
qed

lemma float_text:
  assumes "f64_ok x" "is_finite x"
  shows "\<exists>t. dump_float x = Inr t \<and> json_text (JFloat x) t"
proof -
  obtain neg ip fp ext er where t: "to_chars x = Inr (number_text neg ip fp ext)" "number_ok ip fp ext" "fp \<noteq> [] \<or> ext \<noteq> []"
      "strtod (number_text neg ip fp ext) = Some (x, er)"
    using to_chars_number [OF assms] by blast
  obtain n d where nd: "number_frac ip fp ext = (n, d)" by fastforce
  have "f64_of_frac neg n d = x" using strtod_number [OF t(2), of neg] t(4) nd by (simp add: convert_frac_def Let_def)
  then have "number_value neg ip fp ext = JFloat x" using t(3) nd by (auto simp: number_value_def Let_def)
  then show ?thesis using t(1,2) assms(2) by (auto simp: dump_float_def intro: number)
qed

subsection \<open>Values that can be read back\<close>

text \<open>
  No binary and no discarded value, only finite numbers, strings in UTF-8, members in order; a number held as
  signed is negative, since a printed nonnegative number is read back as an unsigned one.
\<close>

fun dumpable :: "json \<Rightarrow> bool" where
  "dumpable (JObject ms) = (obj_ok ms \<and> (\<forall>m \<in> set ms. utf8_string (fst m) \<and> dumpable (snd m)))"
| "dumpable (JArray xs) = (\<forall>x \<in> set xs. dumpable x)"
| "dumpable (JString s) = utf8_string s"
| "dumpable (JInteger w) = (sint w < 0)"
| "dumpable (JFloat x) = (f64_ok x \<and> is_finite x)"
| "dumpable (JBinary bs st) = False"
| "dumpable JDiscarded = False"
| "dumpable j = True"

text \<open>The indentation string is blank and reaches as far as the current indentation.\<close>

definition indented :: "nat \<Rightarrow> dumping \<Rightarrow> bool" where
  "indented n d \<longleftrightarrow> ws (indent_string d) \<and> 512 \<le> length (indent_string d) \<and> n \<le> length (indent_string d)"

definition writes :: "dumping \<Rightarrow> string \<Rightarrow> dumping \<Rightarrow> bool" where
  "writes d s d' \<longleftrightarrow> dumped d' = dumped d @ s \<and> (\<forall>n. indented n d \<longrightarrow> indented n d')"

lemma writes_trans: "writes d s d' \<Longrightarrow> writes d' t d'' \<Longrightarrow> writes d (s @ t) d''"
  by (simp add: writes_def)

lemma writes_emit [simp]: "writes d s (emit s d)"
  by (simp add: writes_def emit_def indented_def)

lemma indented_emit [simp]: "indented n (emit s d) = indented n d"
  by (simp add: emit_def indented_def)

lemma indented_writes: "writes d s d' \<Longrightarrow> indented n d \<Longrightarrow> indented n d'"
  by (simp add: writes_def)

lemma write_indent_writes:
  "indented n d \<Longrightarrow> \<exists>v d'. write_indent n d = Inr d' \<and> writes d v d' \<and> ws v"
  by (intro exI [of _ "take n (indent_string d)"] exI [of _ "emit (take n (indent_string d)) d"])
    (auto simp: write_indent_def indented_def ws_def list_all_iff dest: in_set_takeD)

lemma lead_in_writes:
  "indented n d \<Longrightarrow> \<exists>v d'. lead_in p n d = Inr d' \<and> writes d v d' \<and> ws v"
  using write_indent_writes [of n d]
  by (cases "pretty_print p") (auto simp: lead_in_def writes_def ws_def intro: exI [of _ "[]"])

definition dump_ok :: "dump_options \<Rightarrow> bool" where
  "dump_ok p \<longleftrightarrow> indent_step p \<le> 512 \<and> on_bad_utf8 p = EH_strict"

lemma ws_blanks: "ws (replicate k (CHR '' ''))"
  by (simp add: ws_def list_all_iff json_space_def)

lemma grow_indented: "indented m d \<Longrightarrow> indented m (grow_indent n d)"
  using ws_blanks [of "length (indent_string d)"]
  by (cases "length (indent_string d) < n") (simp_all add: grow_indent_def indented_def ws_def)

lemma grow_reaches:
  assumes "indented m d" "n \<le> length (indent_string d) + 512"
  shows "indented n (grow_indent n d)"
proof -
  have "512 \<le> length (indent_string d)" using assms(1) by (simp add: indented_def)
  then have "n \<le> length (indent_string d) + length (indent_string d)" using assms(2) by linarith
  then show ?thesis using assms(1) ws_blanks [of "length (indent_string d)"]
    by (cases "length (indent_string d) < n") (simp_all add: grow_indent_def indented_def ws_def)
qed

lemma open_container_writes:
  assumes "dump_ok p" "indented cur d"
  shows "\<exists>v. writes d (s @ v) (open_container p s cur d) \<and> ws v \<and> indented (inner_indent p cur) (open_container p s cur d)"
proof (cases "pretty_print p")
  case True
  define n where "n = inner_indent p cur"
  have "n \<le> cur + indent_step p" using True by (simp add: n_def inner_indent_def)
  then have n: "n \<le> length (indent_string d) + 512" using assms by (simp add: dump_ok_def indented_def)
  have "indented n (grow_indent n (emit (s @ newline) d))"
    using grow_reaches [of cur "emit (s @ newline) d" n] n assms(2) by simp (simp add: emit_def)
  moreover have "writes d (s @ newline) (grow_indent n (emit (s @ newline) d))"
    using grow_indented [of _ "emit (s @ newline) d" n] by (simp add: writes_def) (simp add: grow_indent_def emit_def)
  ultimately show ?thesis
    using True by (intro exI [of _ newline]) (simp add: open_container_def n_def ws_def json_space_def)
next
  case False
  then show ?thesis using assms(2) by (intro exI [of _ "[]"]) (simp add: open_container_def inner_indent_def ws_def)
qed

lemma close_container_writes:
  assumes "indented cur d"
  shows "\<exists>v d'. close_container_text p s cur d = Inr d' \<and> writes d (v @ s) d' \<and> ws v"
proof (cases "pretty_print p")
  case True
  obtain v d' where d': "write_indent cur (emit newline d) = Inr d'" "writes (emit newline d) v d'" "ws v"
    using write_indent_writes [of cur "emit newline d"] assms by auto
  have "writes d ((newline @ v) @ s) (emit s d')" using writes_trans [OF writes_trans [OF writes_emit d'(2)] writes_emit] by simp
  then show ?thesis using True d'(1,3)
    by (intro exI [of _ "newline @ v"] exI [of _ "emit s d'"]) (simp add: close_container_text_def ws_def json_space_def)
next
  case False
  then show ?thesis
    by (intro exI [of _ "[]"] exI [of _ "emit s d"]) (simp add: close_container_text_def ws_def)
qed

definition dumps :: "dump_options \<Rightarrow> json \<Rightarrow> bool" where
  "dumps p j \<longleftrightarrow>
     (\<forall>cur d. indented cur d \<longrightarrow> (\<exists>t d'. dump_value p j cur d = Inr d' \<and> writes d t d' \<and> json_text j t))"

lemma dumps_text: "json_text j t \<Longrightarrow> (\<And>cur d. dump_value p j cur d = Inr (emit t d)) \<Longrightarrow> dumps p j"
  unfolding dumps_def using writes_emit by blast

lemma dump_elements_text:
  "\<forall>x \<in> set xs. dumps p x \<Longrightarrow> xs \<noteq> [] \<Longrightarrow> indented n d \<Longrightarrow>
   \<exists>t d'. dump_elements p xs n d = Inr d' \<and> writes d t d' \<and> (\<forall>u v. ws u \<longrightarrow> ws v \<longrightarrow> elements_text xs (u @ t @ v))"
proof (induction xs arbitrary: d)
  case (Cons x xs)
  obtain i d1 where d1: "lead_in p n d = Inr d1" "writes d i d1" "ws i" using lead_in_writes [OF Cons.prems(3)] by blast
  obtain t d2 where d2: "dump_value p x n d1 = Inr d2" "writes d1 t d2" "json_text x t"
    using Cons.prems(1) indented_writes [OF d1(2) Cons.prems(3)] unfolding dumps_def by (meson list.set_intros(1))
  note w = writes_trans [OF d1(2) d2(2)]
  have ui: "ws u \<Longrightarrow> ws (u @ i)" for u using d1(3) by (simp add: ws_def)
  show ?case
  proof (cases "xs = []")
    case True
    have "elements_text [x] ((u @ i) @ t @ v)" if "ws u" "ws v" for u v
      using ui [OF that(1)] d2(3) that(2) by (rule element)
    then show ?thesis using True d1(1) d2(1) w by (intro exI [of _ "i @ t"] exI [of _ d2]) simp
  next
    case False
    let ?sep = "element_separator p"
    obtain s where s: "?sep = '','' @ s" "ws s"
      by (cases "pretty_print p") (auto simp: element_separator_def ws_def json_space_def)
    have "indented n (emit ?sep d2)" using indented_writes [OF w Cons.prems(3)] by simp
    then obtain t2 d3 where d3: "dump_elements p xs n (emit ?sep d2) = Inr d3" "writes (emit ?sep d2) t2 d3"
        "\<forall>u v. ws u \<longrightarrow> ws v \<longrightarrow> elements_text xs (u @ t2 @ v)"
      using Cons.IH [of "emit ?sep d2"] Cons.prems(1) False by auto
    have "elements_text (x # xs) ((u @ i) @ t @ [] @ '','' @ (s @ t2 @ v))" if "ws u" "ws v" for u v
      using ui [OF that(1)] d2(3) d3(3) s(2) that(2) by (intro elements) (auto simp: ws_def)
    moreover have "writes d ((i @ t) @ ?sep @ t2) d3"
      using writes_trans [OF writes_trans [OF w writes_emit] d3(2)] by simp
    ultimately show ?thesis
      using False d1(1) d2(1) d3(1) s(1) by (intro exI [of _ "(i @ t) @ ?sep @ t2"] exI [of _ d3]) simp
  qed
qed simp

lemma dump_members_text:
  "\<forall>m \<in> set ms. utf8_string (fst m) \<and> dumps p (snd m) \<Longrightarrow> ms \<noteq> [] \<Longrightarrow> indented n d \<Longrightarrow> dump_ok p \<Longrightarrow>
   \<exists>t d'. dump_members p ms n d = Inr d' \<and> writes d t d' \<and> (\<forall>u v. ws u \<longrightarrow> ws v \<longrightarrow> members_text ms (u @ t @ v))"
proof (induction ms arbitrary: d)
  case (Cons m ms)
  obtain k j where m: "m = (k, j)" by (cases m)
  obtain i d1 where d1: "lead_in p n d = Inr d1" "writes d i d1" "ws i" using lead_in_writes [OF Cons.prems(3)] by blast
  obtain kt where kt: "dump_escaped EH_strict (ensure_ascii p) k = Inr kt"
    using Cons.prems(1) m strict_iff_utf8 [of "ensure_ascii p" k] by auto
  obtain c where c: "key_text p k = Inr ((dquote # kt @ [dquote]) @ '':'' @ c)" "ws c"
    using kt Cons.prems(4)
    by (cases "pretty_print p") (auto simp: key_text_def dump_ok_def ws_def json_space_def)
  let ?kc = "(dquote # kt @ [dquote]) @ '':'' @ c"
  have w1: "writes d (i @ ?kc) (emit ?kc d1)" using writes_trans [OF d1(2) writes_emit] .
  obtain t d2 where d2: "dump_value p j n (emit ?kc d1) = Inr d2" "writes (emit ?kc d1) t d2" "json_text j t"
    using Cons.prems(1) indented_writes [OF w1 Cons.prems(3)] m unfolding dumps_def by (metis list.set_intros(1) snd_conv)
  note w = writes_trans [OF w1 d2(2)]
  note str = escaped_string_text [OF kt]
  have ui: "ws u \<Longrightarrow> ws (u @ i)" for u using d1(3) by (simp add: ws_def)
  have ws0: "ws []" by (simp add: ws_def)
  show ?case
  proof (cases "ms = []")
    case True
    have "members_text [(k, j)] ((u @ i) @ (dquote # kt @ [dquote]) @ [] @ '':'' @ c @ t @ v)" if "ws u" "ws v" for u v
      using ui [OF that(1)] str ws0 c(2) d2(3) that(2) by (rule member)
    then show ?thesis using True d1(1) d2(1) c(1) w m
      by (intro exI [of _ "(i @ ?kc) @ t"] exI [of _ d2]) (simp add: emit_text_def)
  next
    case False
    let ?sep = "element_separator p"
    obtain s where s: "?sep = '','' @ s" "ws s"
      by (cases "pretty_print p") (auto simp: element_separator_def ws_def json_space_def)
    have "indented n (emit ?sep d2)" using indented_writes [OF w Cons.prems(3)] by simp
    then obtain t2 d3 where d3: "dump_members p ms n (emit ?sep d2) = Inr d3" "writes (emit ?sep d2) t2 d3"
        "\<forall>u v. ws u \<longrightarrow> ws v \<longrightarrow> members_text ms (u @ t2 @ v)"
      using Cons.IH [of "emit ?sep d2"] Cons.prems False by auto
    have "members_text ((k, j) # ms) ((u @ i) @ (dquote # kt @ [dquote]) @ [] @ '':'' @ c @ t @ [] @ '','' @ (s @ t2 @ v))"
      if "ws u" "ws v" for u v
      using ui [OF that(1)] str ws0 c(2) d2(3) ws0 d3(3) s(2) that(2) by (intro members) auto
    moreover have "writes d (((i @ ?kc) @ t) @ ?sep @ t2) d3"
      using writes_trans [OF writes_trans [OF w writes_emit] d3(2)] by simp
    ultimately show ?thesis
      using False d1(1) d2(1) d3(1) s(1) c(1) m
      by (intro exI [of _ "((i @ ?kc) @ t) @ ?sep @ t2"] exI [of _ d3]) (simp add: emit_text_def)
  qed
qed simp

text \<open>Members in order are entered one after the other at the end.\<close>

lemma obj_set_last: "obj_ok (ms @ [(k, v)]) \<Longrightarrow> obj_set k v ms = ms @ [(k, v)]"
proof (induction ms)
  case (Cons m ms)
  obtain l u where m: "m = (l, u)" by (cases m)
  have "l < k" "obj_ok (ms @ [(k, v)])" using Cons.prems m by (auto simp: obj_ok_def sorted_wrt_append)
  then show ?case using Cons.IH m by auto
qed simp

lemma object_of_sorted: "obj_ok ms \<Longrightarrow> object_of ms = JObject ms"
proof -
  have "obj_ok ms \<Longrightarrow> foldl (\<lambda>ms (k, v). obj_set k v ms) [] ms = ms"
  proof (induction ms rule: rev_induct)
    case (snoc m ms)
    obtain k v where m: "m = (k, v)" by (cases m)
    have "obj_ok ms" using snoc.prems by (simp add: obj_ok_def sorted_wrt_append)
    then show ?case using snoc obj_set_last [of ms k v] m by simp
  qed simp
  then show "obj_ok ms \<Longrightarrow> object_of ms = JObject ms" by (simp add: object_of_def)
qed

lemma value_dumps:
  assumes "dump_ok p"
  shows "dumpable j \<Longrightarrow> dumps p j"
proof (induction j)
  case (JObject ms)
  have ms: "obj_ok ms" "\<forall>m \<in> set ms. utf8_string (fst m) \<and> dumps p (snd m)"
    using JObject by (auto simp: snds.simps)
  show ?case
  proof (cases "ms = []")
    case True
    have "json_text (JObject []) (''{'' @ [] @ ''}'')" by (rule empty_object) (simp add: ws_def)
    then show ?thesis using True dumps_text [of "JObject []" "''{}''" p] by simp
  next
    case False
    show ?thesis unfolding dumps_def
    proof (intro allI impI)
      fix cur d assume i: "indented cur d"
      let ?d1 = "open_container p ''{'' cur d" and ?n = "inner_indent p cur"
      obtain u where u: "writes d (''{'' @ u) ?d1" "ws u" "indented ?n ?d1" using open_container_writes [OF assms i] by blast
      obtain t d2 where d2: "dump_members p ms ?n ?d1 = Inr d2" "writes ?d1 t d2"
          "\<forall>u v. ws u \<longrightarrow> ws v \<longrightarrow> members_text ms (u @ t @ v)"
        using dump_members_text [OF ms(2) False u(3) assms] by blast
      have "indented cur d2" using indented_writes [OF d2(2) indented_writes [OF u(1) i]] .
      then obtain v d3 where d3: "close_container_text p ''}'' cur d2 = Inr d3" "writes d2 (v @ ''}'') d3" "ws v"
        using close_container_writes by blast
      have "json_text (object_of ms) (''{'' @ (u @ t @ v) @ ''}'')" using d2(3) u(2) d3(3) by (intro object) simp
      moreover have "writes d (((''{'' @ u) @ t) @ v @ ''}'') d3"
        using writes_trans [OF writes_trans [OF u(1) d2(2)] d3(2)] .
      moreover have "dump_value p (JObject ms) cur d = Inr d3" using False d2(1) d3(1) by simp
      ultimately show "\<exists>t d'. dump_value p (JObject ms) cur d = Inr d' \<and> writes d t d' \<and> json_text (JObject ms) t"
        unfolding object_of_sorted [OF ms(1)] by (intro exI [of _ "((''{'' @ u) @ t) @ v @ ''}''"] exI [of _ d3]) simp
    qed
  qed
next
  case (JArray xs)
  then have xs: "\<forall>x \<in> set xs. dumps p x" by simp
  show ?case
  proof (cases "xs = []")
    case True
    have "json_text (JArray []) (''['' @ [] @ '']'')" by (rule empty_array) (simp add: ws_def)
    then show ?thesis using True dumps_text [of "JArray []" "''[]''" p] by simp
  next
    case False
    show ?thesis unfolding dumps_def
    proof (intro allI impI)
      fix cur d assume i: "indented cur d"
      let ?d1 = "open_container p ''['' cur d" and ?n = "inner_indent p cur"
      obtain u where u: "writes d (''['' @ u) ?d1" "ws u" "indented ?n ?d1" using open_container_writes [OF assms i] by blast
      obtain t d2 where d2: "dump_elements p xs ?n ?d1 = Inr d2" "writes ?d1 t d2"
          "\<forall>u v. ws u \<longrightarrow> ws v \<longrightarrow> elements_text xs (u @ t @ v)"
        using dump_elements_text [OF xs False u(3)] by blast
      have "indented cur d2" using indented_writes [OF d2(2) indented_writes [OF u(1) i]] .
      then obtain v d3 where d3: "close_container_text p '']'' cur d2 = Inr d3" "writes d2 (v @ '']'') d3" "ws v"
        using close_container_writes by blast
      have "json_text (JArray xs) (''['' @ (u @ t @ v) @ '']'')" using d2(3) u(2) d3(3) by (intro array) simp
      moreover have "writes d (((''['' @ u) @ t) @ v @ '']'') d3"
        using writes_trans [OF writes_trans [OF u(1) d2(2)] d3(2)] .
      moreover have "dump_value p (JArray xs) cur d = Inr d3" using False d2(1) d3(1) by simp
      ultimately show "\<exists>t d'. dump_value p (JArray xs) cur d = Inr d' \<and> writes d t d' \<and> json_text (JArray xs) t"
        by (intro exI [of _ "((''['' @ u) @ t) @ v @ '']''"] exI [of _ d3]) simp
    qed
  qed
next
  case (JString s)
  then obtain t where t: "dump_escaped EH_strict (ensure_ascii p) s = Inr t"
    using strict_iff_utf8 [of "ensure_ascii p" s] by auto
  then show ?case
    using assms by (intro dumps_text [OF json_text_elements_text_members_text.str [OF escaped_string_text [OF t]]])
      (simp add: string_value_text_def emit_text_def dump_ok_def)
next
  case (JFloat x)
  then obtain t where "dump_float x = Inr t" "json_text (JFloat x) t" using float_text by auto
  then show ?case using dumps_text by (simp add: emit_text_def)
next
  case (JBoolean b)
  show ?case using json_text_elements_text_members_text.true json_text_elements_text_members_text.false
    by (cases b) (auto intro: dumps_text)
qed (auto simp: emit_text_def dump_integer_text null unsigned_text negative_text intro!: dumps_text)

lemma dump_parsed:
  assumes "dumpable j" "indent \<le> 512" "json_space indent_char"
  shows "\<exists>t. json_dump j indent indent_char ascii EH_strict = Inr t \<and> json_parse t allow ignore = Inr j"
proof -
  have "dump_ok (options_of indent ascii EH_strict)" using assms(2) by (simp add: dump_ok_def options_of_def nat_le_iff)
  moreover have "indented 0 (dumping_new indent_char)"
    using assms(3) by (simp add: indented_def dumping_new_def ws_def list_all_iff)
  ultimately obtain t d where t: "dump_value (options_of indent ascii EH_strict) j 0 (dumping_new indent_char) = Inr d"
      "dumped d = t" "json_text j t"
    using value_dumps [OF _ assms(1)] unfolding dumps_def by (fastforce simp: writes_def dumping_new_def)
  have "document_text j ([] @ [] @ t @ [])" using t(3) by (intro document_text.intros) (simp_all add: ws_def)
  then show ?thesis using t(1,2) document_parsed by (simp add: json_dump_def)
qed

text \<open>C9: Dumping and parsing are inverse: a value that can be read back is dumped without an error, with any
  indentation up to 512 characters of white space or compactly, with or without escaping of non-ASCII
  characters, and parsing the text gives the value, bit for bit in its doubles.
\<close>

theorem dump_parses_back:
  assumes "dumpable j" "indent \<le> 512" "json_space indent_char"
  shows "\<exists>t. json_dump j indent indent_char ascii EH_strict = Inr t \<and> json_parse t allow ignore = Inr j"
  by (rule dump_parsed [OF assms])

theorem dump_parses_back_witness:
  "\<exists>t. json_dump (JObject [(''k'', JArray [JFloat (Fin True 7205759403792794 (- 56)), JInteger (- 5), JNull])]) 2 (CHR 0x09) True
      EH_strict = Inr t
    \<and> json_parse t True False = Inr (JObject [(''k'', JArray [JFloat (Fin True 7205759403792794 (- 56)), JInteger (- 5), JNull])])"
proof (rule dump_parses_back)
  have "utf8_bytes 107 = ''k''" by code_simp
  then have "utf8_string ''k''"
    unfolding utf8_string_iff by (intro exI [of _ "[107]"]) (simp add: scalar_def)
  then show "dumpable (JObject [(''k'', JArray [JFloat (Fin True 7205759403792794 (- 56)), JInteger (- 5), JNull])])"
    by (simp add: obj_ok_def)
qed (simp_all add: json_space_def)

text \<open>C26: The pairwise digit writer puts exactly the decimal text of the number into its buffer, for every 64-bit
  number, signed or unsigned, the most negative one included, and whatever the buffer held before.
\<close>

theorem dump_integer_decimal:
  assumes "length buf = 64"
  shows "dump_integer has_sign w buf = Inr (int_str (if has_sign then sint w else uint w))"
  by (rule dump_integer_text [OF assms])

theorem dump_integer_decimal_witness:
  "dump_integer True (2 ^ 63) (replicate 64 (CHR ''9'')) = Inr (int_str (if True then sint (2 ^ 63 :: u64) else uint (2 ^ 63 :: u64)))"
  by (rule dump_integer_decimal) simp

end
