(* ===== verification/Json_Dump_Bounds.thy ===== *)
theory Json_Dump_Bounds
  imports Json_Dump_Text
begin

text \<open>
  How far the serializer reads into its indentation string: never beyond it when a level is at most 512
  characters wide; with a wider one it does, and the part added by growing is blank whatever was asked for.
\<close>

subsection \<open>The indentation string is long enough\<close>

definition safe :: "dumping \<Rightarrow> dumping outcome \<Rightarrow> bool" where
  "safe d m \<longleftrightarrow>
     (case m of Inr d' \<Rightarrow> length (indent_string d) \<le> length (indent_string d') | Inl (Throw what) \<Rightarrow> True | Inl _ \<Rightarrow> False)"

lemma safe_Inr [simp]: "safe d (Inr d') \<longleftrightarrow> length (indent_string d) \<le> length (indent_string d')"
  by (simp add: safe_def)

lemma safe_Throw [simp]: "safe d (Inl (Throw what))"
  by (simp add: safe_def)

lemma safe_bind:
  assumes "safe d m" "\<And>d'. length (indent_string d) \<le> length (indent_string d') \<Longrightarrow> safe d' (k d')"
  shows "safe d (bindE m k)"
proof (cases m)
  case (Inl f)
  then show ?thesis using assms(1) by (simp add: safe_def)
next
  case (Inr d')
  then show ?thesis using assms(1) assms(2) [of d'] by (auto simp: safe_def split: sum.splits fault.splits)
qed

definition text_outcome :: "string outcome \<Rightarrow> bool" where
  "text_outcome m \<longleftrightarrow> (\<exists>t. m = Inr t) \<or> (\<exists>what. m = Inl (Throw what))"

lemma safe_emit [simp]: "length (indent_string (emit s d)) = length (indent_string d)" "safe d (Inr (emit s d))"
  by (simp_all add: emit_def)

lemma safe_emitted [simp]: "safe (emit s d) m \<longleftrightarrow> safe d m"
  by (simp add: safe_def split: sum.split fault.split)

lemma safe_emit_text: "text_outcome m \<Longrightarrow> safe d (emit_text m d)"
  by (auto simp: text_outcome_def emit_text_def)

lemma texts:
  "text_outcome (key_text p k)" "text_outcome (string_value_text p k)" "text_outcome (dump_bytes sep bs)"
  "text_outcome (subtype_text st)" "text_outcome (dump_integer b w number_buffer)"
proof -
  show "text_outcome (key_text p k)" "text_outcome (string_value_text p k)"
    using dump_escaped_outcome [of "on_bad_utf8 p" "ensure_ascii p" k]
    by (auto simp: text_outcome_def key_text_def string_value_text_def)
  show "text_outcome (dump_bytes sep bs)"
    by (induction sep bs rule: dump_bytes.induct) (auto simp: text_outcome_def dump_integer_text)
qed (simp_all add: text_outcome_def subtype_text_def dump_integer_text split: option.split)

lemma safe_indent: "n \<le> length (indent_string d) \<Longrightarrow> safe d (write_indent n d)"
  by (simp add: write_indent_def)

lemma safe_lead_in: "n \<le> length (indent_string d) \<Longrightarrow> safe d (lead_in p n d)"
  by (simp add: lead_in_def safe_indent)

lemma safe_close: "cur \<le> length (indent_string d) \<Longrightarrow> safe d (close_container_text p s cur d)"
  by (simp add: close_container_text_def write_indent_def emit_def)

lemma open_reaches:
  assumes "indent_step p \<le> 512" "512 \<le> length (indent_string d)" "cur \<le> length (indent_string d)"
  shows "inner_indent p cur \<le> length (indent_string (open_container p s cur d))"
    "length (indent_string d) \<le> length (indent_string (open_container p s cur d))"
proof -
  have "inner_indent p cur \<le> cur + indent_step p" by (simp add: inner_indent_def)
  then have "inner_indent p cur \<le> length (indent_string d) + length (indent_string d)" using assms by linarith
  moreover have "\<not> pretty_print p \<Longrightarrow> inner_indent p cur = cur" by (simp add: inner_indent_def)
  ultimately show "inner_indent p cur \<le> length (indent_string (open_container p s cur d))"
    "length (indent_string d) \<le> length (indent_string (open_container p s cur d))"
    using assms(3) by (auto simp: open_container_def grow_indent_def emit_def)
qed

text \<open>Every double inside is one of the machine.\<close>

fun doubles_ok :: "json \<Rightarrow> bool" where
  "doubles_ok (JObject ms) = (\<forall>m \<in> set ms. doubles_ok (snd m))"
| "doubles_ok (JArray xs) = (\<forall>x \<in> set xs. doubles_ok x)"
| "doubles_ok (JFloat x) = f64_ok x"
| "doubles_ok j = True"

definition dumps_safely :: "dump_options \<Rightarrow> json \<Rightarrow> bool" where
  "dumps_safely p j \<longleftrightarrow>
     (\<forall>cur d. 512 \<le> length (indent_string d) \<longrightarrow> cur \<le> length (indent_string d) \<longrightarrow> safe d (dump_value p j cur d))"

lemma dump_elements_safe:
  "\<forall>x \<in> set xs. dumps_safely p x \<Longrightarrow> 512 \<le> length (indent_string d) \<Longrightarrow> n \<le> length (indent_string d) \<Longrightarrow>
   safe d (dump_elements p xs n d)"
proof (induction xs arbitrary: d)
  case (Cons x xs)
  have v: "safe d' (dump_value p x n d')" "xs \<noteq> [] \<Longrightarrow> safe d' (dump_elements p xs n (emit s d'))"
    if "length (indent_string d) \<le> length (indent_string d')" for d' s
  proof -
    show "safe d' (dump_value p x n d')" using Cons.prems that by (simp add: dumps_safely_def)
    have "safe (emit s d') (dump_elements p xs n (emit s d'))" using Cons.prems that by (intro Cons.IH) simp_all
    then show "safe d' (dump_elements p xs n (emit s d'))" by simp
  qed
  have "safe d' (bindE (dump_value p x n d') (\<lambda>d2. if xs = [] then Inr d2 else dump_elements p xs n (emit (element_separator p) d2)))"
    if "length (indent_string d) \<le> length (indent_string d')" for d'
    using v [OF that] v(2) that by (intro safe_bind) (auto intro: order_trans)
  then show ?case using safe_lead_in [OF Cons.prems(3), of p] by (simp add: safe_bind)
qed simp

lemma dump_members_safe:
  "\<forall>m \<in> set ms. dumps_safely p (snd m) \<Longrightarrow> 512 \<le> length (indent_string d) \<Longrightarrow> n \<le> length (indent_string d) \<Longrightarrow>
   safe d (dump_members p ms n d)"
proof (induction ms arbitrary: d)
  case (Cons m ms)
  obtain k j where m: "m = (k, j)" by (cases m)
  have v: "safe d' (dump_value p j n d')" "ms \<noteq> [] \<Longrightarrow> safe d' (dump_members p ms n (emit s d'))"
    if "length (indent_string d) \<le> length (indent_string d')" for d' s
  proof -
    show "safe d' (dump_value p j n d')" using Cons.prems that m by (simp add: dumps_safely_def)
    have "safe (emit s d') (dump_members p ms n (emit s d'))" using Cons.prems that by (intro Cons.IH) simp_all
    then show "safe d' (dump_members p ms n (emit s d'))" by simp
  qed
  have w: "safe d' (bindE (dump_value p j n d') (\<lambda>d2. if ms = [] then Inr d2 else dump_members p ms n (emit (element_separator p) d2)))"
    if "length (indent_string d) \<le> length (indent_string d')" for d'
    using v [OF that] v(2) that by (intro safe_bind) (auto intro: order_trans)
  have "safe d' (bindE (emit_text (key_text p k) d') (\<lambda>d1. bindE (dump_value p j n d1)
      (\<lambda>d2. if ms = [] then Inr d2 else dump_members p ms n (emit (element_separator p) d2))))"
    if "length (indent_string d) \<le> length (indent_string d')" for d'
    by (rule safe_bind [OF safe_emit_text [OF texts(1)]]) (rule w [OF order_trans [OF that]])
  then show ?case using safe_lead_in [OF Cons.prems(3), of p] m by (simp add: safe_bind)
qed simp

lemma safe_longer: "length (indent_string d) \<le> length (indent_string d1) \<Longrightarrow> safe d1 m \<Longrightarrow> safe d m"
  by (auto simp: safe_def split: sum.splits fault.splits)

lemma value_dumps_safely:
  assumes step: "indent_step p \<le> 512"
  shows "doubles_ok j \<Longrightarrow> dumps_safely p j"
proof (induction j)
  case (JObject ms)
  then have ms: "\<forall>m \<in> set ms. dumps_safely p (snd m)" by (auto simp: snds.simps)
  show ?case unfolding dumps_safely_def
  proof (intro allI impI)
    fix cur :: nat and d :: dumping
    assume d: "512 \<le> length (indent_string d)" "cur \<le> length (indent_string d)"
    note o = open_reaches [OF step d, of "''{''"]
    have "safe (open_container p ''{'' cur d) (bindE (dump_members p ms (inner_indent p cur) (open_container p ''{'' cur d))
        (close_container_text p ''}'' cur))"
      using dump_members_safe [OF ms _ o(1)] d o(2) by (intro safe_bind safe_close) auto
    then show "safe d (dump_value p (JObject ms) cur d)" using safe_longer [OF o(2)] by simp
  qed
next
  case (JArray xs)
  then have xs: "\<forall>x \<in> set xs. dumps_safely p x" by simp
  show ?case unfolding dumps_safely_def
  proof (intro allI impI)
    fix cur :: nat and d :: dumping
    assume d: "512 \<le> length (indent_string d)" "cur \<le> length (indent_string d)"
    note o = open_reaches [OF step d, of "''[''"]
    have "safe (open_container p ''['' cur d) (bindE (dump_elements p xs (inner_indent p cur) (open_container p ''['' cur d))
        (close_container_text p '']'' cur))"
      using dump_elements_safe [OF xs _ o(1)] d o(2) by (intro safe_bind safe_close) auto
    then show "safe d (dump_value p (JArray xs) cur d)" using safe_longer [OF o(2)] by simp
  qed
next
  case (JBinary bs st)
  show ?case unfolding dumps_safely_def
  proof (intro allI impI)
    fix cur :: nat and d :: dumping
    assume d: "512 \<le> length (indent_string d)" "cur \<le> length (indent_string d)"
    note o = open_reaches [OF step d, of "''{''"]
    show "safe d (dump_value p (JBinary bs st) cur d)"
    proof (cases "pretty_print p")
      case True
      have "safe (open_container p ''{'' cur d) (dump_binary p bs st cur d)"
        unfolding dump_binary_def if_P [OF True] Let_def
        using o d
        by (intro safe_bind safe_indent safe_longer [OF _ safe_emit_text] safe_longer [OF _ safe_indent] texts safe_close) auto
      then show ?thesis using safe_longer [OF o(2)] by simp
    next
      case False
      have "safe d (dump_binary p bs st cur d)"
        unfolding dump_binary_def if_not_P [OF False]
        by (intro safe_bind safe_longer [OF _ safe_emit_text] texts) auto
      then show ?thesis by simp
    qed
  qed
next
  case (JFloat x)
  have "text_outcome (dump_float x)"
  proof (cases "is_finite x")
    case True
    then show ?thesis using float_text [of x] JFloat by (auto simp: text_outcome_def)
  qed (simp add: text_outcome_def dump_float_def)
  then show ?case by (simp add: dumps_safely_def safe_emit_text)
qed (simp_all add: dumps_safely_def safe_emit_text texts)

text \<open>C28: With an indentation of at most 512 characters per level, dumping any value, with any error handler, ends
  with a text or with a documented exception: no read beyond the indentation string, no overrun of the
  number buffer and no failed assertion, at any depth.
\<close>

theorem dump_never_overruns:
  assumes "doubles_ok j" "indent \<le> 512"
  shows "(\<exists>t. json_dump j indent indent_char ascii eh = Inr t) \<or> (\<exists>what. json_dump j indent indent_char ascii eh = Inl (Throw what))"
proof -
  have "indent_step (options_of indent ascii eh) \<le> 512" using assms(2) by (simp add: options_of_def nat_le_iff)
  then have "safe (dumping_new indent_char) (dump_value (options_of indent ascii eh) j 0 (dumping_new indent_char))"
    using value_dumps_safely assms(1) unfolding dumps_safely_def by (simp add: dumping_new_def)
  then show ?thesis by (auto simp: json_dump_def safe_def split: sum.splits fault.splits)
qed

theorem dump_never_overruns_witness:
  "(\<exists>t. json_dump (JArray [JBinary [1, 255] None, JFloat NaN]) 512 (CHR 0x09) False EH_ignore = Inr t)
   \<or> (\<exists>what. json_dump (JArray [JBinary [1, 255] None, JFloat NaN]) 512 (CHR 0x09) False EH_ignore = Inl (Throw what))"
  by (rule dump_never_overruns) simp_all

text \<open>
  The indentation string is doubled only once: with more than 1025 characters per level the first nested line
  is already taken from outside it, and with 1025 the terminating zero is written.
\<close>

theorem wide_indent_undefined:
  assumes "1025 < indent" "indent < 2 ^ 31" "xs \<noteq> []"
  shows "json_dump (JArray xs) indent indent_char ascii eh = Inl Undefined"
proof -
  obtain y ys where xs: "xs = y # ys" using assms(3) by (cases xs) auto
  have n: "\<not> nat indent \<le> 1025" "nat indent < 4294967296" using assms by auto
  then show ?thesis
    using assms(1) unfolding xs
    by (simp add: json_dump_def options_of_def dumping_new_def open_container_def inner_indent_def grow_indent_def emit_def
        lead_in_def write_indent_def)
qed

text \<open>What is added by the doubling is blanks, whatever the indentation character is.\<close>

theorem deep_indent_blanks:
  "json_dump (JArray [JNull]) 514 (CHR 0x09) ascii eh =
     Inr (''['' @ newline @ replicate 512 (CHR 0x09) @ ''  null'' @ newline @ '']'')"
  by (simp add: json_dump_def options_of_def dumping_new_def open_container_def inner_indent_def grow_indent_def emit_def
      lead_in_def write_indent_def close_container_text_def, simp only: numeral_2_eq_2, simp)

end
