(* ===== verification/Program_Json.thy ===== *)
theory Program_Json
  imports Program_Steps Json_Parse Json_Read Json_Dump_Text
begin

text \<open>
  The program with its JSON library: the message handlers on the text of a payload instead of the result of
  parsing it, and the subscription as it is sent.
\<close>

definition on_payload :: "string \<Rightarrow> world \<Rightarrow> world outcome" where
  "on_payload text w = on_message (json_parse text True False) w"

definition bybit_payload :: "string \<Rightarrow> world \<Rightarrow> world outcome" where
  "bybit_payload text w = bybit_message bybit_callback (json_parse text True False) w"

definition funding_payload :: "string \<Rightarrow> string \<Rightarrow> funding_cache \<Rightarrow> world \<Rightarrow> (funding_cache \<times> world) outcome" where
  "funding_payload symb text c w = funding_message symb (json_parse text True False) c w"

text \<open>A payload handled by a thread is a step of the program.\<close>

lemma payload_steps:
  "on_payload text w = Inr w' \<Longrightarrow> main_step w (Binance (json_parse text True False)) w'"
  "bybit_payload text w = Inr w' \<Longrightarrow> main_step w (Bybit (json_parse text True False)) w'"
  by (simp_all add: on_payload_def bybit_payload_def main_step.binance main_step.bybit)

subsection \<open>Payloads that are not JSON\<close>

lemma rejected_throws:
  assumes "json_accept text False = Inr False"
  shows "\<exists>ex. json_parse text True False = Inl (Throw ex) \<and> documented ex"
  using parse_outcome [of "text" False True] assms by (auto simp: parse_result_def)

text \<open>C23: A payload that is not JSON never disturbs the program: each of the three handlers catches the documented
  exception of the parser, prints one line on the error stream and leaves everything else as it was.
\<close>

theorem payload_rejected:
  assumes "json_accept text False = Inr False"
  shows "\<exists>ex. documented ex
    \<and> on_payload text w = Inr (print_err [S ''[parse error] '', S ex, nl] w)
    \<and> bybit_payload text w = Inr (print_err [S ''[Bybit parse error] '', S ex, nl] w)
    \<and> funding_payload symb text c w = Inr (c, print_err [S ''[Funding] Parse error'', nl] w)"
  using rejected_throws [OF assms]
  by (auto simp: on_payload_def bybit_payload_def funding_payload_def on_message_def message_body_def bybit_message_def
      bybit_body_def funding_message_def)

lemma empty_rejected: "json_accept [] False = Inr False"
proof -
  have "fst (scan (lexer_new [] False)) = T_end_of_input"
    by (rule scan_end [of _ "[]"]) (simp_all add: ready_def reading_def lexer_new_def ws_def)
  then have t: "last_token (parser_new [] False ()) = T_end_of_input"
      "\<not> skip_to_state_evaluation (parser_new [] False ())"
    by (auto simp: parser_new_def get_token_def split: prod.split)
  have pe: "on_parse_error acceptor_events p tok ex s = Inr (False, s)" for p tok ex s by (simp add: acceptor_events_def)
  have "\<exists>r. sax_parse_internal acceptor_events (parser_new [] False ()) = Inr (False, r)"
    using t by (subst sax_parse_internal.simps)
      (auto simp: sax_iteration_def value_step_def report_def syntax_error_def pe)
  then show ?thesis by (auto simp: json_accept_def sax_parse_def)
qed

theorem payload_rejected_witness:
  "\<exists>ex. documented ex
    \<and> on_payload [] sample_start = Inr (print_err [S ''[parse error] '', S ex, nl] sample_start)
    \<and> bybit_payload [] sample_start = Inr (print_err [S ''[Bybit parse error] '', S ex, nl] sample_start)
    \<and> funding_payload ''BTCUSDT'' [] funding_cache_new sample_start
        = Inr (funding_cache_new, print_err [S ''[Funding] Parse error'', nl] sample_start)"
  by (rule payload_rejected [OF empty_rejected])

subsection \<open>Array payloads\<close>

lemma array_loop_ticks:
  "list_all2 (\<lambda>e tick. entry_tick e = Inr tick) es ticks \<Longrightarrow>
   array_loop (es @ rest) w = array_loop rest (fold array_tick ticks w)"
  by (induction es ticks arbitrary: w rule: list_all2_induct) simp_all

lemma array_payload:
  assumes "document_text (JObject [(''data'', JArray es)]) text"
  shows "on_payload text w =
    (case array_loop es w of
       (Inr u, w') \<Rightarrow> Inr w'
     | (Inl (Throw what), w') \<Rightarrow> Inr (print_err [S ''[parse error] '', S what, nl] w')
     | (Inl f, w') \<Rightarrow> Inl f)"
  using document_parsed [OF assms, of True False]
  by (simp add: on_payload_def on_message_def message_body_def Let_def member_or_null_def)



lemma data_document:
  assumes "json_text j t"
  shows "document_text (JObject [(''data'', j)]) (''{'' @ (dquote # ''data'' @ [dquote]) @ '':'' @ t @ ''}'')"
proof -
  have w: "ws []" by (simp add: ws_def)
  have "utf8_bytes 100 = ''d''" "utf8_bytes 97 = ''a''" "utf8_bytes 116 = ''t''" by code_simp+
  note u = this
  have "list_all2 char_text [100, 97, 116, 97] [''d'', ''a'', ''t'', ''a'']"
    using char_text.plain [of 100] char_text.plain [of 97] char_text.plain [of 116] u
    by (simp add: plain_codepoint_def scalar_def)
  from string_text.intros [OF this] have "string_text ''data'' (dquote # ''data'' @ [dquote])" using u by simp
  from object [OF member [OF w this w w assms w]]
  have "json_text (JObject [(''data'', j)]) (''{'' @ (dquote # ''data'' @ [dquote]) @ '':'' @ t @ ''}'')"
    by (simp add: object_of_def)
  from document_text.intros [OF disjI1 [OF refl] w this w] show ?thesis by simp
qed

lemma empty_element:
  "document_text (JObject [(''data'', JArray ([] @ JObject [] # []))])
     (''{'' @ (dquote # ''data'' @ [dquote]) @ '':'' @ ''[{}]'' @ ''}'')"
proof -
  have w: "ws []" by (simp add: ws_def)
  have "json_text (JArray [JObject []]) (''['' @ ([] @ (''{'' @ [] @ ''}'') @ []) @ '']'')"
    by (intro array element empty_object w)
  from data_document [OF this] show ?thesis by simp
qed


lemma dumpable_text:
  assumes "dumpable j"
  shows "\<exists>t. json_text j t"
proof -
  have "dump_ok (options_of (- 1) False EH_strict)" by (simp add: dump_ok_def options_of_def)
  moreover have "indented 0 (dumping_new (CHR '' ''))"
    by (simp add: indented_def dumping_new_def ws_blanks)
  ultimately show ?thesis using value_dumps [OF _ assms] unfolding dumps_def by blast
qed


subsection \<open>The subscription\<close>

lemma dump_plain:
  assumes "list_all (\<lambda>c. plain_byte (of_char c) \<and> of_char c < (0x7F :: nat)) s"
  shows "dump_escaped EH_strict e s = Inr s"
proof -
  have "list_all scalar (map of_char s) \<and> s = concat (map utf8_bytes (map of_char s))
    \<and> s = concat (map (codepoint_text e) (map of_char s))"
    using assms
    by (induction s) (auto simp: scalar_def utf8_bytes_def units_small codepoint_text_def short_text_def plain_byte_def must_escape_def)
  then show ?thesis unfolding strict_codepoints by blast
qed

definition compact_dump :: "json \<Rightarrow> string" where
  "compact_dump j = (case json_dump j (- 1) (CHR '' '') False EH_strict of Inr t \<Rightarrow> t | Inl f \<Rightarrow> [])"

definition subscription_frame :: string where
  "subscription_frame =
     ''{'' @ quoted_key ''args'' @ '':['' @ quoted_key ''publicTrade.BTCUSDT'' @ '','' @ quoted_key ''publicTrade.ETHUSDT'' @ ''],''
     @ quoted_key ''op'' @ '':'' @ quoted_key ''subscribe'' @ ''}''"

lemma subscription_dumped: "json_dump bybit_subscription (- 1) (CHR '' '') False EH_strict = Inr subscription_frame"
  by (simp add: bybit_subscription_def json_dump_def options_of_def dumping_new_def open_container_def inner_indent_def
      close_container_text_def lead_in_def element_separator_def key_text_def string_value_text_def emit_text_def emit_def
      dump_plain plain_byte_def subscription_frame_def quoted_key_def)

lemma subscription_parses: "json_parse subscription_frame True False = Inr bybit_subscription"
proof -
  have "dumpable bybit_subscription" by (simp add: bybit_subscription_def obj_ok_def ascii_utf8)
  then show ?thesis
    using dump_parsed [of bybit_subscription "- 1" "CHR '' ''" False] subscription_dumped by (auto simp: json_space_def)
qed

text \<open>On opening the connection the Bybit feed sends one frame, the compact text of its subscription with the
  members in key order, and the text denotes exactly the subscription.
\<close>

theorem subscription_sent:
  "bybit_open compact_dump (w, sent) = (print_out [S ''[Bybit]  Connected'', nl] w, sent @ [subscription_frame])
   \<and> json_parse subscription_frame True False = Inr bybit_subscription"
  by (simp add: bybit_open_def compact_dump_def subscription_dumped subscription_parses)

end
