(* ===== verification/Ws_Frame.thy ===== *)
theory Ws_Frame
  imports Prelude
begin

text \<open>
  \<^verbatim>\<open>websocketpp/frame.hpp\<close>: the header of a WebSocket frame and the masking of payloads.  Bytes are \<open>u8\<close>.
  The unions that convert between integers and bytes are read on a little-endian host: \<open>le_bytes\<close> are the
  bytes of an integer in memory, \<open>of_le_bytes\<close> the integer of these bytes.
\<close>

unbundle bit_operations_syntax

type_synonym u8 = "8 word"
type_synonym u16 = "16 word"
type_synonym u32 = "32 word"

subsection \<open>Integers in memory\<close>

definition le_bytes :: "nat \<Rightarrow> 'a::len word \<Rightarrow> u8 list" where
  "le_bytes n w = map (\<lambda>i. ucast (drop_bit (8 * i) w)) [0 ..< n]"

fun of_le_bytes :: "u8 list \<Rightarrow> 'a::len word" where
  "of_le_bytes [] = 0"
| "of_le_bytes (b # bs) = ucast b OR push_bit 8 (of_le_bytes bs)"

lemma length_le_bytes [simp]: "length (le_bytes n w) = n"
  by (simp add: le_bytes_def)

lemma nth_le_bytes: "i < n \<Longrightarrow> le_bytes n w ! i = ucast (drop_bit (8 * i) w)"
  by (simp add: le_bytes_def)

lemma bit_of_le_bytes:
  "bit (of_le_bytes bs :: 'a::len word) k \<longleftrightarrow>
     k < LENGTH('a) \<and> k div 8 < length bs \<and> bit (bs ! (k div 8)) (k mod 8)"
proof (induction bs arbitrary: k)
  case (Cons b bs)
  show ?case
  proof (cases "k < 8")
    case True
    then show ?thesis by (simp add: bit_or_iff bit_ucast_iff bit_push_bit_iff)
  next
    case False
    then have k: "k div 8 = Suc ((k - 8) div 8)" "k mod 8 = (k - 8) mod 8"
      by (simp_all add: le_div_geq le_mod_geq)
    have "\<not> bit b k" using False bit_imp_le_length [of b k] by auto
    then show ?thesis
      using False by (auto simp: bit_or_iff bit_ucast_iff bit_push_bit_iff Cons.IH k)
  qed
qed simp

lemma le_bytes_of:
  assumes "length bs = n" "8 * n \<le> LENGTH('a)"
  shows "le_bytes n (of_le_bytes bs :: 'a::len word) = bs"
proof (rule nth_equalityI)
  fix i assume i: "i < length (le_bytes n (of_le_bytes bs :: 'a word))"
  have "bit (ucast (drop_bit (8 * i) (of_le_bytes bs :: 'a word)) :: u8) k = bit (bs ! i) k" for k
  proof (cases "k < 8")
    case True
    have "8 * i + k < LENGTH('a)" using assms i True by simp
    then show ?thesis
      using True assms i by (simp add: bit_ucast_iff bit_drop_bit_eq bit_of_le_bytes)
  next
    case False
    then show ?thesis using bit_imp_le_length [of "bs ! i" k] by (auto simp: bit_ucast_iff)
  qed
  then show "le_bytes n (of_le_bytes bs :: 'a word) ! i = bs ! i"
    using i by (simp add: nth_le_bytes) (rule bit_eqI, simp)
qed (simp add: assms)

lemma of_le_bytes_le:
  assumes "8 * n = LENGTH('a)"
  shows "of_le_bytes (le_bytes n w) = (w :: 'a::len word)"
proof (rule bit_word_eqI)
  fix k assume k: "k < LENGTH('a)"
  then have "k div 8 < n" using assms by (simp flip: assms add: less_mult_imp_div_less mult.commute)
  then show "bit (of_le_bytes (le_bytes n w) :: 'a word) k = bit w k"
    using k by (simp add: bit_of_le_bytes nth_le_bytes bit_ucast_iff bit_drop_bit_eq)
qed

text \<open>Network byte order.\<close>

definition ntohs :: "u16 \<Rightarrow> u16" where
  "ntohs w = of_le_bytes (rev (le_bytes 2 w))"

definition htonll :: "u64 \<Rightarrow> u64" where
  "htonll w = of_le_bytes (rev (le_bytes 8 w))"

definition ntohll :: "u64 \<Rightarrow> u64" where
  "ntohll w = htonll w"

lemma le_bytes_htonll: "le_bytes 8 (htonll w) = rev (le_bytes 8 w)"
  by (simp add: htonll_def le_bytes_of)

lemma le_bytes_ntohs: "le_bytes 2 (ntohs w) = rev (le_bytes 2 w)"
  by (simp add: ntohs_def le_bytes_of)

subsection \<open>Opcodes\<close>

datatype opcode =
    Op_continuation | Op_text | Op_binary | Op_rsv3 | Op_rsv4 | Op_rsv5 | Op_rsv6 | Op_rsv7
  | Op_close | Op_ping | Op_pong | Op_control_rsvb | Op_control_rsvc | Op_control_rsvd | Op_control_rsve
  | Op_control_rsvf

definition opcodes :: "opcode list" where
  "opcodes =
     [Op_continuation, Op_text, Op_binary, Op_rsv3, Op_rsv4, Op_rsv5, Op_rsv6, Op_rsv7,
      Op_close, Op_ping, Op_pong, Op_control_rsvb, Op_control_rsvc, Op_control_rsvd, Op_control_rsve, Op_control_rsvf]"

fun opcode_value :: "opcode \<Rightarrow> nat" where
  "opcode_value Op_continuation = 0" | "opcode_value Op_text = 1" | "opcode_value Op_binary = 2"
| "opcode_value Op_rsv3 = 3" | "opcode_value Op_rsv4 = 4" | "opcode_value Op_rsv5 = 5"
| "opcode_value Op_rsv6 = 6" | "opcode_value Op_rsv7 = 7" | "opcode_value Op_close = 8"
| "opcode_value Op_ping = 9" | "opcode_value Op_pong = 10" | "opcode_value Op_control_rsvb = 11"
| "opcode_value Op_control_rsvc = 12" | "opcode_value Op_control_rsvd = 13"
| "opcode_value Op_control_rsve = 14" | "opcode_value Op_control_rsvf = 15"

definition opcode_reserved :: "opcode \<Rightarrow> bool" where
  "opcode_reserved op \<longleftrightarrow>
     3 \<le> opcode_value op \<and> opcode_value op \<le> 7 \<or> 0xB \<le> opcode_value op \<and> opcode_value op \<le> 0xF"

definition opcode_invalid :: "opcode \<Rightarrow> bool" where
  "opcode_invalid op \<longleftrightarrow> 0xF < opcode_value op"

definition is_control :: "opcode \<Rightarrow> bool" where
  "is_control op \<longleftrightarrow> 8 \<le> opcode_value op"

lemma opcode_value_less: "opcode_value op < 16"
  by (cases op) simp_all

lemma opcodes_value: "opcodes ! opcode_value op = op"
  by (cases op) (simp_all add: opcodes_def)

subsection \<open>Headers\<close>

record basic_header =
  b0 :: u8
  b1 :: u8

definition flag :: "bool \<Rightarrow> u8 \<Rightarrow> u8" where
  "flag c m = (if c then m else 0)"

definition basic_size_code :: "u64 \<Rightarrow> u8" where
  "basic_size_code sz =
     (if sz \<le> 125 then ucast sz else if sz \<le> 0xFFFF then 0x7E else 0x7F)"

definition basic_header_new :: "opcode \<Rightarrow> u64 \<Rightarrow> bool \<Rightarrow> bool \<Rightarrow> bool \<Rightarrow> bool \<Rightarrow> bool \<Rightarrow> basic_header" where
  "basic_header_new op sz fin masked rsv1 rsv2 rsv3 =
     \<lparr>b0 = flag fin 0x80 OR flag rsv1 0x40 OR flag rsv2 0x20 OR flag rsv3 0x10 OR (of_nat (opcode_value op) AND 0x0F),
      b1 = flag masked 0x80 OR basic_size_code sz\<rparr>"

text \<open>An extended header is an array of 12 bytes.\<close>

definition write_at :: "nat \<Rightarrow> 'a list \<Rightarrow> 'a list \<Rightarrow> 'a list" where
  "write_at k ys xs = take k xs @ ys @ drop (k + length ys) xs"

definition payload_offset :: "u64 \<Rightarrow> nat" where
  "payload_offset sz = (if sz \<le> 125 then 8 else if sz \<le> 0xFFFF then 6 else 0)"

definition copy_payload :: "u64 \<Rightarrow> u8 list \<Rightarrow> u8 list \<times> nat" where
  "copy_payload sz bytes =
     (write_at 0 (drop (payload_offset sz) (le_bytes 8 (htonll sz))) bytes, 8 - payload_offset sz)"

definition extended_header_new :: "u64 \<Rightarrow> u8 list" where
  "extended_header_new sz = fst (copy_payload sz (replicate 12 0))"

definition extended_header_key :: "u64 \<Rightarrow> u32 \<Rightarrow> u8 list" where
  "extended_header_key sz masking_key =
     (case copy_payload sz (replicate 12 0) of (bytes, offset) \<Rightarrow> write_at offset (le_bytes 4 masking_key) bytes)"

definition get_fin :: "basic_header \<Rightarrow> bool" where
  "get_fin h \<longleftrightarrow> b0 h AND 0x80 = 0x80"

definition get_rsv1 :: "basic_header \<Rightarrow> bool" where
  "get_rsv1 h \<longleftrightarrow> b0 h AND 0x40 = 0x40"

definition get_rsv2 :: "basic_header \<Rightarrow> bool" where
  "get_rsv2 h \<longleftrightarrow> b0 h AND 0x20 = 0x20"

definition get_rsv3 :: "basic_header \<Rightarrow> bool" where
  "get_rsv3 h \<longleftrightarrow> b0 h AND 0x10 = 0x10"

definition set_fin :: "bool \<Rightarrow> basic_header \<Rightarrow> basic_header" where
  "set_fin v h = h\<lparr>b0 := if v then b0 h OR 0x80 else b0 h AND NOT 0x80\<rparr>"

definition set_rsv1 :: "bool \<Rightarrow> basic_header \<Rightarrow> basic_header" where
  "set_rsv1 v h = h\<lparr>b0 := if v then b0 h OR 0x40 else b0 h AND NOT 0x40\<rparr>"

definition set_rsv2 :: "bool \<Rightarrow> basic_header \<Rightarrow> basic_header" where
  "set_rsv2 v h = h\<lparr>b0 := if v then b0 h OR 0x20 else b0 h AND NOT 0x20\<rparr>"

definition set_rsv3 :: "bool \<Rightarrow> basic_header \<Rightarrow> basic_header" where
  "set_rsv3 v h = h\<lparr>b0 := if v then b0 h OR 0x10 else b0 h AND NOT 0x10\<rparr>"

definition get_opcode :: "basic_header \<Rightarrow> opcode" where
  "get_opcode h = opcodes ! unat (b0 h AND 0x0F)"

definition get_masked :: "basic_header \<Rightarrow> bool" where
  "get_masked h \<longleftrightarrow> b1 h AND 0x80 = 0x80"

definition set_masked :: "bool \<Rightarrow> basic_header \<Rightarrow> basic_header" where
  "set_masked v h = h\<lparr>b1 := if v then b1 h OR 0x80 else b1 h AND NOT 0x80\<rparr>"

definition get_basic_size :: "basic_header \<Rightarrow> u8" where
  "get_basic_size h = b1 h AND 0x7F"

definition get_masking_key_offset :: "basic_header \<Rightarrow> nat" where
  "get_masking_key_offset h =
     (if get_basic_size h = 0x7E then 2 else if get_basic_size h = 0x7F then 8 else 0)"

definition get_header_len :: "basic_header \<Rightarrow> nat" where
  "get_header_len h = 2 + get_masking_key_offset h + (if get_masked h then 4 else 0)"

definition prepare_header :: "basic_header \<Rightarrow> u8 list \<Rightarrow> u8 list" where
  "prepare_header h e = [b0 h, b1 h] @ take (get_header_len h - 2) e"

definition get_masking_key :: "basic_header \<Rightarrow> u8 list \<Rightarrow> u32" where
  "get_masking_key h e =
     (if \<not> get_masked h then 0 else of_le_bytes (take 4 (drop (get_masking_key_offset h) e)))"

definition get_extended_size :: "u8 list \<Rightarrow> u16" where
  "get_extended_size e = ntohs (of_le_bytes (take 2 e))"

definition get_jumbo_size :: "u8 list \<Rightarrow> u64" where
  "get_jumbo_size e = ntohll (of_le_bytes (take 8 e))"

definition get_payload_size :: "basic_header \<Rightarrow> u8 list \<Rightarrow> u64" where
  "get_payload_size h e =
     (let val = get_basic_size h
      in if val \<le> 125 then ucast val else if val = 0x7E then ucast (get_extended_size e) else get_jumbo_size e)"

subsection \<open>Masking\<close>

definition key_byte :: "u32 \<Rightarrow> nat \<Rightarrow> u8" where
  "key_byte key i = le_bytes 4 key ! i"

definition prepare_masking_key :: "u32 \<Rightarrow> u64" where
  "prepare_masking_key key = push_bit 32 (ucast key) OR ucast key"

definition circshift_prepared_key :: "u64 \<Rightarrow> nat \<Rightarrow> u64" where
  "circshift_prepared_key prepared_key offset =
     (if offset = 0 then prepared_key
      else drop_bit (offset * 8) prepared_key OR push_bit ((8 - offset) * 8) prepared_key)"

text \<open>Byte by byte; the result iterator runs along the input.\<close>

fun mask_from :: "u8 list \<Rightarrow> u32 \<Rightarrow> nat \<Rightarrow> u8 list" where
  "mask_from [] key key_index = []"
| "mask_from (x # xs) key key_index = (x XOR key_byte key key_index) # mask_from xs key ((key_index + 1) mod 4)"

definition byte_mask :: "u8 list \<Rightarrow> u32 \<Rightarrow> nat \<Rightarrow> u8 list" where
  "byte_mask data key key_offset = mask_from data key (key_offset mod 4)"

text \<open>Word by word: the words of a buffer and the bytes that remain.\<close>

fun mask_words :: "nat \<Rightarrow> u64 \<Rightarrow> u8 list \<Rightarrow> u8 list" where
  "mask_words 0 prepared_key data = []"
| "mask_words (Suc n) prepared_key data =
     le_bytes 8 (of_le_bytes (take 8 data) XOR prepared_key) @ mask_words n prepared_key (drop 8 data)"

definition word_mask_exact :: "u8 list \<Rightarrow> u32 \<Rightarrow> u8 list" where
  "word_mask_exact data key =
     (let n = length data div 8
      in mask_words n (prepare_masking_key key) data
         @ map (\<lambda>i. data ! i XOR key_byte key (i mod 4)) [n * 8 ..< length data])"

definition word_mask_circ :: "u8 list \<Rightarrow> u64 \<Rightarrow> u8 list \<times> u64" where
  "word_mask_circ data prepared_key =
     (let n = length data div 8; l = length data - n * 8; start = length data - l
      in (mask_words n prepared_key data @ map (\<lambda>i. data ! (start + i) XOR le_bytes 8 prepared_key ! i) [0 ..< l],
          circshift_prepared_key prepared_key l))"

definition byte_mask_circ :: "u8 list \<Rightarrow> u64 \<Rightarrow> u8 list \<times> u64" where
  "byte_mask_circ data prepared_key =
     (map (\<lambda>i. data ! i XOR key_byte (ucast prepared_key) (i mod 4)) [0 ..< length data],
      circshift_prepared_key prepared_key (length data mod 4))"

subsection \<open>What a header says is read back\<close>

lemma low_bits: "list_all (\<lambda>n. (of_nat n :: u8) AND 0x7F = of_nat n) [0 ..< 128]"
  by code_simp

lemma byte_and_7F: "b \<le> 0x7F \<Longrightarrow> b AND 0x7F = (b :: u8)"
proof -
  assume "b \<le> 0x7F"
  then have "unat b \<in> set [0 ..< 128]" unfolding set_upt by (simp add: word_le_nat_alt)
  then show ?thesis using low_bits unfolding list_all_iff by fastforce
qed

lemmas header_bits = basic_header_new_def flag_def bit.conj_disj_distrib2 and.assoc

lemma header_fin [simp]: "get_fin (basic_header_new op sz fin masked r1 r2 r3) = fin"
  by (simp add: get_fin_def header_bits)

lemma header_rsv [simp]:
  "get_rsv1 (basic_header_new op sz fin masked r1 r2 r3) = r1"
  "get_rsv2 (basic_header_new op sz fin masked r1 r2 r3) = r2"
  "get_rsv3 (basic_header_new op sz fin masked r1 r2 r3) = r3"
  by (simp_all add: get_rsv1_def get_rsv2_def get_rsv3_def header_bits)

lemma header_opcode [simp]: "get_opcode (basic_header_new op sz fin masked r1 r2 r3) = op"
proof -
  have "unat (of_nat (opcode_value op) AND 0x0F :: u8) = opcode_value op"
    by (cases op) simp_all
  then show ?thesis by (simp add: get_opcode_def header_bits opcodes_value)
qed

lemma unat_small_size: "sz \<le> 125 \<Longrightarrow> unat (ucast sz :: u8) = unat (sz :: u64)"
  by (simp add: unsigned_ucast_eq take_bit_nat_def word_le_nat_alt)

lemma size_code_small: "basic_size_code sz \<le> 0x7F"
  by (auto simp: basic_size_code_def word_le_nat_alt [where 'a = 8] unat_small_size) (simp add: word_le_nat_alt)

lemma header_size [simp]: "get_basic_size (basic_header_new op sz fin masked r1 r2 r3) = basic_size_code sz"
  using byte_and_7F [OF size_code_small, of sz]
  by (auto simp: get_basic_size_def basic_header_new_def flag_def bit.conj_disj_distrib2)

lemma header_masked [simp]: "get_masked (basic_header_new op sz fin masked r1 r2 r3) = masked"
proof -
  have "basic_size_code sz AND 0x80 = 0"
    using arg_cong [OF byte_and_7F [OF size_code_small, of sz], of "\<lambda>x. x AND 0x80"]
    by (simp add: and.assoc)
  then show ?thesis by (auto simp: get_masked_def basic_header_new_def flag_def bit.conj_disj_distrib2)
qed

lemma write_at_0: "write_at 0 ys xs = ys @ drop (length ys) xs"
  by (simp add: write_at_def)

lemma copy_payload_new:
  "copy_payload sz (replicate 12 0) =
     (drop (payload_offset sz) (rev (le_bytes 8 sz)) @ replicate (4 + payload_offset sz) 0, 8 - payload_offset sz)"
  by (simp add: copy_payload_def write_at_0 le_bytes_htonll payload_offset_def)

lemma extended_header_bytes:
  "extended_header_new sz = drop (payload_offset sz) (rev (le_bytes 8 sz)) @ replicate (4 + payload_offset sz) 0"
  "extended_header_key sz key =
     drop (payload_offset sz) (rev (le_bytes 8 sz)) @ le_bytes 4 key @ replicate (payload_offset sz) 0"
  by (simp_all add: extended_header_new_def extended_header_key_def copy_payload_new write_at_def payload_offset_def)

lemma key_offset [simp]:
  "get_masking_key_offset (basic_header_new op sz fin masked r1 r2 r3) = 8 - payload_offset sz"
proof -
  have "sz \<le> 125 \<Longrightarrow> (ucast sz :: u8) \<noteq> 0x7E \<and> (ucast sz :: u8) \<noteq> 0x7F"
    using unat_small_size [of sz] by (auto simp: word_le_nat_alt)
  then show ?thesis by (auto simp: get_masking_key_offset_def basic_size_code_def payload_offset_def)
qed

text \<open>The bytes of the length field and its value.\<close>

lemma le_bytes_ucast:
  assumes "8 * n \<le> LENGTH('b)" "n \<le> m"
  shows "take n (le_bytes m w) = le_bytes n (ucast (w :: 'a::len word) :: 'b::len word)"
proof (rule nth_equalityI)
  fix i assume "i < length (take n (le_bytes m w))"
  then have i: "i < n" "i < m" by simp_all
  have "(ucast (drop_bit (8 * i) w) :: u8) = ucast (drop_bit (8 * i) (ucast w :: 'b word))"
  proof (rule bit_word_eqI)
    fix k assume "k < LENGTH(8)"
    then have "8 * i + k < LENGTH('b)" using assms i by simp
    then show "bit (ucast (drop_bit (8 * i) w) :: u8) k = bit (ucast (drop_bit (8 * i) (ucast w :: 'b word)) :: u8) k"
      by (simp add: bit_ucast_iff bit_drop_bit_eq)
  qed
  then show "take n (le_bytes m w) ! i = le_bytes n (ucast w :: 'b word) ! i" using i by (simp add: nth_le_bytes)
qed (simp add: assms)

lemma u16_bytes: "ntohs (of_le_bytes (drop 6 (rev (le_bytes 8 sz)))) = ucast (sz :: u64)"
proof -
  have "drop 6 (rev (le_bytes 8 sz)) = rev (le_bytes 2 (ucast sz :: u16))"
    using le_bytes_ucast [of 2 8 sz, where 'b = 16] by (simp add: drop_rev)
  then show ?thesis by (simp add: ntohs_def le_bytes_of of_le_bytes_le)
qed

lemma jumbo_bytes: "ntohll (of_le_bytes (rev (le_bytes 8 sz))) = sz"
  by (simp add: ntohll_def htonll_def le_bytes_of of_le_bytes_le)

lemma header_payload_size:
  assumes "take (8 - payload_offset sz) e = drop (payload_offset sz) (rev (le_bytes 8 sz))"
  shows "get_payload_size (basic_header_new op sz fin masked r1 r2 r3) e = sz"
proof -
  consider "sz \<le> 125" | "\<not> sz \<le> 125" "sz \<le> 0xFFFF" | "\<not> sz \<le> 125" "\<not> sz \<le> 0xFFFF" by blast
  then show ?thesis
  proof cases
    case 1
    have "(ucast sz :: u8) \<le> 125" "(ucast (ucast sz :: u8) :: u64) = sz"
      using unat_small_size [OF 1] 1 by (simp_all add: word_le_nat_alt word_unat_eq_iff unsigned_ucast_eq unsigned_take_bit_eq)
    then show ?thesis using 1 by (simp add: get_payload_size_def basic_size_code_def)
  next
    case 2
    have "(ucast (ucast sz :: u16) :: u64) = sz"
      using 2 by (simp add: word_le_nat_alt word_unat_eq_iff unsigned_ucast_eq unsigned_take_bit_eq take_bit_nat_def)
    then show ?thesis
      using 2 assms u16_bytes [of sz]
      by (simp add: get_payload_size_def basic_size_code_def get_extended_size_def payload_offset_def)
  next
    case 3
    then show ?thesis
      using assms jumbo_bytes [of sz]
      by (simp add: get_payload_size_def basic_size_code_def get_jumbo_size_def payload_offset_def)
  qed
qed

lemma header_payload_sizes [simp]:
  "get_payload_size (basic_header_new op sz fin masked r1 r2 r3) (extended_header_new sz) = sz"
  "get_payload_size (basic_header_new op sz fin masked r1 r2 r3) (extended_header_key sz key) = sz"
  by (rule header_payload_size, simp add: extended_header_bytes)+

lemma header_masking_key [simp]:
  "get_masking_key (basic_header_new op sz fin True r1 r2 r3) (extended_header_key sz key) = key"
  by (simp add: get_masking_key_def extended_header_bytes of_le_bytes_le)

lemma header_length:
  "get_header_len (basic_header_new op sz fin masked r1 r2 r3) = 2 + (8 - payload_offset sz) + (if masked then 4 else 0)"
  by (simp add: get_header_len_def)

subsection \<open>All ways of masking agree\<close>

lemma length_mask_from [simp]: "length (mask_from xs key k) = length xs"
  by (induction xs arbitrary: k) simp_all

lemma nth_mask_from: "i < length xs \<Longrightarrow> k < 4 \<Longrightarrow> mask_from xs key k ! i = xs ! i XOR key_byte key ((k + i) mod 4)"
proof (induction xs arbitrary: i k)
  case (Cons x xs)
  then show ?case
  proof (cases i)
    case (Suc j)
    have "((k + 1) mod 4 + j) mod 4 = (k + Suc j) mod 4" by (metis add.assoc mod_add_left_eq plus_1_eq_Suc)
    then show ?thesis using Cons Suc by simp
  qed simp
qed simp

lemma length_byte_mask [simp]: "length (byte_mask data key k) = length data"
  by (simp add: byte_mask_def)

lemma nth_byte_mask: "i < length data \<Longrightarrow> byte_mask data key k ! i = data ! i XOR key_byte key ((k + i) mod 4)"
  by (simp add: byte_mask_def nth_mask_from mod_add_left_eq)

lemma byte_mask_twice: "byte_mask (byte_mask data key k) key k = data"
  by (rule nth_equalityI) (simp_all add: nth_byte_mask xor.assoc)

lemma byte_mask_append: "byte_mask (xs @ ys) key k = byte_mask xs key k @ byte_mask ys key (k + length xs)"
  by (rule nth_equalityI) (auto simp: nth_byte_mask nth_append)

lemma le_bytes_xor: "le_bytes n (v XOR w) = map2 (XOR) (le_bytes n v) (le_bytes n w)"
proof (rule nth_equalityI)
  fix i assume i: "i < length (le_bytes n (v XOR w))"
  have "(ucast (drop_bit (8 * i) (v XOR w)) :: u8) = ucast (drop_bit (8 * i) v) XOR ucast (drop_bit (8 * i) w)"
    by (rule bit_word_eqI) (auto simp: bit_ucast_iff bit_drop_bit_eq bit_xor_iff dest: bit_imp_le_length)
  then show "le_bytes n (v XOR w) ! i = map2 (XOR) (le_bytes n v) (le_bytes n w) ! i"
    using i by (simp add: nth_le_bytes)
qed simp

lemma length_mask_words [simp]: "length (mask_words n pk data) = 8 * n"
  by (induction n arbitrary: data) simp_all

lemma nth_mask_words:
  "i < 8 * n \<Longrightarrow> 8 * n \<le> length data \<Longrightarrow> mask_words n pk data ! i = data ! i XOR le_bytes 8 pk ! (i mod 8)"
proof (induction n arbitrary: i data)
  case (Suc n)
  have l: "length (take 8 data) = 8" using Suc.prems by simp
  show ?case
  proof (cases "i < 8")
    case True
    then show ?thesis using Suc.prems l by (simp add: nth_append le_bytes_xor le_bytes_of)
  next
    case False
    then have "mask_words n pk (drop 8 data) ! (i - 8) = drop 8 data ! (i - 8) XOR le_bytes 8 pk ! ((i - 8) mod 8)"
      using Suc.prems by (intro Suc.IH) auto
    then show ?thesis using False Suc.prems by (simp add: nth_append le_mod_geq)
  qed
qed simp

text \<open>\<open>pk\<close> is the key in a machine word, ready for the payload from position \<open>k\<close> on.\<close>

definition masks_at :: "u64 \<Rightarrow> u32 \<Rightarrow> nat \<Rightarrow> bool" where
  "masks_at pk key k \<longleftrightarrow> (\<forall>i < 8. le_bytes 8 pk ! i = key_byte key ((k + i) mod 4))"

lemma nth_key_byte: "key_byte key (i mod 4) = ucast (drop_bit (8 * (i mod 4)) key)"
  by (simp add: key_byte_def nth_le_bytes)

lemma masks_at_prepared: "masks_at (prepare_masking_key key) key 0"
  unfolding masks_at_def
proof (intro allI impI)
  fix i :: nat assume i: "i < 8"
  have "(ucast (drop_bit (8 * i) (prepare_masking_key key)) :: u8) = ucast (drop_bit (8 * (i mod 4)) key)"
  proof (rule bit_word_eqI)
    fix j assume "j < LENGTH(8)"
    then have j: "j < 8" by simp
    consider "i < 4" | "4 \<le> i" "i mod 4 = i - 4" using i by (cases "i < 4") (auto simp: le_mod_geq)
    then show "bit (ucast (drop_bit (8 * i) (prepare_masking_key key)) :: u8) j =
        bit (ucast (drop_bit (8 * (i mod 4)) key) :: u8) j"
    proof cases
      case 1
      then have "8 * i + j < 32" using j by linarith
      then show ?thesis
        using 1 j by (auto simp: bit_ucast_iff bit_drop_bit_eq prepare_masking_key_def bit_or_iff bit_push_bit_iff)
    next
      case 2
      have "\<not> bit key (8 * i + j)" using 2 bit_imp_le_length [of key "8 * i + j"] by auto
      moreover have "8 * i + j - 32 = 8 * (i - 4) + j" "8 * i + j < 64" "32 \<le> 8 * i + j" "8 * (i - 4) + j < 64" using 2 i j by linarith+
      ultimately show ?thesis
        using 2 j by (simp add: bit_ucast_iff bit_drop_bit_eq prepare_masking_key_def bit_or_iff bit_push_bit_iff)
    qed
  qed
  then show "le_bytes 8 (prepare_masking_key key) ! i = key_byte key ((0 + i) mod 4)"
    using i by (simp add: nth_le_bytes nth_key_byte)
qed

lemma circshift_bytes:
  assumes "i < 8" "m < 8"
  shows "le_bytes 8 (circshift_prepared_key pk m) ! i = le_bytes 8 pk ! ((m + i) mod 8)"
proof (cases "m = 0")
  case True
  then show ?thesis using assms by (simp add: circshift_prepared_key_def)
next
  case False
  have "(ucast (drop_bit (8 * i) (circshift_prepared_key pk m)) :: u8) = ucast (drop_bit (8 * ((m + i) mod 8)) pk)"
  proof (rule bit_word_eqI)
    fix j assume "j < LENGTH(8)"
    then have j: "j < 8" by simp
    consider "m + i < 8" | "8 \<le> m + i" "(m + i) mod 8 = m + i - 8"
      using assms by (cases "m + i < 8") (auto simp: le_mod_geq)
    then show "bit (ucast (drop_bit (8 * i) (circshift_prepared_key pk m)) :: u8) j =
        bit (ucast (drop_bit (8 * ((m + i) mod 8)) pk) :: u8) j"
    proof cases
      case 1
      have "8 * i + j < (8 - m) * 8" using 1 j by (simp add: algebra_simps diff_mult_distrib2)
      then show ?thesis
        using 1 j False
        by (simp add: bit_ucast_iff bit_drop_bit_eq circshift_prepared_key_def bit_or_iff bit_push_bit_iff
            mult.commute [of m 8] add.commute [of "8 * i" "8 * m"])
    next
      case 2
      have "\<not> bit pk (m * 8 + (8 * i + j))" using 2 bit_imp_le_length [of pk "m * 8 + (8 * i + j)"] by auto
      moreover have "8 * i + j - (8 - m) * 8 = 8 * (m + i - 8) + j" "(8 - m) * 8 \<le> 8 * i + j" "8 * i + j < 64"
        using 2 assms j by (simp_all add: diff_mult_distrib)
      ultimately show ?thesis
        using 2 j False
        by (simp add: bit_ucast_iff bit_drop_bit_eq circshift_prepared_key_def bit_or_iff bit_push_bit_iff)
    qed
  qed
  then show ?thesis using assms by (simp add: nth_le_bytes)
qed

lemma masks_at_mod: "k mod 4 = k' mod 4 \<Longrightarrow> masks_at pk key k = masks_at pk key k'"
  unfolding masks_at_def by (metis mod_add_left_eq)

lemma masks_at_shift:
  assumes "masks_at pk key k" "m < 8"
  shows "masks_at (circshift_prepared_key pk m) key (k + m)"
  unfolding masks_at_def
proof (intro allI impI)
  fix i :: nat assume i: "i < 8"
  have "(m + i) mod 8 mod 4 = (m + i) mod 4" by (simp add: mod_mod_cancel)
  then have "(k + (m + i) mod 8) mod 4 = (k + m + i) mod 4" by (metis add.assoc mod_add_right_eq)
  then show "le_bytes 8 (circshift_prepared_key pk m) ! i = key_byte key ((k + m + i) mod 4)"
    using assms i circshift_bytes [OF i assms(2), of pk] by (simp add: masks_at_def)
qed

lemma byte_mask_circ_at:
  assumes "masks_at pk key k"
  shows "\<exists>pk'. byte_mask_circ data pk = (byte_mask data key k, pk') \<and> masks_at pk' key (k + length data)"
proof -
  have "key_byte (ucast pk) (i mod 4) = key_byte key ((k + i) mod 4)" for i
  proof -
    have lt: "i mod 4 < 4" by simp
    have "key_byte (ucast pk) (i mod 4) = le_bytes 8 pk ! (i mod 4)"
      using le_bytes_ucast [of 4 8 pk, where 'b = 32] nth_take [OF lt, of "le_bytes 8 pk"] by (simp add: key_byte_def)
    moreover have "i mod 4 < 8" using lt by linarith
    ultimately show ?thesis using assms by (simp add: masks_at_def mod_add_right_eq)
  qed
  then have "fst (byte_mask_circ data pk) = byte_mask data key k"
    by (intro nth_equalityI) (simp_all add: byte_mask_circ_def nth_byte_mask)
  moreover have "masks_at (snd (byte_mask_circ data pk)) key (k + length data)"
    using masks_at_shift [OF assms, of "length data mod 4"] masks_at_mod [of "k + length data mod 4" "k + length data"]
    by (simp add: byte_mask_circ_def mod_add_right_eq less_trans [of _ 4 8])
  ultimately show ?thesis by (metis prod.collapse)
qed

lemma word_mask_circ_at:
  assumes "masks_at pk key k"
  shows "\<exists>pk'. word_mask_circ data pk = (byte_mask data key k, pk') \<and> masks_at pk' key (k + length data)"
proof -
  let ?n = "length data div 8" let ?l = "length data mod 8"
  have l: "length data - ?n * 8 = ?l" "length data - ?l = 8 * ?n" "?l < 8"
    using minus_mult_div_eq_mod [of "length data" 8] by (simp_all add: mult.commute [of _ 8] minus_mod_eq_mult_div)
  have byte: "le_bytes 8 pk ! (i mod 8) = key_byte key ((k + i) mod 4)" for i
  proof -
    have "i mod 8 mod 4 = i mod 4" by (simp add: mod_mod_cancel)
    then have "(k + i mod 8) mod 4 = (k + i) mod 4" by (metis mod_add_right_eq)
    then show ?thesis using assms by (simp add: masks_at_def)
  qed
  have out: "fst (word_mask_circ data pk) = mask_words ?n pk data @ map (\<lambda>j. data ! (8 * ?n + j) XOR le_bytes 8 pk ! j) [0 ..< ?l]"
    unfolding word_mask_circ_def Let_def l by simp
  have len: "8 * ?n + ?l = length data" by simp
  have "fst (word_mask_circ data pk) = byte_mask data key k"
  proof (rule nth_equalityI)
    show "length (fst (word_mask_circ data pk)) = length (byte_mask data key k)" unfolding out by simp
    fix i assume "i < length (fst (word_mask_circ data pk))"
    then have i: "i < length data" unfolding out by simp
    show "fst (word_mask_circ data pk) ! i = byte_mask data key k ! i"
    proof (cases "i < 8 * ?n")
      case True
      then have "fst (word_mask_circ data pk) ! i = data ! i XOR le_bytes 8 pk ! (i mod 8)"
        unfolding out nth_append using nth_mask_words [OF True, of data pk] by simp
      then show ?thesis using byte [of i] nth_byte_mask [OF i] by simp
    next
      case False
      then obtain j where j: "i = 8 * ?n + j" "j < ?l" using i len by (metis le_Suc_ex nat_add_left_cancel_less not_less)
      then have "i mod 8 = j" using l(3) by simp
      moreover have "fst (word_mask_circ data pk) ! i = data ! i XOR le_bytes 8 pk ! j"
        unfolding out nth_append j(1) using j(2) by simp
      ultimately show ?thesis using byte [of i] nth_byte_mask [OF i] by simp
    qed
  qed
  moreover have "masks_at (snd (word_mask_circ data pk)) key (k + length data)"
  proof -
    have "length data mod 8 mod 4 = length data mod 4" by (simp add: mod_mod_cancel)
    then have "(k + ?l) mod 4 = (k + length data) mod 4" by (metis mod_add_right_eq)
    then show ?thesis
      using masks_at_shift [OF assms l(3)] masks_at_mod [of "k + ?l" "k + length data"] l(1)
      by (simp add: word_mask_circ_def Let_def)
  qed
  ultimately show ?thesis by (metis prod.collapse)
qed

lemma word_mask_exact_byte: "word_mask_exact data key = byte_mask data key 0"
proof (rule nth_equalityI)
  have l: "8 * (length data div 8) \<le> length data" by simp
  show "length (word_mask_exact data key) = length (byte_mask data key 0)"
    using l by (simp add: word_mask_exact_def Let_def)
  fix i assume "i < length (word_mask_exact data key)"
  then have i: "i < length data" using l by (simp add: word_mask_exact_def Let_def)
  have "i mod 8 mod 4 = i mod 4" by (simp add: mod_mod_cancel)
  moreover have "le_bytes 8 (prepare_masking_key key) ! (i mod 8) = key_byte key (i mod 8 mod 4)"
    using masks_at_prepared [of key] by (simp add: masks_at_def)
  ultimately show "word_mask_exact data key ! i = byte_mask data key 0 ! i"
    using i l by (cases "i < 8 * (length data div 8)")
      (simp_all add: word_mask_exact_def Let_def nth_append nth_mask_words nth_byte_mask mult.commute)
qed

text \<open>A payload that arrives in pieces, the key word passed on from piece to piece.\<close>

fun mask_stream :: "(u8 list \<Rightarrow> u64 \<Rightarrow> u8 list \<times> u64) \<Rightarrow> u8 list list \<Rightarrow> u64 \<Rightarrow> u8 list" where
  "mask_stream f [] pk = []"
| "mask_stream f (data # chunks) pk = (case f data pk of (out, pk') \<Rightarrow> out @ mask_stream f chunks pk')"

lemma mask_stream_at:
  assumes "\<And>data pk k. masks_at pk key k \<Longrightarrow> \<exists>pk'. f data pk = (byte_mask data key k, pk') \<and> masks_at pk' key (k + length data)"
  shows "masks_at pk key k \<Longrightarrow> mask_stream f chunks pk = byte_mask (concat chunks) key k"
proof (induction chunks arbitrary: pk k)
  case (Cons data chunks)
  then obtain pk' where "f data pk = (byte_mask data key k, pk')" "masks_at pk' key (k + length data)"
    using assms by blast
  then show ?case using Cons.IH by (simp add: byte_mask_append)
qed (simp add: byte_mask_def)

text \<open>C18: The three optimised ways of masking agree with the byte-by-byte one: whole messages at once, and payloads
  that arrive in pieces of any lengths; and masking twice with the same key gives the payload back.\<close>

theorem masking_agrees:
  "word_mask_exact data key = byte_mask data key 0
   \<and> mask_stream byte_mask_circ chunks (prepare_masking_key key) = byte_mask (concat chunks) key 0
   \<and> mask_stream word_mask_circ chunks (prepare_masking_key key) = byte_mask (concat chunks) key 0
   \<and> byte_mask (byte_mask data key k) key k = data"
  using word_mask_exact_byte mask_stream_at [OF byte_mask_circ_at masks_at_prepared]
    mask_stream_at [OF word_mask_circ_at masks_at_prepared] byte_mask_twice by simp

end
