(* ===== verification/Ws_Utf8.thy ===== *)
theory Ws_Utf8
  imports Utf8_Automaton Ws_Frame
begin

text \<open>
  \<^verbatim>\<open>websocketpp/utf8_validator.hpp\<close>: the streaming validator of text messages, and what it accepts: exactly the
  UTF-8 encodings of Unicode scalar values, in whatever pieces they arrive.
\<close>

unbundle bit_operations_syntax

definition validator_table :: "nat list" where
  "validator_table =
     [0, 0, 0, 0, 0, 0, 0, 0, 0, 0, 0, 0, 0, 0, 0, 0, 0, 0, 0, 0, 0, 0, 0, 0, 0, 0, 0, 0, 0, 0, 0, 0,
      0, 0, 0, 0, 0, 0, 0, 0, 0, 0, 0, 0, 0, 0, 0, 0, 0, 0, 0, 0, 0, 0, 0, 0, 0, 0, 0, 0, 0, 0, 0, 0,
      0, 0, 0, 0, 0, 0, 0, 0, 0, 0, 0, 0, 0, 0, 0, 0, 0, 0, 0, 0, 0, 0, 0, 0, 0, 0, 0, 0, 0, 0, 0, 0,
      0, 0, 0, 0, 0, 0, 0, 0, 0, 0, 0, 0, 0, 0, 0, 0, 0, 0, 0, 0, 0, 0, 0, 0, 0, 0, 0, 0, 0, 0, 0, 0,
      1, 1, 1, 1, 1, 1, 1, 1, 1, 1, 1, 1, 1, 1, 1, 1, 9, 9, 9, 9, 9, 9, 9, 9, 9, 9, 9, 9, 9, 9, 9, 9,
      7, 7, 7, 7, 7, 7, 7, 7, 7, 7, 7, 7, 7, 7, 7, 7, 7, 7, 7, 7, 7, 7, 7, 7, 7, 7, 7, 7, 7, 7, 7, 7,
      8, 8, 2, 2, 2, 2, 2, 2, 2, 2, 2, 2, 2, 2, 2, 2, 2, 2, 2, 2, 2, 2, 2, 2, 2, 2, 2, 2, 2, 2, 2, 2,
      0xA, 0x3, 0x3, 0x3, 0x3, 0x3, 0x3, 0x3, 0x3, 0x3, 0x3, 0x3, 0x3, 0x4, 0x3, 0x3,
      0xB, 0x6, 0x6, 0x6, 0x5, 0x8, 0x8, 0x8, 0x8, 0x8, 0x8, 0x8, 0x8, 0x8, 0x8, 0x8,
      0x0, 0x1, 0x2, 0x3, 0x5, 0x8, 0x7, 0x1, 0x1, 0x1, 0x4, 0x6, 0x1, 0x1, 0x1, 0x1,
      1, 1, 1, 1, 1, 1, 1, 1, 1, 1, 1, 1, 1, 1, 1, 1, 1, 0, 1, 1, 1, 1, 1, 0, 1, 0, 1, 1, 1, 1, 1, 1,
      1, 2, 1, 1, 1, 1, 1, 2, 1, 2, 1, 1, 1, 1, 1, 1, 1, 1, 1, 1, 1, 1, 1, 2, 1, 1, 1, 1, 1, 1, 1, 1,
      1, 2, 1, 1, 1, 1, 1, 1, 1, 2, 1, 1, 1, 1, 1, 1, 1, 1, 1, 1, 1, 1, 1, 3, 1, 3, 1, 1, 1, 1, 1, 1,
      1, 3, 1, 1, 1, 1, 1, 3, 1, 3, 1, 1, 1, 1, 1, 1, 1, 3, 1, 1, 1, 1, 1, 1, 1, 1, 1, 1, 1, 1, 1, 1]"

record validator =
  vd_state :: nat
  vd_codepoint :: u32

definition validator_new :: validator where
  "validator_new = \<lparr>vd_state = 0, vd_codepoint = 0\<rparr>"

text \<open>\<^verbatim>\<open>utf8_validator::decode\<close>: the state after a byte; 0 accepts and 1 rejects.\<close>

definition validator_decode :: "u8 \<Rightarrow> validator \<Rightarrow> validator" where
  "validator_decode byte v =
     (let type = validator_table ! unat byte
      in \<lparr>vd_state = validator_table ! (256 + vd_state v * 16 + type),
          vd_codepoint = (if vd_state v \<noteq> 0 then (ucast byte AND 0x3F) OR push_bit 6 (vd_codepoint v)
                          else drop_bit type 0xFF AND ucast byte)\<rparr>)"

definition validator_consume :: "u8 \<Rightarrow> validator \<Rightarrow> bool \<times> validator" where
  "validator_consume byte v = (let v' = validator_decode byte v in (vd_state v' \<noteq> 1, v'))"

text \<open>The bytes of a range, up to the first that is rejected.\<close>

fun validator_range :: "u8 list \<Rightarrow> validator \<Rightarrow> bool \<times> validator" where
  "validator_range [] v = (True, v)"
| "validator_range (byte # bytes) v =
     (let v' = validator_decode byte v in if vd_state v' = 1 then (False, v') else validator_range bytes v')"

definition validator_complete :: "validator \<Rightarrow> bool" where
  "validator_complete v \<longleftrightarrow> vd_state v = 0"

definition validator_reset :: "validator \<Rightarrow> validator" where
  "validator_reset v = v\<lparr>vd_state := 0, vd_codepoint := 0\<rparr>"

definition validate :: "u8 list \<Rightarrow> bool" where
  "validate s = (case validator_range s validator_new of (ok, v) \<Rightarrow> if \<not> ok then False else validator_complete v)"

subsection \<open>What it accepts\<close>

lemma validator_table: "validator_table = utf8d"
  by (simp only: validator_table_def utf8d_def)

lemma byte_less: "unat (b :: u8) < 256"
  using unsigned_less [of b] by simp

lemma validator_step: "vd_state (validator_decode b v) = fst (decode (vd_state v) cp (unat b))"
  by (simp add: validator_decode_def decode_def Let_def validator_table)

definition running :: "validator \<Rightarrow> bool" where
  "running v \<longleftrightarrow> vd_state v < 9 \<and> vd_state v \<noteq> 1"

lemma running_new [simp]: "running validator_new"
  by (simp add: running_def validator_new_def)

lemma running_step: "running v \<Longrightarrow> vd_state (validator_decode b v) \<noteq> 1 \<Longrightarrow> running (validator_decode b v)"
  using decode_below [of "vd_state v" "unat b" 0] by (simp add: running_def validator_step [of b v 0] byte_less)

lemma validator_completes:
  "running v \<Longrightarrow>
   (fst (validator_range bs v) \<and> completes (vd_state (snd (validator_range bs v))) cs \<longleftrightarrow>
    completes (vd_state v) (map unat bs @ cs))"
proof (induction bs arbitrary: v)
  case (Cons b bs)
  have "completes (vd_state v) (unat b # map unat bs @ cs) \<longleftrightarrow>
      vd_state (validator_decode b v) \<noteq> 1 \<and> completes (vd_state (validator_decode b v)) (map unat bs @ cs)"
    using completes_step [where s = "vd_state v" and b = "unat b" and cp = 0] Cons.prems
    by (simp add: running_def validator_step [of b v 0] byte_less)
  then show ?case using Cons.IH [of "validator_decode b v"] running_step [OF Cons.prems] by (auto simp: Let_def)
qed simp

lemma running_range: "running v \<Longrightarrow> fst (validator_range bs v) \<Longrightarrow> running (snd (validator_range bs v))"
  by (induction bs arbitrary: v) (auto simp: Let_def running_step split: if_splits)

lemma validator_range_append:
  "validator_range (bs @ cs) v =
     (if fst (validator_range bs v) then validator_range cs (snd (validator_range bs v)) else validator_range bs v)"
  by (induction bs arbitrary: v) (auto simp: Let_def)

lemma completes_Nil: "running v \<Longrightarrow> completes (vd_state v) [] \<longleftrightarrow> vd_state v = 0"
  using expected_nonempty [of "vd_state v"] by (cases "vd_state v = 0") (auto simp: completes_def running_def in_ranges_def expected_simps)

lemma completes_start: "completes 0 bs \<longleftrightarrow> utf8_text bs"
  by (simp add: completes_def expected_simps)

lemma validate_utf8: "validate s \<longleftrightarrow> utf8_text (map unat s)"
proof -
  obtain ok v where v: "validator_range s validator_new = (ok, v)" by (cases "validator_range s validator_new")
  have start: "vd_state validator_new = 0" by (simp add: validator_new_def)
  have "ok \<and> completes (vd_state v) [] \<longleftrightarrow> completes 0 (map unat s)"
    using validator_completes [of validator_new s "[]"] v start by simp
  moreover have "ok \<Longrightarrow> running v" using running_range [of validator_new s] v by simp
  ultimately show ?thesis using v completes_Nil [of v] by (auto simp: validate_def validator_complete_def completes_start)
qed

text \<open>C19: The validator of the WebSocket library accepts exactly the encodings of Unicode scalar values, and fed a
  message in pieces it ends in the same state, and fails in the same place, as on the whole message.\<close>

theorem validator_streams:
  "(validate s \<longleftrightarrow> (\<exists>cs. list_all scalar cs \<and> map unat s = concat (map utf8_units cs)))
   \<and> validator_range (bs @ cs) v =
       (if fst (validator_range bs v) then validator_range cs (snd (validator_range bs v)) else validator_range bs v)"
  using validate_utf8 validator_range_append by (simp add: utf8_text_def)

end
