(* ===== verification/Ws_Codes.thy ===== *)
theory Ws_Codes
  imports Ws_Utf8 Conversions
begin

text \<open>
  The error codes of the WebSocket library with their texts (\<^verbatim>\<open>error.hpp\<close>, \<^verbatim>\<open>processors/base.hpp\<close>,
  \<^verbatim>\<open>transport/base/connection.hpp\<close>) and the close codes with the payload of a close frame (\<^verbatim>\<open>close.hpp\<close>).
  A \<^verbatim>\<open>std::string\<close> is the list of its bytes here; an error code that reports success is \<open>None\<close>.
\<close>

definition bytes_of :: "string \<Rightarrow> u8 list" where
  "bytes_of s = map of_char s"

subsection \<open>Error codes\<close>

datatype processor_error =
    PE_general | PE_bad_request | PE_protocol_violation | PE_message_too_big | PE_invalid_payload
  | PE_invalid_arguments | PE_invalid_opcode | PE_control_too_big | PE_invalid_rsv_bit
  | PE_fragmented_control | PE_invalid_continuation | PE_masking_required | PE_masking_forbidden
  | PE_non_minimal_encoding | PE_requires_64bit | PE_invalid_utf8 | PE_not_implemented
  | PE_invalid_http_method | PE_invalid_http_version | PE_invalid_http_status
  | PE_missing_required_header | PE_sha1_library | PE_no_protocol_support | PE_reserved_close_code
  | PE_invalid_close_code | PE_reason_requires_code | PE_subprotocol_parse_error
  | PE_extension_parse_error | PE_extensions_disabled | PE_short_key3

primrec processor_message :: "processor_error \<Rightarrow> string" where
  "processor_message PE_general = ''Generic processor error''"
| "processor_message PE_bad_request = ''invalid user input''"
| "processor_message PE_protocol_violation = ''Generic protocol violation''"
| "processor_message PE_message_too_big = ''A message was too large''"
| "processor_message PE_invalid_payload = ''A payload contained invalid data''"
| "processor_message PE_invalid_arguments = ''invalid function arguments''"
| "processor_message PE_invalid_opcode = ''invalid opcode''"
| "processor_message PE_control_too_big = ''Control messages are limited to fewer than 125 characters''"
| "processor_message PE_invalid_rsv_bit = ''Invalid use of reserved bits''"
| "processor_message PE_fragmented_control = ''Control messages cannot be fragmented''"
| "processor_message PE_invalid_continuation = ''Invalid message continuation''"
| "processor_message PE_masking_required = ''Clients may not send unmasked frames''"
| "processor_message PE_masking_forbidden = ''Servers may not send masked frames''"
| "processor_message PE_non_minimal_encoding = ''Payload length was not minimally encoded''"
| "processor_message PE_requires_64bit = ''64 bit frames are not supported on 32 bit systems''"
| "processor_message PE_invalid_utf8 = ''Invalid UTF8 encoding''"
| "processor_message PE_not_implemented = ''Operation required not implemented functionality''"
| "processor_message PE_invalid_http_method = ''Invalid HTTP method.''"
| "processor_message PE_invalid_http_version = ''Invalid HTTP version.''"
| "processor_message PE_invalid_http_status = ''Invalid HTTP status.''"
| "processor_message PE_missing_required_header = ''A required HTTP header is missing''"
| "processor_message PE_sha1_library = ''SHA-1 library error''"
| "processor_message PE_no_protocol_support = ''The WebSocket protocol version in use does not support this feature''"
| "processor_message PE_reserved_close_code = ''Reserved close code used''"
| "processor_message PE_invalid_close_code = ''Invalid close code used''"
| "processor_message PE_reason_requires_code = ''Using a close reason requires a valid close code''"
| "processor_message PE_subprotocol_parse_error = ''Error parsing subprotocol header''"
| "processor_message PE_extension_parse_error = ''Error parsing extension header''"
| "processor_message PE_extensions_disabled = ''Extensions are disabled''"
| "processor_message PE_short_key3 = ''Short Hybi00 Key 3 read''"

datatype library_error =
    LE_general | LE_send_queue_full | LE_payload_violation | LE_endpoint_not_secure
  | LE_endpoint_unavailable | LE_invalid_uri | LE_no_outgoing_buffers | LE_no_incoming_buffers
  | LE_invalid_state | LE_bad_close_code | LE_reserved_close_code | LE_invalid_close_code
  | LE_invalid_utf8 | LE_invalid_subprotocol | LE_bad_connection | LE_test
  | LE_con_creation_failed | LE_unrequested_subprotocol | LE_client_only | LE_server_only
  | LE_http_connection_ended | LE_open_handshake_timeout | LE_close_handshake_timeout
  | LE_invalid_port | LE_async_accept_not_listening | LE_operation_canceled | LE_rejected
  | LE_upgrade_required | LE_invalid_version | LE_unsupported_version | LE_http_parse_error
  | LE_extension_neg_failed

primrec library_message :: "library_error \<Rightarrow> string" where
  "library_message LE_general = ''Generic error''"
| "library_message LE_send_queue_full = ''send queue full''"
| "library_message LE_payload_violation = ''payload violation''"
| "library_message LE_endpoint_not_secure = ''endpoint not secure''"
| "library_message LE_endpoint_unavailable = ''endpoint not available''"
| "library_message LE_invalid_uri = ''invalid uri''"
| "library_message LE_no_outgoing_buffers = ''no outgoing message buffers''"
| "library_message LE_no_incoming_buffers = ''no incoming message buffers''"
| "library_message LE_invalid_state = ''invalid state''"
| "library_message LE_bad_close_code = ''Unable to extract close code''"
| "library_message LE_reserved_close_code = ''Extracted close code is in a reserved range''"
| "library_message LE_invalid_close_code = ''Extracted close code is in an invalid range''"
| "library_message LE_invalid_utf8 = ''Invalid UTF-8''"
| "library_message LE_invalid_subprotocol = ''Invalid subprotocol''"
| "library_message LE_bad_connection = ''Bad Connection''"
| "library_message LE_test = ''Test Error''"
| "library_message LE_con_creation_failed = ''Connection creation attempt failed''"
| "library_message LE_unrequested_subprotocol = ''Selected subprotocol was not requested by the client''"
| "library_message LE_client_only = ''Feature not available on server endpoints''"
| "library_message LE_server_only = ''Feature not available on client endpoints''"
| "library_message LE_http_connection_ended = ''HTTP connection ended''"
| "library_message LE_open_handshake_timeout = ''The opening handshake timed out''"
| "library_message LE_close_handshake_timeout = ''The closing handshake timed out''"
| "library_message LE_invalid_port = ''Invalid URI port''"
| "library_message LE_async_accept_not_listening = ''Async Accept not listening''"
| "library_message LE_operation_canceled = ''Operation canceled''"
| "library_message LE_rejected = ''Connection rejected''"
| "library_message LE_upgrade_required = ''Upgrade required''"
| "library_message LE_invalid_version = ''Invalid version''"
| "library_message LE_unsupported_version = ''Unsupported version''"
| "library_message LE_http_parse_error = ''HTTP parse error''"
| "library_message LE_extension_neg_failed = ''Extension negotiation failed''"

datatype transport_error =
    TE_general | TE_pass_through | TE_invalid_num_bytes | TE_double_read | TE_operation_aborted
  | TE_operation_not_supported | TE_eof | TE_tls_short_read | TE_timeout
  | TE_action_after_shutdown | TE_tls_error

primrec transport_message :: "transport_error \<Rightarrow> string" where
  "transport_message TE_general = ''Generic transport policy error''"
| "transport_message TE_pass_through = ''Underlying Transport Error''"
| "transport_message TE_invalid_num_bytes = ''async_read_at_least call requested more bytes than buffer can store''"
| "transport_message TE_double_read = ''Unknown''"
| "transport_message TE_operation_aborted = ''The operation was aborted''"
| "transport_message TE_operation_not_supported = ''The operation is not supported by this transport''"
| "transport_message TE_eof = ''End of File''"
| "transport_message TE_tls_short_read = ''TLS Short Read''"
| "transport_message TE_timeout = ''Timer Expired''"
| "transport_message TE_action_after_shutdown = ''A transport action was requested after shutdown''"
| "transport_message TE_tls_error = ''Generic TLS related error''"

datatype error_code = Processor processor_error | Library library_error | Transport transport_error

primrec error_message_of :: "error_code \<Rightarrow> string" where
  "error_message_of (Processor e) = processor_message e"
| "error_message_of (Library e) = library_message e"
| "error_message_of (Transport e) = transport_message e"

subsection \<open>Close codes\<close>

type_synonym close_code = u16

definition close_reserved :: "close_code \<Rightarrow> bool" where
  "close_reserved code \<longleftrightarrow> 1016 \<le> code \<and> code \<le> 2999 \<or> code = 1004"

definition close_invalid :: "close_code \<Rightarrow> bool" where
  "close_invalid code \<longleftrightarrow> code \<le> 999 \<or> 5000 \<le> code \<or> code = 1005 \<or> code = 1006 \<or> code = 1015"

definition close_terminal :: "close_code \<Rightarrow> bool" where
  "close_terminal code \<longleftrightarrow> code = 1002 \<or> code = 1007 \<or> code = 1008 \<or> code = 1009 \<or> code = 1011"

definition close_string :: "close_code \<Rightarrow> string" where
  "close_string code =
     (if code = 1000 then ''Normal close''
      else if code = 1001 then ''Going away''
      else if code = 1002 then ''Protocol error''
      else if code = 1003 then ''Unsupported data''
      else if code = 1005 then ''No status set''
      else if code = 1006 then ''Abnormal close''
      else if code = 1007 then ''Invalid payload''
      else if code = 1008 then ''Policy violoation''
      else if code = 1009 then ''Message too big''
      else if code = 1010 then ''Extension required''
      else if code = 1011 then ''Internal endpoint error''
      else if code = 1012 then ''Service restart''
      else if code = 1013 then ''Try again later''
      else if code = 1014 then ''Bad gateway''
      else if code = 1015 then ''TLS handshake failure''
      else if code = 3000 then ''Generic subprotocol error''
      else if code = 3001 then ''Invalid subprotocol data''
      else ''Unknown'')"

text \<open>\<^verbatim>\<open>to_ws\<close>: the close code that answers an error; 0 is the blank code.\<close>

definition to_ws :: "error_code \<Rightarrow> close_code" where
  "to_ws ec =
     (case ec of
        Processor e \<Rightarrow>
          if e \<in> set [PE_protocol_violation, PE_control_too_big, PE_invalid_opcode, PE_invalid_rsv_bit, PE_fragmented_control,
                PE_invalid_continuation, PE_masking_required, PE_masking_forbidden, PE_reserved_close_code, PE_invalid_close_code]
          then 1002
          else if e \<in> set [PE_invalid_payload, PE_invalid_utf8] then 1007
          else if e = PE_message_too_big then 1009
          else 1011
      | _ \<Rightarrow> 0)"

definition extract_code :: "u8 list \<Rightarrow> close_code \<times> error_code option" where
  "extract_code payload =
     (if payload = [] then (1005, None)
      else if length payload = 1 then (1002, Some (Library LE_bad_close_code))
      else let code = ntohs (of_le_bytes [payload ! 0, payload ! 1]);
               ec = (if close_invalid code then Some (Library LE_invalid_close_code) else None)
           in (code, if close_reserved code then Some (Library LE_reserved_close_code) else ec))"

definition extract_reason :: "u8 list \<Rightarrow> u8 list \<times> error_code option" where
  "extract_reason payload =
     (let reason = (if 2 < length payload then drop 2 payload else [])
      in (reason, if \<not> validate reason then Some (Library LE_invalid_utf8) else None))"

text \<open>The code a processor error is answered with is never blank, reserved or invalid, and always ends the connection.\<close>

lemma to_ws_processor: "to_ws (Processor e) \<in> {1002, 1007, 1009, 1011}"
  by (auto simp: to_ws_def)

lemma to_ws_valid:
  "\<not> close_reserved (to_ws (Processor e))" "\<not> close_invalid (to_ws (Processor e))" "close_terminal (to_ws (Processor e))"
  "to_ws (Processor e) \<noteq> 0" "to_ws (Processor e) \<noteq> 1005"
  using to_ws_processor [of e] by (auto simp: close_reserved_def close_invalid_def close_terminal_def)

end
