(* ===== verification/Ws_Hybi13.thy ===== *)
theory Ws_Hybi13
  imports Ws_Codes
begin

text \<open>
  \<^verbatim>\<open>websocketpp/processors/hybi13.hpp\<close>: the frames of RFC 6455 as they are read, by a state machine that is fed
  whatever bytes have arrived, and as they are prepared for sending.  Messages (\<^verbatim>\<open>message_buffer/message.hpp\<close>)
  are records behind optional pointers.  The compression extension is the disabled one, as in the program's
  configuration.  The random masking key is an argument.  A pointer that is not set, and a write behind the
  array of the extended header, are \<open>Undefined\<close>.
\<close>

unbundle bit_operations_syntax

subsection \<open>Messages\<close>

record message =
  mg_header :: "u8 list"
  mg_payload :: "u8 list"
  mg_opcode :: opcode
  mg_prepared :: bool
  mg_fin :: bool
  mg_terminal :: bool
  mg_compressed :: bool

definition message_new :: "opcode \<Rightarrow> message" where
  "message_new op =
     \<lparr>mg_header = [], mg_payload = [], mg_opcode = op, mg_prepared = False, mg_fin = True, mg_terminal = False,
      mg_compressed = False\<rparr>"

text \<open>A message made without an opcode has an indeterminate one until it is set; it is set before it is read.\<close>

definition message_blank :: message where
  "message_blank = message_new Op_continuation"

definition deflate_enabled :: bool where
  "deflate_enabled = False"

subsection \<open>The processor\<close>

datatype hybi_state = Header_basic | Header_extended | Extension | Application | Ready | Fatal_error

record msg_metadata =
  md_msg :: "message option"
  md_key :: u64
  md_validator :: validator

datatype msg_slot = Data_msg | Control_msg

record hybi13 =
  hb_server :: bool
  hb_max_message_size :: nat
  hb_state :: hybi_state
  hb_basic_header :: basic_header
  hb_extended_header :: "u8 list"
  hb_bytes_needed :: nat
  hb_cursor :: nat
  hb_data_msg :: msg_metadata
  hb_control_msg :: msg_metadata
  hb_current_msg :: "msg_slot option"

definition metadata_new :: "message \<Rightarrow> u32 \<Rightarrow> msg_metadata" where
  "metadata_new m key = \<lparr>md_msg = Some m, md_key = prepare_masking_key key, md_validator = validator_new\<rparr>"

definition metadata_none :: msg_metadata where
  "metadata_none = \<lparr>md_msg = None, md_key = 0, md_validator = validator_new\<rparr>"

definition reset_headers :: "hybi13 \<Rightarrow> hybi13" where
  "reset_headers p =
     p\<lparr>hb_state := Header_basic, hb_bytes_needed := 2, hb_basic_header := \<lparr>b0 = 0, b1 = 0\<rparr>,
       hb_extended_header := replicate 12 0\<rparr>"

definition hybi13_new :: "bool \<Rightarrow> nat \<Rightarrow> hybi13" where
  "hybi13_new server max_message_size =
     reset_headers
       \<lparr>hb_server = server, hb_max_message_size = max_message_size, hb_state = Header_basic,
        hb_basic_header = \<lparr>b0 = 0, b1 = 0\<rparr>, hb_extended_header = replicate 12 0, hb_bytes_needed = 0, hb_cursor = 0,
        hb_data_msg = metadata_none, hb_control_msg = metadata_none, hb_current_msg = None\<rparr>"

definition current_metadata :: "hybi13 \<Rightarrow> msg_metadata option" where
  "current_metadata p =
     (case hb_current_msg p of None \<Rightarrow> None
      | Some Data_msg \<Rightarrow> Some (hb_data_msg p) | Some Control_msg \<Rightarrow> Some (hb_control_msg p))"

definition set_current_metadata :: "msg_metadata \<Rightarrow> hybi13 \<Rightarrow> hybi13" where
  "set_current_metadata md p =
     (case hb_current_msg p of None \<Rightarrow> p
      | Some Data_msg \<Rightarrow> p\<lparr>hb_data_msg := md\<rparr> | Some Control_msg \<Rightarrow> p\<lparr>hb_control_msg := md\<rparr>)"

subsection \<open>Reading\<close>

definition copy_basic_header_bytes :: "u8 list \<Rightarrow> hybi13 \<Rightarrow> nat \<times> hybi13" where
  "copy_basic_header_bytes buf p =
     (let h = hb_basic_header p; n = hb_bytes_needed p
      in if buf = [] \<or> n = 0 then (0, p)
         else if 1 < length buf then
           (if n = 2 then (2, p\<lparr>hb_basic_header := \<lparr>b0 = buf ! 0, b1 = buf ! 1\<rparr>, hb_bytes_needed := n - 2\<rparr>)
            else (1, p\<lparr>hb_basic_header := h\<lparr>b1 := buf ! 0\<rparr>, hb_bytes_needed := n - 1\<rparr>))
         else
           (if n = 2 then (1, p\<lparr>hb_basic_header := h\<lparr>b0 := buf ! 0\<rparr>, hb_bytes_needed := n - 1\<rparr>)
            else (1, p\<lparr>hb_basic_header := h\<lparr>b1 := buf ! 0\<rparr>, hb_bytes_needed := n - 1\<rparr>)))"

definition copy_extended_header_bytes :: "u8 list \<Rightarrow> hybi13 \<Rightarrow> (nat \<times> hybi13) outcome" where
  "copy_extended_header_bytes buf p =
     (let n = min (hb_bytes_needed p) (length buf)
      in if hb_cursor p + n \<le> 12
         then Inr (n, p\<lparr>hb_extended_header := write_at (hb_cursor p) (take n buf) (hb_extended_header p),
                        hb_cursor := hb_cursor p + n, hb_bytes_needed := hb_bytes_needed p - n\<rparr>)
         else Inl Undefined)"

definition validate_incoming_basic_header :: "basic_header \<Rightarrow> bool \<Rightarrow> bool \<Rightarrow> processor_error option" where
  "validate_incoming_basic_header h is_server new_msg =
     (let op = get_opcode h
      in if is_control op \<and> 125 < get_basic_size h then Some PE_control_too_big
         else if get_rsv1 h \<and> (\<not> deflate_enabled \<or> is_control op) then Some PE_invalid_rsv_bit
         else if get_rsv2 h \<or> get_rsv3 h then Some PE_invalid_rsv_bit
         else if opcode_reserved op then Some PE_invalid_opcode
         else if opcode_invalid op then Some PE_invalid_opcode
         else if is_control op \<and> \<not> get_fin h then Some PE_fragmented_control
         else if new_msg \<and> op = Op_continuation then Some PE_invalid_continuation
         else if \<not> new_msg \<and> \<not> is_control op \<and> op \<noteq> Op_continuation then Some PE_invalid_continuation
         else if is_server \<and> \<not> get_masked h then Some PE_masking_required
         else if \<not> is_server \<and> get_masked h then Some PE_masking_forbidden
         else None)"

text \<open>The check for frames that need 64 bits is only compiled in where \<^verbatim>\<open>size_t\<close> has 32.\<close>

definition validate_incoming_extended_header :: "basic_header \<Rightarrow> u8 list \<Rightarrow> processor_error option" where
  "validate_incoming_extended_header h e =
     (let basic_size = get_basic_size h; payload_size = get_payload_size h e
      in if basic_size = 0x7E \<and> payload_size \<le> 125 then Some PE_non_minimal_encoding
         else if basic_size = 0x7F \<and> payload_size \<le> 0xFFFF then Some PE_non_minimal_encoding
         else None)"

text \<open>The message a frame belongs to: a new control message, a new data message, or the one begun before.\<close>

definition start_payload :: "hybi13 \<Rightarrow> processor_error option \<times> hybi13" where
  "start_payload p =
     (let op = get_opcode (hb_basic_header p); n = hb_bytes_needed p;
          key = get_masking_key (hb_basic_header p) (hb_extended_header p)
      in if is_control op
         then (None, p\<lparr>hb_control_msg := metadata_new (message_new op) key, hb_current_msg := Some Control_msg\<rparr>)
         else case md_msg (hb_data_msg p) of
                None \<Rightarrow>
                  if hb_max_message_size p < n then (Some PE_message_too_big, p)
                  else (None, p\<lparr>hb_data_msg := metadata_new (message_new op) key, hb_current_msg := Some Data_msg\<rparr>)
              | Some m \<Rightarrow>
                  if hb_max_message_size p < (length (mg_payload m) + n) mod 2 ^ 64 then (Some PE_message_too_big, p)
                  else (None, p\<lparr>hb_data_msg := (hb_data_msg p)\<lparr>md_key := prepare_masking_key key\<rparr>,
                                hb_current_msg := Some Data_msg\<rparr>))"

definition process_payload_bytes :: "u8 list \<Rightarrow> hybi13 \<Rightarrow> (nat \<times> processor_error option \<times> hybi13) outcome" where
  "process_payload_bytes buf p =
     (case current_metadata p of
        None \<Rightarrow> Inl Undefined
      | Some md \<Rightarrow>
          (case (if get_masked (hb_basic_header p) then byte_mask_circ buf (md_key md) else (buf, md_key md)) of
             (bytes, key) \<Rightarrow>
               (case md_msg md of
                  None \<Rightarrow> Inl Undefined
                | Some m \<Rightarrow>
                    (case (if mg_opcode m = Op_text then validator_range bytes (md_validator md)
                           else (True, md_validator md)) of
                       (ok, v) \<Rightarrow>
                         let p' = set_current_metadata
                               \<lparr>md_msg = Some (m\<lparr>mg_payload := mg_payload m @ bytes\<rparr>), md_key = key, md_validator = v\<rparr> p
                         in if \<not> ok then Inr (0, Some PE_invalid_utf8, p')
                            else Inr (length buf, None, p'\<lparr>hb_bytes_needed := hb_bytes_needed p - length buf\<rparr>)))))"

definition finalize_message :: "hybi13 \<Rightarrow> (processor_error option \<times> hybi13) outcome" where
  "finalize_message p =
     (case current_metadata p of
        None \<Rightarrow> Inl Undefined
      | Some md \<Rightarrow>
          (case md_msg md of
             None \<Rightarrow> Inl Undefined
           | Some m \<Rightarrow>
               if get_opcode (hb_basic_header p) = Op_text \<and> \<not> validator_complete (md_validator md)
               then Inr (Some PE_invalid_utf8, p)
               else Inr (None, p\<lparr>hb_state := Ready\<rparr>)))"

text \<open>A turn of the loop of \<^verbatim>\<open>consume\<close>: it goes on with the bytes that are left, or breaks with an error.\<close>

datatype turn = Next "u8 list" hybi13 | Break processor_error "u8 list" hybi13

definition basic_turn :: "u8 list \<Rightarrow> hybi13 \<Rightarrow> turn outcome" where
  "basic_turn buf p =
     (case copy_basic_header_bytes buf p of
        (k, p1) \<Rightarrow>
          if 0 < hb_bytes_needed p1 then Inr (Next (drop k buf) p1)
          else case validate_incoming_basic_header (hb_basic_header p1) (hb_server p1) (md_msg (hb_data_msg p1) = None) of
                 Some e \<Rightarrow> Inr (Break e (drop k buf) p1)
               | None \<Rightarrow> Inr (Next (drop k buf)
                   (p1\<lparr>hb_state := Header_extended, hb_cursor := 0,
                       hb_bytes_needed := get_header_len (hb_basic_header p1) - 2\<rparr>)))"

definition extended_turn :: "u8 list \<Rightarrow> hybi13 \<Rightarrow> turn outcome" where
  "extended_turn buf p =
     bindE (copy_extended_header_bytes buf p)
       (\<lambda>(k, p1).
          if 0 < hb_bytes_needed p1 then Inr (Next (drop k buf) p1)
          else case validate_incoming_extended_header (hb_basic_header p1) (hb_extended_header p1) of
                 Some e \<Rightarrow> Inr (Break e (drop k buf) p1)
               | None \<Rightarrow>
                   (case start_payload
                       (p1\<lparr>hb_state := Application,
                           hb_bytes_needed := unat (get_payload_size (hb_basic_header p1) (hb_extended_header p1))\<rparr>) of
                      (Some e, p2) \<Rightarrow> Inr (Break e (drop k buf) p2)
                    | (None, p2) \<Rightarrow> Inr (Next (drop k buf) p2)))"

definition payload_end :: "u8 list \<Rightarrow> hybi13 \<Rightarrow> turn outcome" where
  "payload_end buf p =
     (if 0 < hb_bytes_needed p then Inr (Next buf p)
      else if get_fin (hb_basic_header p)
      then bindE (finalize_message p) (\<lambda>(ec, p1). case ec of Some e \<Rightarrow> Inr (Break e buf p1) | None \<Rightarrow> Inr (Next buf p1))
      else Inr (Next buf (reset_headers p)))"

definition application_turn :: "u8 list \<Rightarrow> hybi13 \<Rightarrow> turn outcome" where
  "application_turn buf p =
     (let n = min (hb_bytes_needed p) (length buf)
      in if 0 < n
         then bindE (process_payload_bytes (take n buf) p)
                (\<lambda>(k, ec, p1). case ec of Some e \<Rightarrow> Inr (Break e (drop k buf) p1) | None \<Rightarrow> payload_end (drop k buf) p1)
         else payload_end buf p)"

definition consume_turn :: "u8 list \<Rightarrow> hybi13 \<Rightarrow> turn outcome" where
  "consume_turn buf p =
     (case hb_state p of
        Header_basic \<Rightarrow> basic_turn buf p
      | Header_extended \<Rightarrow> extended_turn buf p
      | Extension \<Rightarrow> Inr (Next buf (p\<lparr>hb_state := Application\<rparr>))
      | Application \<Rightarrow> application_turn buf p
      | _ \<Rightarrow> Inr (Break PE_general buf p))"

definition going_on :: "u8 list \<Rightarrow> hybi13 \<Rightarrow> bool" where
  "going_on buf p \<longleftrightarrow>
     hb_state p \<noteq> Ready \<and> hb_state p \<noteq> Fatal_error \<and> (buf \<noteq> [] \<or> hb_bytes_needed p = 0)"

text \<open>Each turn takes a byte or comes closer to the next field.\<close>

definition turn_rank :: "hybi13 \<Rightarrow> nat" where
  "turn_rank p =
     (case hb_state p of
        Header_basic \<Rightarrow> if hb_bytes_needed p = 0 then 4 else 0
      | Header_extended \<Rightarrow> if hb_bytes_needed p = 0 then 3 else 0
      | Extension \<Rightarrow> 2
      | Application \<Rightarrow> if hb_bytes_needed p = 0 then 1 else 0
      | _ \<Rightarrow> 0)"

lemma copy_basic_count:
  assumes "copy_basic_header_bytes buf p = (k, p1)" "hb_bytes_needed p \<noteq> 0" "buf \<noteq> []"
  shows "0 < k \<and> k \<le> length buf"
  using assms by (cases buf) (auto simp: copy_basic_header_bytes_def Let_def Suc_le_eq split: if_splits)

lemma basic_turn_smaller:
  assumes "basic_turn buf p = Inr (Next buf' p')" "hb_state p = Header_basic" "buf \<noteq> [] \<or> hb_bytes_needed p = 0"
  shows "length buf' < length buf \<or> buf' = buf \<and> turn_rank p' < turn_rank p"
proof (cases "hb_bytes_needed p = 0")
  case True
  then have "copy_basic_header_bytes buf p = (0, p)" by (simp add: copy_basic_header_bytes_def)
  then show ?thesis using assms True by (auto simp: basic_turn_def turn_rank_def split: option.splits)
next
  case False
  obtain k p1 where k: "copy_basic_header_bytes buf p = (k, p1)" by fastforce
  have "buf' = drop k buf" using assms(1) k by (auto simp: basic_turn_def split: if_splits option.splits)
  then show ?thesis using copy_basic_count [OF k False] assms(3) False by auto
qed

lemma start_payload_frame:
  "start_payload p = (e, p') \<Longrightarrow> hb_state p' = hb_state p \<and> hb_bytes_needed p' = hb_bytes_needed p
    \<and> hb_basic_header p' = hb_basic_header p \<and> hb_extended_header p' = hb_extended_header p
    \<and> hb_server p' = hb_server p \<and> hb_max_message_size p' = hb_max_message_size p \<and> hb_cursor p' = hb_cursor p"
  by (auto simp: start_payload_def Let_def split: if_splits option.splits)

lemma extended_turn_smaller:
  assumes "extended_turn buf p = Inr (Next buf' p')" "hb_state p = Header_extended" "buf \<noteq> [] \<or> hb_bytes_needed p = 0"
  shows "length buf' < length buf \<or> buf' = buf \<and> turn_rank p' < turn_rank p"
proof -
  let ?n = "min (hb_bytes_needed p) (length buf)"
  have b: "buf' = drop ?n buf"
    using assms(1) by (auto simp: extended_turn_def copy_extended_header_bytes_def Let_def bindE_eq_Inr
        split: if_splits option.splits prod.splits)
  show ?thesis
  proof (cases "hb_bytes_needed p = 0")
    case True
    have "hb_state p' = Application"
      using assms(1) True by (auto simp: extended_turn_def copy_extended_header_bytes_def Let_def bindE_eq_Inr
          dest!: start_payload_frame split: if_splits option.splits prod.splits)
    then show ?thesis using b True assms(2) by (simp add: turn_rank_def)
  next
    case False
    then show ?thesis using b assms(3) by auto
  qed
qed

lemma finalize_state: "finalize_message p = Inr (None, p') \<Longrightarrow> p' = p\<lparr>hb_state := Ready\<rparr>"
  by (auto simp: finalize_message_def split: option.splits if_splits)

lemma payload_end_next:
  "payload_end buf p = Inr (Next buf' p') \<Longrightarrow> buf' = buf \<and> (hb_bytes_needed p = 0 \<longrightarrow> turn_rank p' = 0)"
  by (auto simp: payload_end_def bindE_eq_Inr turn_rank_def reset_headers_def dest!: finalize_state
      split: if_splits option.splits)

lemma process_payload_count: "process_payload_bytes buf p = Inr (k, None, p') \<Longrightarrow> k = length buf"
  by (auto simp: process_payload_bytes_def Let_def split: option.splits prod.splits if_splits)

lemma application_turn_smaller:
  assumes "application_turn buf p = Inr (Next buf' p')" "hb_state p = Application" "buf \<noteq> [] \<or> hb_bytes_needed p = 0"
  shows "length buf' < length buf \<or> buf' = buf \<and> turn_rank p' < turn_rank p"
proof (cases "hb_bytes_needed p = 0")
  case True
  then show ?thesis
    using assms payload_end_next [of buf p buf' p'] by (simp add: application_turn_def turn_rank_def)
next
  case False
  let ?n = "min (hb_bytes_needed p) (length buf)"
  have n: "0 < ?n" using False assms(3) by simp
  then obtain k p1 where "process_payload_bytes (take ?n buf) p = Inr (k, None, p1)" "payload_end (drop k buf) p1 = Inr (Next buf' p')"
    using assms(1) by (auto simp: application_turn_def Let_def bindE_eq_Inr split: option.splits if_splits)
  then have "k = ?n" "buf' = drop k buf" by (auto dest!: process_payload_count payload_end_next)
  then have "buf' = drop ?n buf" by simp
  then show ?thesis using n by auto
qed

lemma turn_smaller:
  assumes "going_on buf p" "consume_turn buf p = Inr (Next buf' p')"
  shows "length buf' < length buf \<or> buf' = buf \<and> turn_rank p' < turn_rank p"
  using assms basic_turn_smaller [of buf p buf' p'] extended_turn_smaller [of buf p buf' p']
    application_turn_smaller [of buf p buf' p']
  by (cases "hb_state p") (auto simp: going_on_def consume_turn_def turn_rank_def)

function consume_loop :: "u8 list \<Rightarrow> hybi13 \<Rightarrow> (processor_error option \<times> u8 list \<times> hybi13) outcome" where
  "consume_loop buf p =
     (if going_on buf p
      then (case consume_turn buf p of
              Inl f \<Rightarrow> Inl f
            | Inr (Next buf' p') \<Rightarrow> consume_loop buf' p'
            | Inr (Break e buf' p') \<Rightarrow> Inr (Some e, buf', p'))
      else Inr (None, buf, p))"
  by pat_completeness auto

termination
  by (relation "measures [\<lambda>(buf, p). length buf, \<lambda>(buf, p). turn_rank p]") (use turn_smaller in auto)

declare consume_loop.simps [simp del]

text \<open>\<^verbatim>\<open>consume\<close>: the number of bytes it has used, and an error.\<close>

definition consume :: "u8 list \<Rightarrow> hybi13 \<Rightarrow> (nat \<times> processor_error option \<times> hybi13) outcome" where
  "consume buf p = bindE (consume_loop buf p) (\<lambda>(ec, rest, p'). Inr (length buf - length rest, ec, p'))"

definition ready :: "hybi13 \<Rightarrow> bool" where
  "ready p \<longleftrightarrow> hb_state p = Ready"

definition get_error :: "hybi13 \<Rightarrow> bool" where
  "get_error p \<longleftrightarrow> hb_state p = Fatal_error"

definition get_message :: "hybi13 \<Rightarrow> (message option \<times> hybi13) outcome" where
  "get_message p =
     (if \<not> ready p then Inr (None, p)
      else case current_metadata p of
        None \<Rightarrow> Inl Undefined
      | Some md \<Rightarrow>
          (case md_msg md of
             None \<Rightarrow> Inl Undefined
           | Some ret \<Rightarrow>
               let p1 = set_current_metadata (md\<lparr>md_msg := None\<rparr>) p;
                   p2 = (if is_control (mg_opcode ret) then p1\<lparr>hb_control_msg := (hb_control_msg p1)\<lparr>md_msg := None\<rparr>\<rparr>
                         else p1\<lparr>hb_data_msg := (hb_data_msg p1)\<lparr>md_msg := None\<rparr>\<rparr>)
               in Inr (Some ret, reset_headers p2)))"

subsection \<open>Preparing\<close>

definition masked_copy :: "u8 list \<Rightarrow> u32 \<Rightarrow> u8 list" where
  "masked_copy i key = byte_mask i key 0"

definition frame_header :: "basic_header \<Rightarrow> bool \<Rightarrow> u64 \<Rightarrow> u32 \<Rightarrow> u8 list" where
  "frame_header h masked sz key =
     prepare_header h (if masked then extended_header_key sz key else extended_header_new sz)"

text \<open>\<open>rng\<close> is what the random number generator returns.\<close>

definition prepare_data_frame ::
  "hybi13 \<Rightarrow> u32 \<Rightarrow> message option \<Rightarrow> message option \<Rightarrow> processor_error option \<times> message option" where
  "prepare_data_frame p rng inm outm =
     (case (inm, outm) of
        (Some i, Some out) \<Rightarrow>
          let op = mg_opcode i
          in if is_control op then (Some PE_invalid_opcode, outm)
             else if op = Op_text \<and> \<not> validate (mg_payload i) then (Some PE_invalid_payload, outm)
             else let masked = (\<not> hb_server p);
                      compressed = (deflate_enabled \<and> mg_compressed i);
                      key = (if masked then rng else 0);
                      o' = (if masked then masked_copy (mg_payload i) key else mg_payload i);
                      sz = of_nat (length o');
                      h = basic_header_new op sz (mg_fin i) masked compressed False False
                  in (None, Some (out\<lparr>mg_payload := o', mg_header := frame_header h masked sz key, mg_prepared := True,
                                      mg_opcode := op\<rparr>))
      | _ \<Rightarrow> (Some PE_invalid_arguments, outm))"

definition prepare_control ::
  "hybi13 \<Rightarrow> u32 \<Rightarrow> opcode \<Rightarrow> u8 list \<Rightarrow> message option \<Rightarrow> processor_error option \<times> message option" where
  "prepare_control p rng op payload outm =
     (case outm of
        None \<Rightarrow> (Some PE_invalid_arguments, outm)
      | Some out \<Rightarrow>
          if \<not> is_control op then (Some PE_invalid_opcode, outm)
          else if 125 < length payload then (Some PE_control_too_big, outm)
          else let masked = (\<not> hb_server p); sz = of_nat (length payload);
                   h = basic_header_new op sz True masked False False False
               in (None, Some (out\<lparr>mg_header := frame_header h masked sz rng,
                                   mg_payload := (if masked then masked_copy payload rng else payload),
                                   mg_opcode := op, mg_prepared := True\<rparr>)))"

definition prepare_ping :: "hybi13 \<Rightarrow> u32 \<Rightarrow> u8 list \<Rightarrow> message option \<Rightarrow> processor_error option \<times> message option" where
  "prepare_ping p rng payload outm = prepare_control p rng Op_ping payload outm"

definition prepare_pong :: "hybi13 \<Rightarrow> u32 \<Rightarrow> u8 list \<Rightarrow> message option \<Rightarrow> processor_error option \<times> message option" where
  "prepare_pong p rng payload outm = prepare_control p rng Op_pong payload outm"

definition close_payload :: "close_code \<Rightarrow> u8 list \<Rightarrow> u8 list" where
  "close_payload code reason = (if code \<noteq> 1005 then le_bytes 2 (ntohs code) @ reason else [])"

definition prepare_close ::
  "hybi13 \<Rightarrow> u32 \<Rightarrow> close_code \<Rightarrow> u8 list \<Rightarrow> message option \<Rightarrow> processor_error option \<times> message option" where
  "prepare_close p rng code reason outm =
     (if close_reserved code then (Some PE_reserved_close_code, outm)
      else if close_invalid code \<and> code \<noteq> 1005 then (Some PE_invalid_close_code, outm)
      else if code = 1005 \<and> 0 < length reason then (Some PE_reason_requires_code, outm)
      else if 125 - 2 < length reason then (Some PE_control_too_big, outm)
      else prepare_control p rng Op_close (close_payload code reason) outm)"

end
