(* ===== verification/Ws_Stream.thy ===== *)
theory Ws_Stream
  imports Ws_Hybi13
begin

text \<open>
  Reading a stream of frames: however the bytes are split into buffers, \<open>consume\<close> comes to the same results.
\<close>

subsection \<open>Keys\<close>

lemma masks_at_unique:
  assumes "masks_at pk key k" "masks_at pk' key k"
  shows "pk = pk'"
proof -
  have "le_bytes 8 pk = le_bytes 8 pk'" using assms by (intro nth_equalityI) (simp_all add: masks_at_def)
  then have "(of_le_bytes (le_bytes 8 pk) :: u64) = of_le_bytes (le_bytes 8 pk')" by simp
  then show ?thesis by (simp add: of_le_bytes_le)
qed

definition key_word :: "u64 \<Rightarrow> bool" where
  "key_word pk \<longleftrightarrow> (\<exists>key k. masks_at pk key k)"

lemma key_word_prepared [simp]: "key_word (prepare_masking_key key)"
  using masks_at_prepared unfolding key_word_def by blast

lemma key_word_zero [simp]: "key_word 0"
  using key_word_prepared [of 0] by (simp add: prepare_masking_key_def)

lemma byte_mask_circ_key: "key_word pk \<Longrightarrow> key_word (snd (byte_mask_circ data pk))"
  using byte_mask_circ_at unfolding key_word_def by (metis snd_conv)

lemma byte_mask_circ_append:
  assumes "key_word pk"
  shows "byte_mask_circ (xs @ ys) pk =
    (fst (byte_mask_circ xs pk) @ fst (byte_mask_circ ys (snd (byte_mask_circ xs pk))),
     snd (byte_mask_circ ys (snd (byte_mask_circ xs pk))))"
proof -
  obtain key k where m: "masks_at pk key k" using assms by (auto simp: key_word_def)
  obtain pk1 where 1: "byte_mask_circ xs pk = (byte_mask xs key k, pk1)" "masks_at pk1 key (k + length xs)"
    using byte_mask_circ_at [OF m] by blast
  obtain pk2 where 2: "byte_mask_circ ys pk1 = (byte_mask ys key (k + length xs), pk2)"
      "masks_at pk2 key (k + length xs + length ys)"
    using byte_mask_circ_at [OF 1(2)] by blast
  obtain pk3 where 3: "byte_mask_circ (xs @ ys) pk = (byte_mask (xs @ ys) key k, pk3)"
      "masks_at pk3 key (k + length (xs @ ys))"
    using byte_mask_circ_at [OF m] by blast
  have "pk3 = pk2" using masks_at_unique [OF _ 2(2)] 3(2) by (simp add: add.assoc)
  then show ?thesis using 1 2 3 by (simp add: byte_mask_append)
qed

text \<open>What every turn keeps.\<close>

definition stream_ok :: "hybi13 \<Rightarrow> bool" where
  "stream_ok p \<longleftrightarrow>
     key_word (md_key (hb_data_msg p)) \<and> key_word (md_key (hb_control_msg p)) \<and> length (hb_extended_header p) = 12"

lemma stream_ok_new: "stream_ok (hybi13_new server n)"
  by (simp add: stream_ok_def hybi13_new_def reset_headers_def metadata_none_def)

lemma length_write_at: "k + length ys \<le> length xs \<Longrightarrow> length (write_at k ys xs) = length xs"
  by (simp add: write_at_def)

lemma write_at_append:
  "k + length ys + length zs \<le> length xs \<Longrightarrow> write_at (k + length ys) zs (write_at k ys xs) = write_at k (ys @ zs) xs"
  by (cases ys) (auto simp: write_at_def min_def ac_simps)

lemma stream_ok_basic: "stream_ok p \<Longrightarrow> basic_turn buf p = Inr (Next buf' p') \<Longrightarrow> stream_ok p'"
  by (auto simp: basic_turn_def copy_basic_header_bytes_def stream_ok_def Let_def split: if_splits option.splits)

lemma stream_ok_start: "stream_ok p \<Longrightarrow> start_payload p = (e, p') \<Longrightarrow> stream_ok p'"
  by (auto simp: start_payload_def stream_ok_def Let_def metadata_new_def split: if_splits option.splits)

lemma stream_ok_copy: "stream_ok p \<Longrightarrow> copy_extended_header_bytes buf p = Inr (k, p') \<Longrightarrow> stream_ok p'"
  by (auto simp: copy_extended_header_bytes_def stream_ok_def Let_def length_write_at min_def split: if_splits)

lemma stream_ok_extended:
  assumes "stream_ok p" "extended_turn buf p = Inr (Next buf' p')"
  shows "stream_ok p'"
proof -
  obtain k p1 where c: "copy_extended_header_bytes buf p = Inr (k, p1)"
    using assms(2) by (auto simp: extended_turn_def bindE_eq_Inr)
  have ok: "stream_ok (p1\<lparr>hb_state := s, hb_bytes_needed := n\<rparr>)" for s n
    using stream_ok_copy [OF assms(1) c] by (simp add: stream_ok_def)
  show ?thesis
    using assms(2) c stream_ok_start [OF ok] stream_ok_copy [OF assms(1) c]
    by (auto simp: extended_turn_def split: if_splits option.splits prod.splits)
qed

lemma stream_ok_process:
  assumes "stream_ok p" "process_payload_bytes buf p = Inr (k, e, p')"
  shows "stream_ok p'"
  using assms byte_mask_circ_key
  by (auto simp: process_payload_bytes_def current_metadata_def set_current_metadata_def stream_ok_def Let_def
      split: option.splits prod.splits msg_slot.splits if_splits)
    (metis snd_conv)+

lemma stream_ok_end: "stream_ok p \<Longrightarrow> payload_end buf p = Inr (Next buf' p') \<Longrightarrow> stream_ok p'"
  by (auto simp: payload_end_def bindE_eq_Inr stream_ok_def reset_headers_def dest!: finalize_state
      split: if_splits option.splits)

lemma stream_ok_application:
  assumes "stream_ok p" "application_turn buf p = Inr (Next buf' p')"
  shows "stream_ok p'"
proof (cases "0 < min (hb_bytes_needed p) (length buf)")
  case True
  then obtain k p1 where "process_payload_bytes (take (min (hb_bytes_needed p) (length buf)) buf) p = Inr (k, None, p1)"
      "payload_end (drop k buf) p1 = Inr (Next buf' p')"
    using assms(2) by (auto simp: application_turn_def bindE_eq_Inr split: option.splits)
  then show ?thesis using stream_ok_process [OF assms(1)] stream_ok_end by blast
next
  case False
  then have "payload_end buf p = Inr (Next buf' p')" using assms(2) by (simp only: application_turn_def Let_def if_False)
  then show ?thesis using stream_ok_end [OF assms(1)] by blast
qed

lemma stream_ok_turn:
  assumes "stream_ok p" "consume_turn buf p = Inr (Next buf' p')"
  shows "stream_ok p'"
proof -
  have "stream_ok (p\<lparr>hb_state := Application\<rparr>)" using assms(1) by (simp add: stream_ok_def)
  then show ?thesis
    using assms stream_ok_basic [OF assms(1)] stream_ok_extended [OF assms(1)] stream_ok_application [OF assms(1)]
    by (cases "hb_state p") (auto simp: consume_turn_def)
qed

subsection \<open>Results\<close>

text \<open>An error, or the bytes that are left and the processor: after an error the processor is not used any more.\<close>

definition view :: "(processor_error option \<times> u8 list \<times> hybi13) outcome \<Rightarrow> (processor_error + u8 list \<times> hybi13) outcome" where
  "view r = bindE r (\<lambda>(ec, rest, p). Inr (case ec of Some e \<Rightarrow> Inl e | None \<Rightarrow> Inr (rest, p)))"

definition fed :: "u8 list \<Rightarrow> hybi13 \<Rightarrow> (processor_error + u8 list \<times> hybi13) outcome" where
  "fed buf p = view (consume_loop buf p)"

definition and_then :: "('e + 'a) outcome \<Rightarrow> ('a \<Rightarrow> ('e + 'b) outcome) \<Rightarrow> ('e + 'b) outcome" where
  "and_then m k = bindE m (\<lambda>x. case x of Inl e \<Rightarrow> Inr (Inl e) | Inr y \<Rightarrow> k y)"

lemma and_then_simps [simp]:
  "and_then (Inl f) k = Inl f" "and_then (Inr (Inl e)) k = Inr (Inl e)" "and_then (Inr (Inr y)) k = k y"
  by (simp_all add: and_then_def)

lemma and_then_assoc: "and_then (and_then m k) l = and_then m (\<lambda>x. and_then (k x) l)"
  by (cases m rule: sum.exhaust; simp add: and_then_def) (auto split: sum.split)

lemma and_then_cong:
  "(\<And>y. m = Inr (Inr y) \<Longrightarrow> k y = l y) \<Longrightarrow> and_then m k = and_then m l"
  by (auto simp: and_then_def bindE_def split: sum.split)

lemma fed_stop: "\<not> going_on buf p \<Longrightarrow> fed buf p = Inr (Inr (buf, p))"
  by (simp add: fed_def view_def consume_loop.simps)

lemma fed_turn:
  "going_on buf p \<Longrightarrow> fed buf p =
     (case consume_turn buf p of
        Inl f \<Rightarrow> Inl f | Inr (Next buf' p') \<Rightarrow> fed buf' p' | Inr (Break e buf' p') \<Rightarrow> Inr (Inl e))"
  by (subst fed_def, subst consume_loop.simps) (auto simp: fed_def view_def split: sum.split turn.split)

subsection \<open>Bytes one at a time\<close>

text \<open>A turn that needs no byte does not look at the buffer.\<close>

fun with_rest :: "u8 list \<Rightarrow> turn \<Rightarrow> turn" where
  "with_rest buf (Next b p) = Next (b @ buf) p"
| "with_rest buf (Break e b p) = Break e (b @ buf) p"

definition lift_rest :: "u8 list \<Rightarrow> turn outcome \<Rightarrow> turn outcome" where
  "lift_rest buf m = bindE m (\<lambda>t. Inr (with_rest buf t))"

lemma lift_rest_simps [simp]:
  "lift_rest buf (Inl f) = Inl f" "lift_rest buf (Inr t) = Inr (with_rest buf t)"
  by (simp_all add: lift_rest_def)

lemma lift_rest_bind: "lift_rest buf (bindE m k) = bindE m (\<lambda>x. lift_rest buf (k x))"
  by (simp add: lift_rest_def bindE_assoc)

lemma payload_end_rest: "payload_end buf p = lift_rest buf (payload_end [] p)"
  by (auto simp: payload_end_def lift_rest_bind intro!: arg_cong [where f = "bindE (finalize_message p)"] ext
      split: option.split prod.split)

lemma free_turn:
  assumes "hb_bytes_needed p = 0 \<or> hb_state p = Extension"
  shows "consume_turn buf p = lift_rest buf (consume_turn [] p)"
  using assms payload_end_rest [of buf p]
  by (cases "hb_state p")
    (auto simp: consume_turn_def basic_turn_def copy_basic_header_bytes_def extended_turn_def
      copy_extended_header_bytes_def application_turn_def split: option.split prod.split)

lemma fed_free_turn:
  assumes "going_on [] p"
  shows "fed buf p = and_then (case consume_turn [] p of Inl f \<Rightarrow> Inl f | Inr (Next b p') \<Rightarrow> Inr (Inr (b, p'))
      | Inr (Break e b p') \<Rightarrow> Inr (Inl e)) (\<lambda>(b, p'). fed (b @ buf) p')"
proof -
  have "going_on buf p" "hb_bytes_needed p = 0" using assms by (auto simp: going_on_def)
  then show ?thesis
    using fed_turn [of buf p] free_turn [of p buf] by (auto split: sum.split turn.split)
qed

lemma fed_nothing: "fed [] p = Inr (Inr (rest, p')) \<Longrightarrow> rest = []"
proof (induction "[] :: u8 list" p rule: consume_loop.induct)
  case (1 p)
  show ?case
  proof (cases "going_on [] p")
    case True
    then obtain b p1 where t: "consume_turn [] p = Inr (Next b p1)" and f: "fed b p1 = Inr (Inr (rest, p'))"
      using 1(2) fed_turn [OF True] by (auto split: sum.splits turn.splits)
    have "b = []" using turn_smaller [OF True t] by auto
    then show ?thesis using 1(1) [OF True t] f by simp
  next
    case False
    then show ?thesis using 1(2) by (simp add: fed_stop)
  qed
qed

text \<open>Feeding nothing first makes no difference.\<close>

lemma fed_nothing_first: "fed buf p = and_then (fed [] p) (\<lambda>(rest, p'). fed (rest @ buf) p')"
proof (induction "[] :: u8 list" p rule: consume_loop.induct)
  case (1 p)
  show ?case
  proof (cases "going_on [] p")
    case True
    show ?thesis
    proof (cases "consume_turn [] p")
      case (Inr t)
      then show ?thesis
      proof (cases t)
        case (Next b p1)
        then have t: "consume_turn [] p = Inr (Next b p1)" using Inr by simp
        have b: "b = []" using turn_smaller [OF True t] by auto
        show ?thesis
          using 1 [OF True t, simplified b, OF refl] fed_turn [OF True] fed_free_turn [OF True, of buf] t b by simp
      next
        case (Break e b p1)
        then show ?thesis using Inr fed_turn [OF True] fed_free_turn [OF True, of buf] by simp
      qed
    next
      case (Inl f)
      then show ?thesis using fed_turn [OF True] fed_free_turn [OF True, of buf] by simp
    qed
  next
    case False
    then show ?thesis by (simp add: fed_stop)
  qed
qed

lemma fed_stops: "fed buf p = Inr (Inr (rest, p')) \<Longrightarrow> \<not> going_on rest p'"
proof (induction buf p rule: consume_loop.induct)
  case (1 buf p)
  show ?case
  proof (cases "going_on buf p")
    case True
    then obtain b p1 where t: "consume_turn buf p = Inr (Next b p1)" and f: "fed b p1 = Inr (Inr (rest, p'))"
      using 1(2) fed_turn [OF True] by (auto split: sum.splits turn.splits)
    show ?thesis using 1(1) [OF True t refl f] .
  next
    case False
    then show ?thesis using 1(2) by (simp add: fed_stop)
  qed
qed

lemma fed_again: "fed buf p = and_then (fed buf p) (\<lambda>(rest, p'). fed rest p')"
proof -
  have "and_then (fed buf p) (\<lambda>(rest, p'). fed rest p') = and_then (fed buf p) (\<lambda>x. Inr (Inr x))"
    by (rule and_then_cong) (auto dest!: fed_stops simp: fed_stop)
  then show ?thesis by (auto simp: and_then_def bindE_def split: sum.split)
qed

lemma fed_ok: "stream_ok p \<Longrightarrow> fed buf p = Inr (Inr (rest, p')) \<Longrightarrow> stream_ok p'"
proof (induction buf p rule: consume_loop.induct)
  case (1 buf p)
  show ?case
  proof (cases "going_on buf p")
    case True
    then obtain b p1 where t: "consume_turn buf p = Inr (Next b p1)" and f: "fed b p1 = Inr (Inr (rest, p'))"
      using 1(3) fed_turn [OF True] by (auto split: sum.splits turn.splits)
    show ?thesis using 1(1) [OF True t refl stream_ok_turn [OF 1(2) t] f] .
  next
    case False
    then show ?thesis using 1(2,3) by (simp add: fed_stop)
  qed
qed

lemma basic_turn_split:
  assumes "hb_bytes_needed p = 2"
  shows "basic_turn (x # y # ys) p =
    basic_turn (y # ys) (p\<lparr>hb_basic_header := (hb_basic_header p)\<lparr>b0 := x\<rparr>, hb_bytes_needed := 1\<rparr>)"
    and "basic_turn [x] p = Inr (Next [] (p\<lparr>hb_basic_header := (hb_basic_header p)\<lparr>b0 := x\<rparr>, hb_bytes_needed := 1\<rparr>))"
  using assms by (cases "hb_basic_header p";
    simp add: basic_turn_def copy_basic_header_bytes_def Let_def numeral_2_eq_2 split: option.split)+

lemma basic_turn_one:
  "hb_bytes_needed p \<noteq> 0 \<Longrightarrow> hb_bytes_needed p \<noteq> 2 \<Longrightarrow> basic_turn (x # xs) p = lift_rest xs (basic_turn [x] p)"
  by (auto simp: basic_turn_def copy_basic_header_bytes_def Let_def split: option.split)

lemma extended_turn_one:
  "hb_bytes_needed p = 1 \<Longrightarrow> extended_turn (x # xs) p = lift_rest xs (extended_turn [x] p)"
  by (auto simp: extended_turn_def copy_extended_header_bytes_def Let_def split: option.split prod.split)

lemma extended_turn_split:
  fixes x :: u8
  assumes "1 < hb_bytes_needed p" "xs \<noteq> []" "length (hb_extended_header p) = 12" "hb_cursor p < 12"
  defines "p1 \<equiv> p\<lparr>hb_extended_header := write_at (hb_cursor p) [x] (hb_extended_header p),
    hb_cursor := hb_cursor p + 1, hb_bytes_needed := hb_bytes_needed p - 1\<rparr>"
  shows "extended_turn (x # xs) p = extended_turn xs p1" and "extended_turn [x] p = Inr (Next [] p1)"
proof -
  define n where "n = min (hb_bytes_needed p - 1) (length xs)"
  have n: "min (hb_bytes_needed p) (length (x # xs)) = Suc n" "min (hb_bytes_needed p1) (length xs) = n"
    using assms(1) by (auto simp: n_def p1_def min_def)
  have "write_at (hb_cursor p + 1) (take n xs) (hb_extended_header p1) = write_at (hb_cursor p) (x # take n xs) (hb_extended_header p)"
    if "hb_cursor p + Suc n \<le> 12"
    using write_at_append [of "hb_cursor p" "[x]" "take n xs" "hb_extended_header p"] that assms(3) n_def
    by (simp add: p1_def)
  then have "copy_extended_header_bytes (x # xs) p =
      bindE (copy_extended_header_bytes xs p1) (\<lambda>(k, q). Inr (Suc k, q))"
    unfolding copy_extended_header_bytes_def n Let_def by (auto simp: p1_def)
  then show "extended_turn (x # xs) p = extended_turn xs p1"
    by (auto simp: extended_turn_def bindE_assoc intro!: arg_cong [where f = "bindE (copy_extended_header_bytes xs p1)"] ext
        split: prod.split option.split)
  show "extended_turn [x] p = Inr (Next [] p1)"
    using assms(1,4) by (simp add: extended_turn_def copy_extended_header_bytes_def Let_def p1_def)
qed

text \<open>A full array makes both ways undefined.\<close>

lemma extended_turn_full:
  assumes "0 < hb_bytes_needed p" "12 \<le> hb_cursor p"
  shows "extended_turn (x # xs) p = Inl Undefined"
  proof -
  have "\<not> hb_cursor p + min (hb_bytes_needed p) (length (x # xs)) \<le> 12" using assms by (simp add: min_def)
  then show ?thesis by (simp only: extended_turn_def copy_extended_header_bytes_def Let_def if_False bindE.simps)
qed

definition processed :: "(nat \<times> processor_error option \<times> hybi13) outcome \<Rightarrow> (processor_error + hybi13) outcome" where
  "processed r = bindE r (\<lambda>(k, ec, p). Inr (case ec of Some e \<Rightarrow> Inl e | None \<Rightarrow> Inr p))"

lemma process_payload_eq:
  assumes "current_metadata p = Some md" "md_msg md = Some m"
    "(if get_masked (hb_basic_header p) then byte_mask_circ buf (md_key md) else (buf, md_key md)) = (bytes, key)"
    "(if mg_opcode m = Op_text then validator_range bytes (md_validator md) else (True, md_validator md)) = (ok, v)"
  defines "p' \<equiv> set_current_metadata
    \<lparr>md_msg = Some (m\<lparr>mg_payload := mg_payload m @ bytes\<rparr>), md_key = key, md_validator = v\<rparr> p"
  shows "process_payload_bytes buf p =
    (if ok then Inr (length buf, None, p'\<lparr>hb_bytes_needed := hb_bytes_needed p - length buf\<rparr>)
     else Inr (0, Some PE_invalid_utf8, p'))"
  unfolding process_payload_bytes_def assms(1) option.case assms(2) assms(3) prod.case assms(4) p'_def Let_def by simp

lemma processed_append:
  assumes "stream_ok p"
  shows "processed (process_payload_bytes (xs @ ys) p) =
    and_then (processed (process_payload_bytes xs p)) (\<lambda>p1. processed (process_payload_bytes ys p1))"
proof (cases "current_metadata p")
  case None
  then show ?thesis by (simp add: process_payload_bytes_def processed_def)
next
  case (Some md)
  then have key: "key_word (md_key md)"
    using assms by (auto simp: stream_ok_def current_metadata_def split: option.splits msg_slot.splits)
  let ?mask = "\<lambda>buf pk. if get_masked (hb_basic_header p) then byte_mask_circ buf pk else (buf, pk)"
  obtain as k1 where 1: "?mask xs (md_key md) = (as, k1)" by fastforce
  obtain bs k2 where 2: "?mask ys k1 = (bs, k2)" by fastforce
  have 3: "?mask (xs @ ys) (md_key md) = (as @ bs, k2)"
    using 1 2 byte_mask_circ_append [OF key, of xs ys] by (auto split: if_splits)
  show ?thesis
  proof (cases "md_msg md")
    case None
    then show ?thesis using Some 1 3 by (simp add: process_payload_bytes_def processed_def)
  next
    case m: (Some m)
    let ?range = "\<lambda>bytes v. if mg_opcode m = Op_text then validator_range bytes v else (True, v)"
    obtain ok v1 where r1: "?range as (md_validator md) = (ok, v1)" by fastforce
    obtain ok2 v2 where r2: "?range bs v1 = (ok2, v2)" by fastforce
    have r3: "ok \<Longrightarrow> ?range (as @ bs) (md_validator md) = (ok2, v2)"
        "\<not> ok \<Longrightarrow> ?range (as @ bs) (md_validator md) = (False, v1)"
      using r1 r2 by (auto simp: validator_range_append split: if_splits)
    have cur: "current_metadata (set_current_metadata md' p\<lparr>hb_bytes_needed := n\<rparr>) = Some md'" for md' n
      using Some by (auto simp: current_metadata_def set_current_metadata_def split: option.splits msg_slot.splits)
    have set2: "set_current_metadata md2 (set_current_metadata md1 p\<lparr>hb_bytes_needed := n\<rparr>) =
        set_current_metadata md2 p\<lparr>hb_bytes_needed := n\<rparr>" for md1 md2 n
      by (auto simp: set_current_metadata_def split: option.splits msg_slot.splits)
    have hdr: "hb_basic_header (set_current_metadata md' p) = hb_basic_header p"
        "hb_bytes_needed (set_current_metadata md' p) = hb_bytes_needed p" for md'
      by (auto simp: set_current_metadata_def split: option.splits msg_slot.splits)
    define p1 where "p1 = set_current_metadata
      \<lparr>md_msg = Some (m\<lparr>mg_payload := mg_payload m @ as\<rparr>), md_key = k1, md_validator = v1\<rparr> p
      \<lparr>hb_bytes_needed := hb_bytes_needed p - length xs\<rparr>"
    note first = process_payload_eq [OF Some m 1 r1]
    have c1: "current_metadata p1 = Some \<lparr>md_msg = Some (m\<lparr>mg_payload := mg_payload m @ as\<rparr>), md_key = k1, md_validator = v1\<rparr>"
      unfolding p1_def by (rule cur)
    show ?thesis
    proof (cases ok)
      case True
      have "process_payload_bytes ys p1 =
        (if ok2 then Inr (length ys, None, set_current_metadata
              \<lparr>md_msg = Some (m\<lparr>mg_payload := mg_payload m @ as @ bs\<rparr>), md_key = k2, md_validator = v2\<rparr> p
              \<lparr>hb_bytes_needed := hb_bytes_needed p - length xs - length ys\<rparr>)
         else Inr (0, Some PE_invalid_utf8, set_current_metadata
              \<lparr>md_msg = Some (m\<lparr>mg_payload := mg_payload m @ as @ bs\<rparr>), md_key = k2, md_validator = v2\<rparr> p
              \<lparr>hb_bytes_needed := hb_bytes_needed p - length xs\<rparr>))"
      proof -
        have h1: "hb_basic_header p1 = hb_basic_header p" "hb_bytes_needed p1 = hb_bytes_needed p - length xs"
          by (simp_all add: p1_def hdr)
        have "process_payload_bytes ys p1 =
          (let p2 = set_current_metadata \<lparr>md_msg = Some (m\<lparr>mg_payload := mg_payload m @ as\<rparr>\<lparr>mg_payload := mg_payload (m\<lparr>mg_payload := mg_payload m @ as\<rparr>) @ bs\<rparr>), md_key = k2, md_validator = v2\<rparr> p1
           in if ok2 then Inr (length ys, None, p2\<lparr>hb_bytes_needed := hb_bytes_needed p1 - length ys\<rparr>)
              else Inr (0, Some PE_invalid_utf8, p2))"
          unfolding Let_def by (rule process_payload_eq [OF c1]) (use 2 r2 h1 in \<open>auto split: if_splits\<close>)
        then show ?thesis by (simp add: Let_def h1(2)) (simp add: p1_def set2)
      qed
      then show ?thesis
        using True process_payload_eq [OF Some m 3 r3(1) [OF True]] first
        by (simp add: processed_def p1_def [symmetric] diff_diff_left)
    next
      case False
      then show ?thesis using process_payload_eq [OF Some m 3 r3(2) [OF False]] first by (simp add: processed_def)
    qed
  qed
qed

definition fed_end :: "u8 list \<Rightarrow> hybi13 \<Rightarrow> (processor_error + u8 list \<times> hybi13) outcome" where
  "fed_end buf p =
     (case payload_end buf p of
        Inl f \<Rightarrow> Inl f | Inr (Next b p') \<Rightarrow> fed b p' | Inr (Break e b p') \<Rightarrow> Inr (Inl e))"

lemma fed_application:
  assumes "hb_state p = Application" "0 < hb_bytes_needed p" "buf \<noteq> []"
  defines "n \<equiv> min (hb_bytes_needed p) (length buf)"
  shows "fed buf p = and_then (processed (process_payload_bytes (take n buf) p)) (fed_end (drop n buf))"
proof -
  have g: "going_on buf p" and n: "0 < n" using assms by (simp_all add: going_on_def)
  have t: "consume_turn buf p = bindE (process_payload_bytes (take n buf) p)
      (\<lambda>(k, ec, p1). case ec of Some e \<Rightarrow> Inr (Break e (drop k buf) p1) | None \<Rightarrow> payload_end (drop k buf) p1)"
    using n assms(1) by (simp add: consume_turn_def application_turn_def Let_def n_def [symmetric])
  show ?thesis
  proof (cases "process_payload_bytes (take n buf) p")
    case (Inr r)
    obtain k ec p1 where r: "r = (k, ec, p1)" by (cases r)
    show ?thesis
    proof (cases ec)
      case None
      then have "k = n" using Inr r process_payload_count [of "take n buf" p k p1] by (simp add: n_def)
      then show ?thesis using fed_turn [OF g] t Inr r None by (simp add: processed_def fed_end_def)
    next
      case (Some e)
      then show ?thesis using fed_turn [OF g] t Inr r by (simp add: processed_def)
    qed
  next
    case (Inl f)
    then show ?thesis using fed_turn [OF g] t by (simp add: processed_def)
  qed
qed

lemma processed_needed:
  assumes "processed (process_payload_bytes buf p) = Inr (Inr p1)"
  shows "hb_bytes_needed p1 = hb_bytes_needed p - length buf" "hb_state p1 = hb_state p"
proof -
  have s: "hb_state (set_current_metadata md p) = hb_state p" for md
    by (auto simp: set_current_metadata_def split: option.split msg_slot.split)
  show "hb_bytes_needed p1 = hb_bytes_needed p - length buf" "hb_state p1 = hb_state p"
    using assms s by (auto simp: processed_def process_payload_bytes_def bindE_eq_Inr Let_def
        split: option.splits prod.splits if_splits)
qed

lemma fed_one_application:
  assumes "stream_ok p" "hb_state p = Application" "0 < hb_bytes_needed p" "xs \<noteq> []"
  shows "fed (x # xs) p = and_then (fed [x] p) (\<lambda>(rest, p'). fed (rest @ xs) p')"
proof -
  have one: "fed [x] p = and_then (processed (process_payload_bytes [x] p)) (fed_end [])"
    using fed_application [of p "[x]"] assms by (simp add: min_def Suc_le_eq)
  define m where "m = min (hb_bytes_needed p - 1) (length xs)"
  have n: "min (hb_bytes_needed p) (length (x # xs)) = Suc m" using assms(3) by (auto simp: m_def min_def)
  have whole: "fed (x # xs) p = and_then (processed (process_payload_bytes [x] p))
      (\<lambda>p1. and_then (processed (process_payload_bytes (take m xs) p1)) (fed_end (drop m xs)))"
    using fed_application [of p "x # xs"] assms processed_append [OF assms(1), of "[x]" "take m xs"]
    unfolding n by (simp add: and_then_assoc)
  have step: "and_then (processed (process_payload_bytes (take m xs) p1)) (fed_end (drop m xs)) =
      and_then (fed_end [] p1) (\<lambda>(rest, p'). fed (rest @ xs) p')"
    if pr: "processed (process_payload_bytes [x] p) = Inr (Inr p1)" for p1
  proof (cases "hb_bytes_needed p = 1")
    case True
    then have "m = 0" by (simp add: m_def)
    moreover have "processed (process_payload_bytes [] p1) = Inr (Inr p1)"
    proof -
      obtain k where "process_payload_bytes [x] p = Inr (k, None, p1)"
        using pr by (auto simp: processed_def bindE_eq_Inr split: option.splits)
      then obtain md m' where "current_metadata p1 = Some md" "md_msg md = Some m'"
        by (fastforce simp: process_payload_bytes_def Let_def current_metadata_def set_current_metadata_def
            split: option.splits prod.splits if_splits msg_slot.splits)
      then have "process_payload_bytes [] p1 = Inr (0, None, set_current_metadata md p1\<lparr>hb_bytes_needed := hb_bytes_needed p1 - 0\<rparr>)"
        by (cases md; cases m')
          (auto simp: process_payload_bytes_def byte_mask_circ_def circshift_prepared_key_def Let_def)
      moreover have "set_current_metadata md p1 = p1"
        using \<open>current_metadata p1 = Some md\<close>
        by (auto simp: current_metadata_def set_current_metadata_def split: option.splits msg_slot.splits)
      ultimately show ?thesis by (simp add: processed_def)
    qed
    moreover have "fed_end xs p1 = and_then (fed_end [] p1) (\<lambda>(rest, p'). fed (rest @ xs) p')"
      using fed_nothing_first [of xs] payload_end_rest [of xs p1]
      by (cases "payload_end [] p1") (auto simp: fed_end_def payload_end_next split: turn.split dest!: payload_end_next)
    ultimately show ?thesis by simp
  next
    case False
    then have p1: "0 < hb_bytes_needed p1" "hb_state p1 = Application"
      using processed_needed [OF pr] assms by simp_all
    then have "fed_end [] p1 = Inr (Inr ([], p1))"
      by (simp add: fed_end_def payload_end_def fed_stop going_on_def)
    then show ?thesis
      using fed_application [OF p1(2,1) assms(4)] processed_needed(1) [OF pr] by (simp add: m_def)
  qed
  show ?thesis unfolding whole one and_then_assoc by (rule and_then_cong) (rule step)
qed

lemma fed_one_header:
  assumes "stream_ok p" "hb_state p = Header_extended" "0 < hb_bytes_needed p" "xs \<noteq> []"
  shows "fed (x # xs) p = and_then (fed [x] p) (\<lambda>(rest, p'). fed (rest @ xs) p')"
proof -
  have g: "going_on (x # xs) p" "going_on [x] p" using assms(2) by (simp_all add: going_on_def)
  have t: "consume_turn buf p = extended_turn buf p" for buf using assms(2) by (simp add: consume_turn_def)
  consider "hb_bytes_needed p = 1" | "1 < hb_bytes_needed p" "hb_cursor p < 12" | "12 \<le> hb_cursor p"
    using assms(3) by linarith
  then show ?thesis
  proof cases
    case 1
    show ?thesis
    proof (cases "extended_turn [x] p")
      case (Inr u)
      show ?thesis
      proof (cases u)
        case (Next b p1)
        have "b = []" using Inr Next 1 by (auto simp: extended_turn_def copy_extended_header_bytes_def Let_def bindE_eq_Inr
            split: if_splits option.splits prod.splits)
        then show ?thesis
          using fed_turn [OF g(1)] fed_turn [OF g(2)] extended_turn_one [OF 1, of x xs] Inr Next t fed_nothing_first [of xs p1] by simp
      next
        case (Break e b p1)
        then show ?thesis using fed_turn [OF g(1)] fed_turn [OF g(2)] extended_turn_one [OF 1, of x xs] Inr t by simp
      qed
    next
      case (Inl f)
      then show ?thesis using fed_turn [OF g(1)] fed_turn [OF g(2)] extended_turn_one [OF 1, of x xs] t by simp
    qed
  next
    case 2
    define p1 where "p1 = p\<lparr>hb_extended_header := write_at (hb_cursor p) [x] (hb_extended_header p),
      hb_cursor := hb_cursor p + 1, hb_bytes_needed := hb_bytes_needed p - 1\<rparr>"
    have e: "extended_turn (x # xs) p = extended_turn xs p1" "extended_turn [x] p = Inr (Next [] p1)"
      using extended_turn_split [OF 2(1) assms(4) _ 2(2)] assms(1) unfolding p1_def stream_ok_def by blast+
    have p1: "hb_state p1 = Header_extended" "0 < hb_bytes_needed p1" using assms(2) 2(1) by (simp_all add: p1_def)
    then have "\<not> going_on [] p1" "going_on xs p1" using assms(4) by (simp_all add: going_on_def)
    moreover have "consume_turn xs p1 = extended_turn xs p1" using p1 by (simp add: consume_turn_def)
    ultimately show ?thesis using fed_turn [OF g(1)] fed_turn [OF g(2)] fed_turn [of xs p1] fed_stop [of "[]" p1] e t by simp
  next
    case 3
    then show ?thesis using fed_turn [OF g(1)] fed_turn [OF g(2)] t extended_turn_full [OF assms(3) 3] by simp
  qed
qed

lemma fed_one_basic:
  assumes "hb_state p = Header_basic" "0 < hb_bytes_needed p" "xs \<noteq> []"
  shows "fed (x # xs) p = and_then (fed [x] p) (\<lambda>(rest, p'). fed (rest @ xs) p')"
proof -
  have g: "going_on (x # xs) p" "going_on [x] p" using assms(1) by (simp_all add: going_on_def)
  have t: "consume_turn buf p = basic_turn buf p" for buf using assms(1) by (simp add: consume_turn_def)
  show ?thesis
  proof (cases "hb_bytes_needed p = 2")
    case True
    obtain y ys where xs: "xs = y # ys" using assms(3) by (cases xs) auto
    define p1 where "p1 = p\<lparr>hb_basic_header := (hb_basic_header p)\<lparr>b0 := x\<rparr>, hb_bytes_needed := 1\<rparr>"
    have "\<not> going_on [] p1" "going_on xs p1" "consume_turn xs p1 = basic_turn xs p1"
      using assms(1) xs by (simp_all add: going_on_def p1_def consume_turn_def)
    moreover have "basic_turn (x # xs) p = basic_turn xs p1" "basic_turn [x] p = Inr (Next [] p1)"
      using basic_turn_split [OF True] xs by (simp_all add: p1_def)
    ultimately show ?thesis
      using fed_turn [OF g(1)] fed_turn [OF g(2)] fed_turn [of xs p1] fed_stop [of "[]" p1] t by simp
  next
    case False
    then have one: "basic_turn (x # xs) p = lift_rest xs (basic_turn [x] p)"
      using assms(2) by (intro basic_turn_one) simp_all
    have b: "basic_turn [x] p = Inr (Next b p1) \<Longrightarrow> b = []" for b p1
      using False assms(2) by (auto simp: basic_turn_def copy_basic_header_bytes_def Let_def split: if_splits option.splits)
    show ?thesis
    proof (cases "basic_turn [x] p")
      case (Inr u)
      show ?thesis
      proof (cases u)
        case (Next r p1)
        then have "r = []" using b Inr by simp
        then show ?thesis
          using fed_turn [OF g(1)] fed_turn [OF g(2)] one Inr Next t fed_nothing_first [of xs p1] by simp
      next
        case (Break e r p1)
        then show ?thesis using fed_turn [OF g(1)] fed_turn [OF g(2)] one Inr t by simp
      qed
    next
      case (Inl f)
      then show ?thesis using fed_turn [OF g(1)] fed_turn [OF g(2)] one t by simp
    qed
  qed
qed

lemma fed_one:
  "stream_ok p \<Longrightarrow> fed (x # xs) p = and_then (fed [x] p) (\<lambda>(rest, p'). fed (rest @ xs) p')"
proof (induction "turn_rank p" arbitrary: p rule: less_induct)
  case less
  consider "xs = []" | "\<not> going_on [x] p" | "xs \<noteq> []" "going_on [x] p" "hb_bytes_needed p = 0 \<or> hb_state p = Extension"
    | "xs \<noteq> []" "going_on [x] p" "0 < hb_bytes_needed p" "hb_state p \<noteq> Extension" by auto
  then show ?case
  proof cases
    case 1
    show ?thesis unfolding 1 append_Nil2 by (rule fed_again)
  next
    case 2
    then show ?thesis by (simp add: fed_stop going_on_def)
  next
    case 3
    have g: "going_on (x # xs) p" using 3(2) by (simp add: going_on_def)
    show ?thesis
    proof (cases "consume_turn [] p")
      case (Inr u)
      show ?thesis
      proof (cases u)
        case (Next b p1)
        then have t1: "consume_turn [x] p = Inr (Next (b @ [x]) p1)" using free_turn [OF 3(3), of "[x]"] Inr by simp
        have b: "b = []" "turn_rank p1 < turn_rank p" using turn_smaller [OF 3(2) t1] by auto
        have "fed (x # xs) p1 = and_then (fed [x] p1) (\<lambda>(rest, p'). fed (rest @ xs) p')"
          using less(1) [OF b(2) stream_ok_turn [OF less(2) t1]] .
        then show ?thesis
          using fed_turn [OF g] fed_turn [OF 3(2)] free_turn [OF 3(3), of "x # xs"] t1 b(1) Inr Next by simp
      next
        case (Break e b p1)
        then show ?thesis
          using fed_turn [OF g] fed_turn [OF 3(2)] free_turn [OF 3(3), of "x # xs"] free_turn [OF 3(3), of "[x]"] Inr by simp
      qed
    next
      case (Inl f)
      then show ?thesis
        using fed_turn [OF g] fed_turn [OF 3(2)] free_turn [OF 3(3), of "x # xs"] free_turn [OF 3(3), of "[x]"] by simp
    qed
  next
    case 4
    then show ?thesis
      using fed_one_basic [of p xs x] fed_one_header [OF less(2), of xs x] fed_one_application [OF less(2), of xs x]
      by (cases "hb_state p") (auto simp: going_on_def)
  qed
qed

lemma fed_append: "stream_ok p \<Longrightarrow> fed (xs @ ys) p = and_then (fed xs p) (\<lambda>(rest, p'). fed (rest @ ys) p')"
proof (induction xs arbitrary: p)
  case Nil
  show ?case unfolding append_Nil by (rule fed_nothing_first)
next
  case (Cons x xs)
  have "and_then (fed [x] p) (\<lambda>(rest, p'). fed (rest @ xs @ ys) p') =
      and_then (fed [x] p) (\<lambda>y. and_then (case y of (rest, p') \<Rightarrow> fed (rest @ xs) p') (\<lambda>(rest, p'). fed (rest @ ys) p'))"
  proof (rule and_then_cong)
    fix y assume f: "fed [x] p = Inr (Inr y)"
    obtain r p1 where y: "y = (r, p1)" by (cases y)
    then have ok: "stream_ok p1" and st: "\<not> going_on r p1" using fed_ok [OF Cons.prems] fed_stops f by auto
    show "(case y of (rest, p') \<Rightarrow> fed (rest @ xs @ ys) p') =
      and_then (case y of (rest, p') \<Rightarrow> fed (rest @ xs) p') (\<lambda>(rest, p'). fed (rest @ ys) p')"
    proof (cases "r = []")
      case True
      then show ?thesis using Cons.IH [OF ok] y by simp
    next
      case False
      then have "\<not> going_on (r @ zs) p1" for zs using st by (auto simp: going_on_def)
      then show ?thesis using y by (simp add: fed_stop)
    qed
  qed
  then show ?case
    using fed_one [OF Cons.prems, of x "xs @ ys"] fed_one [OF Cons.prems, of x xs] by (simp add: and_then_assoc)
qed

text \<open>C13: However the network splits the bytes of a stream into buffers, the processor comes to the same result: the
  same error, or the same messages and state with the same bytes left over.\<close>

theorem consume_in_pieces:
  assumes "stream_ok p"
  shows "fed (xs @ ys) p = and_then (fed xs p) (\<lambda>(rest, p'). fed (rest @ ys) p')"
  by (rule fed_append [OF assms])

theorem consume_in_pieces_witness:
  "fed ([0x81] @ [0x00]) (hybi13_new False 32000000) =
     and_then (fed [0x81] (hybi13_new False 32000000)) (\<lambda>(rest, p'). fed (rest @ [0x00]) p')"
  by (rule consume_in_pieces [OF stream_ok_new])

end
