(* ===== verification/Ws_Receive.thy ===== *)
theory Ws_Receive
  imports Ws_Stream
begin

text \<open>
  What receiving a stream of frames means, on whole frames instead of bytes (\<open>receive_frame\<close>), and the theorem
  that the processor does it: on every frame, with every error.
\<close>

subsection \<open>Frames\<close>

record frame =
  fr_opcode :: opcode
  fr_fin :: bool
  fr_masked :: bool
  fr_key :: u32
  fr_payload :: "u8 list"

text \<open>A frame on the wire, its length encoded in the shortest way.\<close>

definition frame_basic :: "frame \<Rightarrow> basic_header" where
  "frame_basic f = basic_header_new (fr_opcode f) (of_nat (length (fr_payload f))) (fr_fin f) (fr_masked f) False False False"

definition wire_payload :: "frame \<Rightarrow> u8 list" where
  "wire_payload f = (if fr_masked f then byte_mask (fr_payload f) (fr_key f) 0 else fr_payload f)"

definition wire :: "frame \<Rightarrow> u8 list" where
  "wire f = frame_header (frame_basic f) (fr_masked f) (of_nat (length (fr_payload f))) (fr_key f) @ wire_payload f"

text \<open>
  The receiver has the opcode and the payload of an unfinished message, if there is one.  A control frame is
  delivered at once; a text is checked as it grows, but that it ends with a whole character only when its
  last frame has the opcode of a text itself, that is, when it has a single frame.
\<close>

type_synonym partial_message = "(opcode \<times> u8 list) option"

definition text_ok :: "opcode \<Rightarrow> u8 list \<Rightarrow> bool" where
  "text_ok op bs \<longleftrightarrow> (op = Op_text \<longrightarrow> fst (validator_range bs validator_new))"

definition text_whole :: "opcode \<Rightarrow> u8 list \<Rightarrow> bool" where
  "text_whole op bs \<longleftrightarrow> (op = Op_text \<longrightarrow> validate bs)"

definition header_error :: "bool \<Rightarrow> partial_message \<Rightarrow> frame \<Rightarrow> processor_error option" where
  "header_error server pending f =
     (let op = fr_opcode f
      in if is_control op \<and> 125 < length (fr_payload f) then Some PE_control_too_big
         else if opcode_reserved op then Some PE_invalid_opcode
         else if is_control op \<and> \<not> fr_fin f then Some PE_fragmented_control
         else if \<not> is_control op \<and> (pending = None \<longleftrightarrow> op = Op_continuation) then Some PE_invalid_continuation
         else if server \<and> \<not> fr_masked f then Some PE_masking_required
         else if \<not> server \<and> fr_masked f then Some PE_masking_forbidden
         else None)"

text \<open>A data frame begins a message or continues one.\<close>

definition joined :: "partial_message \<Rightarrow> frame \<Rightarrow> opcode \<times> u8 list" where
  "joined pending f = (case pending of None \<Rightarrow> (fr_opcode f, fr_payload f) | Some (op, bs) \<Rightarrow> (op, bs @ fr_payload f))"

definition receive_frame ::
  "bool \<Rightarrow> nat \<Rightarrow> partial_message \<Rightarrow> frame \<Rightarrow> processor_error + (opcode \<times> u8 list) option \<times> partial_message" where
  "receive_frame server limit pending f =
     (case header_error server pending f of
        Some e \<Rightarrow> Inl e
      | None \<Rightarrow>
          if is_control (fr_opcode f) then Inr (Some (fr_opcode f, fr_payload f), pending)
          else
            let (op, bs) = joined pending f
            in if limit < length bs then Inl PE_message_too_big
               else if \<not> text_ok op bs then Inl PE_invalid_utf8
               else if \<not> fr_fin f then Inr (None, Some (op, bs))
               else if fr_opcode f = Op_text \<and> \<not> text_whole op bs then Inl PE_invalid_utf8
               else Inr (Some (op, bs), None))"

subsection \<open>The processor between frames\<close>

definition idle :: "hybi13 \<Rightarrow> bool" where
  "idle p \<longleftrightarrow> stream_ok p \<and> hb_state p = Header_basic \<and> hb_bytes_needed p = 2"

text \<open>The message handed out for an opcode and a payload.\<close>

definition received_message :: "opcode \<Rightarrow> u8 list \<Rightarrow> message" where
  "received_message op bs = (message_new op)\<lparr>mg_payload := bs\<rparr>"

lemma received_message_simps [simp]:
  "mg_opcode (received_message op bs) = op" "mg_payload (received_message op bs) = bs"
  "received_message op bs\<lparr>mg_payload := bs'\<rparr> = received_message op bs'"
  by (simp_all add: received_message_def message_new_def)

lemma message_new_received: "message_new op = received_message op []"
  by (simp add: received_message_def message_new_def)

definition holds_partial :: "msg_metadata \<Rightarrow> partial_message \<Rightarrow> bool" where
  "holds_partial md pending \<longleftrightarrow>
     (case pending of
        None \<Rightarrow> md_msg md = None
      | Some (op, bs) \<Rightarrow>
          \<not> is_control op \<and> md_msg md = Some (received_message op bs)
          \<and> (op = Op_text \<longrightarrow> validator_range bs validator_new = (True, md_validator md)))"

definition receives :: "bool \<Rightarrow> nat \<Rightarrow> partial_message \<Rightarrow> hybi13 \<Rightarrow> bool" where
  "receives server limit pending p \<longleftrightarrow>
     idle p \<and> hb_server p = server \<and> hb_max_message_size p = limit \<and> holds_partial (hb_data_msg p) pending"

lemma receives_new: "receives server limit None (hybi13_new server limit)"
  by (simp add: receives_def idle_def stream_ok_new holds_partial_def)
    (simp add: hybi13_new_def reset_headers_def metadata_none_def)

subsection \<open>The header of a frame\<close>

lemma frame_size: "length (fr_payload f) < 2 ^ 64 \<Longrightarrow> unat (of_nat (length (fr_payload f)) :: u64) = length (fr_payload f)"
  by (simp add: unsigned_of_nat take_bit_nat_eq_self)

lemma small_size:
  assumes "length (fr_payload f) < 2 ^ 64"
  shows "(of_nat (length (fr_payload f)) :: u64) \<le> 125 \<longleftrightarrow> length (fr_payload f) \<le> 125"
  using frame_size [OF assms] by (simp add: word_le_nat_alt)

lemma big_code:
  assumes "length (fr_payload f) < 2 ^ 64"
  shows "125 < basic_size_code (of_nat (length (fr_payload f))) \<longleftrightarrow> 125 < length (fr_payload f)"
  using small_size [OF assms] unat_small_size [of "of_nat (length (fr_payload f))"] frame_size [OF assms]
  by (auto simp: basic_size_code_def word_less_nat_alt not_le)

lemma opcode_valid [simp]: "\<not> opcode_invalid op"
  using opcode_value_less [of op] by (simp add: opcode_invalid_def)

lemma control_opcodes [simp]:
  "\<not> is_control Op_continuation" "\<not> is_control Op_text" "\<not> is_control Op_binary"
  "is_control Op_close" "is_control Op_ping" "is_control Op_pong"
  by (simp_all add: is_control_def)

lemma frame_basic_simps [simp]:
  "get_opcode (frame_basic f) = fr_opcode f" "get_fin (frame_basic f) = fr_fin f" "get_masked (frame_basic f) = fr_masked f"
  "\<not> get_rsv1 (frame_basic f)" "\<not> get_rsv2 (frame_basic f)" "\<not> get_rsv3 (frame_basic f)"
  by (simp_all add: frame_basic_def)

lemma frame_header_error:
  assumes "length (fr_payload f) < 2 ^ 64" "pending = None \<longleftrightarrow> new_msg"
  shows "validate_incoming_basic_header (frame_basic f) server new_msg = header_error server pending f"
proof -
  have "125 < get_basic_size (frame_basic f) \<longleftrightarrow> 125 < length (fr_payload f)"
    using big_code [OF assms(1)] by (simp add: frame_basic_def)
  moreover have "(if a then x else if b then x else y) = (if a \<or> b then x else y)" for a b and x y :: "processor_error option"
    by simp
  moreover have "new_msg \<and> fr_opcode f = Op_continuation \<or> \<not> new_msg \<and> \<not> is_control (fr_opcode f) \<and> fr_opcode f \<noteq> Op_continuation
      \<longleftrightarrow> \<not> is_control (fr_opcode f) \<and> (pending = None \<longleftrightarrow> fr_opcode f = Op_continuation)"
    using assms(2) by auto
  ultimately show ?thesis
    unfolding validate_incoming_basic_header_def header_error_def Let_def
    by (simp only: frame_basic_simps opcode_valid simp_thms if_False)
qed

text \<open>The extended header as it is sent, and what the receiver has copied of it.\<close>

definition frame_extended :: "frame \<Rightarrow> u8 list" where
  "frame_extended f =
     (let sz = of_nat (length (fr_payload f)) in if fr_masked f then extended_header_key sz (fr_key f) else extended_header_new sz)"

definition extended_length :: "frame \<Rightarrow> nat" where
  "extended_length f = get_header_len (frame_basic f) - 2"

lemma wire_bytes:
  "wire f = b0 (frame_basic f) # b1 (frame_basic f) # take (extended_length f) (frame_extended f) @ wire_payload f"
  by (simp add: wire_def frame_header_def prepare_header_def frame_extended_def extended_length_def Let_def)

lemma length_frame_extended: "length (frame_extended f) = 12" and extended_length: "extended_length f \<le> 12"
  by (auto simp: frame_extended_def Let_def extended_header_bytes payload_offset_def extended_length_def header_length frame_basic_def)

lemma copied_extended:
  assumes "length (fr_payload f) < 2 ^ 64" "length ext = 12"
  defines "e \<equiv> write_at 0 (take (extended_length f) (frame_extended f)) ext"
  shows "get_payload_size (frame_basic f) e = of_nat (length (fr_payload f))"
    and "get_masking_key (frame_basic f) e = (if fr_masked f then fr_key f else 0)"
    and "validate_incoming_extended_header (frame_basic f) e = None"
    and "length e = 12"
proof -
  let ?sz = "of_nat (length (fr_payload f)) :: u64"
  have e: "e = take (extended_length f) (frame_extended f) @ drop (extended_length f) ext"
    using length_frame_extended [of f] extended_length [of f] by (simp add: e_def write_at_0)
  show "length e = 12" using assms(2) length_frame_extended [of f] extended_length [of f] by (simp add: e)
  have l: "extended_length f = 8 - payload_offset ?sz + (if fr_masked f then 4 else 0)"
    by (simp add: extended_length_def header_length frame_basic_def)
  have off: "payload_offset ?sz = 8 \<or> payload_offset ?sz = 6 \<or> payload_offset ?sz = 0" by (simp add: payload_offset_def)
  have "take (8 - payload_offset ?sz) e = drop (payload_offset ?sz) (rev (le_bytes 8 ?sz))"
    using off by (elim disjE) (simp_all add: e l frame_extended_def Let_def extended_header_bytes)
  then show sz: "get_payload_size (frame_basic f) e = ?sz"
    unfolding frame_basic_def by (rule header_payload_size)
  show "get_masking_key (frame_basic f) e = (if fr_masked f then fr_key f else 0)"
  proof (cases "fr_masked f")
    case True
    have "take 4 (drop (8 - payload_offset ?sz) e) = le_bytes 4 (fr_key f)"
      using off True by (elim disjE) (simp_all add: e l frame_extended_def Let_def extended_header_bytes)
    then show ?thesis using True
      by (simp add: get_masking_key_def of_le_bytes_le) (simp add: frame_basic_def of_le_bytes_le)
  qed (simp add: get_masking_key_def)
  have "basic_size_code ?sz = 0x7E \<Longrightarrow> \<not> ?sz \<le> 125" "basic_size_code ?sz = 0x7F \<Longrightarrow> \<not> ?sz \<le> 0xFFFF"
    using unat_small_size [of ?sz] by (auto simp: basic_size_code_def word_le_nat_alt split: if_splits)
  then show "validate_incoming_extended_header (frame_basic f) e = None"
    unfolding validate_incoming_extended_header_def Let_def sz by (auto simp: frame_basic_def)
qed

text \<open>The processor when it has read the header of a frame.\<close>

definition header_read :: "frame \<Rightarrow> hybi13 \<Rightarrow> hybi13" where
  "header_read f p =
     p\<lparr>hb_basic_header := frame_basic f,
       hb_extended_header := write_at 0 (take (extended_length f) (frame_extended f)) (hb_extended_header p),
       hb_cursor := extended_length f, hb_state := Application, hb_bytes_needed := length (fr_payload f)\<rparr>"

lemma fed_header:
  assumes "idle p" "length (fr_payload f) < 2 ^ 64"
  shows "fed (wire f @ rest) p =
    (case validate_incoming_basic_header (frame_basic f) (hb_server p) (md_msg (hb_data_msg p) = None) of
       Some e \<Rightarrow> Inr (Inl e)
     | None \<Rightarrow> (case start_payload (header_read f p) of
           (Some e, p2) \<Rightarrow> Inr (Inl e) | (None, p2) \<Rightarrow> fed (wire_payload f @ rest) p2))"
proof -
  let ?n = "extended_length f"
  define more where "more = take ?n (frame_extended f) @ wire_payload f @ rest"
  define p1 where "p1 = p\<lparr>hb_basic_header := frame_basic f, hb_state := Header_extended, hb_cursor := 0, hb_bytes_needed := ?n\<rparr>"
  have buf: "wire f @ rest = b0 (frame_basic f) # b1 (frame_basic f) # more" by (simp add: wire_bytes more_def)
  have h: "\<lparr>b0 = b0 (frame_basic f), b1 = b1 (frame_basic f)\<rparr> = frame_basic f" by simp
  have st: "hb_state p = Header_basic" "hb_bytes_needed p = 2" "length (hb_extended_header p) = 12"
    using assms(1) by (simp_all add: idle_def stream_ok_def)
  have "consume_turn (wire f @ rest) p =
    (case validate_incoming_basic_header (frame_basic f) (hb_server p) (md_msg (hb_data_msg p) = None) of
       Some e \<Rightarrow> Inr (Break e more (p\<lparr>hb_basic_header := frame_basic f, hb_bytes_needed := 0\<rparr>)) | None \<Rightarrow> Inr (Next more p1))"
    using st by (simp add: buf consume_turn_def basic_turn_def copy_basic_header_bytes_def Let_def h numeral_2_eq_2
        p1_def extended_length_def split: option.split)
  then have first: "fed (wire f @ rest) p =
    (case validate_incoming_basic_header (frame_basic f) (hb_server p) (md_msg (hb_data_msg p) = None) of
       Some e \<Rightarrow> Inr (Inl e) | None \<Rightarrow> fed more p1)"
    using fed_turn [of "wire f @ rest" p] st buf by (simp add: going_on_def split: option.split)
  have len: "length (take ?n (frame_extended f)) = ?n" using length_frame_extended [of f] extended_length [of f] by simp
  then have n: "min ?n (length more) = ?n" "take ?n more = take ?n (frame_extended f)" "drop ?n more = wire_payload f @ rest"
    by (simp_all add: more_def)
  have g: "going_on more p1" using len by (cases "?n = 0") (auto simp: going_on_def p1_def more_def)
  have copy: "copy_extended_header_bytes more p1 =
      Inr (?n, p1\<lparr>hb_extended_header := write_at 0 (take ?n (frame_extended f)) (hb_extended_header p), hb_cursor := ?n, hb_bytes_needed := 0\<rparr>)"
    using extended_length [of f] n by (simp add: copy_extended_header_bytes_def Let_def p1_def)
  have "consume_turn more p1 = (case start_payload (header_read f p) of
      (Some e, p2) \<Rightarrow> Inr (Break e (wire_payload f @ rest) p2) | (None, p2) \<Rightarrow> Inr (Next (wire_payload f @ rest) p2))"
    using copy n(3) copied_extended [OF assms(2) st(3)] frame_size [OF assms(2)]
    by (simp add: consume_turn_def p1_def extended_turn_def header_read_def split: option.split prod.split)
  then show ?thesis using first fed_turn [OF g] by (auto split: option.split prod.split)
qed

subsection \<open>The payload of a frame\<close>

lemma set_current_same: "current_metadata q = Some md \<Longrightarrow> set_current_metadata md q = q"
  by (auto simp: current_metadata_def set_current_metadata_def split: option.splits msg_slot.splits)

lemma byte_mask_empty [simp]: "byte_mask [] key k = []"
  by (simp add: byte_mask_def)

definition checked :: "opcode \<Rightarrow> u8 list \<Rightarrow> validator \<Rightarrow> bool \<times> validator" where
  "checked op bs v = (if op = Op_text then validator_range bs v else (True, v))"

lemma fed_payload:
  assumes "hb_state q = Application" "hb_bytes_needed q = length (fr_payload f)" "get_masked (hb_basic_header q) = fr_masked f"
    "current_metadata q = Some md" "md_msg md = Some m" "fr_masked f \<Longrightarrow> md_key md = prepare_masking_key (fr_key f)"
    "checked (mg_opcode m) (fr_payload f) (md_validator md) = (ok, v)" "key_word (md_key md)"
  shows "\<exists>key. key_word key \<and> fed (wire_payload f @ rest) q =
    (if ok then fed_end rest (set_current_metadata
          \<lparr>md_msg = Some (m\<lparr>mg_payload := mg_payload m @ fr_payload f\<rparr>), md_key = key, md_validator = v\<rparr> q\<lparr>hb_bytes_needed := 0\<rparr>)
     else Inr (Inl PE_invalid_utf8))"
proof (cases "fr_payload f = []")
  case True
  have same: "set_current_metadata
      \<lparr>md_msg = Some (m\<lparr>mg_payload := mg_payload m @ fr_payload f\<rparr>), md_key = md_key md, md_validator = v\<rparr> q\<lparr>hb_bytes_needed := 0\<rparr> = q"
    using True assms(2,5,7) set_current_same [OF assms(4)] by (cases md) (auto simp: checked_def split: if_splits)
  have ok: "ok" using True assms(7) by (auto simp: checked_def split: if_splits)
  have "going_on rest q" using assms(1,2) True by (simp add: going_on_def)
  then have "fed rest q = fed_end rest q"
    using assms(1,2) True fed_turn [of rest q] by (simp add: consume_turn_def application_turn_def fed_end_def)
  then show ?thesis using same ok True assms(8) by (intro exI [of _ "md_key md"]) (simp add: wire_payload_def)
next
  case False
  let ?n = "length (fr_payload f)"
  have len: "length (wire_payload f) = ?n" by (simp add: wire_payload_def)
  then have ne: "wire_payload f \<noteq> []" using False by auto
  obtain key where mask: "(if get_masked (hb_basic_header q) then byte_mask_circ (wire_payload f) (md_key md) else (wire_payload f, md_key md))
      = (fr_payload f, key)"
    using byte_mask_circ_at [OF masks_at_prepared [of "fr_key f"], of "wire_payload f"] assms(3,6)
    by (auto simp: wire_payload_def byte_mask_twice)
  have "key_word key" using mask assms(8) byte_mask_circ_key [OF assms(8), of "wire_payload f"] by (auto split: if_splits)
  moreover
  have "fed (wire_payload f @ rest) q = and_then (processed (process_payload_bytes (wire_payload f) q)) (fed_end rest)"
    using fed_application [of q "wire_payload f @ rest"] assms(1,2) False len ne by simp
  ultimately show ?thesis
    using process_payload_eq [OF assms(4,5) mask assms(7) [unfolded checked_def]] assms(2) len
    by (intro exI [of _ key]) (simp add: processed_def)
qed

subsection \<open>Receiving a frame\<close>

text \<open>What the processor does with the message it has read.\<close>

lemma fed_end_more:
  "hb_bytes_needed q = 0 \<Longrightarrow> \<not> get_fin (hb_basic_header q) \<Longrightarrow> fed_end rest q = fed rest (reset_headers q)"
  by (simp add: fed_end_def payload_end_def)

lemma fed_end_fin:
  assumes "hb_bytes_needed q = 0" "get_fin (hb_basic_header q)" "current_metadata q = Some md" "md_msg md = Some m"
  shows "fed_end rest q =
    (if get_opcode (hb_basic_header q) = Op_text \<and> \<not> validator_complete (md_validator md) then Inr (Inl PE_invalid_utf8)
     else Inr (Inr (rest, q\<lparr>hb_state := Ready\<rparr>)))"
  using assms by (simp add: fed_end_def payload_end_def finalize_message_def fed_stop going_on_def)

lemma receives_fed_again:
  assumes "stream_ok q" "hb_server q = server" "hb_max_message_size q = limit" "holds_partial (hb_data_msg q) pending"
  shows "receives server limit pending (reset_headers q)"
  using assms by (simp add: receives_def idle_def stream_ok_def reset_headers_def)

text \<open>The message the processor hands out, and what stays.\<close>

lemma delivered:
  assumes "stream_ok q" "current_metadata q = Some md" "md_msg md = Some m"
    "is_control (mg_opcode m) \<longleftrightarrow> hb_current_msg q = Some Control_msg"
  shows "\<exists>p''. get_message (q\<lparr>hb_state := Ready\<rparr>) = Inr (Some m, p'') \<and> idle p'' \<and> hb_server p'' = hb_server q
    \<and> hb_max_message_size p'' = hb_max_message_size q
    \<and> hb_data_msg p'' = (if is_control (mg_opcode m) then hb_data_msg q else (hb_data_msg q)\<lparr>md_msg := None\<rparr>)"
  using assms
  by (cases "hb_current_msg q"; cases "the (hb_current_msg q)")
    (auto simp: get_message_def ready_def current_metadata_def set_current_metadata_def Let_def reset_headers_def
      idle_def stream_ok_def)

lemma header_read_simps [simp]:
  "hb_basic_header (header_read f p) = frame_basic f" "hb_state (header_read f p) = Application"
  "hb_bytes_needed (header_read f p) = length (fr_payload f)" "hb_server (header_read f p) = hb_server p"
  "hb_max_message_size (header_read f p) = hb_max_message_size p" "hb_data_msg (header_read f p) = hb_data_msg p"
  "hb_control_msg (header_read f p) = hb_control_msg p"
  by (simp_all add: header_read_def)

lemma stream_ok_header_read: "stream_ok p \<Longrightarrow> stream_ok (header_read f p)"
  using length_frame_extended [of f] extended_length [of f] by (simp add: stream_ok_def header_read_def length_write_at)

lemma header_read_key:
  assumes "idle p" "length (fr_payload f) < 2 ^ 64"
  shows "get_masking_key (frame_basic f) (hb_extended_header (header_read f p)) = (if fr_masked f then fr_key f else 0)"
  using copied_extended(2) [OF assms(2)] assms(1) by (simp add: header_read_def idle_def stream_ok_def)

lemma receive_control:
  assumes p: "receives server limit pending p" and len: "length (fr_payload f) < 2 ^ 64"
    and ok: "header_error server pending f = None" and op: "is_control (fr_opcode f)"
  shows "\<exists>p' p''. fed (wire f @ rest) p = Inr (Inr (rest, p'))
    \<and> get_message p' = Inr (Some (received_message (fr_opcode f) (fr_payload f)), p'') \<and> receives server limit pending p''"
proof -
  let ?key = "if fr_masked f then fr_key f else 0"
  define md where "md = metadata_new (message_new (fr_opcode f)) ?key"
  define q where "q = (header_read f p)\<lparr>hb_control_msg := md, hb_current_msg := Some Control_msg\<rparr>"
  have i: "idle p" and srv: "hb_server p = server" "hb_max_message_size p = limit" "holds_partial (hb_data_msg p) pending"
    using p by (simp_all add: receives_def)
  have new: "pending = None \<longleftrightarrow> md_msg (hb_data_msg p) = None"
    using srv(3) by (auto simp: holds_partial_def split: option.splits)
  have start: "start_payload (header_read f p) = (None, q)"
    using op header_read_key [OF i len] by (simp add: start_payload_def Let_def q_def md_def)
  have fin: "fr_fin f" using ok op by (simp add: header_error_def Let_def split: if_splits)
  have no_text: "fr_opcode f \<noteq> Op_text" using op by auto
  obtain key where kw: "key_word key" and read: "fed (wire_payload f @ rest) q = fed_end rest (set_current_metadata
      \<lparr>md_msg = Some ((message_new (fr_opcode f))\<lparr>mg_payload := fr_payload f\<rparr>), md_key = key, md_validator = validator_new\<rparr> q\<lparr>hb_bytes_needed := 0\<rparr>)"
    using fed_payload [of q f md "message_new (fr_opcode f)" True validator_new rest] no_text
    by (auto simp: q_def md_def metadata_new_def checked_def message_new_def current_metadata_def)
  define m where "m = received_message (fr_opcode f) (fr_payload f)"
  define md' where "md' = \<lparr>md_msg = Some m, md_key = key, md_validator = validator_new\<rparr>"
  define q' where "q' = set_current_metadata md' q\<lparr>hb_bytes_needed := 0\<rparr>"
  have q': "current_metadata q' = Some md'" "hb_basic_header q' = frame_basic f" "hb_bytes_needed q' = 0"
      "hb_data_msg q' = hb_data_msg p" "hb_server q' = server" "hb_max_message_size q' = limit" "hb_current_msg q' = Some Control_msg"
    using srv by (simp_all add: q'_def q_def current_metadata_def set_current_metadata_def)
  have "fed (wire f @ rest) p = fed (wire_payload f @ rest) q"
    using fed_header [OF i len, of rest] frame_header_error [OF len new] ok start srv by simp
  also have "\<dots> = fed_end rest q'" using read by (simp add: q'_def md'_def m_def received_message_def)
  also have "\<dots> = Inr (Inr (rest, q'\<lparr>hb_state := Ready\<rparr>))"
    using fed_end_fin [OF q'(3) _ q'(1)] q'(2) fin no_text by (simp add: md'_def)
  finally have fed: "fed (wire f @ rest) p = Inr (Inr (rest, q'\<lparr>hb_state := Ready\<rparr>))" .
  have mop: "mg_opcode m = fr_opcode f" by (simp add: m_def)
  have "stream_ok q'"
    using i kw stream_ok_header_read [of p f]
    by (simp add: q'_def q_def md'_def set_current_metadata_def idle_def stream_ok_def)
  then obtain p'' where "get_message (q'\<lparr>hb_state := Ready\<rparr>) = Inr (Some m, p'')" "idle p''" "hb_server p'' = server"
      "hb_max_message_size p'' = limit" "hb_data_msg p'' = hb_data_msg p"
    using delivered [of q' md' m] q' op mop by (auto simp: md'_def)
  then show ?thesis using fed srv(3) by (auto simp: receives_def m_def)
qed

lemma data_started:
  assumes p: "receives server limit pending p" and len: "length (snd (joined pending f)) < 2 ^ 64"
    and op: "\<not> is_control (fr_opcode f)" and joined: "joined pending f = (o', bs')"
  shows "if limit < length bs' then fst (start_payload (header_read f p)) = Some PE_message_too_big
    else \<exists>md bs. start_payload (header_read f p) = (None, (header_read f p)\<lparr>hb_data_msg := md, hb_current_msg := Some Data_msg\<rparr>)
      \<and> md_msg md = Some (received_message o' bs) \<and> bs @ fr_payload f = bs' \<and> \<not> is_control o'
      \<and> md_key md = prepare_masking_key (if fr_masked f then fr_key f else 0)
      \<and> (o' = Op_text \<longrightarrow> validator_range bs validator_new = (True, md_validator md))"
proof -
  have i: "idle p" and srv: "hb_max_message_size p = limit" "holds_partial (hb_data_msg p) pending"
    using p by (simp_all add: receives_def)
  have small: "length (fr_payload f) < 2 ^ 64" using len by (auto simp: joined_def split: option.splits prod.splits)
  note key = header_read_key [OF i small]
  show ?thesis
  proof (cases pending)
    case None
    then have "md_msg (hb_data_msg p) = None" "o' = fr_opcode f" "bs' = fr_payload f"
      using srv(2) joined by (simp_all add: holds_partial_def joined_def)
    then show ?thesis
      using op key srv(1)
      by (auto simp: start_payload_def Let_def metadata_new_def message_new_received
          intro!: exI [of _ "metadata_new (message_new (fr_opcode f)) (if fr_masked f then fr_key f else 0)"])
  next
    case (Some ob)
    obtain bs where m: "md_msg (hb_data_msg p) = Some (received_message o' bs)" "bs @ fr_payload f = bs'" "\<not> is_control o'"
        "o' = Op_text \<longrightarrow> validator_range bs validator_new = (True, md_validator (hb_data_msg p))"
      using srv(2) joined Some by (auto simp: holds_partial_def joined_def split: prod.splits)
    have "(length bs + length (fr_payload f)) mod 2 ^ 64 = length bs'"
      using len joined m(2) by auto
    then show ?thesis
      using op key srv(1) m by (auto simp: start_payload_def Let_def)
  qed
qed

lemma text_checked:
  assumes "o' = Op_text \<longrightarrow> validator_range bs validator_new = (True, v)"
  shows "\<exists>v'. checked o' cs v = (text_ok o' (bs @ cs), v')
    \<and> (o' = Op_text \<longrightarrow> validator_range (bs @ cs) validator_new = (text_ok o' (bs @ cs), v'))"
proof (cases "o' = Op_text")
  case True
  have "validator_range (bs @ cs) validator_new = validator_range cs v"
    using assms True by (simp add: validator_range_append)
  then show ?thesis using True by (cases "validator_range cs v") (simp add: checked_def text_ok_def)
qed (simp add: checked_def text_ok_def)

lemma receive_data:
  assumes p: "receives server limit pending p" and len: "length (snd (joined pending f)) < 2 ^ 64"
    and ok: "header_error server pending f = None" and op: "\<not> is_control (fr_opcode f)" and joined: "joined pending f = (o', bs')"
  shows "if limit < length bs' then fed (wire f @ rest) p = Inr (Inl PE_message_too_big)
    else if \<not> text_ok o' bs' \<or> fr_fin f \<and> fr_opcode f = Op_text \<and> \<not> text_whole o' bs' then fed (wire f @ rest) p = Inr (Inl PE_invalid_utf8)
    else if \<not> fr_fin f then \<exists>p'. fed (wire f @ rest) p = fed rest p' \<and> receives server limit (Some (o', bs')) p'
    else \<exists>p' p''. fed (wire f @ rest) p = Inr (Inr (rest, p'))
      \<and> get_message p' = Inr (Some (received_message o' bs'), p'') \<and> receives server limit None p''"
proof -
  have i: "idle p" and srv: "hb_server p = server" "hb_max_message_size p = limit" "holds_partial (hb_data_msg p) pending"
    using p by (simp_all add: receives_def)
  have small: "length (fr_payload f) < 2 ^ 64" using len by (auto simp: joined_def split: option.splits prod.splits)
  have new: "pending = None \<longleftrightarrow> md_msg (hb_data_msg p) = None"
    using srv(3) by (auto simp: holds_partial_def split: option.splits)
  note header = fed_header [OF i small, of rest, unfolded srv(1) frame_header_error [OF small new] ok, simplified]
  note started = data_started [OF p len op joined]
  show ?thesis
  proof (cases "limit < length bs'")
    case True
    then show ?thesis using started header by (auto split: prod.splits)
  next
    case False
    then obtain md bs where start: "start_payload (header_read f p) = (None, (header_read f p)\<lparr>hb_data_msg := md, hb_current_msg := Some Data_msg\<rparr>)"
      and m: "md_msg md = Some (received_message o' bs)" "bs @ fr_payload f = bs'" "\<not> is_control o'"
        "md_key md = prepare_masking_key (if fr_masked f then fr_key f else 0)"
        "o' = Op_text \<longrightarrow> validator_range bs validator_new = (True, md_validator md)"
      using started by auto
    define q where "q = (header_read f p)\<lparr>hb_data_msg := md, hb_current_msg := Some Data_msg\<rparr>"
    obtain v where v: "checked o' (fr_payload f) (md_validator md) = (text_ok o' bs', v)"
        "o' = Op_text \<longrightarrow> validator_range bs' validator_new = (text_ok o' bs', v)"
      using text_checked [OF m(5), of "fr_payload f"] m(2) by auto
    have first: "fed (wire f @ rest) p = fed (wire_payload f @ rest) q" using header start by (simp add: q_def)
    have "current_metadata q = Some md" by (simp add: q_def current_metadata_def)
    then obtain key where kw: "key_word key" and read: "fed (wire_payload f @ rest) q =
        (if text_ok o' bs' then fed_end rest (set_current_metadata
            \<lparr>md_msg = Some (received_message o' bs'), md_key = key, md_validator = v\<rparr> q\<lparr>hb_bytes_needed := 0\<rparr>)
         else Inr (Inl PE_invalid_utf8))"
      using fed_payload [of q f md "received_message o' bs" "text_ok o' bs'" v rest] m v(1) by (auto simp: q_def)
    show ?thesis
    proof (cases "text_ok o' bs'")
      case False
      then show ?thesis using first read \<open>\<not> limit < length bs'\<close> by simp
    next
      case valid: True
      define md' where "md' = \<lparr>md_msg = Some (received_message o' bs'), md_key = key, md_validator = v\<rparr>"
      define q' where "q' = set_current_metadata md' q\<lparr>hb_bytes_needed := 0\<rparr>"
      have q': "current_metadata q' = Some md'" "hb_basic_header q' = frame_basic f" "hb_bytes_needed q' = 0"
          "hb_data_msg q' = md'" "hb_server q' = server" "hb_max_message_size q' = limit" "hb_current_msg q' = Some Data_msg"
        using srv by (simp_all add: q'_def q_def current_metadata_def set_current_metadata_def)
      have sk: "stream_ok q'"
        using i kw stream_ok_header_read [of p f]
        by (simp add: q'_def q_def md'_def set_current_metadata_def idle_def stream_ok_def)
      have fed: "fed (wire f @ rest) p = fed_end rest q'" using first read valid by (simp add: q'_def md'_def)
      show ?thesis
      proof (cases "fr_fin f")
        case False
        have "holds_partial (hb_data_msg q') (Some (o', bs'))"
          using q'(4) m v(2) valid by (auto simp: holds_partial_def md'_def)
        then show ?thesis
          using fed fed_end_more [of q' rest] q' False valid \<open>\<not> limit < length bs'\<close> receives_fed_again [OF sk] by auto
      next
        case True
        have whole: "fr_opcode f = Op_text \<Longrightarrow> o' = Op_text \<and> (text_whole o' bs' \<longleftrightarrow> validator_complete v)"
          using ok op joined v(2) valid
          by (auto simp: header_error_def joined_def text_whole_def validate_def Let_def split: option.splits if_splits)
        have "fed_end rest q' = (if fr_opcode f = Op_text \<and> \<not> validator_complete v then Inr (Inl PE_invalid_utf8)
            else Inr (Inr (rest, q'\<lparr>hb_state := Ready\<rparr>)))"
          using fed_end_fin [OF q'(3) _ q'(1)] q'(2) True by (simp add: md'_def)
        moreover obtain p'' where "get_message (q'\<lparr>hb_state := Ready\<rparr>) = Inr (Some (received_message o' bs'), p'')" "idle p''"
            "hb_server p'' = server" "hb_max_message_size p'' = limit" "md_msg (hb_data_msg p'') = None"
          using delivered [OF sk q'(1), of "received_message o' bs'"] q' m(3) by (auto simp: md'_def)
        ultimately show ?thesis
          using fed True valid whole \<open>\<not> limit < length bs'\<close> by (auto simp: receives_def holds_partial_def)
      qed
    qed
  qed
qed

lemma receives_frame:
  assumes "receives server limit pending p" "length (snd (joined pending f)) < 2 ^ 64"
  shows "case receive_frame server limit pending f of
      Inl e \<Rightarrow> fed (wire f @ rest) p = Inr (Inl e)
    | Inr (None, pending') \<Rightarrow> \<exists>p'. fed (wire f @ rest) p = fed rest p' \<and> receives server limit pending' p'
    | Inr (Some (op, bs), pending') \<Rightarrow>
        \<exists>p' p''. fed (wire f @ rest) p = Inr (Inr (rest, p')) \<and> get_message p' = Inr (Some (received_message op bs), p'')
          \<and> receives server limit pending' p''"
proof (cases "header_error server pending f")
  case None
  have small: "length (fr_payload f) < 2 ^ 64" using assms(2) by (auto simp: joined_def split: option.splits prod.splits)
  show ?thesis
  proof (cases "is_control (fr_opcode f)")
    case True
    then show ?thesis using receive_control [OF assms(1) small None] None by (simp add: receive_frame_def)
  next
    case False
    then show ?thesis
      using receive_data [OF assms None False prod.collapse [symmetric], of rest] None
      by (auto simp: receive_frame_def Let_def split_beta split: if_splits)
  qed
next
  case (Some e)
  have small: "length (fr_payload f) < 2 ^ 64" using assms(2) by (auto simp: joined_def split: option.splits prod.splits)
  have p: "idle p" "hb_server p = server" "pending = None \<longleftrightarrow> md_msg (hb_data_msg p) = None"
    using assms(1) by (auto simp: receives_def holds_partial_def split: option.splits)
  show ?thesis
    using fed_header [OF p(1) small, of rest] frame_header_error [OF small p(3)] Some p(2) by (simp add: receive_frame_def)
qed

text \<open>C6: The processor does what receiving a frame means: fed the bytes of a frame, it ends with the error of
  \<open>receive_frame\<close>, or waits for the next frame of the message, or hands out the very message; and it goes on with
  the bytes behind the frame in a state that stands for the rest of the message.\<close>

theorem processor_receives:
  assumes "receives server limit pending p" "length (snd (joined pending f)) < 2 ^ 64"
  shows "case receive_frame server limit pending f of
      Inl e \<Rightarrow> fed (wire f @ rest) p = Inr (Inl e)
    | Inr (None, pending') \<Rightarrow> \<exists>p'. fed (wire f @ rest) p = fed rest p' \<and> receives server limit pending' p'
    | Inr (Some (op, bs), pending') \<Rightarrow>
        \<exists>p' p''. fed (wire f @ rest) p = Inr (Inr (rest, p')) \<and> get_message p' = Inr (Some (received_message op bs), p'')
          \<and> receives server limit pending' p''"
  by (rule receives_frame [OF assms])

theorem processor_receives_witness:
  defines "f \<equiv> \<lparr>fr_opcode = Op_text, fr_fin = True, fr_masked = False, fr_key = 0, fr_payload = [0x48, 0x69]\<rparr>"
  shows "\<exists>p' p''. fed (wire f @ [0x81]) (hybi13_new False 32000000) = Inr (Inr ([0x81], p'))
    \<and> get_message p' = Inr (Some (received_message Op_text [0x48, 0x69]), p'') \<and> receives False 32000000 None p''"
proof -
  have "receive_frame False 32000000 None f = Inr (Some (Op_text, [0x48, 0x69]), None)"
    by (simp add: f_def receive_frame_def header_error_def joined_def text_ok_def text_whole_def opcode_reserved_def
        validate_def validator_new_def validator_decode_def validator_table_def validator_complete_def)
  moreover have "length (snd (joined None f)) < 2 ^ 64" by (simp add: f_def joined_def)
  ultimately show ?thesis using processor_receives [OF receives_new [of False 32000000], of f "[0x81]"] by simp
qed

end
