(* ===== verification/Ws_Send.thy ===== *)
theory Ws_Send
  imports Ws_Receive
begin

text \<open>
  What one processor prepares, the processor of the other side reads: data messages, pings and pongs, and the
  code and the reason of a close frame.
\<close>

subsection \<open>What is sent\<close>

text \<open>A prepared message as the frame its bytes stand for.\<close>

definition sent_frame :: "hybi13 \<Rightarrow> u32 \<Rightarrow> opcode \<Rightarrow> bool \<Rightarrow> u8 list \<Rightarrow> frame" where
  "sent_frame p rng op fin bs =
     \<lparr>fr_opcode = op, fr_fin = fin, fr_masked = (\<not> hb_server p), fr_key = rng, fr_payload = bs\<rparr>"

lemma sent_frame_simps [simp]:
  "fr_opcode (sent_frame p rng op fin bs) = op" "fr_fin (sent_frame p rng op fin bs) = fin"
  "fr_masked (sent_frame p rng op fin bs) = (\<not> hb_server p)" "fr_key (sent_frame p rng op fin bs) = rng"
  "fr_payload (sent_frame p rng op fin bs) = bs"
  by (simp_all add: sent_frame_def)

lemma wire_sent:
  "wire (sent_frame p rng op fin bs) =
     frame_header (basic_header_new op (of_nat (length bs)) fin (\<not> hb_server p) False False False) (\<not> hb_server p)
       (of_nat (length bs)) (if hb_server p then 0 else rng)
     @ (if hb_server p then bs else masked_copy bs rng)"
  by (simp add: wire_def wire_payload_def frame_basic_def masked_copy_def frame_header_def)

lemma prepared_data:
  assumes "prepare_data_frame p rng (Some i) out = (None, Some res)"
  shows "mg_header res @ mg_payload res = wire (sent_frame p rng (mg_opcode i) (mg_fin i) (mg_payload i))"
    and "mg_prepared res" "mg_opcode res = mg_opcode i" "\<not> is_control (mg_opcode i)"
    and "mg_opcode i = Op_text \<Longrightarrow> validate (mg_payload i)"
  using assms
  by (auto simp: prepare_data_frame_def Let_def wire_sent deflate_enabled_def masked_copy_def split: option.splits if_splits)

lemma prepared_control:
  assumes "prepare_control p rng op bs out = (None, Some res)"
  shows "mg_header res @ mg_payload res = wire (sent_frame p rng op True bs)"
    and "mg_prepared res" "mg_opcode res = op" "is_control op" "length bs \<le> 125"
  using assms
  by (auto simp: prepare_control_def Let_def wire_sent masked_copy_def frame_header_def split: option.splits if_splits)

subsection \<open>What is received\<close>

lemma text_whole_ok: "text_whole op bs \<Longrightarrow> text_ok op bs"
  by (auto simp: text_whole_def text_ok_def validate_def split: prod.splits if_splits)

lemma delivered_data:
  assumes "prepare_data_frame p rng (Some i) out = (None, Some res)" "mg_fin i" "mg_opcode i \<in> {Op_text, Op_binary}"
    "receives (\<not> hb_server p) limit None q" "length (mg_payload i) \<le> limit" "limit < 2 ^ 64"
  shows "\<exists>q' q''. fed (mg_header res @ mg_payload res @ rest) q = Inr (Inr (rest, q'))
    \<and> get_message q' = Inr (Some (received_message (mg_opcode i) (mg_payload i)), q'') \<and> receives (\<not> hb_server p) limit None q''"
proof -
  let ?f = "sent_frame p rng (mg_opcode i) (mg_fin i) (mg_payload i)"
  have "text_whole (mg_opcode i) (mg_payload i)" using prepared_data(5) [OF assms(1)] by (simp add: text_whole_def)
  then have "receive_frame (\<not> hb_server p) limit None ?f = Inr (Some (mg_opcode i, mg_payload i), None)"
    using assms(2,3,5) text_whole_ok [of "mg_opcode i" "mg_payload i"]
    by (auto simp: receive_frame_def header_error_def joined_def opcode_reserved_def)
  moreover have "fed (mg_header res @ mg_payload res @ rest) q = fed (wire ?f @ rest) q"
    using prepared_data(1) [OF assms(1)] by (metis append_assoc)
  moreover have "length (snd (joined None ?f)) < 2 ^ 64" using assms(5,6) by (simp add: joined_def)
  ultimately show ?thesis using receives_frame [OF assms(4), of ?f rest] by simp
qed

text \<open>C12: A message that one side prepares is what the processor of the other side hands out, whatever the masking
  key, and it is ready for more.\<close>

theorem sent_received:
  assumes "prepare_data_frame p rng (Some i) out = (None, Some res)" "mg_fin i" "mg_opcode i \<in> {Op_text, Op_binary}"
    "receives (\<not> hb_server p) limit None q" "length (mg_payload i) \<le> limit" "limit < 2 ^ 64"
  shows "\<exists>q' q''. fed (mg_header res @ mg_payload res @ rest) q = Inr (Inr (rest, q'))
    \<and> get_message q' = Inr (Some (received_message (mg_opcode i) (mg_payload i)), q'') \<and> receives (\<not> hb_server p) limit None q''"
  by (rule delivered_data [OF assms])

theorem sent_received_witness:
  defines "i \<equiv> (message_new Op_text)\<lparr>mg_payload := [0x48, 0x69]\<rparr>"
  shows "\<exists>q' q''. fed (mg_header (the (snd (prepare_data_frame (hybi13_new False 1000) 7 (Some i) (Some message_blank))))
      @ mg_payload (the (snd (prepare_data_frame (hybi13_new False 1000) 7 (Some i) (Some message_blank)))) @ [])
      (hybi13_new True 1000) = Inr (Inr ([], q'))
    \<and> get_message q' = Inr (Some (received_message Op_text [0x48, 0x69]), q'')"
proof -
  have server: "hb_server (hybi13_new b n) = b" for b n by (simp add: hybi13_new_def reset_headers_def)
  obtain res where "prepare_data_frame (hybi13_new False 1000) 7 (Some i) (Some message_blank) = (None, Some res)"
    by (simp add: prepare_data_frame_def i_def message_new_def Let_def validate_def validator_new_def validator_decode_def
        validator_table_def validator_complete_def)
  from sent_received [OF this, of 1000 "hybi13_new True 1000" "[]"] this show ?thesis
    using receives_new [of True 1000] server by (simp add: i_def message_new_def) blast
qed

lemma two_bytes: "\<exists>x y. le_bytes 2 w = [x, y]"
  by (simp add: le_bytes_def numeral_2_eq_2 upt_rec)

lemma close_codes_read:
  assumes "\<not> close_reserved code" "close_invalid code \<Longrightarrow> code = 1005 \<and> reason = []"
  shows "extract_code (close_payload code reason) = (code, None)" and "fst (extract_reason (close_payload code reason)) = reason"
proof -
  have inv: "code \<noteq> 1005 \<Longrightarrow> \<not> close_invalid code" using assms(2) by blast
  have none: "code = 1005 \<Longrightarrow> reason = []" using assms(2) by (simp add: close_invalid_def)
  obtain x y where xy: "le_bytes 2 (ntohs code) = [x, y]" using two_bytes by blast
  have "ntohs (of_le_bytes (le_bytes 2 (ntohs code))) = code" by (simp add: ntohs_def le_bytes_of of_le_bytes_le)
  then have code: "ntohs (of_le_bytes [x, y]) = code" by (simp only: xy)
  have p: "close_payload code reason = (if code = 1005 then [] else x # y # reason)" by (simp add: close_payload_def xy)
  show "extract_code (close_payload code reason) = (code, None)"
    using assms(1) inv code by (simp add: p extract_code_def Let_def del: of_le_bytes.simps)
  show "fst (extract_reason (close_payload code reason)) = reason"
    using none by (simp add: p extract_reason_def)
qed

text \<open>The code and the reason of a close frame arrive as they were given, also in the middle of a message.\<close>

theorem close_received:
  assumes "prepare_close p rng code reason out = (None, Some res)" "receives (\<not> hb_server p) limit pending q"
    "length (snd (joined pending (sent_frame p rng Op_close True (close_payload code reason)))) < 2 ^ 64"
  shows "\<exists>q' m q''. fed (mg_header res @ mg_payload res @ rest) q = Inr (Inr (rest, q')) \<and> get_message q' = Inr (Some m, q'')
    \<and> mg_opcode m = Op_close \<and> extract_code (mg_payload m) = (code, None) \<and> fst (extract_reason (mg_payload m)) = reason
    \<and> receives (\<not> hb_server p) limit pending q''"
proof -
  let ?f = "sent_frame p rng Op_close True (close_payload code reason)"
  have c: "prepare_control p rng Op_close (close_payload code reason) out = (None, Some res)"
      "\<not> close_reserved code" "close_invalid code \<Longrightarrow> code = 1005 \<and> reason = []"
    using assms(1) by (auto simp: prepare_close_def split: if_splits)
  have "receive_frame (\<not> hb_server p) limit pending ?f = Inr (Some (Op_close, close_payload code reason), pending)"
    using prepared_control(5) [OF c(1)] by (simp add: receive_frame_def header_error_def opcode_reserved_def)
  moreover have "fed (mg_header res @ mg_payload res @ rest) q = fed (wire ?f @ rest) q"
    using prepared_control(1) [OF c(1)] by (metis append_assoc)
  ultimately obtain q' m q'' where "fed (mg_header res @ mg_payload res @ rest) q = Inr (Inr (rest, q'))"
      "get_message q' = Inr (Some m, q'')" "mg_opcode m = Op_close" "mg_payload m = close_payload code reason"
      "receives (\<not> hb_server p) limit pending q''"
    using receives_frame [OF assms(2,3), of rest] by auto
  then show ?thesis using close_codes_read [OF c(2,3)] by auto
qed

theorem close_received_witness:
  "\<exists>res q' m q''. prepare_close (hybi13_new False 1000) 7 1000 [] (Some message_blank) = (None, Some res)
    \<and> fed (mg_header res @ mg_payload res @ []) (hybi13_new True 1000) = Inr (Inr ([], q')) \<and> get_message q' = Inr (Some m, q'')
    \<and> mg_opcode m = Op_close \<and> extract_code (mg_payload m) = (1000, None) \<and> fst (extract_reason (mg_payload m)) = []
    \<and> receives True 1000 None q''"
proof -
  have server: "hb_server (hybi13_new b n) = b" for b n by (simp add: hybi13_new_def reset_headers_def)
  have "length (le_bytes 2 w) = 2" for w :: u16 by simp
  then obtain res where "prepare_close (hybi13_new False 1000) 7 1000 [] (Some message_blank) = (None, Some res)"
    by (simp add: prepare_close_def prepare_control_def close_reserved_def close_invalid_def close_payload_def Let_def)
  from close_received [OF this, of 1000 None "hybi13_new True 1000" "[]"] this show ?thesis
    using receives_new [of True 1000] server by (auto simp: joined_def close_payload_def)
qed

subsection \<open>Two gaps\<close>

text \<open>C36: A text whose last frame continues it may end in the middle of a character: the check at the end of a message
  looks at the opcode of the last frame, and the message is delivered although it is not UTF-8.\<close>

theorem half_character_delivered:
  defines "f \<equiv> \<lparr>fr_opcode = Op_text, fr_fin = False, fr_masked = False, fr_key = 0, fr_payload = [0xC3]\<rparr>"
    and "g \<equiv> \<lparr>fr_opcode = Op_continuation, fr_fin = True, fr_masked = False, fr_key = 0, fr_payload = []\<rparr>"
  shows "\<exists>p' m p''. fed (wire f @ wire g) (hybi13_new False (Suc n)) = Inr (Inr ([], p')) \<and> get_message p' = Inr (Some m, p'')
    \<and> mg_opcode m = Op_text \<and> \<not> validate (mg_payload m)"
proof -
  have whole: "text_ok Op_text [0xC3]" "\<not> validate [0xC3]"
    by (simp_all add: text_ok_def validate_def validator_new_def validator_decode_def validator_table_def validator_complete_def)
  have "receive_frame False (Suc n) None f = Inr (None, Some (Op_text, [0xC3]))"
    using whole by (simp add: f_def receive_frame_def header_error_def joined_def opcode_reserved_def)
  then obtain p1 where p1: "fed (wire f @ wire g) (hybi13_new False (Suc n)) = fed (wire g @ []) p1" "receives False (Suc n) (Some (Op_text, [0xC3])) p1"
    using receives_frame [OF receives_new [of False "Suc n"], of f "wire g"] by (auto simp: f_def joined_def)
  have "receive_frame False (Suc n) (Some (Op_text, [0xC3])) g = Inr (Some (Op_text, [0xC3]), None)"
    using whole by (simp add: g_def receive_frame_def header_error_def joined_def opcode_reserved_def)
  then show ?thesis
    using receives_frame [OF p1(2), of g "[]"] p1(1) whole by (auto simp: g_def joined_def)
qed

text \<open>The size of a fragmented message is checked modulo the word size: a frame that brings it to \<open>2 ^ 64\<close> passes.\<close>

lemma size_check_wraps:
  assumes "md_msg (hb_data_msg p) = Some m" "\<not> is_control (get_opcode (hb_basic_header p))"
    "length (mg_payload m) + hb_bytes_needed p = 2 ^ 64"
  shows "fst (start_payload p) = None"
  using assms by (simp add: start_payload_def Let_def)

end
