(* ===== verification/Ws_Connection.thy ===== *)
theory Ws_Connection
  imports Ws_Send
begin

text \<open>
  \<^verbatim>\<open>websocketpp/impl/connection_impl.hpp\<close>: a connection behind the opening handshake.  It queues what is sent, writes the
  queue whenever no write is under way, feeds what is read to the processor, answers control frames and goes
  through the closing handshake.

  What the connection asks of the transport (a posted call of \<^verbatim>\<open>write_frame\<close>, a write, a read, a timer, the shutdown)
  is in the list of its open requests until it completes; the completion runs the handler.  A timer that is
  cancelled still completes, usually with the code \<open>TE_operation_aborted\<close>.  The bytes handed to the transport are
  recorded as one stream.  The calls of the
  application's handlers are recorded in their order; a handler does not call the connection itself.
  The logs are left out.
\<close>

subsection \<open>State\<close>

datatype session_state = Connecting | Open | Closing | Closed

datatype internal_state =
    User_init | Transport_init | Read_http_request | Write_http_request | Read_http_response | Write_http_response
  | Process_http_request | Process_connection

datatype http_state = Http_init | Http_deferred | Http_headers_written | Http_body_written | Http_closed

datatype terminate_status = Term_failed | Term_closed | Term_unknown

datatype timer = Open_timer | Close_timer | Pong_timer "u8 list"

datatype request =
    Dispatch_write | Async_write "u8 list" | Async_read | Async_shutdown terminate_status | Wait timer | Cancelled timer

datatype user_call =
    On_message message | On_ping "u8 list" | On_pong "u8 list" | On_pong_timeout "u8 list" | On_close | On_fail
  | On_interrupt | On_termination

record handlers =
  ha_message :: bool
  ha_ping :: "(u8 list \<Rightarrow> bool) option"
  ha_pong :: bool
  ha_pong_timeout :: bool
  ha_close :: bool
  ha_fail :: bool
  ha_interrupt :: bool
  ha_termination :: bool

record ws_config =
  cf_drop_on_protocol_error :: bool
  cf_silent_close :: bool
  cf_close_handshake_timeout :: int
  cf_pong_timeout :: int

record connection =
  cn_config :: ws_config
  cn_handlers :: handlers
  cn_state :: session_state
  cn_internal_state :: internal_state
  cn_is_server :: bool
  cn_processor :: hybi13
  cn_rng :: "nat \<Rightarrow> u32"
  cn_drawn :: nat
  cn_send_queue :: "message list"
  cn_send_buffer_size :: u64
  cn_send_buffer :: "u8 list list"
  cn_current_msgs :: "message list"
  cn_write_flag :: bool
  cn_read_flag :: bool
  cn_handshake_timer :: "timer option"
  cn_ping_timer :: "timer option"
  cn_local_close_code :: close_code
  cn_local_close_reason :: "u8 list"
  cn_remote_close_code :: close_code
  cn_remote_close_reason :: "u8 list"
  cn_ec :: "error_code option"
  cn_is_http :: bool
  cn_http_state :: http_state
  cn_was_clean :: bool
  cn_requests :: "request list"
  cn_wire :: "u8 list"
  cn_calls :: "user_call list"

text \<open>The configuration of the program's clients.\<close>

definition core_client :: ws_config where
  "core_client =
     \<lparr>cf_drop_on_protocol_error = False, cf_silent_close = False, cf_close_handshake_timeout = 5000, cf_pong_timeout = 5000\<rparr>"

text \<open>The Binance client sets a message and a close handler.\<close>

definition main_handlers :: handlers where
  "main_handlers =
     \<lparr>ha_message = True, ha_ping = None, ha_pong = False, ha_pong_timeout = False, ha_close = True, ha_fail = False,
      ha_interrupt = False, ha_termination = False\<rparr>"

definition max_message_size :: nat where
  "max_message_size = 32000000"

definition request :: "request \<Rightarrow> connection \<Rightarrow> connection" where
  "request r c = c\<lparr>cn_requests := cn_requests c @ [r]\<rparr>"

definition user_call :: "user_call \<Rightarrow> connection \<Rightarrow> connection" where
  "user_call u c = c\<lparr>cn_calls := cn_calls c @ [u]\<rparr>"

text \<open>The message manager never returns a null pointer.\<close>

definition manager_message :: "message option" where
  "manager_message = Some message_blank"

text \<open>A prepared message; a masking key is drawn when it is masked.\<close>

definition prepared_by ::
  "(hybi13 \<Rightarrow> u32 \<Rightarrow> processor_error option \<times> message option) \<Rightarrow> connection \<Rightarrow> (processor_error option \<times> message option) \<times> connection" where
  "prepared_by f c =
     (let r = f (cn_processor c) (cn_rng c (cn_drawn c))
      in (r, if fst r = None \<and> \<not> hb_server (cn_processor c) then c\<lparr>cn_drawn := cn_drawn c + 1\<rparr> else c))"

subsection \<open>Writing\<close>

definition write_push :: "message option \<Rightarrow> connection \<Rightarrow> connection" where
  "write_push msg c =
     (case msg of
        None \<Rightarrow> c
      | Some m \<Rightarrow> c\<lparr>cn_send_buffer_size := cn_send_buffer_size c + of_nat (length (mg_payload m)),
                    cn_send_queue := cn_send_queue c @ [m]\<rparr>)"

definition write_pop :: "connection \<Rightarrow> message option \<times> connection" where
  "write_pop c =
     (case cn_send_queue c of
        [] \<Rightarrow> (None, c)
      | m # ms \<Rightarrow> (Some m, c\<lparr>cn_send_buffer_size := cn_send_buffer_size c - of_nat (length (mg_payload m)), cn_send_queue := ms\<rparr>))"

text \<open>All the messages that are ready to write, up to a terminal one.\<close>

function write_pops :: "connection \<Rightarrow> connection" where
  "write_pops c =
     (case write_pop c of
        (None, c1) \<Rightarrow> c1
      | (Some m, c1) \<Rightarrow>
          let c2 = c1\<lparr>cn_current_msgs := cn_current_msgs c1 @ [m]\<rparr> in if mg_terminal m then c2 else write_pops c2)"
  by pat_completeness auto

termination
  by (relation "measure (\<lambda>c. length (cn_send_queue c))") (auto simp: write_pop_def split: list.splits)

declare write_pops.simps [simp del]

definition async_write :: "u8 list \<Rightarrow> connection \<Rightarrow> connection" where
  "async_write bytes c = request (Async_write bytes) (c\<lparr>cn_wire := cn_wire c @ bytes\<rparr>)"

definition write_frame :: "connection \<Rightarrow> connection" where
  "write_frame c =
     (if cn_write_flag c then c
      else let c1 = write_pops c
           in if cn_current_msgs c1 = [] then c1
              else let buffers = cn_send_buffer c1 @ concat (map (\<lambda>m. [mg_header m, mg_payload m]) (cn_current_msgs c1))
                   in async_write (concat buffers) (c1\<lparr>cn_write_flag := True, cn_send_buffer := buffers\<rparr>))"

definition dispatch_write :: "connection \<Rightarrow> connection" where
  "dispatch_write c = (if \<not> cn_write_flag c \<and> cn_send_queue c \<noteq> [] then request Dispatch_write c else c)"

fun cancelled :: "timer \<Rightarrow> request list \<Rightarrow> request list" where
  "cancelled t [] = []"
| "cancelled t (r # rs) = (if r = Wait t then Cancelled t # rs else r # cancelled t rs)"

definition cancel_timer :: "timer option \<Rightarrow> connection \<Rightarrow> connection" where
  "cancel_timer t c = (case t of None \<Rightarrow> c | Some t \<Rightarrow> c\<lparr>cn_requests := cancelled t (cn_requests c)\<rparr>)"

definition conn_terminate :: "error_code option \<Rightarrow> connection \<Rightarrow> connection" where
  "conn_terminate ec c =
     (let c1 = (if cn_handshake_timer c \<noteq> None then (cancel_timer (cn_handshake_timer c) c)\<lparr>cn_handshake_timer := None\<rparr> else c);
          c2 = (case ec of None \<Rightarrow> c1
                | Some e \<Rightarrow> c1\<lparr>cn_ec := Some e, cn_local_close_code := 1006, cn_local_close_reason := bytes_of (error_message_of e)\<rparr>);
          c3 = (if cn_is_http c2 then c2\<lparr>cn_http_state := Http_closed\<rparr> else c2)
      in if cn_state c3 = Connecting then request (Async_shutdown Term_failed) (c3\<lparr>cn_state := Closed\<rparr>)
         else if cn_state c3 \<noteq> Closed then request (Async_shutdown Term_closed) (c3\<lparr>cn_state := Closed\<rparr>)
         else c3)"

definition handle_terminate :: "terminate_status \<Rightarrow> error_code option \<Rightarrow> connection \<Rightarrow> connection" where
  "handle_terminate tstat ec c =
     (let h = cn_handlers c;
          c1 = (case tstat of
                  Term_failed \<Rightarrow>
                    if cn_ec c \<noteq> Some (Library LE_http_connection_ended) \<and> ha_fail h then user_call On_fail c else c
                | Term_closed \<Rightarrow> if ha_close h then user_call On_close c else c
                | Term_unknown \<Rightarrow> c)
      in if ha_termination h then user_call On_termination c1 else c1)"

text \<open>The completion of a write; \<^verbatim>\<open>back()\<close> of an empty vector is undefined.\<close>

definition handle_write_frame :: "error_code option \<Rightarrow> connection \<Rightarrow> connection outcome" where
  "handle_write_frame ec c =
     (if cn_current_msgs c = [] then Inl Undefined
      else let terminal = mg_terminal (last (cn_current_msgs c));
               c1 = c\<lparr>cn_send_buffer := [], cn_current_msgs := []\<rparr>
           in Inr (if ec \<noteq> None then conn_terminate ec c1
                   else if terminal then conn_terminate None c1
                   else dispatch_write (c1\<lparr>cn_write_flag := False\<rparr>)))"

subsection \<open>Sending\<close>

definition send_message :: "message \<Rightarrow> connection \<Rightarrow> error_code option \<times> connection" where
  "send_message msg c =
     (if cn_state c \<noteq> Open then (Some (Library LE_invalid_state), c)
      else if mg_prepared msg then (None, dispatch_write (write_push (Some msg) c))
      else case manager_message of
        None \<Rightarrow> (Some (Library LE_no_outgoing_buffers), c)
      | Some out \<Rightarrow>
          (case prepared_by (\<lambda>p key. prepare_data_frame p key (Some msg) (Some out)) c of
             ((Some e, out'), c1) \<Rightarrow> (Some (Processor e), c1)
           | ((None, out'), c1) \<Rightarrow> (None, dispatch_write (write_push out' c1))))"

definition send_string :: "u8 list \<Rightarrow> opcode \<Rightarrow> connection \<Rightarrow> error_code option \<times> connection" where
  "send_string payload op c = send_message ((message_new op)\<lparr>mg_payload := payload, mg_compressed := True\<rparr>) c"

definition send_bytes :: "u8 list \<Rightarrow> opcode \<Rightarrow> connection \<Rightarrow> error_code option \<times> connection" where
  "send_bytes payload op c = send_message ((message_new op)\<lparr>mg_payload := payload\<rparr>) c"

definition set_ping_timer :: "u8 list \<Rightarrow> connection \<Rightarrow> connection" where
  "set_ping_timer payload c =
     (if ha_pong_timeout (cn_handlers c)
      then let c1 = cancel_timer (cn_ping_timer c) c
           in if 0 < cf_pong_timeout (cn_config c)
              then (request (Wait (Pong_timer payload)) c1)\<lparr>cn_ping_timer := Some (Pong_timer payload)\<rparr> else c1
      else c)"

definition conn_ping :: "u8 list \<Rightarrow> connection \<Rightarrow> error_code option \<times> connection" where
  "conn_ping payload c =
     (if cn_state c \<noteq> Open then (Some (Library LE_invalid_state), c)
      else case manager_message of
        None \<Rightarrow> (Some (Library LE_no_outgoing_buffers), c)
      | Some out \<Rightarrow>
          (case prepared_by (\<lambda>p key. prepare_ping p key payload (Some out)) c of
             ((Some e, out'), c1) \<Rightarrow> (Some (Processor e), c1)
           | ((None, out'), c1) \<Rightarrow> (None, dispatch_write (write_push out' (set_ping_timer payload c1)))))"

definition conn_pong :: "u8 list \<Rightarrow> connection \<Rightarrow> error_code option \<times> connection" where
  "conn_pong payload c =
     (if cn_state c \<noteq> Open then (Some (Library LE_invalid_state), c)
      else case manager_message of
        None \<Rightarrow> (Some (Library LE_no_outgoing_buffers), c)
      | Some out \<Rightarrow>
          (case prepared_by (\<lambda>p key. prepare_pong p key payload (Some out)) c of
             ((Some e, out'), c1) \<Rightarrow> (Some (Processor e), c1)
           | ((None, out'), c1) \<Rightarrow> (None, dispatch_write (write_push out' c1))))"

definition handle_pong_timeout :: "u8 list \<Rightarrow> error_code option \<Rightarrow> connection \<Rightarrow> connection" where
  "handle_pong_timeout payload ec c =
     (if ec = None \<and> ha_pong_timeout (cn_handlers c) then user_call (On_pong_timeout payload) c else c)"

subsection \<open>Closing\<close>

text \<open>The code and the reason a close frame carries; 0 is the blank code.\<close>

definition local_close :: "close_code \<Rightarrow> u8 list \<Rightarrow> bool \<Rightarrow> connection \<Rightarrow> close_code \<times> u8 list" where
  "local_close code reason ack c =
     (if cf_silent_close (cn_config c) then (1005, [])
      else if code \<noteq> 0 then (code, reason)
      else if \<not> ack then (1005, [])
      else if cn_remote_close_code c = 1005 then (1000, [])
      else (cn_remote_close_code c, cn_remote_close_reason c))"

definition start_closing :: "bool \<Rightarrow> connection \<Rightarrow> connection" where
  "start_closing ack c =
     (let c1 = c\<lparr>cn_state := Closing\<rparr>; c2 = (if ack then c1\<lparr>cn_was_clean := True\<rparr> else c1)
      in if 0 < cf_close_handshake_timeout (cn_config c2)
         then (request (Wait Close_timer) c2)\<lparr>cn_handshake_timer := Some Close_timer\<rparr> else c2)"

definition send_close_frame :: "close_code \<Rightarrow> u8 list \<Rightarrow> bool \<Rightarrow> bool \<Rightarrow> connection \<Rightarrow> error_code option \<times> connection" where
  "send_close_frame code reason ack terminal c =
     (let (lcode, lreason) = local_close code reason ack c;
          c1 = c\<lparr>cn_local_close_code := lcode, cn_local_close_reason := lreason\<rparr>
      in case manager_message of
           None \<Rightarrow> (Some (Library LE_no_outgoing_buffers), c1)
         | Some out \<Rightarrow>
             (case prepared_by (\<lambda>p key. prepare_close p key lcode lreason (Some out)) c1 of
                ((Some e, out'), c2) \<Rightarrow> (Some (Processor e), c2)
              | ((None, out'), c2) \<Rightarrow>
                  let msg = (if terminal then map_option (\<lambda>m. m\<lparr>mg_terminal := True\<rparr>) out' else out')
                  in (None, dispatch_write (write_push msg (start_closing ack c2)))))"

definition send_close_ack :: "close_code \<Rightarrow> u8 list \<Rightarrow> connection \<Rightarrow> error_code option \<times> connection" where
  "send_close_ack code reason c = send_close_frame code reason True (cn_is_server c) c"

definition conn_close :: "close_code \<Rightarrow> u8 list \<Rightarrow> connection \<Rightarrow> error_code option \<times> connection" where
  "conn_close code reason c =
     (let tr = take (min (length reason) 123) reason
      in if cn_state c \<noteq> Open then (Some (Library LE_invalid_state), c)
         else send_close_frame code tr False (close_terminal code) c)"

definition handle_close_handshake_timeout :: "error_code option \<Rightarrow> connection \<Rightarrow> connection" where
  "handle_close_handshake_timeout ec c =
     (if ec = None then conn_terminate (Some (Library LE_close_handshake_timeout)) c else c)"

definition handle_open_handshake_timeout :: "error_code option \<Rightarrow> connection \<Rightarrow> connection" where
  "handle_open_handshake_timeout ec c =
     (if ec = None then conn_terminate (Some (Library LE_open_handshake_timeout)) c else c)"

subsection \<open>Control frames\<close>

text \<open>An invalid close code or reason is answered or ends the connection, as configured.\<close>

definition reject_close :: "error_code \<Rightarrow> string \<Rightarrow> connection \<Rightarrow> connection" where
  "reject_close e reason c =
     (if cf_drop_on_protocol_error (cn_config c) then conn_terminate (Some e) c
      else snd (send_close_ack 1002 (bytes_of reason) c))"

text \<open>A close frame while open, or the acknowledgement of our own, or a spurious one.\<close>

definition acknowledge_close :: "connection \<Rightarrow> connection" where
  "acknowledge_close c =
     (if cn_state c = Open then snd (send_close_ack 0 [] c)
      else if cn_state c = Closing \<and> \<not> cn_was_clean c
      then let c1 = c\<lparr>cn_was_clean := True\<rparr> in if cn_is_server c1 then conn_terminate None c1 else c1
      else c)"

definition process_close :: "message \<Rightarrow> connection \<Rightarrow> connection" where
  "process_close msg c =
     (case extract_code (mg_payload msg) of
        (code, Some e) \<Rightarrow> reject_close e ''Invalid close code'' (c\<lparr>cn_remote_close_code := code\<rparr>)
      | (code, None) \<Rightarrow>
          (case extract_reason (mg_payload msg) of
             (reason, Some e) \<Rightarrow>
               reject_close e ''Invalid close reason'' (c\<lparr>cn_remote_close_code := code, cn_remote_close_reason := reason\<rparr>)
           | (reason, None) \<Rightarrow>
               acknowledge_close (c\<lparr>cn_remote_close_code := code, cn_remote_close_reason := reason\<rparr>)))"

definition process_ping :: "message \<Rightarrow> connection \<Rightarrow> connection" where
  "process_ping msg c =
     (let (should_reply, c1) =
            (case ha_ping (cn_handlers c) of None \<Rightarrow> (True, c)
             | Some handler \<Rightarrow> (handler (mg_payload msg), user_call (On_ping (mg_payload msg)) c))
      in if should_reply then snd (conn_pong (mg_payload msg) c1) else c1)"

definition process_pong :: "message \<Rightarrow> connection \<Rightarrow> connection" where
  "process_pong msg c =
     (let c1 = (if ha_pong (cn_handlers c) then user_call (On_pong (mg_payload msg)) c else c)
      in cancel_timer (cn_ping_timer c1) c1)"

definition process_control_frame :: "message \<Rightarrow> connection \<Rightarrow> connection" where
  "process_control_frame msg c =
     (let op = mg_opcode msg
      in if cn_state c = Closed then c
         else if op \<noteq> Op_close \<and> cn_state c \<noteq> Open then c
         else if op = Op_ping then process_ping msg c
         else if op = Op_pong then process_pong msg c
         else if op = Op_close then process_close msg c
         else c)"

subsection \<open>Reading\<close>

definition read_frame :: "connection \<Rightarrow> connection" where
  "read_frame c = (if cn_read_flag c then request Async_read c else c)"

definition handle_pause_reading :: "connection \<Rightarrow> connection" where
  "handle_pause_reading c = c\<lparr>cn_read_flag := False\<rparr>"

definition handle_resume_reading :: "connection \<Rightarrow> connection" where
  "handle_resume_reading c = read_frame (c\<lparr>cn_read_flag := True\<rparr>)"

definition handle_interrupt :: "connection \<Rightarrow> connection" where
  "handle_interrupt c = (if ha_interrupt (cn_handlers c) then user_call On_interrupt c else c)"

definition read_error :: "error_code \<Rightarrow> connection \<Rightarrow> connection" where
  "read_error e c =
     (if e = Transport TE_eof \<and> cn_state c = Closed then c
      else if e = Transport TE_eof \<and> cn_state c = Closing \<and> \<not> cn_is_server c then conn_terminate None c
      else if e = Library LE_invalid_state \<and> cn_state c = Closed then c
      else conn_terminate (Some e) c)"

text \<open>An error of the processor: the connection is dropped or closed, as configured.\<close>

definition protocol_error :: "processor_error \<Rightarrow> connection \<Rightarrow> connection" where
  "protocol_error e c =
     (if cf_drop_on_protocol_error (cn_config c) then conn_terminate (Some (Processor e)) c
      else case conn_close (to_ws (Processor e)) (bytes_of (processor_message e)) c of
        (Some ce, c1) \<Rightarrow> conn_terminate (Some ce) c1
      | (None, c1) \<Rightarrow> c1)"

definition dispatch_message :: "message \<Rightarrow> connection \<Rightarrow> connection" where
  "dispatch_message msg c =
     (if is_control (mg_opcode msg) then process_control_frame msg c
      else if cn_state c \<noteq> Open then c
      else if ha_message (cn_handlers c) then user_call (On_message msg) c
      else c)"

definition take_message :: "connection \<Rightarrow> connection outcome" where
  "take_message c =
     (if ready (cn_processor c)
      then bindE (get_message (cn_processor c))
             (\<lambda>(msg, p). let c1 = c\<lparr>cn_processor := p\<rparr> in Inr (case msg of None \<Rightarrow> c1 | Some m \<Rightarrow> dispatch_message m c1))
      else Inr c)"

text \<open>The loop over the bytes of a read; \<open>None\<close> if it does not end.\<close>

partial_function (option) read_loop :: "u8 list \<Rightarrow> connection \<Rightarrow> connection outcome option" where
  "read_loop buf c =
     (if buf = [] then Some (Inr (read_frame c))
      else case consume buf (cn_processor c) of
        Inl f \<Rightarrow> Some (Inl f)
      | Inr (n, ec, p) \<Rightarrow>
          (case ec of
             Some e \<Rightarrow> Some (Inr (protocol_error e (c\<lparr>cn_processor := p\<rparr>)))
           | None \<Rightarrow>
               (case take_message (c\<lparr>cn_processor := p\<rparr>) of
                  Inl f \<Rightarrow> Some (Inl f)
                | Inr c1 \<Rightarrow> read_loop (drop n buf) c1)))"

definition handle_read_frame :: "error_code option \<Rightarrow> u8 list \<Rightarrow> connection \<Rightarrow> connection outcome option" where
  "handle_read_frame ec buf c =
     (let ecm = (if ec = None \<and> cn_internal_state c \<noteq> Process_connection then Some (Library LE_invalid_state) else ec)
      in case ecm of Some e \<Rightarrow> Some (Inr (read_error e c)) | None \<Rightarrow> read_loop buf c)"

end
