(* ===== verification/Ws_Defined.thy ===== *)
theory Ws_Defined
  imports Ws_Stream
begin

text \<open>
  The processor on any bytes at all: it never follows a pointer that is not set and never writes behind the array
  of the extended header, and every call of \<open>consume\<close> between messages takes at least one byte.
\<close>

subsection \<open>States without undefined behaviour\<close>

definition has_message :: "hybi13 \<Rightarrow> bool" where
  "has_message p \<longleftrightarrow> (\<exists>md m. current_metadata p = Some md \<and> md_msg md = Some m)"

definition proc_ok :: "hybi13 \<Rightarrow> bool" where
  "proc_ok p \<longleftrightarrow> stream_ok p \<and>
     (case hb_state p of
        Header_basic \<Rightarrow> True
      | Header_extended \<Rightarrow> hb_cursor p + hb_bytes_needed p \<le> 12
      | Application \<Rightarrow> has_message p
      | Ready \<Rightarrow> has_message p
      | _ \<Rightarrow> False)"

text \<open>A processor that waits for bytes.\<close>

definition waiting :: "hybi13 \<Rightarrow> bool" where
  "waiting p \<longleftrightarrow> proc_ok p \<and> \<not> ready p \<and> hb_bytes_needed p \<noteq> 0"

lemma waiting_new: "waiting (hybi13_new server n)"
  using stream_ok_new [of server n]
  by (simp add: waiting_def proc_ok_def ready_def) (simp add: hybi13_new_def reset_headers_def)

lemma header_len_bound: "get_header_len h - 2 \<le> 12"
  by (simp add: get_header_len_def get_masking_key_offset_def)

lemma not_fault: "(\<And>f. x \<noteq> Inl f) \<Longrightarrow> \<exists>t. x = Inr t"
  by (cases x) auto

lemma basic_turn_ok:
  assumes "proc_ok p" "hb_state p = Header_basic"
  shows "\<exists>t. basic_turn buf p = Inr t \<and> (\<forall>b p'. t = Next b p' \<longrightarrow> proc_ok p')"
proof -
  have "basic_turn buf p \<noteq> Inl f" for f by (auto simp: basic_turn_def split: prod.splits option.splits if_splits)
  then obtain t where t: "basic_turn buf p = Inr t" using not_fault by blast
  have "proc_ok p'" if "t = Next b p'" for b p'
  proof -
    have "stream_ok p'" using stream_ok_basic [of p buf b p'] assms(1) t that by (simp add: proc_ok_def)
    moreover have "hb_state p' = Header_basic \<or> hb_state p' = Header_extended \<and> hb_cursor p' + hb_bytes_needed p' \<le> 12"
      using t that assms(2) header_len_bound
      by (auto simp: basic_turn_def copy_basic_header_bytes_def Let_def split: if_splits option.splits)
    ultimately show ?thesis by (auto simp: proc_ok_def)
  qed
  then show ?thesis using t by blast
qed

lemma start_payload_message:
  "start_payload p = (None, p') \<Longrightarrow> has_message p'"
  by (auto simp: start_payload_def Let_def has_message_def current_metadata_def metadata_new_def split: if_splits option.splits)

lemma extended_turn_ok:
  assumes "proc_ok p" "hb_state p = Header_extended"
  shows "\<exists>t. extended_turn buf p = Inr t \<and> (\<forall>b p'. t = Next b p' \<longrightarrow> proc_ok p')"
proof -
  have room: "hb_cursor p + hb_bytes_needed p \<le> 12" using assms by (simp add: proc_ok_def)
  let ?n = "min (hb_bytes_needed p) (length buf)"
  define p1 where "p1 = p\<lparr>hb_extended_header := write_at (hb_cursor p) (take ?n buf) (hb_extended_header p),
      hb_cursor := hb_cursor p + ?n, hb_bytes_needed := hb_bytes_needed p - ?n\<rparr>"
  have c: "copy_extended_header_bytes buf p = Inr (?n, p1)"
    using room by (auto simp: copy_extended_header_bytes_def Let_def p1_def min_def)
  then have "extended_turn buf p \<noteq> Inl f" for f by (auto simp: extended_turn_def split: prod.splits option.splits if_splits)
  then obtain t where t: "extended_turn buf p = Inr t" using not_fault by blast
  have "proc_ok p'" if t': "t = Next b p'" for b p'
  proof -
    have ok: "stream_ok p'" using stream_ok_extended [of p buf b p'] assms(1) t t' by (simp add: proc_ok_def)
    show ?thesis
    proof (cases "0 < hb_bytes_needed p1")
      case True
      then have "p' = p1" using t t' c by (simp add: extended_turn_def)
      then show ?thesis using ok room assms(2) by (auto simp: proc_ok_def p1_def min_def)
    next
      case False
      then obtain q where "start_payload q = (None, p')" "hb_state q = Application"
        using t t' c by (auto simp: extended_turn_def split: option.splits prod.splits)
      then show ?thesis using ok start_payload_message [of q p'] start_payload_frame [of q None p'] by (simp add: proc_ok_def)
    qed
  qed
  then show ?thesis using t by blast
qed

lemma payload_end_ok:
  assumes "stream_ok p" "has_message p" "hb_state p = Application"
  shows "\<exists>t. payload_end buf p = Inr t \<and> (\<forall>b p'. t = Next b p' \<longrightarrow> proc_ok p')"
proof -
  obtain md m where m: "current_metadata p = Some md" "md_msg md = Some m" using assms(2) by (auto simp: has_message_def)
  have "proc_ok (p\<lparr>hb_state := Ready\<rparr>)" "proc_ok (reset_headers p)" "proc_ok p"
    using assms by (cases "hb_current_msg p";
      auto simp: proc_ok_def stream_ok_def reset_headers_def has_message_def current_metadata_def split: msg_slot.splits)+
  then show ?thesis using m by (auto simp: payload_end_def finalize_message_def)
qed

lemma process_payload_ok:
  assumes "stream_ok p" "has_message p" "hb_state p = Application"
  shows "\<exists>k e p'. process_payload_bytes buf p = Inr (k, e, p') \<and> stream_ok p' \<and> has_message p' \<and> hb_state p' = Application"
proof -
  obtain md m where m: "current_metadata p = Some md" "md_msg md = Some m" using assms(2) by (auto simp: has_message_def)
  obtain bytes key where mask:
      "(if get_masked (hb_basic_header p) then byte_mask_circ buf (md_key md) else (buf, md_key md)) = (bytes, key)" by fastforce
  obtain ok v where r: "(if mg_opcode m = Op_text then validator_range bytes (md_validator md) else (True, md_validator md)) = (ok, v)"
    by fastforce
  note p = process_payload_eq [OF m mask r]
  have "stream_ok p' \<and> has_message p' \<and> hb_state p' = Application" if "process_payload_bytes buf p = Inr (k, e, p')" for k e p'
    using stream_ok_process [OF assms(1) that] that m(1) assms(3)
    by (auto simp: p has_message_def current_metadata_def set_current_metadata_def split: if_splits option.splits msg_slot.splits)
  then show ?thesis using p by (cases ok) auto
qed

lemma application_turn_ok:
  assumes "proc_ok p" "hb_state p = Application"
  shows "\<exists>t. application_turn buf p = Inr t \<and> (\<forall>b p'. t = Next b p' \<longrightarrow> proc_ok p')"
proof (cases "0 < min (hb_bytes_needed p) (length buf)")
  case True
  have p: "stream_ok p" "has_message p" using assms by (simp_all add: proc_ok_def)
  obtain k e p1 where 1: "process_payload_bytes (take (min (hb_bytes_needed p) (length buf)) buf) p = Inr (k, e, p1)"
      "stream_ok p1" "has_message p1" "hb_state p1 = Application"
    using process_payload_ok [OF p assms(2)] by blast
  show ?thesis using payload_end_ok [OF 1(2-4), of "drop k buf"] 1(1) True
    by (cases e) (auto simp: application_turn_def Let_def)
next
  case False
  then have "application_turn buf p = payload_end buf p" by (simp only: application_turn_def Let_def if_False)
  then show ?thesis using payload_end_ok [of p buf] assms by (simp add: proc_ok_def)
qed

lemma turn_ok:
  assumes "proc_ok p" "going_on buf p"
  shows "\<exists>t. consume_turn buf p = Inr t \<and> (\<forall>b p'. t = Next b p' \<longrightarrow> proc_ok p')"
  using assms basic_turn_ok [OF assms(1), of buf] extended_turn_ok [OF assms(1), of buf] application_turn_ok [OF assms(1), of buf]
  by (cases "hb_state p") (auto simp: consume_turn_def going_on_def proc_ok_def)

lemma consume_loop_ok:
  "proc_ok p \<Longrightarrow> \<exists>ec rest p'. consume_loop buf p = Inr (ec, rest, p') \<and>
    (ec = None \<longrightarrow> proc_ok p' \<and> \<not> going_on rest p' \<and> length rest \<le> length buf
      \<and> (waiting p \<and> buf \<noteq> [] \<longrightarrow> length rest < length buf))"
proof (induction buf p rule: consume_loop.induct)
  case (1 buf p)
  show ?case
  proof (cases "going_on buf p")
    case True
    obtain t where t: "consume_turn buf p = Inr t" "\<And>b p'. t = Next b p' \<Longrightarrow> proc_ok p'" using turn_ok [OF 1(2) True] by blast
    show ?thesis
    proof (cases t)
      case (Next b p1)
      then have s: "length b < length buf \<or> b = buf \<and> turn_rank p1 < turn_rank p" using turn_smaller [OF True] t by simp
      have r: "waiting p \<Longrightarrow> turn_rank p = 0"
        by (auto simp: waiting_def proc_ok_def ready_def turn_rank_def split: hybi_state.splits)
      obtain ec rest p' where ih: "consume_loop b p1 = Inr (ec, rest, p')"
          "ec = None \<longrightarrow> proc_ok p' \<and> \<not> going_on rest p' \<and> length rest \<le> length b"
        using 1(1) [OF True t(1) Next t(2) [OF Next]] by blast
      have "consume_loop buf p = Inr (ec, rest, p')" using t Next ih(1) by (simp add: consume_loop.simps [of buf p] True)
      then show ?thesis using ih(2) s r by auto
    next
      case (Break e b p1)
      then have "consume_loop buf p = Inr (Some e, b, p1)" using t by (simp add: consume_loop.simps [of buf p] True)
      then show ?thesis by simp
    qed
  next
    case False
    then have "waiting p \<Longrightarrow> buf = []" by (auto simp: going_on_def waiting_def proc_ok_def ready_def split: hybi_state.splits)
    moreover have "consume_loop buf p = Inr (None, buf, p)" by (simp add: consume_loop.simps [of buf p] False)
    ultimately show ?thesis using False 1(2) by auto
  qed
qed

text \<open>A call of \<open>consume\<close> that reports no error has a message or has used all the bytes, and some in any case.\<close>

lemma consume_ok:
  assumes "waiting p" "buf \<noteq> []"
  shows "\<exists>n ec p'. consume buf p = Inr (n, ec, p') \<and>
    (ec = None \<longrightarrow> 0 < n \<and> n \<le> length buf \<and> proc_ok p' \<and> (ready p' \<or> n = length buf \<and> waiting p'))"
proof -
  obtain ec rest p' where c: "consume_loop buf p = Inr (ec, rest, p')"
      "ec = None \<longrightarrow> proc_ok p' \<and> \<not> going_on rest p' \<and> length rest \<le> length buf \<and> length rest < length buf"
    using consume_loop_ok [of p buf] assms by (auto simp: waiting_def)
  moreover have "ready p' \<or> rest = [] \<and> waiting p'" if "proc_ok p'" "\<not> going_on rest p'"
    using that by (auto simp: proc_ok_def going_on_def waiting_def ready_def split: hybi_state.splits)
  ultimately show ?thesis by (auto simp: consume_def)
qed

lemma get_message_ok:
  assumes "proc_ok p" "ready p"
  shows "\<exists>m p'. get_message p = Inr (Some m, p') \<and> waiting p'"
proof -
  obtain md m where m: "current_metadata p = Some md" "md_msg md = Some m"
    using assms by (auto simp: proc_ok_def ready_def has_message_def)
  have "stream_ok p" using assms by (simp add: proc_ok_def)
  then show ?thesis
    using m assms(2)
    by (auto simp: get_message_def Let_def waiting_def proc_ok_def ready_def stream_ok_def reset_headers_def
        set_current_metadata_def current_metadata_def split: option.splits msg_slot.splits)
qed

end
