(* ===== verification/Ws_Run.thy ===== *)
theory Ws_Run
  imports Ws_Connection Ws_Defined
begin

text \<open>
  An open connection as a state machine: the application sends, pings and closes at any time, and the requests to
  the transport complete in any order, with or without errors and with any bytes read.  Invariants of every
  reachable state.
\<close>

subsection \<open>Steps\<close>

datatype conn_event =
    App_send "u8 list" opcode | App_ping "u8 list" | App_pong "u8 list" | App_close close_code "u8 list"
  | Completed request "error_code option" "u8 list"

definition timer_expired :: "timer \<Rightarrow> error_code option \<Rightarrow> connection \<Rightarrow> connection" where
  "timer_expired t ec c =
     (case t of
        Open_timer \<Rightarrow> handle_open_handshake_timeout ec c
      | Close_timer \<Rightarrow> handle_close_handshake_timeout ec c
      | Pong_timer payload \<Rightarrow> handle_pong_timeout payload ec c)"

definition completion :: "request \<Rightarrow> error_code option \<Rightarrow> u8 list \<Rightarrow> connection \<Rightarrow> connection outcome option" where
  "completion r ec buf c =
     (case r of
        Dispatch_write \<Rightarrow> Some (Inr (write_frame c))
      | Async_write bytes \<Rightarrow> Some (handle_write_frame ec c)
      | Async_read \<Rightarrow> handle_read_frame ec buf c
      | Async_shutdown tstat \<Rightarrow> Some (Inr (handle_terminate tstat ec c))
      | Wait t \<Rightarrow> Some (Inr (timer_expired t ec c))
      | Cancelled t \<Rightarrow> Some (Inr (timer_expired t ec c)))"

definition conn_event :: "conn_event \<Rightarrow> connection \<Rightarrow> connection outcome option" where
  "conn_event e c =
     (case e of
        App_send payload op \<Rightarrow> Some (Inr (snd (send_string payload op c)))
      | App_ping payload \<Rightarrow> Some (Inr (snd (conn_ping payload c)))
      | App_pong payload \<Rightarrow> Some (Inr (snd (conn_pong payload c)))
      | App_close code reason \<Rightarrow> Some (Inr (snd (conn_close code reason c)))
      | Completed r ec buf \<Rightarrow> completion r ec buf (c\<lparr>cn_requests := remove1 r (cn_requests c)\<rparr>))"

text \<open>Only what has been requested completes.\<close>

definition possible :: "conn_event \<Rightarrow> connection \<Rightarrow> bool" where
  "possible e c = (case e of Completed r ec buf \<Rightarrow> r \<in> set (cn_requests c) | _ \<Rightarrow> True)"

inductive conn_reachable :: "connection \<Rightarrow> connection \<Rightarrow> bool" for c0 where
  start: "conn_reachable c0 c0"
| step: "conn_reachable c0 c \<Longrightarrow> possible e c \<Longrightarrow> conn_event e c = Some (Inr c') \<Longrightarrow> conn_reachable c0 c'"

text \<open>A connection when the opening handshake is over and its first read is under way.\<close>

definition open_connection :: "ws_config \<Rightarrow> handlers \<Rightarrow> bool \<Rightarrow> nat \<Rightarrow> (nat \<Rightarrow> u32) \<Rightarrow> connection" where
  "open_connection cfg h server limit rng =
     \<lparr>cn_config = cfg, cn_handlers = h, cn_state = Open, cn_internal_state = Process_connection, cn_is_server = server,
      cn_processor = hybi13_new server limit, cn_rng = rng, cn_drawn = 0, cn_send_queue = [], cn_send_buffer_size = 0,
      cn_send_buffer = [], cn_current_msgs = [], cn_write_flag = False, cn_read_flag = True, cn_handshake_timer = None,
      cn_ping_timer = None, cn_local_close_code = 1006, cn_local_close_reason = [], cn_remote_close_code = 1006,
      cn_remote_close_reason = [], cn_ec = None, cn_is_http = False, cn_http_state = Http_init, cn_was_clean = False,
      cn_requests = [Async_read], cn_wire = [], cn_calls = []\<rparr>"

subsection \<open>Invariants\<close>

primrec is_write :: "request \<Rightarrow> bool" where
  "is_write Dispatch_write = False"
| "is_write (Async_write bytes) = True"
| "is_write Async_read = False"
| "is_write (Async_shutdown tstat) = False"
| "is_write (Wait t) = False"
| "is_write (Cancelled t) = False"

definition writes :: "connection \<Rightarrow> request list" where
  "writes c = filter is_write (cn_requests c)"

definition reads :: "connection \<Rightarrow> request list" where
  "reads c = filter (\<lambda>r. r = Async_read) (cn_requests c)"

definition posted :: "connection \<Rightarrow> bool" where
  "posted c \<longleftrightarrow> Dispatch_write \<in> set (cn_requests c)"

definition message_bytes :: "message list \<Rightarrow> u8 list" where
  "message_bytes ms = concat (map (\<lambda>m. mg_header m @ mg_payload m) ms)"

text \<open>There is a write under way exactly while there are current messages; a message that waits in the queue will be
  looked at; and after the last write the connection is closed.\<close>

definition writing_ok :: "connection \<Rightarrow> bool" where
  "writing_ok c \<longleftrightarrow>
     writes c = (if cn_current_msgs c = [] then [] else [Async_write (message_bytes (cn_current_msgs c))])
     \<and> (cn_current_msgs c \<noteq> [] \<longrightarrow> cn_write_flag c) \<and> cn_state c \<noteq> Connecting
     \<and> (cn_write_flag c \<and> cn_current_msgs c = [] \<longrightarrow> cn_state c = Closed)
     \<and> (\<not> cn_write_flag c \<and> cn_send_queue c \<noteq> [] \<longrightarrow> posted c)
     \<and> cn_send_buffer c = concat (map (\<lambda>m. [mg_header m, mg_payload m]) (cn_current_msgs c))
     \<and> cn_send_buffer_size c = of_nat (sum_list (map (\<lambda>m. length (mg_payload m)) (cn_send_queue c)))"

definition reading_ok :: "connection \<Rightarrow> bool" where
  "reading_ok c \<longleftrightarrow>
     (reads c = [] \<or> reads c = [Async_read] \<and> waiting (cn_processor c))
     \<and> cn_internal_state c = Process_connection \<and> hb_server (cn_processor c) = cn_is_server c"

text \<open>What has been sent or is queued are whole frames, of the connection's side; the close frames are the last.\<close>

definition own_frame :: "connection \<Rightarrow> frame \<Rightarrow> bool" where
  "own_frame c f \<longleftrightarrow> fr_masked f = (\<not> cn_is_server c)"

definition sent_frames :: "connection \<Rightarrow> frame list \<Rightarrow> frame list \<Rightarrow> bool" where
  "sent_frames c fs cs \<longleftrightarrow>
     cn_wire c @ message_bytes (cn_send_queue c) = concat (map wire (fs @ cs))
     \<and> (\<forall>f\<in>set (fs @ cs). own_frame c f) \<and> (\<forall>f\<in>set fs. fr_opcode f \<noteq> Op_close) \<and> (\<forall>f\<in>set cs. fr_opcode f = Op_close)
     \<and> (cs \<noteq> [] \<longrightarrow> cn_state c \<in> {Closing, Closed})"

definition sending_ok :: "connection \<Rightarrow> bool" where
  "sending_ok c \<longleftrightarrow> (\<exists>fs cs. sent_frames c fs cs)"

definition conn_ok :: "connection \<Rightarrow> bool" where
  "conn_ok c \<longleftrightarrow> writing_ok c \<and> reading_ok c \<and> sending_ok c"

lemma open_ok: "conn_ok (open_connection cfg h server limit rng)"
proof -
  have "sent_frames (open_connection cfg h server limit rng) [] []"
    by (simp add: sent_frames_def open_connection_def message_bytes_def)
  moreover have "hb_server (hybi13_new server limit) = server" by (simp add: hybi13_new_def reset_headers_def)
  ultimately show ?thesis
    using waiting_new [of server limit]
    by (auto simp: conn_ok_def writing_ok_def reading_ok_def sending_ok_def writes_def reads_def open_connection_def)
qed

text \<open>Fields the invariants do not look at.\<close>

lemma writing_ok_fields [simp]:
    "writing_ok (c\<lparr>cn_local_close_code := x0\<rparr>) = writing_ok c"
    "writing_ok (c\<lparr>cn_local_close_reason := x1\<rparr>) = writing_ok c"
    "writing_ok (c\<lparr>cn_remote_close_code := x2\<rparr>) = writing_ok c"
    "writing_ok (c\<lparr>cn_remote_close_reason := x3\<rparr>) = writing_ok c"
    "writing_ok (c\<lparr>cn_ec := x4\<rparr>) = writing_ok c"
    "writing_ok (c\<lparr>cn_http_state := x5\<rparr>) = writing_ok c"
    "writing_ok (c\<lparr>cn_was_clean := x6\<rparr>) = writing_ok c"
    "writing_ok (c\<lparr>cn_calls := x7\<rparr>) = writing_ok c"
    "writing_ok (c\<lparr>cn_handshake_timer := x8\<rparr>) = writing_ok c"
    "writing_ok (c\<lparr>cn_ping_timer := x9\<rparr>) = writing_ok c"
    "writing_ok (c\<lparr>cn_drawn := x10\<rparr>) = writing_ok c"
    "writing_ok (c\<lparr>cn_read_flag := x11\<rparr>) = writing_ok c"
    "writing_ok (c\<lparr>cn_processor := x12\<rparr>) = writing_ok c"
    "writing_ok (c\<lparr>cn_wire := x13\<rparr>) = writing_ok c"
  by (simp_all add: writing_ok_def writes_def posted_def)

lemma reading_ok_fields [simp]:
    "reading_ok (c\<lparr>cn_local_close_code := x0\<rparr>) = reading_ok c"
    "reading_ok (c\<lparr>cn_local_close_reason := x1\<rparr>) = reading_ok c"
    "reading_ok (c\<lparr>cn_remote_close_code := x2\<rparr>) = reading_ok c"
    "reading_ok (c\<lparr>cn_remote_close_reason := x3\<rparr>) = reading_ok c"
    "reading_ok (c\<lparr>cn_ec := x4\<rparr>) = reading_ok c"
    "reading_ok (c\<lparr>cn_http_state := x5\<rparr>) = reading_ok c"
    "reading_ok (c\<lparr>cn_was_clean := x6\<rparr>) = reading_ok c"
    "reading_ok (c\<lparr>cn_calls := x7\<rparr>) = reading_ok c"
    "reading_ok (c\<lparr>cn_handshake_timer := x8\<rparr>) = reading_ok c"
    "reading_ok (c\<lparr>cn_ping_timer := x9\<rparr>) = reading_ok c"
    "reading_ok (c\<lparr>cn_drawn := x10\<rparr>) = reading_ok c"
    "reading_ok (c\<lparr>cn_read_flag := x11\<rparr>) = reading_ok c"
    "reading_ok (c\<lparr>cn_wire := x12\<rparr>) = reading_ok c"
    "reading_ok (c\<lparr>cn_state := x13\<rparr>) = reading_ok c"
    "reading_ok (c\<lparr>cn_send_queue := x14\<rparr>) = reading_ok c"
    "reading_ok (c\<lparr>cn_send_buffer_size := x15\<rparr>) = reading_ok c"
    "reading_ok (c\<lparr>cn_send_buffer := x16\<rparr>) = reading_ok c"
    "reading_ok (c\<lparr>cn_current_msgs := x17\<rparr>) = reading_ok c"
    "reading_ok (c\<lparr>cn_write_flag := x18\<rparr>) = reading_ok c"
  by (simp_all add: reading_ok_def reads_def)

lemma sending_ok_fields [simp]:
    "sending_ok (c\<lparr>cn_local_close_code := x0\<rparr>) = sending_ok c"
    "sending_ok (c\<lparr>cn_local_close_reason := x1\<rparr>) = sending_ok c"
    "sending_ok (c\<lparr>cn_remote_close_code := x2\<rparr>) = sending_ok c"
    "sending_ok (c\<lparr>cn_remote_close_reason := x3\<rparr>) = sending_ok c"
    "sending_ok (c\<lparr>cn_ec := x4\<rparr>) = sending_ok c"
    "sending_ok (c\<lparr>cn_http_state := x5\<rparr>) = sending_ok c"
    "sending_ok (c\<lparr>cn_was_clean := x6\<rparr>) = sending_ok c"
    "sending_ok (c\<lparr>cn_calls := x7\<rparr>) = sending_ok c"
    "sending_ok (c\<lparr>cn_handshake_timer := x8\<rparr>) = sending_ok c"
    "sending_ok (c\<lparr>cn_ping_timer := x9\<rparr>) = sending_ok c"
    "sending_ok (c\<lparr>cn_drawn := x10\<rparr>) = sending_ok c"
    "sending_ok (c\<lparr>cn_read_flag := x11\<rparr>) = sending_ok c"
    "sending_ok (c\<lparr>cn_processor := x12\<rparr>) = sending_ok c"
    "sending_ok (c\<lparr>cn_requests := x13\<rparr>) = sending_ok c"
    "sending_ok (c\<lparr>cn_send_buffer_size := x14\<rparr>) = sending_ok c"
    "sending_ok (c\<lparr>cn_send_buffer := x15\<rparr>) = sending_ok c"
    "sending_ok (c\<lparr>cn_current_msgs := x16\<rparr>) = sending_ok c"
    "sending_ok (c\<lparr>cn_write_flag := x17\<rparr>) = sending_ok c"
  by (simp_all add: sending_ok_def sent_frames_def own_frame_def)

lemma conn_ok_fields [simp]:
    "conn_ok (c\<lparr>cn_local_close_code := x0\<rparr>) = conn_ok c"
    "conn_ok (c\<lparr>cn_local_close_reason := x1\<rparr>) = conn_ok c"
    "conn_ok (c\<lparr>cn_remote_close_code := x2\<rparr>) = conn_ok c"
    "conn_ok (c\<lparr>cn_remote_close_reason := x3\<rparr>) = conn_ok c"
    "conn_ok (c\<lparr>cn_ec := x4\<rparr>) = conn_ok c"
    "conn_ok (c\<lparr>cn_http_state := x5\<rparr>) = conn_ok c"
    "conn_ok (c\<lparr>cn_was_clean := x6\<rparr>) = conn_ok c"
    "conn_ok (c\<lparr>cn_calls := x7\<rparr>) = conn_ok c"
    "conn_ok (c\<lparr>cn_handshake_timer := x8\<rparr>) = conn_ok c"
    "conn_ok (c\<lparr>cn_ping_timer := x9\<rparr>) = conn_ok c"
    "conn_ok (c\<lparr>cn_drawn := x10\<rparr>) = conn_ok c"
    "conn_ok (c\<lparr>cn_read_flag := x11\<rparr>) = conn_ok c"
  by (simp_all add: conn_ok_def)

lemma conn_ok_request: "\<not> is_write r \<Longrightarrow> r \<noteq> Async_read \<Longrightarrow> conn_ok c \<Longrightarrow> conn_ok (request r c)"
  by (auto simp: conn_ok_def writing_ok_def reading_ok_def request_def writes_def reads_def posted_def)

lemma conn_ok_user_call [simp]: "conn_ok (user_call u c) = conn_ok c"
  by (simp add: user_call_def)

lemma filter_cancelled: "\<not> P (Wait t) \<Longrightarrow> \<not> P (Cancelled t) \<Longrightarrow> filter P (cancelled t rs) = filter P rs"
  by (induction rs) auto

lemma set_cancelled: "r \<noteq> Wait t \<Longrightarrow> r \<noteq> Cancelled t \<Longrightarrow> r \<in> set (cancelled t rs) \<longleftrightarrow> r \<in> set rs"
  by (induction rs) auto

lemma conn_ok_cancel [simp]: "conn_ok (cancel_timer t c) = conn_ok c"
  by (cases t)
    (simp_all add: cancel_timer_def conn_ok_def writing_ok_def reading_ok_def writes_def reads_def posted_def
      filter_cancelled set_cancelled)

lemma conn_ok_closed: "conn_ok c \<Longrightarrow> conn_ok (c\<lparr>cn_state := Closed\<rparr>)"
  by (auto simp: conn_ok_def writing_ok_def writes_def posted_def sending_ok_def sent_frames_def own_frame_def)

lemma conn_ok_terminate:
  assumes "conn_ok c"
  shows "conn_ok (conn_terminate ec c)"
  using assms by (auto simp: conn_terminate_def Let_def intro!: conn_ok_request conn_ok_closed split: option.split)

lemma terminate_state [simp]: "cn_state (conn_terminate ec c) = Closed"
  by (auto simp: conn_terminate_def Let_def request_def cancel_timer_def split: option.split)

subsection \<open>Sending keeps the invariants\<close>

lemma prepared_byE:
  assumes "prepared_by f c = (r, c1)"
  obtains key n where "f (cn_processor c) key = r" "c1 = c\<lparr>cn_drawn := n\<rparr>"
proof
  show "f (cn_processor c) (cn_rng c (cn_drawn c)) = r" using assms by (simp add: prepared_by_def Let_def)
  show "c1 = c\<lparr>cn_drawn := if fst r = None \<and> \<not> hb_server (cn_processor c) then cn_drawn c + 1 else cn_drawn c\<rparr>"
    using assms by (auto simp: prepared_by_def Let_def)
qed

lemma message_bytes_simps [simp]:
  "message_bytes [] = []" "message_bytes (m # ms) = mg_header m @ mg_payload m @ message_bytes ms"
  "message_bytes (ms @ ms') = message_bytes ms @ message_bytes ms'"
  by (simp_all add: message_bytes_def)

lemma sending_push:
  assumes "sending_ok c" "mg_header m @ mg_payload m = wire f" "own_frame c f"
    "cn_state c = Open \<and> fr_opcode f \<noteq> Op_close \<or> cn_state c = Closing \<and> fr_opcode f = Op_close"
  shows "sending_ok (write_push (Some m) c)"
proof -
  obtain fs cs where s: "sent_frames c fs cs" using assms(1) by (auto simp: sending_ok_def)
  show ?thesis
  proof (cases "fr_opcode f = Op_close")
    case True
    then have "sent_frames (write_push (Some m) c) fs (cs @ [f])"
      using s assms(2-4) by (auto simp: sent_frames_def write_push_def own_frame_def)
    then show ?thesis by (auto simp: sending_ok_def)
  next
    case False
    then have "cs = []" using s assms(4) by (auto simp: sent_frames_def)
    then have "sent_frames (write_push (Some m) c) (fs @ [f]) []"
      using s assms(2-4) False by (auto simp: sent_frames_def write_push_def own_frame_def)
    then show ?thesis by (auto simp: sending_ok_def)
  qed
qed

lemma conn_ok_push:
  assumes "conn_ok c" "mg_header m @ mg_payload m = wire f" "own_frame c f"
    "cn_state c = Open \<and> fr_opcode f \<noteq> Op_close \<or> cn_state c = Closing \<and> fr_opcode f = Op_close"
  shows "conn_ok (dispatch_write (write_push (Some m) c))"
proof -
  have "writing_ok (dispatch_write (write_push (Some m) c))"
    using assms(1)
    by (auto simp: conn_ok_def writing_ok_def dispatch_write_def write_push_def request_def writes_def posted_def add.commute)
  moreover have "reading_ok (dispatch_write (write_push (Some m) c))"
    using assms(1) by (simp add: conn_ok_def reading_ok_def dispatch_write_def write_push_def request_def reads_def)
  moreover have "sending_ok (dispatch_write (write_push (Some m) c))"
    using sending_push [OF _ assms(2-4)] assms(1) by (simp add: conn_ok_def dispatch_write_def request_def)
  ultimately show ?thesis by (simp add: conn_ok_def)
qed

lemma own_sent_frame: "reading_ok c \<Longrightarrow> own_frame c (sent_frame (cn_processor c) key op fin bs)"
  by (simp add: own_frame_def reading_ok_def)

lemma own_frame_fields [simp]:
  "own_frame (c\<lparr>cn_drawn := n\<rparr>) f = own_frame c f" "own_frame (c\<lparr>cn_state := s\<rparr>) f = own_frame c f"
  by (simp_all add: own_frame_def)

lemma conn_ok_send:
  assumes "conn_ok c"
  shows "conn_ok (snd (send_string bs op c))"
proof -
  let ?msg = "(message_new op)\<lparr>mg_payload := bs, mg_compressed := True\<rparr>"
  have fresh: "\<not> mg_prepared ?msg" by (simp add: message_new_def)
  obtain e out c1 where p: "prepared_by (\<lambda>p key. prepare_data_frame p key (Some ?msg) (Some message_blank)) c = ((e, out), c1)"
    by (metis prod.collapse)
  obtain key n where k: "prepare_data_frame (cn_processor c) key (Some ?msg) (Some message_blank) = (e, out)" "c1 = c\<lparr>cn_drawn := n\<rparr>"
    using prepared_byE [OF p] by blast
  show ?thesis
  proof (cases "cn_state c = Open \<and> e = None")
    case True
    then obtain m where m: "out = Some m"
      using k(1) by (auto simp: prepare_data_frame_def Let_def split: if_splits)
    note d = prepared_data [OF k(1) [unfolded m conjunct2 [OF True]]]
    have "conn_ok (dispatch_write (write_push (Some m) c1))"
      by (rule conn_ok_push [OF _ d(1)])
        (use assms k(2) True d(4) own_sent_frame in \<open>auto simp: conn_ok_def message_new_def\<close>)
    then show ?thesis using True p fresh m by (simp add: send_string_def send_message_def manager_message_def)
  next
    case False
    then show ?thesis using assms p k(2) fresh
      by (auto simp: send_string_def send_message_def manager_message_def split: option.splits)
  qed
qed

text \<open>A control frame that has been prepared.\<close>

lemma prepared_control_push:
  assumes "prepare_control (cn_processor c) key op bs (Some message_blank) = (None, out)" "conn_ok c'"
    "cn_is_server c' = hb_server (cn_processor c)"
    "cn_state c' = Open \<and> op \<noteq> Op_close \<or> cn_state c' = Closing \<and> op = Op_close"
  shows "conn_ok (dispatch_write (write_push out c'))"
    "conn_ok (dispatch_write (write_push (map_option (\<lambda>m. m\<lparr>mg_terminal := True\<rparr>) out) c'))"
proof -
  obtain m where m: "out = Some m" using assms(1) by (auto simp: prepare_control_def Let_def split: if_splits)
  note b = prepared_control(1) [OF assms(1) [unfolded m]]
  have own: "own_frame c' (sent_frame (cn_processor c) key op True bs)" using assms(3) by (simp add: own_frame_def)
  show "conn_ok (dispatch_write (write_push out c'))"
    unfolding m by (rule conn_ok_push [OF assms(2) b own]) (use assms(4) in simp)
  show "conn_ok (dispatch_write (write_push (map_option (\<lambda>m. m\<lparr>mg_terminal := True\<rparr>) out) c'))"
    unfolding m option.map by (rule conn_ok_push [OF assms(2) _ own]) (use b assms(4) in simp_all)
qed

lemma set_ping_timer_fields [simp]:
  "cn_state (set_ping_timer bs c) = cn_state c" "cn_is_server (set_ping_timer bs c) = cn_is_server c"
  "cn_processor (set_ping_timer bs c) = cn_processor c"
  by (auto simp: set_ping_timer_def Let_def request_def cancel_timer_def split: option.split)

lemma conn_ok_set_ping_timer: "conn_ok c \<Longrightarrow> conn_ok (set_ping_timer bs c)"
  by (auto simp: set_ping_timer_def Let_def intro!: conn_ok_request)

lemma conn_ok_server: "conn_ok c \<Longrightarrow> cn_is_server c = hb_server (cn_processor c)"
  by (simp add: conn_ok_def reading_ok_def)

lemma conn_ok_pong: "conn_ok c \<Longrightarrow> conn_ok (snd (conn_pong bs c))"
  by (auto simp: conn_pong_def manager_message_def prepare_pong_def conn_ok_server elim!: prepared_byE
      intro!: prepared_control_push(1) split: prod.splits option.splits)

lemma conn_ok_ping: "conn_ok c \<Longrightarrow> conn_ok (snd (conn_ping bs c))"
  by (auto simp: conn_ping_def manager_message_def prepare_ping_def conn_ok_server elim!: prepared_byE
      intro!: prepared_control_push(1) conn_ok_set_ping_timer split: prod.splits option.splits)

lemma conn_ok_start_closing:
  assumes "conn_ok c" "cn_state c = Open \<or> cn_state c = Closing"
  shows "conn_ok (start_closing ack c)"
proof -
  have "conn_ok (c\<lparr>cn_state := Closing\<rparr>)"
    using assms by (auto simp: conn_ok_def writing_ok_def writes_def posted_def sending_ok_def sent_frames_def own_frame_def)
  then show ?thesis by (auto simp: start_closing_def Let_def intro!: conn_ok_request)
qed

text \<open>A close frame is sent in the states open and closing.\<close>

lemma conn_ok_close_frame:
  assumes "conn_ok c" "cn_state c = Open \<or> cn_state c = Closing"
  shows "conn_ok (snd (send_close_frame code reason ack terminal c))"
proof -
  obtain lcode lreason where l: "local_close code reason ack c = (lcode, lreason)" by fastforce
  define c1 where "c1 = c\<lparr>cn_local_close_code := lcode, cn_local_close_reason := lreason\<rparr>"
  have ok1: "conn_ok c1" using assms(1) by (simp add: c1_def)
  obtain e out c2 where p: "prepared_by (\<lambda>p key. prepare_close p key lcode lreason (Some message_blank)) c1 = ((e, out), c2)"
    by (metis prod.collapse)
  obtain key n where k: "prepare_close (cn_processor c1) key lcode lreason (Some message_blank) = (e, out)" "c2 = c1\<lparr>cn_drawn := n\<rparr>"
    using prepared_byE [OF p] by blast
  show ?thesis
  proof (cases e)
    case (Some e)
    then show ?thesis using l p k(2) ok1 by (simp add: send_close_frame_def manager_message_def c1_def [symmetric])
  next
    case None
    have frame: "prepare_control (cn_processor c1) key Op_close (close_payload lcode lreason) (Some message_blank) = (None, out)"
      using k(1) None by (auto simp: prepare_close_def split: if_splits)
    have ok2: "conn_ok c2" "cn_state c2 = Open \<or> cn_state c2 = Closing" using ok1 k(2) assms(2) by (simp_all add: c1_def)
    have st: "cn_state (start_closing ack c2) = Closing" "cn_is_server (start_closing ack c2) = hb_server (cn_processor c1)"
      using conn_ok_server [OF ok1] by (simp_all add: start_closing_def Let_def k(2) request_def)
    have "snd (send_close_frame code reason ack terminal c) =
        dispatch_write (write_push (if terminal then map_option (\<lambda>m. m\<lparr>mg_terminal := True\<rparr>) out else out) (start_closing ack c2))"
      using l p [unfolded c1_def] None by (simp add: send_close_frame_def manager_message_def)
    then show ?thesis using prepared_control_push [OF frame conn_ok_start_closing [OF ok2] st(2)] st(1) by simp
  qed
qed

lemma conn_ok_close: "conn_ok c \<Longrightarrow> conn_ok (snd (conn_close code reason c))"
  by (simp add: conn_close_def Let_def conn_ok_close_frame)

subsection \<open>Reading keeps the invariants\<close>

lemma conn_ok_reject: "conn_ok c \<Longrightarrow> cn_state c = Open \<or> cn_state c = Closing \<Longrightarrow> conn_ok (reject_close e reason c)"
  by (simp add: reject_close_def conn_ok_terminate send_close_ack_def conn_ok_close_frame)

lemma conn_ok_process_close:
  "conn_ok c \<Longrightarrow> cn_state c = Open \<or> cn_state c = Closing \<Longrightarrow> conn_ok (process_close m c)"
  by (auto simp: process_close_def acknowledge_close_def Let_def conn_ok_terminate send_close_ack_def conn_ok_close_frame
      intro!: conn_ok_reject split: prod.split option.split)

lemma conn_ok_state: "conn_ok c \<Longrightarrow> cn_state c = Open \<or> cn_state c = Closing \<or> cn_state c = Closed"
  by (cases "cn_state c") (auto simp: conn_ok_def writing_ok_def)

lemma conn_ok_control_frame: "conn_ok c \<Longrightarrow> conn_ok (process_control_frame m c)"
  using conn_ok_state [of c]
  by (auto simp: process_control_frame_def Let_def process_ping_def process_pong_def conn_ok_pong conn_ok_process_close
      split: option.split)

lemma conn_ok_dispatch: "conn_ok c \<Longrightarrow> conn_ok (dispatch_message m c)"
  by (simp add: dispatch_message_def conn_ok_control_frame)

lemma conn_ok_protocol_error: "conn_ok c \<Longrightarrow> conn_ok (protocol_error e c)"
  using conn_ok_close [of c] by (auto simp: protocol_error_def intro!: conn_ok_terminate split: prod.split option.split; metis snd_conv)

text \<open>What a message leaves alone: the processor and the requested reads.\<close>

definition same_reader :: "connection \<Rightarrow> connection \<Rightarrow> bool" where
  "same_reader c c' \<longleftrightarrow> cn_processor c' = cn_processor c \<and> reads c' = reads c"

lemma same_reader_refl [intro]: "same_reader c c"
  by (simp add: same_reader_def)

lemma same_reader_fields [simp]:
    "same_reader c (c'\<lparr>cn_local_close_code := x0\<rparr>) = same_reader c c'"
    "same_reader c (c'\<lparr>cn_local_close_reason := x1\<rparr>) = same_reader c c'"
    "same_reader c (c'\<lparr>cn_remote_close_code := x2\<rparr>) = same_reader c c'"
    "same_reader c (c'\<lparr>cn_remote_close_reason := x3\<rparr>) = same_reader c c'"
    "same_reader c (c'\<lparr>cn_ec := x4\<rparr>) = same_reader c c'"
    "same_reader c (c'\<lparr>cn_http_state := x5\<rparr>) = same_reader c c'"
    "same_reader c (c'\<lparr>cn_was_clean := x6\<rparr>) = same_reader c c'"
    "same_reader c (c'\<lparr>cn_calls := x7\<rparr>) = same_reader c c'"
    "same_reader c (c'\<lparr>cn_handshake_timer := x8\<rparr>) = same_reader c c'"
    "same_reader c (c'\<lparr>cn_ping_timer := x9\<rparr>) = same_reader c c'"
    "same_reader c (c'\<lparr>cn_drawn := x10\<rparr>) = same_reader c c'"
    "same_reader c (c'\<lparr>cn_state := x11\<rparr>) = same_reader c c'"
    "same_reader c (c'\<lparr>cn_send_queue := x12\<rparr>) = same_reader c c'"
    "same_reader c (c'\<lparr>cn_send_buffer_size := x13\<rparr>) = same_reader c c'"
  by (simp_all add: same_reader_def reads_def)

lemma same_reader_request [simp]: "r \<noteq> Async_read \<Longrightarrow> same_reader c (request r c') = same_reader c c'"
  by (simp add: same_reader_def request_def reads_def)

lemma same_reader_user_call [simp]: "same_reader c (user_call u c') = same_reader c c'"
  by (simp add: user_call_def)

lemma same_reader_cancel [simp]: "same_reader c (cancel_timer t c') = same_reader c c'"
  by (cases t) (simp_all add: same_reader_def cancel_timer_def reads_def filter_cancelled)

lemma same_reader_terminate [simp]: "same_reader c (conn_terminate ec c') = same_reader c c'"
  by (auto simp: conn_terminate_def Let_def split: option.split)

lemma same_reader_write [simp]:
  "same_reader c (write_push m c') = same_reader c c'" "same_reader c (dispatch_write c') = same_reader c c'"
  by (auto simp: write_push_def dispatch_write_def split: option.split)

lemma same_reader_pong: "same_reader c (snd (conn_pong bs c))"
  by (auto simp: conn_pong_def elim!: prepared_byE split: prod.split option.split)

lemma same_reader_start_closing [simp]: "same_reader c (start_closing ack c') = same_reader c c'"
  by (simp add: start_closing_def Let_def)

lemma same_reader_close: "same_reader c (snd (send_close_frame code reason ack terminal c))"
  by (auto simp: send_close_frame_def Let_def elim!: prepared_byE split: prod.split option.split)

lemma same_reader_trans: "same_reader c c1 \<Longrightarrow> same_reader c1 c2 \<Longrightarrow> same_reader c c2"
  by (simp add: same_reader_def)

lemma same_reader_ack: "same_reader c c1 \<Longrightarrow> same_reader c (snd (send_close_ack code reason c1))"
  using same_reader_trans [OF _ same_reader_close] by (simp add: send_close_ack_def)

lemma same_reader_reject: "same_reader c c1 \<Longrightarrow> same_reader c (reject_close e reason c1)"
  by (simp add: reject_close_def same_reader_ack)

lemma same_reader_process_close: "same_reader c (process_close m c)"
  by (auto simp: process_close_def acknowledge_close_def Let_def intro!: same_reader_ack same_reader_reject
      split: prod.split option.split)

lemma same_reader_process_ping: "same_reader c (process_ping m c)"
  using same_reader_trans [OF _ same_reader_pong, of c "user_call (On_ping (mg_payload m)) c" "mg_payload m"]
  by (auto simp: process_ping_def Let_def same_reader_pong split: option.split)

lemma same_reader_process_pong: "same_reader c (process_pong m c)"
  by (auto simp: process_pong_def Let_def)

lemma same_reader_dispatch: "same_reader c (dispatch_message m c)"
  by (auto simp: dispatch_message_def process_control_frame_def Let_def same_reader_process_close
      same_reader_process_ping same_reader_process_pong)

text \<open>The processor does not change sides.\<close>

fun turn_processor :: "turn \<Rightarrow> hybi13" where
  "turn_processor (Next b p) = p"
| "turn_processor (Break e b p) = p"

lemma basic_turn_server: "basic_turn buf p = Inr t \<Longrightarrow> hb_server (turn_processor t) = hb_server p"
  by (auto simp: basic_turn_def copy_basic_header_bytes_def Let_def split: if_splits option.splits)

lemma extended_turn_server: "extended_turn buf p = Inr t \<Longrightarrow> hb_server (turn_processor t) = hb_server p"
  by (auto simp: extended_turn_def copy_extended_header_bytes_def Let_def bindE_eq_Inr dest!: start_payload_frame
      split: if_splits option.splits prod.splits)

lemma payload_end_server: "payload_end buf p = Inr t \<Longrightarrow> hb_server (turn_processor t) = hb_server p"
  by (auto simp: payload_end_def finalize_message_def bindE_eq_Inr reset_headers_def split: if_splits option.splits)

lemma process_payload_server: "process_payload_bytes buf p = Inr (k, e, p') \<Longrightarrow> hb_server p' = hb_server p"
  by (auto simp: process_payload_bytes_def set_current_metadata_def Let_def split: if_splits option.splits prod.splits msg_slot.splits)

lemma application_turn_server: "application_turn buf p = Inr t \<Longrightarrow> hb_server (turn_processor t) = hb_server p"
  by (auto simp: application_turn_def Let_def bindE_eq_Inr dest!: payload_end_server process_payload_server
      split: if_splits option.splits)

lemma consume_turn_server: "consume_turn buf p = Inr t \<Longrightarrow> hb_server (turn_processor t) = hb_server p"
  using basic_turn_server [of buf p t] extended_turn_server [of buf p t] application_turn_server [of buf p t]
  by (cases "hb_state p") (auto simp: consume_turn_def)

lemma consume_loop_server: "consume_loop buf p = Inr (ec, rest, p') \<Longrightarrow> hb_server p' = hb_server p"
proof (induction buf p rule: consume_loop.induct)
  case (1 buf p)
  show ?case
  proof (cases "going_on buf p")
    case True
    then obtain t where t: "consume_turn buf p = Inr t"
      using 1(2) by (auto simp: consume_loop.simps [of buf p] split: sum.splits)
    show ?thesis
    proof (cases t)
      case (Next b p1)
      then show ?thesis using 1 True t consume_turn_server [OF t] by (simp add: consume_loop.simps [of buf p])
    next
      case (Break e b p1)
      then show ?thesis using 1(2) True t consume_turn_server [OF t] by (simp add: consume_loop.simps [of buf p])
    qed
  next
    case False
    then show ?thesis using 1(2) by (simp add: consume_loop.simps [of buf p])
  qed
qed

lemma get_message_server: "get_message p = Inr (m, p') \<Longrightarrow> hb_server p' = hb_server p"
  by (auto simp: get_message_def Let_def reset_headers_def set_current_metadata_def split: option.splits msg_slot.splits if_splits)

lemma conn_ok_processor:
  "conn_ok c \<Longrightarrow> reads c = [] \<Longrightarrow> hb_server p = hb_server (cn_processor c) \<Longrightarrow> conn_ok (c\<lparr>cn_processor := p\<rparr>)"
  by (simp add: conn_ok_def reading_ok_def reads_def)

lemma read_loop_ok:
  "conn_ok c \<Longrightarrow> reads c = [] \<Longrightarrow> waiting (cn_processor c) \<Longrightarrow> \<exists>c'. read_loop buf c = Some (Inr c') \<and> conn_ok c'"
proof (induction "length buf" arbitrary: buf c rule: less_induct)
  case less
  show ?case
  proof (cases "buf = []")
    case True
    have "conn_ok (read_frame c)"
      using less.prems by (auto simp: read_frame_def conn_ok_def writing_ok_def reading_ok_def request_def writes_def reads_def posted_def)
    then show ?thesis using True by (simp add: read_loop.simps)
  next
    case False
    obtain n ec p where p: "consume buf (cn_processor c) = Inr (n, ec, p)"
        "ec = None \<longrightarrow> 0 < n \<and> n \<le> length buf \<and> proc_ok p \<and> (ready p \<or> n = length buf \<and> waiting p)"
      using consume_ok [OF less.prems(3) False] by blast
    have srv: "hb_server p = hb_server (cn_processor c)"
      using p(1) by (auto simp: consume_def bindE_eq_Inr dest: consume_loop_server)
    have ok: "conn_ok (c\<lparr>cn_processor := p\<rparr>)" by (rule conn_ok_processor [OF less.prems(1,2) srv])
    show ?thesis
    proof (cases ec)
      case (Some e)
      have "conn_ok (protocol_error e (c\<lparr>cn_processor := p\<rparr>))" using ok by (rule conn_ok_protocol_error)
      then show ?thesis using False p(1) Some by (simp add: read_loop.simps [of buf])
    next
      case None
      have "\<exists>c1. take_message (c\<lparr>cn_processor := p\<rparr>) = Inr c1 \<and> conn_ok c1 \<and> reads c1 = [] \<and> waiting (cn_processor c1)"
      proof (cases "ready p")
        case True
        obtain m p' where m: "get_message p = Inr (Some m, p')" "waiting p'" using get_message_ok [of p] p(2) None True by blast
        let ?c = "c\<lparr>cn_processor := p'\<rparr>"
        have "conn_ok ?c" using conn_ok_processor [OF less.prems(1,2)] get_message_server [OF m(1)] srv by simp
        moreover have "same_reader ?c (dispatch_message m ?c)" by (rule same_reader_dispatch)
        moreover have "reads ?c = []" using less.prems(2) by (simp add: reads_def)
        ultimately show ?thesis
          using True m by (auto simp: take_message_def same_reader_def intro: conn_ok_dispatch)
      next
        case False
        then show ?thesis using ok p(2) None less.prems(2) by (simp add: take_message_def reads_def)
      qed
      then obtain c1 where c1: "take_message (c\<lparr>cn_processor := p\<rparr>) = Inr c1" "conn_ok c1" "reads c1 = []" "waiting (cn_processor c1)"
        by blast
      have "length (drop n buf) < length buf" using p(2) None False by simp
      then show ?thesis using less.hyps [OF _ c1(2-4)] False p(1) None c1(1) by (simp add: read_loop.simps [of buf])
    qed
  qed
qed

subsection \<open>Completions keep the invariants\<close>

lemma conn_ok_terminate_closed: "conn_ok (c\<lparr>cn_state := Closed\<rparr>) \<Longrightarrow> conn_ok (conn_terminate ec c)"
  by (cases "cn_handshake_timer c")
    (auto simp: conn_terminate_def Let_def request_def cancel_timer_def conn_ok_def writing_ok_def reading_ok_def
      sending_ok_def sent_frames_def own_frame_def writes_def reads_def posted_def filter_cancelled set_cancelled
      split: option.split)

lemma write_pops_split:
  "\<exists>ms rest. cn_send_queue c = ms @ rest \<and> (ms = [] \<longrightarrow> rest = []) \<and>
     write_pops c = c\<lparr>cn_send_buffer_size := cn_send_buffer_size c - of_nat (sum_list (map (\<lambda>m. length (mg_payload m)) ms)),
       cn_send_queue := rest, cn_current_msgs := cn_current_msgs c @ ms\<rparr>"
proof (induction c rule: write_pops.induct)
  case (1 c)
  show ?case
  proof (cases "cn_send_queue c")
    case Nil
    then show ?thesis by (intro exI [of _ "[]"]) (simp add: write_pops.simps [of c] write_pop_def)
  next
    case (Cons m q)
    define c1 where "c1 = c\<lparr>cn_send_buffer_size := cn_send_buffer_size c - of_nat (length (mg_payload m)), cn_send_queue := q\<rparr>"
    have pop: "write_pop c = (Some m, c1)" by (simp add: write_pop_def Cons c1_def)
    show ?thesis
    proof (cases "mg_terminal m")
      case True
      then show ?thesis
        by (intro exI [of _ "[m]"] exI [of _ q]) (simp add: write_pops.simps [of c] pop Cons, simp add: c1_def)
    next
      case False
      obtain ms rest where ih: "q = ms @ rest" "ms = [] \<longrightarrow> rest = []"
          "write_pops (c1\<lparr>cn_current_msgs := cn_current_msgs c1 @ [m]\<rparr>) =
            c1\<lparr>cn_send_buffer_size := cn_send_buffer_size c1 - of_nat (sum_list (map (\<lambda>m. length (mg_payload m)) ms)),
              cn_send_queue := rest, cn_current_msgs := (cn_current_msgs c1 @ [m]) @ ms\<rparr>"
        using 1 [OF pop [symmetric] refl refl False] by (auto simp: c1_def)
      show ?thesis
        by (intro exI [of _ "m # ms"] exI [of _ rest])
          (simp add: write_pops.simps [of c] pop False ih Cons, simp add: c1_def algebra_simps)
    qed
  qed
qed

lemma remove_request [simp]:
  "\<not> is_write r \<Longrightarrow> filter is_write (remove1 r rs) = filter is_write rs"
  "r \<noteq> Async_read \<Longrightarrow> filter (\<lambda>r. r = Async_read) (remove1 r rs) = filter (\<lambda>r. r = Async_read) rs"
  "r \<noteq> Dispatch_write \<Longrightarrow> Dispatch_write \<in> set (remove1 r rs) \<longleftrightarrow> Dispatch_write \<in> set rs"
  by (simp_all add: filter_remove1 remove1_idem in_set_remove1)

lemma conn_ok_write_frame:
  assumes "conn_ok c"
  shows "conn_ok (write_frame (c\<lparr>cn_requests := remove1 Dispatch_write (cn_requests c)\<rparr>))"
proof -
  define c' where "c' = c\<lparr>cn_requests := remove1 Dispatch_write (cn_requests c)\<rparr>"
  have w: "writes c' = writes c" and r: "reading_ok c'" and s: "sending_ok c'"
    using assms by (simp_all add: c'_def conn_ok_def writes_def reading_ok_def reads_def)
  show ?thesis
  proof (cases "cn_write_flag c")
    case True
    have "writing_ok c'" using assms w True by (auto simp: c'_def conn_ok_def writing_ok_def)
    then show ?thesis using True r s by (simp add: c'_def [symmetric] write_frame_def) (simp add: c'_def conn_ok_def)
  next
    case False
    then have idle: "cn_current_msgs c' = []" "cn_send_buffer c' = []" "writes c' = []" "cn_write_flag c' = False"
      using assms w by (auto simp: c'_def conn_ok_def writing_ok_def)
    obtain ms rest where p: "cn_send_queue c' = ms @ rest" "ms = [] \<longrightarrow> rest = []"
        "write_pops c' = c'\<lparr>cn_send_buffer_size := cn_send_buffer_size c' - of_nat (sum_list (map (\<lambda>m. length (mg_payload m)) ms)),
           cn_send_queue := rest, cn_current_msgs := ms\<rparr>"
      using write_pops_split [of c'] idle(1) by auto
    have sz: "cn_send_buffer_size c' = of_nat (sum_list (map (\<lambda>m. length (mg_payload m)) (ms @ rest)))"
      using assms p(1) by (simp add: c'_def conn_ok_def writing_ok_def)
    have bytes: "concat (concat (map (\<lambda>m. [mg_header m, mg_payload m]) ms)) = message_bytes ms"
      by (induction ms) simp_all
    show ?thesis
    proof (cases "ms = []")
      case True
      have "cn_state c \<noteq> Connecting" using assms by (simp add: conn_ok_def writing_ok_def)
      then have "writing_ok (c'\<lparr>cn_send_buffer_size := 0, cn_send_queue := [], cn_current_msgs := []\<rparr>)"
        using idle by (simp add: writing_ok_def writes_def c'_def)
      then have "conn_ok (c'\<lparr>cn_send_buffer_size := 0, cn_send_queue := [], cn_current_msgs := []\<rparr>)"
        using r s p(1,2) True by (simp add: conn_ok_def sending_ok_def sent_frames_def own_frame_def)
      then show ?thesis using True p sz idle by (simp add: c'_def [symmetric] write_frame_def)
    next
      case False
      then have f: "write_frame c' = async_write (message_bytes ms)
          (c'\<lparr>cn_send_buffer_size := of_nat (sum_list (map (\<lambda>m. length (mg_payload m)) rest)), cn_send_queue := rest,
             cn_current_msgs := ms, cn_write_flag := True, cn_send_buffer := concat (map (\<lambda>m. [mg_header m, mg_payload m]) ms)\<rparr>)"
        using idle p(3) sz bytes by (simp add: write_frame_def)
      have "writing_ok (write_frame c')"
        using False idle assms by (simp add: f writing_ok_def async_write_def request_def writes_def) (simp add: c'_def conn_ok_def writing_ok_def)
      moreover have "reading_ok (write_frame c')" using r by (simp add: f async_write_def request_def reading_ok_def reads_def)
      moreover have "sending_ok (write_frame c')"
        using s p(1) by (simp add: f async_write_def request_def sending_ok_def sent_frames_def own_frame_def)
      ultimately show ?thesis by (simp add: conn_ok_def c'_def)
    qed
  qed
qed

lemma conn_ok_write_done:
  assumes "conn_ok c" "Async_write bytes \<in> set (cn_requests c)"
  shows "\<exists>c'. handle_write_frame ec (c\<lparr>cn_requests := remove1 (Async_write bytes) (cn_requests c)\<rparr>) = Inr c' \<and> conn_ok c'"
proof -
  define c1 where "c1 = c\<lparr>cn_requests := remove1 (Async_write bytes) (cn_requests c), cn_send_buffer := [], cn_current_msgs := []\<rparr>"
  have "Async_write bytes \<in> set (writes c)" using assms(2) by (simp add: writes_def)
  then have w: "cn_current_msgs c \<noteq> []" "writes c = [Async_write bytes]"
    using assms(1) by (auto simp: conn_ok_def writing_ok_def split: if_splits)
  then have w1: "writes c1 = []" by (simp add: c1_def writes_def filter_remove1)
  have r1: "reading_ok c1" using assms(1) by (simp add: c1_def conn_ok_def reading_ok_def reads_def)
  have s1: "sending_ok c1" using assms(1) by (simp add: c1_def conn_ok_def)
  have empty: "cn_current_msgs c1 = []" "cn_send_buffer c1 = []" by (simp_all add: c1_def)
  have rest: "cn_state c1 \<noteq> Connecting" "cn_send_buffer_size c1 = of_nat (sum_list (map (\<lambda>m. length (mg_payload m)) (cn_send_queue c1)))"
      "cn_write_flag c1"
    using assms(1) w(1) by (simp_all add: c1_def conn_ok_def writing_ok_def)
  have "conn_ok (c1\<lparr>cn_state := Closed\<rparr>)"
    using w1 r1 s1 empty rest by (auto simp: conn_ok_def writing_ok_def writes_def sending_ok_def sent_frames_def own_frame_def)
  then have t: "conn_ok (conn_terminate ec c1)" for ec by (rule conn_ok_terminate_closed)
  have "writing_ok (dispatch_write (c1\<lparr>cn_write_flag := False\<rparr>))"
    using w1 empty rest by (simp add: writing_ok_def dispatch_write_def request_def writes_def posted_def)
  moreover have "reading_ok (dispatch_write (c1\<lparr>cn_write_flag := False\<rparr>))"
    using r1 by (simp add: dispatch_write_def request_def reading_ok_def reads_def)
  moreover have "sending_ok (dispatch_write (c1\<lparr>cn_write_flag := False\<rparr>))"
    using s1 by (simp add: dispatch_write_def request_def)
  ultimately have d: "conn_ok (dispatch_write (c1\<lparr>cn_write_flag := False\<rparr>))" by (simp add: conn_ok_def)
  have "handle_write_frame ec (c\<lparr>cn_requests := remove1 (Async_write bytes) (cn_requests c)\<rparr>) =
      Inr (if ec \<noteq> None then conn_terminate ec c1 else if mg_terminal (last (cn_current_msgs c)) then conn_terminate None c1
           else dispatch_write (c1\<lparr>cn_write_flag := False\<rparr>))"
    using w(1) by (simp add: handle_write_frame_def c1_def)
  then show ?thesis using t d by simp
qed

subsection \<open>Every step\<close>

lemma conn_ok_remove:
  assumes "conn_ok c" "\<not> is_write r" "r \<noteq> Dispatch_write"
  shows "conn_ok (c\<lparr>cn_requests := remove1 r (cn_requests c)\<rparr>)"
proof (cases "r = Async_read")
  case True
  then show ?thesis using assms
    by (auto simp: conn_ok_def writing_ok_def reading_ok_def writes_def reads_def posted_def filter_remove1)
next
  case False
  then show ?thesis using assms by (simp add: conn_ok_def writing_ok_def reading_ok_def writes_def reads_def posted_def)
qed

lemma conn_ok_read_error: "conn_ok c \<Longrightarrow> conn_ok (read_error e c)"
  by (simp add: read_error_def conn_ok_terminate)

lemma conn_ok_read:
  assumes "conn_ok c" "Async_read \<in> set (cn_requests c)"
  shows "\<exists>c'. handle_read_frame ec buf (c\<lparr>cn_requests := remove1 Async_read (cn_requests c)\<rparr>) = Some (Inr c') \<and> conn_ok c'"
proof -
  let ?c = "c\<lparr>cn_requests := remove1 Async_read (cn_requests c)\<rparr>"
  have ok: "conn_ok ?c" by (rule conn_ok_remove [OF assms(1)]) simp_all
  have "Async_read \<in> set (reads c)" using assms(2) by (simp add: reads_def)
  then have r: "reads c = [Async_read]" "waiting (cn_processor c)" "cn_internal_state c = Process_connection"
    using assms(1) by (auto simp: conn_ok_def reading_ok_def)
  then have "reads ?c = []" by (simp add: reads_def filter_remove1)
  then show ?thesis
    using read_loop_ok [OF ok, of buf] conn_ok_read_error [OF ok] r by (cases ec) (simp_all add: handle_read_frame_def)
qed

lemma conn_ok_timer: "conn_ok c \<Longrightarrow> conn_ok (timer_expired t ec c)"
  by (cases t) (simp_all add: timer_expired_def handle_open_handshake_timeout_def handle_close_handshake_timeout_def
      handle_pong_timeout_def conn_ok_terminate)

lemma conn_ok_handle_terminate: "conn_ok c \<Longrightarrow> conn_ok (handle_terminate tstat ec c)"
  by (cases tstat) (simp_all add: handle_terminate_def Let_def)

lemma conn_ok_event:
  assumes "conn_ok c" "possible e c"
  shows "\<exists>c'. conn_event e c = Some (Inr c') \<and> conn_ok c'"
proof (cases e)
  case (Completed r ec buf)
  then have r: "r \<in> set (cn_requests c)" using assms(2) by (simp add: possible_def)
  show ?thesis
  proof (cases r)
    case Dispatch_write
    then show ?thesis using conn_ok_write_frame [OF assms(1)] Completed by (simp add: conn_event_def completion_def)
  next
    case (Async_write bytes)
    then show ?thesis using conn_ok_write_done [OF assms(1), of bytes ec] r Completed by (simp add: conn_event_def completion_def)
  next
    case Async_read
    then show ?thesis using conn_ok_read [OF assms(1)] r Completed by (simp add: conn_event_def completion_def)
  qed (use Completed conn_ok_remove [OF assms(1), of r] conn_ok_timer conn_ok_handle_terminate in
        \<open>simp_all add: conn_event_def completion_def\<close>)
qed (use assms conn_ok_send conn_ok_ping conn_ok_pong conn_ok_close in \<open>simp_all add: conn_event_def\<close>)

lemma conn_ok_reachable: "conn_reachable c0 c \<Longrightarrow> conn_ok c0 \<Longrightarrow> conn_ok c"
  by (induction rule: conn_reachable.induct) (use conn_ok_event in fastforce)+

subsection \<open>What this means\<close>



text \<open>C4: No message is left behind: while the connection is not closed, a queued message has a write under way in front of
  it or a call of \<open>write_frame\<close> posted; and there is never more than one write under way, with whole messages.\<close>

theorem no_message_stranded:
  assumes "conn_reachable (open_connection cfg h server limit rng) c" "cn_send_queue c \<noteq> []" "cn_state c \<noteq> Closed"
  shows "(Dispatch_write \<in> set (cn_requests c) \<or> writes c \<noteq> []) \<and> length (writes c) \<le> 1"
  using conn_ok_reachable [OF assms(1) open_ok] assms(2,3)
  by (cases "cn_write_flag c") (auto simp: conn_ok_def writing_ok_def posted_def)

lemma opened_sends:
  "cn_send_queue (snd (send_string [0x48] Op_text (open_connection core_client main_handlers False 1000 (\<lambda>n. 7)))) \<noteq> []
   \<and> cn_state (snd (send_string [0x48] Op_text (open_connection core_client main_handlers False 1000 (\<lambda>n. 7)))) = Open"
  by (simp add: send_string_def send_message_def open_connection_def message_new_def manager_message_def prepared_by_def
      prepare_data_frame_def validate_def validator_new_def validator_decode_def validator_table_def validator_complete_def
      dispatch_write_def write_push_def request_def Let_def)

lemma opened_reaches:
  "conn_reachable (open_connection core_client main_handlers False 1000 (\<lambda>n. 7))
     (snd (send_string [0x48] Op_text (open_connection core_client main_handlers False 1000 (\<lambda>n. 7))))"
  by (rule conn_reachable.step [OF conn_reachable.start, of "App_send [0x48] Op_text"]) (simp_all add: possible_def conn_event_def)

theorem no_message_stranded_witness:
  "let c = snd (send_string [0x48] Op_text (open_connection core_client main_handlers False 1000 (\<lambda>n. 7)))
   in (Dispatch_write \<in> set (cn_requests c) \<or> writes c \<noteq> []) \<and> length (writes c) \<le> 1"
  unfolding Let_def by (rule no_message_stranded [OF opened_reaches]) (use opened_sends in simp_all)



end
