(* ===== verification/Ws_Deliver.thy ===== *)
theory Ws_Deliver
  imports Ws_Run
begin

text \<open>
  What a connection does with the bytes it reads, on whole frames: the messages reach the application in their
  order, pings are answered, close frames and errors close the connection.
\<close>

subsection \<open>On frames\<close>

text \<open>The connection that reads a list of frames; the processor does not matter here but for its side.\<close>

fun follow :: "bool \<Rightarrow> nat \<Rightarrow> frame list \<Rightarrow> partial_message \<Rightarrow> connection \<Rightarrow> connection" where
  "follow server limit [] pending c = read_frame c"
| "follow server limit (f # fs) pending c =
     (case receive_frame server limit pending f of
        Inl e \<Rightarrow> protocol_error e c
      | Inr (None, pending') \<Rightarrow> follow server limit fs pending' c
      | Inr (Some (op, bs), pending') \<Rightarrow> follow server limit fs pending' (dispatch_message (received_message op bs) c))"

subsection \<open>The processor does not matter\<close>

lemma request_processor [simp]: "request r (c\<lparr>cn_processor := p\<rparr>) = (request r c)\<lparr>cn_processor := p\<rparr>"
  by (simp add: request_def)

lemma user_call_processor [simp]: "user_call u (c\<lparr>cn_processor := p\<rparr>) = (user_call u c)\<lparr>cn_processor := p\<rparr>"
  by (simp add: user_call_def)

lemma cancel_processor [simp]: "cancel_timer t (c\<lparr>cn_processor := p\<rparr>) = (cancel_timer t c)\<lparr>cn_processor := p\<rparr>"
  by (cases t) (simp_all add: cancel_timer_def)

lemma request_fields [simp]:
  "cn_state (request r c) = cn_state c" "cn_processor (request r c) = cn_processor c" "cn_is_server (request r c) = cn_is_server c"
  "cn_config (request r c) = cn_config c" "cn_handlers (request r c) = cn_handlers c"
  by (simp_all add: request_def)

lemma cancel_fields [simp]:
  "cn_state (cancel_timer t c) = cn_state c" "cn_processor (cancel_timer t c) = cn_processor c"
  "cn_is_http (cancel_timer t c) = cn_is_http c" "cn_handshake_timer (cancel_timer t c) = cn_handshake_timer c"
  by (cases t; simp add: cancel_timer_def)+

lemma terminate_processor [simp]: "conn_terminate ec (c\<lparr>cn_processor := p\<rparr>) = (conn_terminate ec c)\<lparr>cn_processor := p\<rparr>"
  by (cases "cn_handshake_timer c"; cases ec) (simp_all add: conn_terminate_def Let_def request_def cancel_timer_def)

lemma write_push_processor [simp]: "write_push m (c\<lparr>cn_processor := p\<rparr>) = (write_push m c)\<lparr>cn_processor := p\<rparr>"
  by (cases m) (simp_all add: write_push_def)

lemma dispatch_write_processor [simp]: "dispatch_write (c\<lparr>cn_processor := p\<rparr>) = (dispatch_write c)\<lparr>cn_processor := p\<rparr>"
  by (simp add: dispatch_write_def)

lemma prepared_by_processor:
  "hb_server p = hb_server (cn_processor c) \<Longrightarrow> f p = f (cn_processor c) \<Longrightarrow>
   prepared_by f (c\<lparr>cn_processor := p\<rparr>) = (case prepared_by f c of (r, c1) \<Rightarrow> (r, c1\<lparr>cn_processor := p\<rparr>))"
  by (simp add: prepared_by_def Let_def)

lemma control_side: "hb_server p = hb_server q \<Longrightarrow> prepare_control p = prepare_control q"
  by (intro ext) (simp add: prepare_control_def split: option.split)

lemma close_side: "hb_server p = hb_server q \<Longrightarrow> prepare_close p = prepare_close q"
  using control_side [of p q] by (intro ext) (simp add: prepare_close_def)

lemma pong_processor:
  assumes "hb_server p = hb_server (cn_processor c)"
  shows "conn_pong bs (c\<lparr>cn_processor := p\<rparr>) = (case conn_pong bs c of (e, c1) \<Rightarrow> (e, c1\<lparr>cn_processor := p\<rparr>))"
  using prepared_by_processor [OF assms, of "\<lambda>p key. prepare_pong p key bs (Some message_blank)"] control_side [OF assms]
  by (simp add: conn_pong_def manager_message_def prepare_pong_def split: prod.split option.split)

lemma local_close_processor [simp]: "local_close code reason ack (c\<lparr>cn_processor := p\<rparr>) = local_close code reason ack c"
  by (simp add: local_close_def)

lemma start_closing_processor [simp]: "start_closing ack (c\<lparr>cn_processor := p\<rparr>) = (start_closing ack c)\<lparr>cn_processor := p\<rparr>"
  by (simp add: start_closing_def Let_def request_def)

lemma close_frame_processor:
  assumes "hb_server p = hb_server (cn_processor c)"
  shows "send_close_frame code reason ack terminal (c\<lparr>cn_processor := p\<rparr>) =
    (case send_close_frame code reason ack terminal c of (e, c1) \<Rightarrow> (e, c1\<lparr>cn_processor := p\<rparr>))"
proof -
  obtain lcode lreason where l: "local_close code reason ack c = (lcode, lreason)" by fastforce
  define c1 where "c1 = c\<lparr>cn_local_close_code := lcode, cn_local_close_reason := lreason\<rparr>"
  have c1p: "c\<lparr>cn_processor := p, cn_local_close_code := lcode, cn_local_close_reason := lreason\<rparr> = c1\<lparr>cn_processor := p\<rparr>"
    by (simp add: c1_def)
  have "prepared_by (\<lambda>p key. prepare_close p key lcode lreason (Some message_blank)) (c1\<lparr>cn_processor := p\<rparr>) =
      (case prepared_by (\<lambda>p key. prepare_close p key lcode lreason (Some message_blank)) c1 of (r, c2) \<Rightarrow> (r, c2\<lparr>cn_processor := p\<rparr>))"
    by (rule prepared_by_processor) (use assms close_side [OF assms] in \<open>simp_all add: c1_def\<close>)
  then show ?thesis
    by (simp add: send_close_frame_def manager_message_def l c1p c1_def [symmetric] split: prod.split option.split)
qed

lemma side_fields [simp]:
  "cn_processor (user_call u c) = cn_processor c" "cn_state (user_call u c) = cn_state c"
  by (simp_all add: user_call_def)

lemma ack_processor:
  "hb_server p = hb_server (cn_processor c) \<Longrightarrow>
   snd (send_close_ack code reason (c\<lparr>cn_processor := p\<rparr>)) = (snd (send_close_ack code reason c))\<lparr>cn_processor := p\<rparr>"
  by (simp add: send_close_ack_def close_frame_processor split_beta)

lemma reject_processor:
  "hb_server p = hb_server (cn_processor c) \<Longrightarrow>
   reject_close e r (c\<lparr>cn_processor := p\<rparr>) = (reject_close e r c)\<lparr>cn_processor := p\<rparr>"
  by (simp add: reject_close_def ack_processor)

lemma acknowledge_processor:
  assumes "hb_server p = hb_server (cn_processor c)"
  shows "acknowledge_close (c\<lparr>cn_processor := p\<rparr>) = (acknowledge_close c)\<lparr>cn_processor := p\<rparr>"
proof -
  have w: "c\<lparr>cn_processor := p, cn_was_clean := True\<rparr> = c\<lparr>cn_was_clean := True\<rparr>\<lparr>cn_processor := p\<rparr>" by simp
  show ?thesis using ack_processor [OF assms] by (simp add: acknowledge_close_def Let_def) (simp only: w terminate_processor simp_thms)
qed

lemma process_close_processor:
  assumes "hb_server p = hb_server (cn_processor c)"
  shows "process_close m (c\<lparr>cn_processor := p\<rparr>) = (process_close m c)\<lparr>cn_processor := p\<rparr>"
proof -
  have 1: "c\<lparr>cn_processor := p, cn_remote_close_code := code\<rparr> = c\<lparr>cn_remote_close_code := code\<rparr>\<lparr>cn_processor := p\<rparr>"
    and 2: "d\<lparr>cn_processor := p, cn_remote_close_reason := reason\<rparr> = d\<lparr>cn_remote_close_reason := reason\<rparr>\<lparr>cn_processor := p\<rparr>"
    for code reason and d :: connection by simp_all
  show ?thesis
    using assms by (simp add: process_close_def 1 2 reject_processor acknowledge_processor split: prod.split option.split)
qed

lemma dispatch_processor:
  assumes "hb_server p = hb_server (cn_processor c)"
  shows "dispatch_message m (c\<lparr>cn_processor := p\<rparr>) = (dispatch_message m c)\<lparr>cn_processor := p\<rparr>"
  using assms pong_processor [of p c] pong_processor [of p "user_call (On_ping (mg_payload m)) c"] process_close_processor [OF assms]
  by (auto simp: dispatch_message_def process_control_frame_def Let_def process_ping_def process_pong_def split_beta
      split: option.split)

lemma protocol_error_processor:
  "hb_server p = hb_server (cn_processor c) \<Longrightarrow>
   protocol_error e (c\<lparr>cn_processor := p\<rparr>) = (protocol_error e c)\<lparr>cn_processor := p\<rparr>"
  by (auto simp: protocol_error_def conn_close_def Let_def close_frame_processor split: prod.split option.split)

lemma read_frame_processor [simp]: "read_frame (c\<lparr>cn_processor := p\<rparr>) = (read_frame c)\<lparr>cn_processor := p\<rparr>"
  by (simp add: read_frame_def)

lemma follow_processor:
  "hb_server p = hb_server (cn_processor c) \<Longrightarrow>
   follow server limit fs pending (c\<lparr>cn_processor := p\<rparr>) = (follow server limit fs pending c)\<lparr>cn_processor := p\<rparr>"
proof (induction fs arbitrary: pending c)
  case (Cons f fs)
  have "cn_processor (dispatch_message m c) = cn_processor c" for m
    using same_reader_dispatch [of c m] by (simp add: same_reader_def)
  then show ?case
    using Cons.IH [of "dispatch_message m c" for m] Cons.IH [OF Cons.prems] Cons.prems dispatch_processor [OF Cons.prems]
      protocol_error_processor [OF Cons.prems]
    by (auto split: sum.split option.split)
qed simp

subsection \<open>The loop over the bytes\<close>

lemma turn_suffix: "consume_turn buf p = Inr (Next b p') \<Longrightarrow> \<exists>k. b = drop k buf"
proof -
  assume t: "consume_turn buf p = Inr (Next b p')"
  have app: "\<exists>k. b = drop k buf" if "application_turn buf p = Inr (Next b p')"
    using that by (auto simp: application_turn_def Let_def bindE_eq_Inr dest!: payload_end_next split: if_splits option.splits)
      (metis drop0)+
  have ext: "\<exists>k. b = drop k buf" if "extended_turn buf p = Inr (Next b p')"
    using that by (auto simp: extended_turn_def bindE_eq_Inr split: if_splits option.splits prod.splits)
  have bas: "\<exists>k. b = drop k buf" if "basic_turn buf p = Inr (Next b p')"
    using that by (auto simp: basic_turn_def split: if_splits option.splits prod.splits)
  have "\<exists>k. buf = drop k buf" by (rule exI [of _ 0]) simp
  then show ?thesis using t app ext bas by (cases "hb_state p") (auto simp: consume_turn_def)
qed

lemma loop_suffix: "consume_loop buf p = Inr (None, rest, p') \<Longrightarrow> \<exists>k. rest = drop k buf"
proof (induction buf p rule: consume_loop.induct)
  case (1 buf p)
  show ?case
  proof (cases "going_on buf p")
    case True
    then obtain b p1 where t: "consume_turn buf p = Inr (Next b p1)" "consume_loop b p1 = Inr (None, rest, p')"
      using 1(2) by (auto simp: consume_loop.simps [of buf p] split: sum.splits turn.splits)
    obtain k j where "b = drop k buf" "rest = drop j b" using turn_suffix [OF t(1)] 1(1) [OF True t(1) refl t(2)] by blast
    then show ?thesis by (auto simp: drop_drop)
  next
    case False
    then show ?thesis using 1(2) by (simp add: consume_loop.simps [of buf p]) (metis drop0)
  qed
qed

lemma drop_suffix: "rest = drop k buf \<Longrightarrow> drop (length buf - length rest) buf = rest"
  by (cases "k \<le> length buf") simp_all

lemma read_loop_next:
  assumes "fed buf (cn_processor c) = Inr (Inr (rest, p))" "buf \<noteq> []"
  shows "read_loop buf c =
    (case take_message (c\<lparr>cn_processor := p\<rparr>) of Inl f \<Rightarrow> Some (Inl f) | Inr c1 \<Rightarrow> read_loop rest c1)"
proof -
  have l: "consume_loop buf (cn_processor c) = Inr (None, rest, p)"
    using assms(1) by (auto simp: fed_def view_def bindE_eq_Inr split: option.splits)
  obtain k where "rest = drop k buf" using loop_suffix [OF l] by blast
  then have "drop (length buf - length rest) buf = rest" by (rule drop_suffix)
  then show ?thesis using l assms(2) by (simp add: read_loop.simps [of buf] consume_def split: sum.split)
qed

lemma read_loop_error:
  assumes "fed buf (cn_processor c) = Inr (Inl e)" "buf \<noteq> []"
  shows "\<exists>p. read_loop buf c = Some (Inr ((protocol_error e c)\<lparr>cn_processor := p\<rparr>)) \<and> hb_server p = hb_server (cn_processor c)"
proof -
  obtain rest p where l: "consume_loop buf (cn_processor c) = Inr (Some e, rest, p)"
    using assms(1) by (auto simp: fed_def view_def bindE_eq_Inr split: option.splits)
  have s: "hb_server p = hb_server (cn_processor c)" by (rule consume_loop_server [OF l])
  then have "read_loop buf c = Some (Inr ((protocol_error e c)\<lparr>cn_processor := p\<rparr>))"
    using l assms(2) protocol_error_processor [OF s] by (simp add: read_loop.simps [of buf] consume_def)
  then show ?thesis using s by blast
qed

text \<open>If two buffers lead the processor to the same result, the connection comes to the same state.\<close>

lemma read_loop_same:
  assumes "fed buf (cn_processor c) = fed rest p" "buf \<noteq> []" "rest \<noteq> []" "hb_server p = hb_server (cn_processor c)"
    "read_loop rest (c\<lparr>cn_processor := p\<rparr>) = Some (Inr d)"
  shows "\<exists>q. read_loop buf c = Some (Inr (d\<lparr>cn_processor := q\<rparr>))"
proof (cases "fed rest p")
  case (Inr r)
  show ?thesis
  proof (cases r)
    case (Inl e)
    have f: "fed rest (cn_processor (c\<lparr>cn_processor := p\<rparr>)) = Inr (Inl e)" "fed buf (cn_processor c) = Inr (Inl e)"
      using \<open>fed rest p = Inr r\<close> Inl assms(1) by simp_all
    obtain p1 where 1: "read_loop rest (c\<lparr>cn_processor := p\<rparr>) = Some (Inr ((protocol_error e (c\<lparr>cn_processor := p\<rparr>))\<lparr>cn_processor := p1\<rparr>))"
      using read_loop_error [OF f(1) assms(3)] by blast
    obtain p2 where 2: "read_loop buf c = Some (Inr ((protocol_error e c)\<lparr>cn_processor := p2\<rparr>))"
      using read_loop_error [OF f(2) assms(2)] by blast
    have "d = (protocol_error e c)\<lparr>cn_processor := p1\<rparr>" using 1 assms(5) protocol_error_processor [OF assms(4)] by simp
    then show ?thesis using 2 by (intro exI [of _ p2]) simp
  next
    case next_rest: (Inr x)
    obtain b p1 where x: "x = (b, p1)" by fastforce
    have f: "fed rest (cn_processor (c\<lparr>cn_processor := p\<rparr>)) = Inr (Inr (b, p1))" "fed buf (cn_processor c) = Inr (Inr (b, p1))"
      using \<open>fed rest p = Inr r\<close> next_rest x assms(1) by simp_all
    have "read_loop buf c = read_loop rest (c\<lparr>cn_processor := p\<rparr>)"
      using read_loop_next [OF f(1) assms(3)] read_loop_next [OF f(2) assms(2)] by simp
    then show ?thesis using assms(5) by (intro exI [of _ "cn_processor d"]) simp
  qed
next
  case (Inl g)
  obtain ec b q where l: "consume_loop rest p = Inl g" using Inl
    by (cases "consume_loop rest p") (auto simp: fed_def view_def split: prod.splits)
  then show ?thesis using assms(3,5) by (simp add: read_loop.simps [of rest] consume_def)
qed

subsection \<open>Whole frames\<close>

definition small_partial :: "nat \<Rightarrow> partial_message \<Rightarrow> bool" where
  "small_partial limit pending \<longleftrightarrow> (case pending of None \<Rightarrow> True | Some (op, bs) \<Rightarrow> length bs \<le> limit)"

lemma small_partial_next:
  "receive_frame server limit pending f = Inr (m, pending') \<Longrightarrow> small_partial limit pending \<Longrightarrow> small_partial limit pending'"
  by (auto simp: receive_frame_def small_partial_def Let_def split: option.splits if_splits prod.splits)

lemma small_joined:
  "small_partial limit pending \<Longrightarrow> limit + length (fr_payload f) < 2 ^ 64 \<Longrightarrow> length (snd (joined pending f)) < 2 ^ 64"
  by (auto simp: small_partial_def joined_def split: option.splits)

lemma wire_nonempty: "wire f \<noteq> []"
  by (simp add: wire_bytes)

lemma receives_server: "receives server limit pending p \<Longrightarrow> hb_server p = server"
  by (simp add: receives_def)

lemma receives_stops: "receives server limit pending p \<Longrightarrow> fed [] p = Inr (Inr ([], p)) \<and> \<not> ready p"
  by (simp add: receives_def idle_def fed_stop going_on_def ready_def)

lemma frames_read:
  "receives server limit pending (cn_processor c) \<Longrightarrow> small_partial limit pending \<Longrightarrow>
   (\<And>f. f \<in> set fs \<Longrightarrow> limit + length (fr_payload f) < 2 ^ 64) \<Longrightarrow>
   \<exists>p. read_loop (concat (map wire fs)) c = Some (Inr ((follow server limit fs pending c)\<lparr>cn_processor := p\<rparr>))"
proof (induction fs arbitrary: pending c)
  case Nil
  then show ?case by (intro exI [of _ "cn_processor (read_frame c)"]) (simp add: read_loop.simps)
next
  case (Cons f fs)
  let ?rest = "concat (map wire fs)"
  have ne: "wire f @ ?rest \<noteq> []" using wire_nonempty by simp
  have small: "limit + length (fr_payload f) < 2 ^ 64" "\<And>g. g \<in> set fs \<Longrightarrow> limit + length (fr_payload g) < 2 ^ 64"
    using Cons.prems(3) by simp_all
  note frame = receives_frame [OF Cons.prems(1) small_joined [OF Cons.prems(2) small(1)], of ?rest]
  show ?case
  proof (cases "receive_frame server limit pending f")
    case (Inl e)
    then show ?thesis using read_loop_error [OF _ ne, of c e] frame by auto
  next
    case (Inr r)
    obtain m pending' where r: "receive_frame server limit pending f = Inr (m, pending')" using Inr by (cases r) simp
    note sp = small_partial_next [OF r Cons.prems(2)]
    show ?thesis
    proof (cases m)
      case None
      then obtain p' where p': "fed (wire f @ ?rest) (cn_processor c) = fed ?rest p'" "receives server limit pending' p'"
        using frame r by auto
      have side: "hb_server p' = hb_server (cn_processor c)"
        using receives_server [OF p'(2)] receives_server [OF Cons.prems(1)] by simp
      obtain p where ih: "read_loop ?rest (c\<lparr>cn_processor := p'\<rparr>) =
          Some (Inr ((follow server limit fs pending' (c\<lparr>cn_processor := p'\<rparr>))\<lparr>cn_processor := p\<rparr>))"
        using Cons.IH [of pending' "c\<lparr>cn_processor := p'\<rparr>"] p'(2) sp small(2) by auto
      have "\<exists>q. read_loop (wire f @ ?rest) c =
          Some (Inr ((follow server limit fs pending' (c\<lparr>cn_processor := p'\<rparr>))\<lparr>cn_processor := q\<rparr>))"
      proof (cases "?rest = []")
        case True
        have "fed (wire f @ ?rest) (cn_processor c) = Inr (Inr ([], p'))"
          using trans [OF p'(1)] conjunct1 [OF receives_stops [OF p'(2)]] by (simp only: True)
        from read_loop_next [OF this ne] have "read_loop (wire f @ ?rest) c = read_loop [] (c\<lparr>cn_processor := p'\<rparr>)"
          using receives_stops [OF p'(2)] by (simp add: take_message_def)
        then show ?thesis using ih [unfolded True] by auto
      next
        case False
        show ?thesis using read_loop_same [OF p'(1) ne False side ih] by auto
      qed
      then show ?thesis using follow_processor [OF side] r None by auto
    next
      case (Some om)
      obtain op bs where om: "om = (op, bs)" by fastforce
      then obtain p' p'' where p': "fed (wire f @ ?rest) (cn_processor c) = Inr (Inr (?rest, p'))"
          "get_message p' = Inr (Some (received_message op bs), p'')" "receives server limit pending' p''"
        using frame r Some by auto
      let ?m = "received_message op bs"
      have side: "hb_server p'' = hb_server (cn_processor c)"
        using receives_server [OF p'(3)] receives_server [OF Cons.prems(1)] by simp
      have "ready p'" using p'(2) by (auto simp: get_message_def split: if_splits)
      then have step: "read_loop (wire f @ ?rest) c = read_loop ?rest (dispatch_message ?m (c\<lparr>cn_processor := p''\<rparr>))"
        using read_loop_next [OF p'(1) ne] p'(2) by (simp add: take_message_def)
      have proc: "cn_processor (dispatch_message ?m (c\<lparr>cn_processor := p''\<rparr>)) = p''"
        using same_reader_dispatch [of "c\<lparr>cn_processor := p''\<rparr>" ?m] by (simp add: same_reader_def)
      obtain p where ih: "read_loop ?rest (dispatch_message ?m (c\<lparr>cn_processor := p''\<rparr>)) =
          Some (Inr ((follow server limit fs pending' (dispatch_message ?m (c\<lparr>cn_processor := p''\<rparr>)))\<lparr>cn_processor := p\<rparr>))"
        using Cons.IH [of pending' "dispatch_message ?m (c\<lparr>cn_processor := p''\<rparr>)"] p'(3) proc sp small(2) by auto
      have side2: "hb_server p'' = hb_server (cn_processor (dispatch_message ?m c))"
        using same_reader_dispatch [of c ?m] side by (simp add: same_reader_def)
      have "follow server limit fs pending' (dispatch_message ?m (c\<lparr>cn_processor := p''\<rparr>)) =
          (follow server limit fs pending' (dispatch_message ?m c))\<lparr>cn_processor := p''\<rparr>"
        using dispatch_processor [OF side] follow_processor [OF side2] by simp
      then show ?thesis using step ih r Some om by auto
    qed
  qed
qed

text \<open>C5: A read whose bytes are whole frames does to the connection what its frames mean, one after the other, up to the
  state of the processor: the messages go to the handler in their order, pings are answered, and a close frame or
  an error starts or ends the closing handshake.\<close>

theorem frames_followed:
  assumes "receives server limit pending (cn_processor c)" "small_partial limit pending" "cn_internal_state c = Process_connection"
    "\<forall>f\<in>set fs. limit + length (fr_payload f) < 2 ^ 64"
  shows "\<exists>p. handle_read_frame None (concat (map wire fs)) c = Some (Inr ((follow server limit fs pending c)\<lparr>cn_processor := p\<rparr>))"
  using frames_read [of server limit pending c fs] assms by (simp add: handle_read_frame_def)

theorem frames_followed_witness:
  "\<exists>p. handle_read_frame None
       (concat (map wire [\<lparr>fr_opcode = Op_ping, fr_fin = True, fr_masked = False, fr_key = 0, fr_payload = [1]\<rparr>]))
       (open_connection core_client main_handlers False 1000 (\<lambda>n. 7)) =
     Some (Inr ((follow False 1000 [\<lparr>fr_opcode = Op_ping, fr_fin = True, fr_masked = False, fr_key = 0, fr_payload = [1]\<rparr>] None
       (open_connection core_client main_handlers False 1000 (\<lambda>n. 7)))\<lparr>cn_processor := p\<rparr>))"
  by (rule frames_followed) (simp_all add: open_connection_def receives_new small_partial_def)

subsection \<open>A close frame too many\<close>

text \<open>While our own close frame waits for its acknowledgement, a close frame with an invalid code is answered by
  another close frame: the one that RFC 6455 allows has been sent already.\<close>

lemma second_close_frame:
  "map mg_opcode (cn_send_queue (process_control_frame (received_message Op_close [0x03, 0xE7])
     (snd (conn_close 1000 [] (open_connection core_client main_handlers False 1000 (\<lambda>n. 7)))))) = [Op_close, Op_close]"
proof -
  have code: "extract_code [0x03, 0xE7] = (999, Some (Library LE_invalid_close_code))" by code_simp
  have side: "hb_server (hybi13_new False 1000) = False" by (simp add: hybi13_new_def reset_headers_def)
  show ?thesis
    by (simp add: process_control_frame_def process_close_def code reject_close_def core_client_def send_close_ack_def
        send_close_frame_def local_close_def manager_message_def prepared_by_def prepare_close_def prepare_control_def
        close_reserved_def close_invalid_def close_terminal_def close_payload_def conn_close_def open_connection_def side
        start_closing_def dispatch_write_def write_push_def request_def bytes_of_def Let_def split_beta)
qed

end
