(* ===== verification/Program_Ws.thy ===== *)
theory Program_Ws
  imports Program_Json Ws_Deliver
begin

text \<open>
  The program on its WebSocket connections: from the bytes of the feed to the engines, and the subscription to the
  bytes on the wire.
\<close>

subsection \<open>Handlers\<close>

text \<open>What the Binance client's handlers do; the close handler ends the program.\<close>

definition text_of :: "u8 list \<Rightarrow> string" where
  "text_of bs = map (\<lambda>b. char_of (unat b)) bs"

definition main_call :: "user_call \<Rightarrow> world \<Rightarrow> (program_end option \<times> world) outcome" where
  "main_call u w =
     (case u of
        On_message m \<Rightarrow> bindE (on_payload (text_of (mg_payload m)) w) (\<lambda>w'. Inr (None, w'))
      | On_close \<Rightarrow> (case close_handler w of (e, w') \<Rightarrow> Inr (Some e, w'))
      | _ \<Rightarrow> Inr (None, w))"

fun main_calls :: "user_call list \<Rightarrow> world \<Rightarrow> (program_end option \<times> world) outcome" where
  "main_calls [] w = Inr (None, w)"
| "main_calls (u # us) w =
     bindE (main_call u w) (\<lambda>(e, w'). case e of Some e \<Rightarrow> Inr (Some e, w') | None \<Rightarrow> main_calls us w')"

lemma unat_of_char [simp]: "unat (of_char c :: u8) = of_char c"
proof -
  have "of_char c = (of_nat (of_char c) :: u8)" by (rule of_nat_of_char [symmetric])
  moreover have "of_char c < (256 :: nat)" by simp
  ultimately show ?thesis by (simp add: unsigned_of_nat take_bit_nat_eq_self)
qed

lemma text_of_bytes [simp]: "text_of (bytes_of s) = s"
  by (induction s) (simp_all add: text_of_def bytes_of_def)

subsection \<open>JSON is UTF-8\<close>

lemma validate_bytes: "validate (bytes_of s) \<longleftrightarrow> utf8_string s"
proof -
  have "map unat (bytes_of s) = map of_char s" by (simp add: bytes_of_def)
  then show ?thesis by (simp add: validate_utf8 utf8_string_def)
qed

lemma utf8_string_append: "utf8_string s \<Longrightarrow> utf8_string t \<Longrightarrow> utf8_string (s @ t)"
  using utf8_text_append by (simp add: utf8_string_def)

lemma utf8_string_Cons: "of_char c < (0x80 :: nat) \<Longrightarrow> utf8_string s \<Longrightarrow> utf8_string (c # s)"
  using utf8_string_append [of "[c]" s] ascii_utf8 [of "[c]"] by simp

lemma utf8_string_Nil [simp]: "utf8_string []"
  by (simp add: ascii_utf8)

lemma space_ascii: "json_space c \<Longrightarrow> of_char c < (0x80 :: nat)"
  by (auto simp: json_space_def)

lemma ws_utf8: "ws w \<Longrightarrow> utf8_string w"
  by (rule ascii_utf8) (auto simp: ws_def list_all_iff intro: space_ascii)

lemma digit_ascii: "c_digit c \<Longrightarrow> of_char c < (0x80 :: nat)" "c_xdigit c \<Longrightarrow> of_char c < (0x80 :: nat)"
  unfolding c_digit_def c_xdigit_def by linarith+

lemma char_text_utf8: "char_text c t \<Longrightarrow> utf8_string t"
proof (induction rule: char_text.induct)
  case (plain c)
  then have "list_all scalar [c] \<and> utf8_bytes c = concat (map utf8_bytes [c])" by (simp add: plain_codepoint_def)
  then show ?case unfolding utf8_string_iff by blast
next
  case (simple m e)
  then have "m \<in> set [dquote, backslash, CHR ''/'', CHR ''b'', CHR ''f'', CHR ''n'', CHR ''r'', CHR ''t'']"
    by (simp add: simple_escape_def split: if_splits)
  then show ?case by (intro ascii_utf8) auto
next
  case (hex ds c)
  then show ?case by (intro ascii_utf8) (auto simp: hex_word_def list_all_iff digit_ascii)
next
  case (pair ds hi es lo)
  then show ?case by (intro ascii_utf8) (auto simp: hex_word_def list_all_iff digit_ascii)
qed

lemma string_text_utf8: "string_text s t \<Longrightarrow> utf8_string t"
proof (induction rule: string_text.induct)
  case (1 cs ts)
  have "utf8_string (concat ts)"
    using 1 by (induction rule: list_all2_induct) (auto intro: utf8_string_append char_text_utf8)
  then show ?case by (intro utf8_string_Cons utf8_string_append) (simp_all add: ascii_utf8)
qed

lemma number_text_utf8: "number_ok ip fp ext \<Longrightarrow> utf8_string (number_text neg ip fp ext)"
  by (rule ascii_utf8) (auto simp: number_ok_def number_text_def exponent_ok_def list_all_iff digit_ascii)

lemma json_text_utf8:
  "json_text j t \<Longrightarrow> utf8_string t" "elements_text js t \<Longrightarrow> utf8_string t" "members_text kvs t \<Longrightarrow> utf8_string t"
  by (induction rule: json_text_elements_text_members_text.inducts)
    (auto intro!: utf8_string_append utf8_string_Cons intro: ws_utf8 string_text_utf8 number_text_utf8 simp: ascii_utf8)

lemma document_utf8: "document_text j t \<Longrightarrow> utf8_string t"
proof (induction rule: document_text.induct)
  case (1 bom a j t b)
  have "utf8_string byte_order_mark"
    unfolding utf8_string_def utf8_text_def
    by (rule exI [of _ "[0xFEFF]"]) (simp add: scalar_def byte_order_mark_def utf8_units_def)
  then show ?case using 1 by (intro utf8_string_append) (auto intro: ws_utf8 json_text_utf8)
qed

subsection \<open>From the wire to the engines\<close>

text \<open>A text in several frames.\<close>

definition text_frame :: "opcode \<Rightarrow> bool \<Rightarrow> u8 list \<Rightarrow> frame" where
  "text_frame op fin bs = \<lparr>fr_opcode = op, fr_fin = fin, fr_masked = False, fr_key = 0, fr_payload = bs\<rparr>"

fun fragments :: "opcode \<Rightarrow> u8 list list \<Rightarrow> frame list" where
  "fragments op [] = []"
| "fragments op [bs] = [text_frame op True bs]"
| "fragments op (bs # bs' # rest) = text_frame op False bs # fragments Op_continuation (bs' # rest)"

lemma fragments_payload: "f \<in> set (fragments op ps) \<Longrightarrow> fr_payload f \<in> set ps"
  by (induction op ps rule: fragments.induct) (auto simp: text_frame_def)

lemma text_prefix: "validate (bs @ cs) \<Longrightarrow> text_ok op bs"
  using validator_range_append [of bs cs validator_new] by (auto simp: validate_def text_ok_def split: prod.splits if_splits)

lemma follow_continued:
  assumes "ps \<noteq> []" "length (bs @ concat ps) \<le> limit" "validate (bs @ concat ps)"
  shows "follow False limit (fragments Op_continuation ps) (Some (Op_text, bs)) c =
    read_frame (dispatch_message (received_message Op_text (bs @ concat ps)) c)"
  using assms
proof (induction Op_continuation ps arbitrary: bs rule: fragments.induct)
  case (2 p)
  then show ?case using text_prefix [of "bs @ p" "[]"]
    by (simp add: receive_frame_def header_error_def joined_def text_frame_def opcode_reserved_def)
next
  case (3 p q rest)
  then show ?case using text_prefix [of "bs @ p" "concat (q # rest)"] 3(1) [of "bs @ p"]
    by (simp add: receive_frame_def header_error_def joined_def text_frame_def opcode_reserved_def)
qed simp

lemma follow_fragments:
  assumes "ps \<noteq> []" "length (concat ps) \<le> limit" "validate (concat ps)"
  shows "follow False limit (fragments Op_text ps) None c = read_frame (dispatch_message (received_message Op_text (concat ps)) c)"
proof (cases ps rule: fragments.cases [of "(Op_text, ps)" for ps, simplified prod.inject])
  case (3 op p q rest)
  then show ?thesis using assms text_prefix [of p "concat (q # rest)"] follow_continued [of "q # rest" p limit c]
    by (simp add: receive_frame_def header_error_def joined_def text_frame_def opcode_reserved_def)
next
  case (2 op p)
  then show ?thesis using assms text_whole_ok [of Op_text p]
    by (simp add: receive_frame_def header_error_def joined_def text_frame_def opcode_reserved_def text_whole_def)
qed (use assms in simp)

text \<open>C2: From the bytes of the feed to the engines: a well-formed text with an array of readable trades, cut into frames in
  any way, is read by an open connection as one message, and its handler does exactly what the trades do one after
  the other.\<close>

theorem wire_to_engines:
  assumes "document_text (JObject [(''data'', JArray es)]) doc" "list_all2 (\<lambda>e tick. entry_tick e = Inr tick) es ticks"
    "concat ps = bytes_of doc" "ps \<noteq> []" "length doc \<le> limit" "limit < 2 ^ 63"
    "receives False limit None (cn_processor c)" "cn_state c = Open" "cn_internal_state c = Process_connection"
    "ha_message (cn_handlers c)"
  shows "\<exists>c' u. handle_read_frame None (concat (map wire (fragments Op_text ps))) c = Some (Inr c')
    \<and> cn_calls c' = cn_calls c @ [u] \<and> main_calls [u] w = Inr (None, fold array_tick ticks w)"
proof -
  have len: "length (concat ps) \<le> limit" using assms(3,5) by (simp add: bytes_of_def)
  have valid: "validate (concat ps)" using document_utf8 [OF assms(1)] by (simp add: assms(3) validate_bytes)
  have "length p \<le> length (concat ps)" if "p \<in> set ps" for p
    using that by (induction ps) auto
  then have small: "\<forall>f\<in>set (fragments Op_text ps). limit + length (fr_payload f) < 2 ^ 64"
    using len assms(6) fragments_payload [of _ Op_text ps] by fastforce
  let ?u = "On_message (received_message Op_text (bytes_of doc))"
  have "dispatch_message (received_message Op_text (bytes_of doc)) c = user_call ?u c"
    using assms(8,10) by (simp add: dispatch_message_def)
  then obtain p where p: "handle_read_frame None (concat (map wire (fragments Op_text ps))) c =
      Some (Inr ((read_frame (user_call ?u c))\<lparr>cn_processor := p\<rparr>))"
    using frames_read [OF assms(7), of "fragments Op_text ps"] small follow_fragments [OF assms(4) len valid, of c] assms(3,9)
    by (auto simp: small_partial_def handle_read_frame_def)
  have "cn_calls ((read_frame (user_call ?u c))\<lparr>cn_processor := p\<rparr>) = cn_calls c @ [?u]"
    by (simp add: read_frame_def request_def user_call_def)
  moreover have "main_calls [?u] w = Inr (None, fold array_tick ticks w)"
    using array_payload [OF assms(1), of w] array_loop_ticks [OF assms(2), of "[]" w] by (simp add: main_call_def)
  ultimately show ?thesis using p by blast
qed

lemma plain_string:
  "list_all (\<lambda>c. plain_codepoint (of_char c) \<and> of_char c < (0x80 :: nat)) s \<Longrightarrow> string_text s (dquote # s @ [dquote])"
proof -
  assume a: "list_all (\<lambda>c. plain_codepoint (of_char c) \<and> of_char c < (0x80 :: nat)) s"
  have b: "utf8_bytes (of_char c) = [c]" if "of_char c < (0x80 :: nat)" for c
    using that by (simp add: utf8_bytes_def units_small)
  have "list_all2 char_text (map of_char s) (map (\<lambda>c. [c]) s)"
    using a by (induction s) (use char_text.plain b in force)+
  moreover have "concat (map utf8_bytes (map of_char s)) = s" using a b by (induction s) auto
  ultimately show ?thesis using string_text.intros by fastforce
qed

lemma natural_text:
  assumes "number_ok ds [] []" "digits_value 10 digit_val ds < 2 ^ 64"
  shows "json_text (JUnsigned (of_nat (digits_value 10 digit_val ds))) ds"
  using number [OF assms(1), of False] assms(2) by (simp add: number_value_def number_text_def Let_def)

definition sample_trade :: json where
  "sample_trade = JObject [(''T'', JUnsigned 1700000000000), (''p'', JUnsigned 3), (''s'', JString ''ETHBTC''), (''v'', JUnsigned 2)]"

definition sample_payload :: string where
  "sample_payload =
     (let q = (\<lambda>s. dquote # s @ [dquote])
      in ''{'' @ q ''data'' @ '':'' @ (''['' @ (''{'' @ q ''T'' @ '':1700000000000,'' @ q ''p'' @ '':3,'' @ q ''s'' @ '':''
           @ q ''ETHBTC'' @ '','' @ q ''v'' @ '':2'' @ ''}'') @ '']'') @ ''}'')"

lemma sample_document: "document_text (JObject [(''data'', JArray [sample_trade])]) sample_payload"
proof -
  have w: "ws []" by (simp add: ws_def)
  have n: "json_text (JUnsigned 1700000000000) ''1700000000000''" "json_text (JUnsigned 3) ''3''" "json_text (JUnsigned 2) ''2''"
    using natural_text [of "''1700000000000''"] natural_text [of "''3''"] natural_text [of "''2''"]
    by (simp_all add: number_ok_def exponent_ok_def c_digit_def digits_value_def digit_val_def)
  have q: "string_text s (dquote # s @ [dquote])" if "s \<in> {''T'', ''p'', ''s'', ''v'', ''ETHBTC''}" for s
    using that by (intro plain_string) (auto simp: plain_codepoint_def scalar_def)
  have m: "members_text [(''T'', JUnsigned 1700000000000), (''p'', JUnsigned 3), (''s'', JString ''ETHBTC''), (''v'', JUnsigned 2)]
    ([] @ (dquote # ''T'' @ [dquote]) @ [] @ '':'' @ [] @ ''1700000000000'' @ [] @ '','' @
     [] @ (dquote # ''p'' @ [dquote]) @ [] @ '':'' @ [] @ ''3'' @ [] @ '','' @
     [] @ (dquote # ''s'' @ [dquote]) @ [] @ '':'' @ [] @ (dquote # ''ETHBTC'' @ [dquote]) @ [] @ '','' @
     [] @ (dquote # ''v'' @ [dquote]) @ [] @ '':'' @ [] @ ''2'' @ [])"
    by (intro members member w n q str) simp_all
  have "object_of [(''T'', JUnsigned 1700000000000), (''p'', JUnsigned 3), (''s'', JString ''ETHBTC''), (''v'', JUnsigned 2)] = sample_trade"
    by (simp add: object_of_def sample_trade_def)
  then have "json_text (JArray [sample_trade]) (''['' @ ([] @ (''{'' @ ([] @ (dquote # ''T'' @ [dquote]) @ [] @ '':'' @ [] @ ''1700000000000'' @ [] @ '','' @
     [] @ (dquote # ''p'' @ [dquote]) @ [] @ '':'' @ [] @ ''3'' @ [] @ '','' @
     [] @ (dquote # ''s'' @ [dquote]) @ [] @ '':'' @ [] @ (dquote # ''ETHBTC'' @ [dquote]) @ [] @ '','' @
     [] @ (dquote # ''v'' @ [dquote]) @ [] @ '':'' @ [] @ ''2'' @ []) @ ''}'') @ []) @ '']'')"
    using object [OF m] by (intro array element w) simp
  from data_document [OF this] show ?thesis by (simp add: sample_payload_def)
qed

theorem wire_to_engines_witness:
  "\<exists>tick c' u. tk_symbol tick = ''ETHBTC''
    \<and> handle_read_frame None (concat (map wire (fragments Op_text [take 9 (bytes_of sample_payload), drop 9 (bytes_of sample_payload)])))
        (open_connection core_client main_handlers False 32000000 (\<lambda>n. 7)) = Some (Inr c')
    \<and> cn_calls c' = [u] \<and> main_calls [u] sample_start = Inr (None, fold array_tick [tick] sample_start)"
proof -
  obtain tick where t: "entry_tick sample_trade = Inr tick" "tk_symbol tick = ''ETHBTC''"
    by (simp add: sample_trade_def entry_tick_def double_at_def stamp_at_def number_of_def stamp_of_def)
  let ?c = "open_connection core_client main_handlers False 32000000 (\<lambda>n. 7)"
  have c: "receives False 32000000 None (cn_processor ?c)" "cn_state ?c = Open" "cn_internal_state ?c = Process_connection"
      "ha_message (cn_handlers ?c)" "cn_calls ?c = []"
    by (simp_all add: open_connection_def receives_new main_handlers_def)
  show ?thesis
    using wire_to_engines [OF sample_document, of "[tick]" "[take 9 (bytes_of sample_payload), drop 9 (bytes_of sample_payload)]"
        32000000 ?c sample_start] t c by (auto simp: sample_payload_def)
qed

subsection \<open>The subscription on the wire\<close>

lemma ascii_valid: "list_all (\<lambda>c. of_char c < (0x80 :: nat)) s \<Longrightarrow> validate (bytes_of s)"
  by (simp add: validate_bytes ascii_utf8)

text \<open>C21: The subscription that the Bybit feed sends on opening its connection is on the wire after the next call of
  \<open>write_frame\<close>, as one masked frame whose text, as the exchange receives it, denotes the subscription.\<close>

theorem subscription_arrives:
  "let c = snd (send_string (bytes_of subscription_frame) Op_text (open_connection core_client h False limit rng));
       c' = write_frame c
   in Dispatch_write \<in> set (cn_requests c)
    \<and> (\<exists>q' q'' m. fed (cn_wire c') (hybi13_new True 1000) = Inr (Inr ([], q')) \<and> get_message q' = Inr (Some m, q'')
        \<and> json_parse (text_of (mg_payload m)) True False = Inr bybit_subscription)"
proof -
  let ?i = "(message_new Op_text)\<lparr>mg_payload := bytes_of subscription_frame, mg_compressed := True\<rparr>"
  let ?c0 = "open_connection core_client h False limit rng"
  have valid: "validate (bytes_of subscription_frame)"
    by (rule ascii_valid) (simp add: subscription_frame_def quoted_key_def)
  have len: "length (bytes_of subscription_frame) \<le> 1000" by (simp add: subscription_frame_def quoted_key_def bytes_of_def)
  have side: "hb_server (hybi13_new b n) = b" for b n by (simp add: hybi13_new_def reset_headers_def)
  have op: "mg_opcode ?i = Op_text" "mg_payload ?i = bytes_of subscription_frame" "\<not> mg_prepared ?i" "mg_fin ?i"
    by (simp_all add: message_new_def)
  obtain res where prep: "prepare_data_frame (hybi13_new False limit) (rng 0) (Some ?i) (Some message_blank) = (None, Some res)"
    using valid op by (simp add: prepare_data_frame_def Let_def)
  define c where "c = snd (send_string (bytes_of subscription_frame) Op_text ?c0)"
  have c: "c = dispatch_write (write_push (Some res) (?c0\<lparr>cn_drawn := 1\<rparr>))"
    using prep side [of False limit] op(3)
    by (simp add: c_def send_string_def send_message_def manager_message_def prepared_by_def open_connection_def)
  have posted: "Dispatch_write \<in> set (cn_requests c)"
    by (simp add: c dispatch_write_def write_push_def request_def open_connection_def)
  have "cn_wire (write_frame c) = mg_header res @ mg_payload res"
    by (simp add: c dispatch_write_def write_push_def request_def open_connection_def write_frame_def async_write_def
        write_pops.simps write_pop_def Let_def)
  moreover obtain q' q'' where "fed (mg_header res @ mg_payload res @ []) (hybi13_new True 1000) = Inr (Inr ([], q'))"
      "get_message q' = Inr (Some (received_message Op_text (bytes_of subscription_frame)), q'')"
    using delivered_data [OF prep op(4), of 1000 "hybi13_new True 1000" "[]"] op(1,2) len side receives_new [of True 1000] by auto
  moreover have "json_parse subscription_frame True False = Inr bybit_subscription" by (rule subscription_parses)
  ultimately show ?thesis using posted by (simp add: c_def [symmetric] Let_def)
qed

end
