(* ===== verification/Spec2Isabelle.thy ===== *)
theory Spec2Isabelle
  imports Program_Steps Json_Parse Grisu_Text Json_Read Json_Dump_Bounds Program_Ws
begin

text \<open>
  A development about Synthetic Arbitrage (\<^verbatim>\<open>src/synthetic-arbitrage\<close>), a C++ program that follows price
  feeds of two exchanges, computes the price of ETHUSDT as the product ETHBTC * BTCUSDT, compares it
  with the quoted price and logs and books the differences.  All of the program's own code is modelled,
  of the vendored JSON library the parts the program's data goes through: reading a text, the
  accessors, and writing a value as a text; and of the vendored WebSocket library what an open connection does
  with the bytes it reads and the messages it sends.

  \<^bold>\<open>How the program works.\<close>  \<^verbatim>\<open>main\<close> wires up global objects (price monitors, loggers, an arbitrage engine
  with a cooldown, a tracker of simulated profit), starts three threads (a statistics overlay, the Bybit
  feed, a spread monitor) and runs the Binance feed, whose every message goes to \<^verbatim>\<open>on_message\<close>: parse,
  look up members, update the monitors, compare the prices, and keep the last 20 ticks of each symbol.

  \<^bold>\<open>Foundations.\<close>
    \<^item> \<open>Prelude\<close>: 64-bit words, object addresses, generic lemmas.
    \<^item> \<open>F64\<close>: IEEE binary64 arithmetic, computed on integers (round to nearest, ties to even), so that
      every double the program computes can be evaluated; \<open>F64_Real\<close>: what it means over the reals
      (each operation is the rounded exact result, monotonicity, relative error).
    \<^item> \<open>Ostream\<close>: \<^verbatim>\<open>operator<<\<close> for strings, integers and doubles with the stream's sticky flags and
      precision; \<open>Conversions\<close>: \<^verbatim>\<open>std::stod\<close> and \<^verbatim>\<open>std::stoull\<close> and the type of outcomes: a value, a thrown
      exception, \<open>Abort\<close> (a failed assertion), \<open>Undefined\<close>.
    \<^item> \<open>Interfaces\<close>: the contracts that several components share, as locales (a register that returns
      the last write, a throttle that spaces its alerts, a window of the latest items), each interpreted
      on the components that provide it.

  \<^bold>\<open>The program's components\<close>, each in its theory, with one definition per method in the order of the
  code, a record per class and pointers as optional addresses into tables of objects.
    \<^item> \<open>Loggers\<close> (\<^verbatim>\<open>ArbLogger.hpp\<close>, \<^verbatim>\<open>MispricingLogger.hpp\<close>, \<^verbatim>\<open>SyntheticSnapshotLogger.hpp\<close>),
      \<open>MockPnL\<close> (\<^verbatim>\<open>MockPnLEngine.hpp\<close>): totals, exposure cap, sign of the profit, the rows written.
    \<^item> \<open>MispricingBuffer\<close>, \<open>ArbEngine\<close> (\<^verbatim>\<open>ArbOpportunityEngine.hpp\<close>), \<open>CrossExchange\<close>, \<open>FundingCache\<close>,
      \<open>PerpEngine\<close>, \<open>SyntheticPair\<close>, \<open>SpotSynth\<close>, \<open>OptionPricer\<close>, \<open>TradeTick\<close>: the headers of
      these names under \<^verbatim>\<open>include/\<close> and \<^verbatim>\<open>src/utils\<close>, \<^verbatim>\<open>src/engine\<close>.
    \<^item> \<open>Feeds\<close> (\<^verbatim>\<open>bybit_clean.cpp\<close>, \<^verbatim>\<open>binance_funding_ws.cpp\<close>) and \<open>Main_Program\<close> (\<^verbatim>\<open>main.cpp\<close>): the message
      handlers, the bodies of the threads, the set-up.
    \<^item> \<open>Program_Steps\<close>: the running program as a step relation on the global state; a step is a message,
      a turn of a thread or a signal.  Invariants of all reachable states, among them that no trade is ever
      booked, and the ways the program can end.

  \<^bold>\<open>The JSON library\<close> (\<^verbatim>\<open>libs/nlohmann/json.hpp\<close>).
    \<^item> \<open>Json\<close>: values and accessors.  An object is a list of members ordered by key, as \<^verbatim>\<open>std::map\<close> keeps
      them.
    \<^item> \<open>Utf8\<close>: the encoding of code points, the byte ranges the lexer accepts and the decoding automaton
      of the serializer, shown to describe the same sequences; \<open>Utf8_Automaton\<close>: which bytes the automaton
      still waits for in each state, shared by the serializer and the WebSocket validator.
    \<^item> \<open>Json_Lexer\<close>, \<open>Json_Parser\<close>: the lexer with its positions and messages, the parser loop with its
      stack of states over an interface of events, the builder of values on references into the
      growing value, and the acceptor.  Both loops end: each turn of the parser reads a token or pops a
      state.
    \<^item> \<open>Json_Protocol\<close>: the parser respects a protocol of calls, for every receiver of its events (a
      locale, interpreted on the builder and on the acceptor in \<open>Json_Parse\<close>); \<open>Json_Builder\<close>: an abstract
      builder without references and the relation by which the library's builder implements it.
      \<open>Json_Parse\<close>: parsing is total, agrees with \<^verbatim>\<open>accept\<close> and reports errors as documented.
    \<^item> \<open>Json_Grammar\<close>: the grammar of RFC 8259 as a relation between texts and values, independent of
      the code.  \<open>Json_Scan\<close>, \<open>Json_Tokens\<close>, \<open>Json_Read\<close>: the scanner on the characters, tokens and values of
      the grammar, and the theorem that the parser returns for every text of the grammar the value it
      denotes.
    \<^item> \<open>Json_Escape\<close>: escaping of strings through the serializer's buffer, its bounds, and reading them back.
    \<^item> \<open>Grisu\<close>: how a double is printed (\<^verbatim>\<open>detail::dtoa_impl\<close>, \<^verbatim>\<open>to_chars\<close>).  \<open>Grisu_Powers\<close>: the table of powers;
      \<open>Grisu_Scale\<close>: the error of the scaled boundaries; \<open>Grisu_Digits\<close>: what the loops over the digits
      keep; \<open>Grisu_Correct\<close>: the digits lie in the rounding interval; \<open>Number_Text\<close>: texts of numbers and how
      \<^verbatim>\<open>strtod\<close> reads them; \<open>Grisu_Text\<close>: the printed text reads back as the same double.
    \<^item> \<open>Json_Dump\<close>: the rest of the class \<^verbatim>\<open>serializer\<close> and \<^verbatim>\<open>dump\<close>.  \<open>Json_Dump_Text\<close>: what is dumped is a text of
      the grammar, so that parsing returns the value; \<open>Json_Dump_Bounds\<close>: reads of the string of indentation
      characters stay inside it up to 512 characters per level, and what happens beyond.
    \<^item> \<open>Program_Json\<close>: the handlers of the program joined with the parser, from the text of a payload to its
      effect, and the subscription as it is sent.

  \<^bold>\<open>The WebSocket library\<close> (\<^verbatim>\<open>libs/websocketpp\<close>), as RFC 6455 connections of a client or a server.
    \<^item> \<open>Ws_Frame\<close> (\<^verbatim>\<open>frame.hpp\<close>): headers, sizes and keys as bits and bytes, and the masking functions, byte by
      byte and word by word, shown to agree.  \<open>Ws_Utf8\<close> (\<^verbatim>\<open>utf8_validator.hpp\<close>): the validator, and that it accepts
      exactly UTF-8, also in pieces.  \<open>Ws_Codes\<close>: error codes with their texts, close codes.
    \<^item> \<open>Ws_Hybi13\<close> (\<^verbatim>\<open>processors/hybi13.hpp\<close>): the processor, a state machine fed with the bytes that have
      arrived, and the frames it prepares.  \<open>Ws_Stream\<close>: the buffers the bytes come in do not matter;
      \<open>Ws_Defined\<close>: no bytes lead to undefined behaviour; \<open>Ws_Receive\<close>: receiving on whole frames as a
      specification, and that the processor implements it; \<open>Ws_Send\<close>: what one side prepares the other side
      receives, and two gaps of the checks.
    \<^item> \<open>Ws_Connection\<close> (\<^verbatim>\<open>impl/connection_impl.hpp\<close>): the queue of messages, writing, reading, control frames and the
      closing handshake, with the requests to the transport in a list until they complete.  \<open>Ws_Run\<close>: an open
      connection as a state machine of calls and completions, and its invariants: handlers
      always return, no queued message is left behind, the wire carries whole frames with the close frames last.
      \<open>Ws_Deliver\<close>: a read of whole frames does what the frames mean.
    \<^item> \<open>Program_Ws\<close>: the program on its connections, from the bytes of the feed to the engines, and the
      subscription to the bytes on the wire.

  \<^bold>\<open>Parameters and bounds.\<close>  The clock, the receive order of messages and what the feeds send are
  arguments or free choices of the step relation.  \<^verbatim>\<open>log\<close>, \<^verbatim>\<open>exp\<close>, \<^verbatim>\<open>erfc\<close> and \<^verbatim>\<open>pow\<close> of the C library are parameters with
  their documented ranges as hypotheses.  Memory is unbounded: no allocation fails.  A locked section is
  one step.  The host is little-endian with 64-bit words, as the library's masking code is compiled for; the random
  masking keys are an argument, the compression extension is the disabled one of the program's
  configuration.  Handlers of the application do not call back into the connection.  The loop over the bytes of a
  read is a partial function, shown to return in all reachable states.  The loop over the digits of a fraction in \<open>Grisu\<close> has fuel for 20 turns (a double
  needs at most 17 digits).

  \<^bold>\<open>Not modelled.\<close>  Of the WebSocket library the opening handshake over HTTP, the endpoint objects and the transport,
  which are input and output around \<^verbatim>\<open>asio\<close>; the network library, TLS; the texts the library logs; the parts of the JSON header the program does not reach (binary formats,
  pointers, patches, iterators, template conversions), the parse callback, and the data races between the threads
  on the unlocked globals, which C++ leaves undefined.
\<close>

end
